(* ===== verification/Prelude.thy ===== *)
theory Prelude
  imports Main "HOL-Library.Word"
begin

unbundle bit_operations_syntax

text \<open>
  Shared vocabulary of the development: the machine types of the gateway's Go code, the
  byte orders of \<^verbatim>\<open>encoding/binary\<close>, Go's integer conversions and truncated
  division, and the generic list lemmas the component theories use.

  Conventions.  A Go \<open>byte\<close>, \<open>uint16\<close>, \<open>uint32\<close> is a word of that width, so that
  arithmetic wraps as in Go.  A Go \<open>int\<close> or \<open>int64\<close> is \<open>int\<close> (or \<open>nat\<close> for lengths):
  every such value in the modelled code is a length, an index or a sample product far
  below \<open>2 ^ 63\<close>.  A PCM sample (\<open>int16\<close>) is an \<open>int\<close>, and every Go conversion
  \<open>int16(x)\<close> is written out as \<open>int16 x\<close>, which wraps.
\<close>

section \<open>Machine types\<close>

type_synonym byte = "8 word"
type_synonym u16 = "16 word"
type_synonym u32 = "32 word"
type_synonym sample = int

text \<open>Fact collections of the development: definitions of the wire encodings, and the
  one-step facts of the state machines.\<close>

named_theorems wire_defs \<open>definitions of the wire formats\<close>
named_theorems step_facts \<open>one-step facts of the state machines\<close>

section \<open>Go integer conversions\<close>

text \<open>\<open>int16(x)\<close> keeps the low 16 bits and reads them as two's complement.\<close>

definition int16 :: "int \<Rightarrow> int" where
  "int16 x = (x + 32768) mod 65536 - 32768"

definition is_int16 :: "int \<Rightarrow> bool" where
  "is_int16 x \<longleftrightarrow> - 32768 \<le> x \<and> x \<le> 32767"

lemma is_int16_int16 [simp]: "is_int16 (int16 x)"
proof -
  have "0 \<le> (x + 32768) mod 65536" "(x + 32768) mod 65536 < 65536" by simp_all
  then show ?thesis unfolding is_int16_def int16_def by linarith
qed

lemma int16_id: "is_int16 x \<Longrightarrow> int16 x = x"
  by (simp add: int16_def is_int16_def)

lemma is_int16_zero [simp]: "is_int16 0"
  by (simp add: is_int16_def)

text \<open>Go's \<open>/\<close> truncates towards zero; \<open>%\<close> has the sign of the dividend.\<close>

definition go_div :: "int \<Rightarrow> int \<Rightarrow> int" where
  "go_div a b = (if 0 \<le> a then a div b else - ((- a) div b))"

lemma go_div_nonneg [simp]: "0 \<le> a \<Longrightarrow> go_div a b = a div b"
  by (simp add: go_div_def)

lemma go_div_bounds:
  assumes "0 < b" and "- (b * k) \<le> a" and "a \<le> b * k"
  shows "- k \<le> go_div a b" and "go_div a b \<le> k"
proof -
  have pos: "c div b \<le> k" if "c \<le> b * k" for c
    using zdiv_mono1 [OF that assms(1)] assms(1) by simp
  have nn: "0 \<le> k"
    using assms by (smt (verit) mult_less_0_iff)
  have ge: "0 \<le> c div b" if "0 \<le> c" for c
    using that assms(1) by (simp add: pos_imp_zdiv_nonneg_iff)
  show "- k \<le> go_div a b"
    using pos [of "- a"] ge [of a] nn assms by (auto simp: go_div_def)
  show "go_div a b \<le> k"
    using pos [of a] ge [of "- a"] nn assms by (auto simp: go_div_def)
qed

section \<open>Byte orders\<close>

text \<open>\<^verbatim>\<open>binary.BigEndian\<close> and \<^verbatim>\<open>binary.LittleEndian\<close>: the writers give the bytes, the
  readers take the bytes in address order.\<close>

definition be16 :: "u16 \<Rightarrow> byte list" where
  [wire_defs]: "be16 w = [ucast (drop_bit 8 w), ucast w]"

definition be32 :: "u32 \<Rightarrow> byte list" where
  [wire_defs]: "be32 w = [ucast (drop_bit 24 w), ucast (drop_bit 16 w), ucast (drop_bit 8 w), ucast w]"

definition le16 :: "u16 \<Rightarrow> byte list" where
  [wire_defs]: "le16 w = [ucast w, ucast (drop_bit 8 w)]"

definition le32 :: "u32 \<Rightarrow> byte list" where
  [wire_defs]: "le32 w = [ucast w, ucast (drop_bit 8 w), ucast (drop_bit 16 w), ucast (drop_bit 24 w)]"

definition of_be16 :: "byte \<Rightarrow> byte \<Rightarrow> u16" where
  "of_be16 a b = push_bit 8 (ucast a) OR ucast b"

definition of_be32 :: "byte \<Rightarrow> byte \<Rightarrow> byte \<Rightarrow> byte \<Rightarrow> u32" where
  "of_be32 a b c d =
     push_bit 24 (ucast a) OR push_bit 16 (ucast b) OR push_bit 8 (ucast c) OR ucast d"

definition of_le16 :: "byte \<Rightarrow> byte \<Rightarrow> u16" where
  "of_le16 a b = of_be16 b a"

definition of_le32 :: "byte \<Rightarrow> byte \<Rightarrow> byte \<Rightarrow> byte \<Rightarrow> u32" where
  "of_le32 a b c d = of_be32 d c b a"

lemma of_be16_bytes [simp]: "of_be16 (ucast (drop_bit 8 w)) (ucast w) = w"
  unfolding of_be16_def
  by (rule bit_word_eqI) (auto simp: bit_simps)

lemma of_be32_bytes [simp]:
  "of_be32 (ucast (drop_bit 24 w)) (ucast (drop_bit 16 w)) (ucast (drop_bit 8 w)) (ucast w) = w"
proof (rule bit_word_eqI)
  fix n assume "n < LENGTH(32)"
  then consider "n < 8" | "8 \<le> n" "n < 16" | "16 \<le> n" "n < 24" | "24 \<le> n" "n < 32"
    by force
  then show "bit (of_be32 (ucast (drop_bit 24 w)) (ucast (drop_bit 16 w))
      (ucast (drop_bit 8 w)) (ucast w)) n = bit w n"
    unfolding of_be32_def by cases (auto simp: bit_simps)
qed

lemma of_le16_bytes [simp]: "of_le16 (ucast w) (ucast (drop_bit 8 w)) = w"
  by (simp add: of_le16_def)

lemma of_le32_bytes [simp]:
  "of_le32 (ucast w) (ucast (drop_bit 8 w)) (ucast (drop_bit 16 w)) (ucast (drop_bit 24 w)) = w"
  by (simp add: of_le32_def)

lemma length_wire [simp]:
  "length (be16 a) = 2" "length (be32 b) = 4" "length (le16 a) = 2" "length (le32 b) = 4"
  by (simp_all add: wire_defs)

lemma unat_of_be16_less [simp]: "unat (of_be16 a b) < 65536"
proof -
  have "unat (of_be16 a b) < 2 ^ LENGTH(16)" by (rule unsigned_less)
  then show ?thesis by simp
qed

text \<open>A Go slice expression \<open>b[lo:hi]\<close>.\<close>

definition slice :: "nat \<Rightarrow> nat \<Rightarrow> 'a list \<Rightarrow> 'a list" where
  "slice lo hi b = take (hi - lo) (drop lo b)"

lemma length_slice [simp]: "hi \<le> length b \<Longrightarrow> length (slice lo hi b) = hi - lo"
  by (simp add: slice_def)

lemma slice_split:
  assumes "lo \<le> hi" and "hi \<le> length b"
  shows "b = take lo b @ slice lo hi b @ drop hi b"
proof -
  have "drop lo b = slice lo hi b @ drop (hi - lo) (drop lo b)"
    by (simp add: slice_def del: drop_drop)
  then have "drop lo b = slice lo hi b @ drop hi b"
    using assms by simp
  then show ?thesis
    by (metis append_take_drop_id)
qed

text \<open>A filter that leaves one element identifies it.\<close>

lemma filter_singleton:
  assumes "filter P xs = [r]"
  shows "r \<in> set xs" "P r" "x \<in> set xs \<Longrightarrow> P x \<Longrightarrow> x = r"
proof -
  have "{x \<in> set xs. P x} = {r}" using arg_cong [OF assms, of set] by simp
  then show "r \<in> set xs" "P r" "x \<in> set xs \<Longrightarrow> P x \<Longrightarrow> x = r" by auto
qed

section \<open>Strings\<close>

text \<open>A Go string is a byte sequence, here a \<open>string\<close> whose characters are the bytes.  The
  functions of the \<^verbatim>\<open>strings\<close> package are modelled on ASCII text, which is what the
  protocols and options carry: letter case and white space are the ASCII ones.\<close>

definition string_bytes :: "string \<Rightarrow> byte list" where
  "string_bytes s = map of_char s"

definition bytes_string :: "byte list \<Rightarrow> string" where
  "bytes_string b = map (\<lambda>x. char_of (unat x)) b"

lemma bytes_string_bytes [simp]: "bytes_string (string_bytes s) = s"
proof -
  have "char_of (unat (of_char c :: byte)) = c" for c
  proof -
    have "unat (of_nat (of_char c) :: byte) = of_char c"
      by (simp only: unat_of_nat) simp
    then show ?thesis by (simp only: of_nat_of_char char_of_char)
  qed
  then show ?thesis by (simp add: bytes_string_def string_bytes_def map_idI)
qed

definition lower_char :: "char \<Rightarrow> char" where
  "lower_char c = (let n = (of_char c :: nat) in if 65 \<le> n \<and> n \<le> 90 then char_of (n + 32) else c)"

definition to_lower :: "string \<Rightarrow> string" where
  "to_lower s = map lower_char s"

lemma lower_char_idem [simp]: "lower_char (lower_char c) = lower_char c"
  by (simp add: lower_char_def Let_def)

lemma to_lower_idem [simp]: "to_lower (to_lower s) = to_lower s"
  by (simp add: to_lower_def)

lemma length_to_lower [simp]: "length (to_lower s) = length s"
  by (simp add: to_lower_def)

text \<open>\<open>strings.TrimSpace\<close> on ASCII text.\<close>

definition is_space :: "char \<Rightarrow> bool" where
  "is_space c = (let n = (of_char c :: nat) in n = 32 \<or> (9 \<le> n \<and> n \<le> 13))"

definition trim_left :: "string \<Rightarrow> string" where
  "trim_left s = dropWhile is_space s"

definition trim_space :: "string \<Rightarrow> string" where
  "trim_space s = rev (dropWhile is_space (rev (trim_left s)))"

lemma trim_left_idem [simp]: "trim_left (trim_left s) = trim_left s"
  by (simp add: trim_left_def dropWhile_idem)

text \<open>Text without white space at either end is its own trimming.\<close>

definition trimmed :: "string \<Rightarrow> bool" where
  "trimmed s \<longleftrightarrow> s = [] \<or> (\<not> is_space (hd s) \<and> \<not> is_space (last s))"

lemma trim_space_trimmed: "trimmed s \<Longrightarrow> trim_space s = s"
proof (cases "s = []")
  case False
  assume "trimmed s"
  then have h: "\<not> is_space (hd s)" "\<not> is_space (last s)" using False by (auto simp: trimmed_def)
  have "dropWhile is_space s = s" using h False by (cases s) auto
  moreover have "dropWhile is_space (rev s) = rev s" using h False by (cases s rule: rev_cases) auto
  ultimately show ?thesis by (simp add: trim_space_def trim_left_def)
qed (simp add: trim_space_def trim_left_def)

lemma trimmed_trim_space: "trimmed (trim_space s)"
proof -
  let ?l = "dropWhile is_space s"
  have left: "?l \<noteq> [] \<Longrightarrow> \<not> is_space (hd ?l)" by (rule hd_dropWhile) (auto simp: dropWhile_eq_Nil_conv)
  show ?thesis
  proof (cases "trim_space s = []")
    case False
    then have r: "dropWhile is_space (rev ?l) \<noteq> []" by (simp add: trim_space_def trim_left_def)
    then have "\<not> is_space (hd (dropWhile is_space (rev ?l)))"
      by (intro hd_dropWhile) (auto simp: dropWhile_eq_Nil_conv)
    then have "\<not> is_space (last (trim_space s))"
      using r by (simp add: trim_space_def trim_left_def last_rev)
    moreover obtain xs where "rev ?l = xs @ dropWhile is_space (rev ?l)"
      by (metis takeWhile_dropWhile_id)
    then have "?l = trim_space s @ rev xs"
      by (metis rev_append rev_rev_ident trim_space_def trim_left_def)
    then have "\<not> is_space (hd (trim_space s))" using left False by (metis append_is_Nil_conv hd_append2)
    ultimately show ?thesis by (simp add: trimmed_def)
  qed (simp add: trimmed_def)
qed

lemma trim_space_idem [simp]: "trim_space (trim_space s) = trim_space s"
  by (rule trim_space_trimmed [OF trimmed_trim_space])

section \<open>Streams of stateful operations\<close>

text \<open>An operation applied to each element of a list, its state threaded through.\<close>

fun scan :: "('s \<Rightarrow> 'a \<Rightarrow> 's \<times> 'b) \<Rightarrow> 's \<Rightarrow> 'a list \<Rightarrow> 's \<times> 'b list" where
  "scan f s [] = (s, [])"
| "scan f s (x # xs) = (let (s1, y) = f s x; (s2, ys) = scan f s1 xs in (s2, y # ys))"

lemma length_scan [simp]: "length (snd (scan f s xs)) = length xs"
  by (induction xs arbitrary: s) (simp_all add: Let_def case_prod_unfold)

lemma scan_all:
  "\<forall>x \<in> set xs. P x \<Longrightarrow> (\<And>s x. P x \<Longrightarrow> Q (snd (f s x))) \<Longrightarrow> \<forall>y \<in> set (snd (scan f s xs)). Q y"
  by (induction xs arbitrary: s) (simp_all add: Let_def case_prod_unfold)

end
