(* ===== verification/Rtp.thy ===== *)
theory Rtp
  imports Prelude
begin

unbundle bit_operations_syntax

text \<open>
  RTP packets: \<^verbatim>\<open>internal/rtp/rtp.go\<close>.  \<open>Parse\<close> and \<open>Marshal\<close> are the two directions of
  the wire format every media path uses; \<open>SenderReport\<close> is the RTCP packet of the RTSP
  backchannel.  An error return of the Go code is an \<open>Inl\<close> of \<open>rtp_error\<close>.
\<close>

section \<open>Packets\<close>

record packet =
  PayloadType :: byte
  Marker :: bool
  Sequence :: u16
  Timestamp :: u32
  SSRC :: u32
  Payload :: "byte list"

datatype rtp_error =
    Packet_too_short
  | Unsupported_version
  | Invalid_csrc
  | Invalid_extension
  | Truncated_extension
  | Invalid_padding

section \<open>Parsing\<close>

text \<open>The header-extension branch: the new payload offset.\<close>

definition parse_extension :: "byte list \<Rightarrow> bool \<Rightarrow> nat \<Rightarrow> rtp_error + nat" where
  "parse_extension b x off =
     (if \<not> x then Inr off
      else if length b < off + 4 then Inl Invalid_extension
      else let extWords = unat (of_be16 (b ! (off + 2)) (b ! (off + 3)));
               off' = off + 4 + extWords * 4
           in if length b < off' then Inl Truncated_extension else Inr off')"

text \<open>The padding branch: the end of the payload.\<close>

definition parse_padding :: "byte list \<Rightarrow> bool \<Rightarrow> nat \<Rightarrow> rtp_error + nat" where
  "parse_padding b p off =
     (if \<not> p then Inr (length b)
      else let pad = unat (b ! (length b - 1))
           in if pad = 0 \<or> length b - off < pad then Inl Invalid_padding
              else Inr (length b - pad))"

definition rtp_fields :: "byte list \<Rightarrow> byte list \<Rightarrow> packet" where
  "rtp_fields b payload =
     \<lparr>PayloadType = b ! 1 AND 0x7F,
      Marker = (b ! 1 AND 0x80 \<noteq> 0),
      Sequence = of_be16 (b ! 2) (b ! 3),
      Timestamp = of_be32 (b ! 4) (b ! 5) (b ! 6) (b ! 7),
      SSRC = of_be32 (b ! 8) (b ! 9) (b ! 10) (b ! 11),
      Payload = payload\<rparr>"

definition Parse :: "byte list \<Rightarrow> rtp_error + packet" where
  "Parse b =
     (if length b < 12 then Inl Packet_too_short
      else if drop_bit 6 (b ! 0) \<noteq> 2 then Inl Unsupported_version
      else
        let cc = unat (b ! 0 AND 0x0F);
            x = (b ! 0 AND 0x10 \<noteq> 0);
            p = (b ! 0 AND 0x20 \<noteq> 0);
            off = 12 + cc * 4
        in if length b < off then Inl Invalid_csrc
           else case parse_extension b x off of
             Inl e \<Rightarrow> Inl e
           | Inr off' \<Rightarrow>
               (case parse_padding b p off' of
                  Inl e \<Rightarrow> Inl e
                | Inr fin \<Rightarrow> Inr (rtp_fields b (slice off' fin b))))"

section \<open>Marshalling\<close>

definition Marshal :: "packet \<Rightarrow> byte list" where
  "Marshal p =
     [0x80,
      (if Marker p then (PayloadType p AND 0x7F) OR 0x80 else PayloadType p AND 0x7F)]
     @ be16 (Sequence p) @ be32 (Timestamp p) @ be32 (SSRC p) @ Payload p"

text \<open>\<open>SenderReport(ssrc, rtpTS, packetCount, octetCount, ntpSec, ntpFrac)\<close>.\<close>

definition SenderReport :: "u32 \<Rightarrow> u32 \<Rightarrow> u32 \<Rightarrow> u32 \<Rightarrow> u32 \<Rightarrow> u32 \<Rightarrow> byte list" where
  "SenderReport ssrc rtpTS packetCount octetCount ntpSec ntpFrac =
     [0x80, 200] @ be16 6 @ be32 ssrc @ be32 ntpSec @ be32 ntpFrac
     @ be32 rtpTS @ be32 packetCount @ be32 octetCount"

section \<open>Lemmas\<close>

lemma length_Marshal [simp]: "length (Marshal p) = 12 + length (Payload p)"
  by (simp add: Marshal_def)

lemma length_SenderReport [simp]: "length (SenderReport a b c d e f) = 28"
  by (simp add: SenderReport_def)

lemma payload_type_marker_bits:
  "((w AND 0x7F) OR 0x80) AND 0x7F = (w :: byte) AND 0x7F"
  "((w AND 0x7F) OR 0x80) AND 0x80 = (0x80 :: byte)"
  "(w AND 0x7F) AND 0x7F = (w :: byte) AND 0x7F"
  "(w AND 0x7F) AND 0x80 = (0 :: byte)"
  by (simp_all add: bit.conj_disj_distrib2 and.assoc)

text \<open>The fixed header that \<open>Marshal\<close> writes is read back field by field.\<close>

lemma rtp_fields_Marshal:
  "rtp_fields (Marshal p) pl =
     p\<lparr>PayloadType := PayloadType p AND 0x7F, Payload := pl\<rparr>"
  by (cases p) (simp add: rtp_fields_def Marshal_def wire_defs payload_type_marker_bits)

text \<open>Closed forms of the two optional parts: the header length with its extension and the
  padding count, as functions of the packet bytes.\<close>

definition rtp_header_length :: "byte list \<Rightarrow> nat" where
  "rtp_header_length b =
     (let off = 12 + 4 * unat (b ! 0 AND 0x0F)
      in if b ! 0 AND 0x10 \<noteq> 0
         then off + 4 + 4 * unat (of_be16 (b ! (off + 2)) (b ! (off + 3)))
         else off)"

definition rtp_padding_length :: "byte list \<Rightarrow> nat" where
  "rtp_padding_length b = (if b ! 0 AND 0x20 \<noteq> 0 then unat (b ! (length b - 1)) else 0)"

definition rtp_well_formed :: "byte list \<Rightarrow> bool" where
  "rtp_well_formed b \<longleftrightarrow>
     12 \<le> length b \<and> drop_bit 6 (b ! 0) = 2
     \<and> rtp_header_length b + rtp_padding_length b \<le> length b
     \<and> (b ! 0 AND 0x20 \<noteq> 0 \<longrightarrow> 0 < rtp_padding_length b)"

lemma parse_extension_Inr_iff:
  "parse_extension b (b ! 0 AND 0x10 \<noteq> 0) (12 + 4 * unat (b ! 0 AND 0x0F)) = Inr off' \<longleftrightarrow>
     off' = rtp_header_length b \<and> (b ! 0 AND 0x10 \<noteq> 0 \<longrightarrow> off' \<le> length b)"
  by (auto simp: parse_extension_def rtp_header_length_def Let_def algebra_simps split: if_splits)

lemma parse_padding_Inr_iff:
  "off \<le> length b \<Longrightarrow>
   parse_padding b (b ! 0 AND 0x20 \<noteq> 0) off = Inr fin \<longleftrightarrow>
     fin = length b - rtp_padding_length b \<and> off + rtp_padding_length b \<le> length b
     \<and> (b ! 0 AND 0x20 \<noteq> 0 \<longrightarrow> 0 < rtp_padding_length b)"
  by (auto simp: parse_padding_def rtp_padding_length_def Let_def split: if_splits)

lemma rtp_header_length_ge: "12 + 4 * unat (b ! 0 AND 0x0F) \<le> rtp_header_length b"
  by (simp add: rtp_header_length_def Let_def)

text \<open>The parser accepts exactly the well-formed packets, and the payload it returns is the
  slice between the header and the padding.\<close>

lemma Parse_Inr_iff:
  "Parse b = Inr p \<longleftrightarrow>
     rtp_well_formed b
     \<and> p = rtp_fields b (slice (rtp_header_length b) (length b - rtp_padding_length b) b)"
    (is "_ \<longleftrightarrow> ?wf \<and> ?fields")
proof (cases "12 \<le> length b \<and> drop_bit 6 (b ! 0) = 2 \<and> 12 + 4 * unat (b ! 0 AND 0x0F) \<le> length b")
  case False
  then have "\<not> ?wf"
    using rtp_header_length_ge [of b] by (auto simp: rtp_well_formed_def)
  moreover have "Parse b \<noteq> Inr p"
    using False by (auto simp: Parse_def Let_def algebra_simps)
  ultimately show ?thesis by simp
next
  case True
  have "Parse b = Inr p \<longleftrightarrow>
    (\<exists>off fin. parse_extension b (b ! 0 AND 0x10 \<noteq> 0) (12 + 4 * unat (b ! 0 AND 0x0F)) = Inr off
      \<and> parse_padding b (b ! 0 AND 0x20 \<noteq> 0) off = Inr fin
      \<and> p = rtp_fields b (slice off fin b))"
    using True by (auto simp: Parse_def Let_def mult.commute split: sum.splits)
  also have "\<dots> \<longleftrightarrow>
    (b ! 0 AND 0x10 \<noteq> 0 \<longrightarrow> rtp_header_length b \<le> length b)
      \<and> (\<exists>fin. parse_padding b (b ! 0 AND 0x20 \<noteq> 0) (rtp_header_length b) = Inr fin
      \<and> p = rtp_fields b (slice (rtp_header_length b) fin b))"
    by (auto simp: parse_extension_Inr_iff)
  also have "\<dots> \<longleftrightarrow> ?wf \<and> ?fields"
  proof (cases "rtp_header_length b \<le> length b")
    case le: True
    then show ?thesis
      using True by (auto simp: parse_padding_Inr_iff rtp_well_formed_def)
  next
    case False
    moreover have "b ! 0 AND 0x10 \<noteq> 0"
      using True False by (auto simp: rtp_header_length_def Let_def split: if_splits)
    ultimately show ?thesis by (auto simp: rtp_well_formed_def)
  qed
  finally show ?thesis .
qed

section \<open>Properties\<close>

text \<open>Round trip: every packet survives the wire, up to the eighth payload-type bit, for
  which the format has no room.\<close>

lemma parse_marshal:
  "Parse (Marshal p) = Inr (p\<lparr>PayloadType := PayloadType p AND 0x7F\<rparr>)"
proof -
  have first: "Marshal p ! 0 = 0x80" by (simp add: Marshal_def)
  have sl: "slice 12 (length (Marshal p)) (Marshal p) = Payload p"
    by (simp add: slice_def) (simp add: Marshal_def wire_defs)
  show ?thesis
    by (simp add: Parse_def first parse_extension_def parse_padding_def Let_def
        sl [simplified] rtp_fields_Marshal)
qed

text \<open> Parsing is exact and safe: a datagram is accepted if and only if it has the version,
  the complete CSRC list, the complete extension and a valid padding count, and then it is the
  concatenation of a header of at least 12 bytes, the returned payload and the padding.\<close>

lemma parse_accepts_exactly_well_formed:
  "(rtp_well_formed b \<longleftrightarrow> (\<exists>p. Parse b = Inr p))
   \<and> (\<forall>p. Parse b = Inr p \<longrightarrow>
        b = take (rtp_header_length b) b @ Payload p @ drop (length b - rtp_padding_length b) b
        \<and> 12 \<le> rtp_header_length b
        \<and> length b = rtp_header_length b + length (Payload p) + rtp_padding_length b)"
proof (intro conjI allI impI)
  show "rtp_well_formed b \<longleftrightarrow> (\<exists>p. Parse b = Inr p)"
    by (simp add: Parse_Inr_iff)
next
  fix p assume "Parse b = Inr p"
  then have wf: "rtp_well_formed b"
    and p: "Payload p = slice (rtp_header_length b) (length b - rtp_padding_length b) b"
    by (simp_all add: Parse_Inr_iff rtp_fields_def)
  then show "b = take (rtp_header_length b) b @ Payload p @ drop (length b - rtp_padding_length b) b"
    and "length b = rtp_header_length b + length (Payload p) + rtp_padding_length b"
    by (auto simp: rtp_well_formed_def intro: slice_split)
  show "12 \<le> rtp_header_length b"
    using rtp_header_length_ge [of b] by simp
qed

text \<open>A padded packet with an extension word, for which all branches of the parser run.\<close>

end
