(* ===== verification/Adpcm.thy ===== *)
theory Adpcm
  imports Prelude
begin

unbundle bit_operations_syntax

text \<open>
  IMA ADPCM: \<^verbatim>\<open>internal/codec/adpcm.go\<close>.  The encoder feeds the Baichuan talk channel, the
  decoder reads camera audio and rebuilds the echo-cancellation reference from the very
  block that was written.  Encoder and decoder keep the same two numbers, the predicted
  sample and the index into the step table.
\<close>

section \<open>Tables and state\<close>

definition imaIndexTable :: "int list" where
  "imaIndexTable =
     [-1, -1, -1, -1, 2, 4, 6, 8,
      -1, -1, -1, -1, 2, 4, 6, 8]"

definition imaStepTable :: "int list" where
  "imaStepTable =
     [7, 8, 9, 10, 11, 12, 13, 14, 16, 17,
      19, 21, 23, 25, 28, 31, 34, 37, 41, 45,
      50, 55, 60, 66, 73, 80, 88, 97, 107, 118,
      130, 143, 157, 173, 190, 209, 230, 253, 279, 307,
      337, 371, 408, 449, 494, 544, 598, 658, 724, 796,
      876, 963, 1060, 1166, 1282, 1411, 1552, 1707, 1878, 2066,
      2272, 2499, 2749, 3024, 3327, 3660, 4026, 4428, 4871, 5358,
      5894, 6484, 7132, 7845, 8630, 9493, 10442, 11487, 12635, 13899,
      15289, 16818, 18500, 20350, 22385, 24623, 27086, 29794, 32767]"

text \<open>\<open>ADPCMDecoder\<close> and \<open>ADPCMEncoder\<close> have the same two fields.\<close>

record adpcm =
  predicted :: int
  index :: int

text \<open>The two clamps that the code repeats after every update.\<close>

definition clamp_predicted :: "int \<Rightarrow> int" where
  "clamp_predicted p = (if p > 32767 then 32767 else if p < -32768 then -32768 else p)"

definition clamp_index :: "int \<Rightarrow> int" where
  "clamp_index i = (if i < 0 then 0 else if i > 88 then 88 else i)"

definition step_of :: "adpcm \<Rightarrow> int" where
  "step_of d = imaStepTable ! nat (index d)"

section \<open>Decoder\<close>

definition decodeNibble :: "adpcm \<Rightarrow> byte \<Rightarrow> adpcm" where
  "decodeNibble d nibble =
     (let step = step_of d;
          diff = step div 8;
          diff = (if nibble AND 1 \<noteq> 0 then diff + step div 4 else diff);
          diff = (if nibble AND 2 \<noteq> 0 then diff + step div 2 else diff);
          diff = (if nibble AND 4 \<noteq> 0 then diff + step else diff);
          p = (if nibble AND 8 \<noteq> 0 then predicted d - diff else predicted d + diff)
      in \<lparr>predicted = clamp_predicted p,
          index = clamp_index (index d + imaIndexTable ! unat nibble)\<rparr>)"

fun decodeNibbles :: "adpcm \<Rightarrow> byte list \<Rightarrow> adpcm \<times> sample list" where
  "decodeNibbles d [] = (d, [])"
| "decodeNibbles d (n # ns) =
     (let d' = decodeNibble d n; (d'', out) = decodeNibbles d' ns
      in (d'', int16 (predicted d') # out))"

text \<open>\<open>Decode\<close>: the four-byte header sets the state, then two samples per byte, high nibble
  first.  A chunk shorter than the header leaves the state alone and gives \<open>nil\<close>.\<close>

definition Decode :: "adpcm \<Rightarrow> byte list \<Rightarrow> adpcm \<times> sample list" where
  "Decode d data =
     (if length data < 4 then (d, [])
      else
        let d0 = \<lparr>predicted = int16 (uint (of_le16 (data ! 0) (data ! 1))),
                  index = clamp_index (uint (data ! 2))\<rparr>
        in decodeNibbles d0
             (concat (map (\<lambda>b. [drop_bit 4 b AND 0x0F, b AND 0x0F]) (drop 4 data))))"

section \<open>Encoder\<close>

definition encodeNibble :: "adpcm \<Rightarrow> int \<Rightarrow> adpcm \<times> byte" where
  "encodeNibble e sample =
     (let step = step_of e;
          diff = sample - predicted e;
          neg = diff < 0;
          nibble = (if neg then 8 else 0 :: byte);
          diff = (if neg then - diff else diff);
          delta = step div 8;
          b4 = diff \<ge> step;
          nibble = (if b4 then nibble OR 4 else nibble);
          delta = (if b4 then delta + step else delta);
          diff = (if b4 then diff - step else diff);
          b2 = diff \<ge> step div 2;
          nibble = (if b2 then nibble OR 2 else nibble);
          delta = (if b2 then delta + step div 2 else delta);
          diff = (if b2 then diff - step div 2 else diff);
          b1 = diff \<ge> step div 4;
          nibble = (if b1 then nibble OR 1 else nibble);
          delta = (if b1 then delta + step div 4 else delta);
          p = (if nibble AND 8 \<noteq> 0 then predicted e - delta else predicted e + delta)
      in (\<lparr>predicted = clamp_predicted p,
           index = clamp_index (index e + imaIndexTable ! unat nibble)\<rparr>, nibble))"

datatype adpcm_error = Too_few_samples nat | Odd_sample_count nat

fun encodePairs :: "adpcm \<Rightarrow> sample list \<Rightarrow> adpcm \<times> byte list" where
  "encodePairs e (a # b # rest) =
     (let (e1, first) = encodeNibble e a;
          (e2, second) = encodeNibble e1 b;
          (e3, out) = encodePairs e2 rest
      in (e3, (push_bit 4 first OR second) # out))"
| "encodePairs e _ = (e, [])"

definition EncodeBlock :: "adpcm \<Rightarrow> sample list \<Rightarrow> adpcm_error + (adpcm \<times> byte list)" where
  "EncodeBlock e pcm =
     (if pcm = [] then Inr (e, [])
      else if length pcm < 2 then Inl (Too_few_samples (length pcm))
      else if length pcm mod 2 \<noteq> 0 then Inl (Odd_sample_count (length pcm))
      else
        let (e', body) = encodePairs e pcm
        in Inr (e', le16 (word_of_int (predicted e)) @ [word_of_int (index e), 0] @ body))"

section \<open>Invariant\<close>

text \<open>What the clamps maintain: the predicted value is a sample and the index is a row of the
  step table.  The zero value of both structs satisfies it.\<close>

definition adpcm_inv :: "adpcm \<Rightarrow> bool" where
  "adpcm_inv d \<longleftrightarrow> is_int16 (predicted d) \<and> 0 \<le> index d \<and> index d \<le> 88"

definition adpcm_zero :: adpcm where
  "adpcm_zero = \<lparr>predicted = 0, index = 0\<rparr>"

lemma adpcm_inv_zero [simp]: "adpcm_inv adpcm_zero"
  by (simp add: adpcm_inv_def adpcm_zero_def)

lemma clamp_range [simp]:
  "is_int16 (clamp_predicted p)" "0 \<le> clamp_index i" "clamp_index i \<le> 88"
  by (simp_all add: clamp_predicted_def clamp_index_def is_int16_def)

lemma decodeNibble_inv [simp, intro]: "adpcm_inv (decodeNibble d n)"
  by (simp add: decodeNibble_def adpcm_inv_def Let_def)

lemma encodeNibble_inv: "encodeNibble e s = (e', n) \<Longrightarrow> adpcm_inv e'"
  by (auto simp: encodeNibble_def adpcm_inv_def Let_def)

section \<open>The decoder follows the encoder\<close>

text \<open>The samples that the encoder itself predicts while it encodes: what the far end hears.\<close>

fun encoderTrack :: "adpcm \<Rightarrow> sample list \<Rightarrow> adpcm \<times> sample list" where
  "encoderTrack e [] = (e, [])"
| "encoderTrack e (s # ss) =
     (let e1 = fst (encodeNibble e s); (e2, out) = encoderTrack e1 ss
      in (e2, predicted e1 # out))"

text \<open>The encoder's step as a function of the four bits it decides.\<close>

definition nibbleOf :: "bool \<Rightarrow> bool \<Rightarrow> bool \<Rightarrow> bool \<Rightarrow> byte" where
  "nibbleOf neg b4 b2 b1 =
     (let nibble = (if neg then 8 else 0 :: byte);
          nibble = (if b4 then nibble OR 4 else nibble);
          nibble = (if b2 then nibble OR 2 else nibble)
      in if b1 then nibble OR 1 else nibble)"

definition deltaOf :: "int \<Rightarrow> bool \<Rightarrow> bool \<Rightarrow> bool \<Rightarrow> int" where
  "deltaOf step b4 b2 b1 =
     (let delta = step div 8;
          delta = (if b4 then delta + step else delta);
          delta = (if b2 then delta + step div 2 else delta)
      in if b1 then delta + step div 4 else delta)"

lemma encodeNibble_bits:
  "\<exists>neg b4 b2 b1. encodeNibble e s =
     (\<lparr>predicted = clamp_predicted
         (if nibbleOf neg b4 b2 b1 AND 8 \<noteq> 0 then predicted e - deltaOf (step_of e) b4 b2 b1
          else predicted e + deltaOf (step_of e) b4 b2 b1),
       index = clamp_index (index e + imaIndexTable ! unat (nibbleOf neg b4 b2 b1))\<rparr>,
      nibbleOf neg b4 b2 b1)"
proof -
  define neg where "neg = (s - predicted e < 0)"
  define d0 where "d0 = (if neg then - (s - predicted e) else s - predicted e)"
  define b4 where "b4 = (d0 \<ge> step_of e)"
  define d1 where "d1 = (if b4 then d0 - step_of e else d0)"
  define b2 where "b2 = (d1 \<ge> step_of e div 2)"
  define d2 where "d2 = (if b2 then d1 - step_of e div 2 else d1)"
  define b1 where "b1 = (d2 \<ge> step_of e div 4)"
  show ?thesis
    by (intro exI [of _ neg] exI [of _ b4] exI [of _ b2] exI [of _ b1])
      (simp only: encodeNibble_def Let_def nibbleOf_def deltaOf_def neg_def d0_def b4_def
        d1_def b2_def d2_def b1_def)
qed

lemma nibbleOf_bits:
  "nibbleOf neg b4 b2 b1 AND 1 \<noteq> 0 \<longleftrightarrow> b1"
  "nibbleOf neg b4 b2 b1 AND 2 \<noteq> 0 \<longleftrightarrow> b2"
  "nibbleOf neg b4 b2 b1 AND 4 \<noteq> 0 \<longleftrightarrow> b4"
  "nibbleOf neg b4 b2 b1 AND 8 \<noteq> 0 \<longleftrightarrow> neg"
  by (cases neg; cases b4; cases b2; cases b1; simp add: nibbleOf_def)+

lemma deltaOf_decoder_order:
  "deltaOf step b4 b2 b1 =
     (let diff = step div 8;
          diff = (if b1 then diff + step div 4 else diff);
          diff = (if b2 then diff + step div 2 else diff)
      in if b4 then diff + step else diff)"
  by (simp add: deltaOf_def Let_def)

lemma encodeNibble_range: "encodeNibble e s = (e', n) \<Longrightarrow> n AND 0x0F = n"
  using encodeNibble_bits [of e s] by (auto simp: nibbleOf_def)

lemma nibble_pack:
  fixes a b :: byte
  assumes "a AND 0x0F = a" and "b AND 0x0F = b"
  shows "drop_bit 4 (push_bit 4 a OR b) AND 0x0F = a" and "(push_bit 4 a OR b) AND 0x0F = b"
proof -
  have hi: "n < 4" if "w AND 0x0F = w" "bit w n" for w :: byte and n
  proof -
    have "(0x0F :: byte) = mask 4" by (simp add: mask_eq_exp_minus_1)
    with that(1) have "w = take_bit 4 w" by (simp add: take_bit_eq_mask)
    with that(2) show ?thesis by (metis bit_take_bit_iff)
  qed
  have m: "(0x0F :: byte) = mask 4" by (simp add: mask_eq_exp_minus_1)
  show "drop_bit 4 (push_bit 4 a OR b) AND 0x0F = a"
    unfolding m using hi [OF assms(1)] hi [OF assms(2)]
    by (intro bit_word_eqI) (force simp: bit_simps)
  show "(push_bit 4 a OR b) AND 0x0F = b"
    unfolding m using hi [OF assms(1)] hi [OF assms(2)]
    by (intro bit_word_eqI) (force simp: bit_simps)
qed

text \<open>One step: decoding the nibble just encoded, from the same state, reaches the same
  state.\<close>

lemma decode_encode_nibble:
  "encodeNibble e s = (e', n) \<Longrightarrow> decodeNibble e n = e'"
proof -
  assume enc: "encodeNibble e s = (e', n)"
  obtain neg b4 b2 b1 where "encodeNibble e s =
     (\<lparr>predicted = clamp_predicted
         (if nibbleOf neg b4 b2 b1 AND 8 \<noteq> 0 then predicted e - deltaOf (step_of e) b4 b2 b1
          else predicted e + deltaOf (step_of e) b4 b2 b1),
       index = clamp_index (index e + imaIndexTable ! unat (nibbleOf neg b4 b2 b1))\<rparr>,
      nibbleOf neg b4 b2 b1)"
    using encodeNibble_bits by blast
  with enc have e': "e' = \<lparr>predicted = clamp_predicted
         (if nibbleOf neg b4 b2 b1 AND 8 \<noteq> 0 then predicted e - deltaOf (step_of e) b4 b2 b1
          else predicted e + deltaOf (step_of e) b4 b2 b1),
       index = clamp_index (index e + imaIndexTable ! unat (nibbleOf neg b4 b2 b1))\<rparr>"
    and n: "n = nibbleOf neg b4 b2 b1"
    by auto
  show ?thesis
    unfolding e' n decodeNibble_def deltaOf_decoder_order Let_def nibbleOf_bits by (rule refl)
qed

lemma decodeNibbles_append:
  "decodeNibbles d (xs @ ys) =
     (let (d1, o1) = decodeNibbles d xs; (d2, o2) = decodeNibbles d1 ys in (d2, o1 @ o2))"
  by (induction xs arbitrary: d) (auto simp: Let_def case_prod_unfold)

definition unpackNibbles :: "byte list \<Rightarrow> byte list" where
  "unpackNibbles bs = concat (map (\<lambda>b. [drop_bit 4 b AND 0x0F, b AND 0x0F]) bs)"

lemma unpackNibbles_simps [simp]: "unpackNibbles [] = []"
  by (simp add: unpackNibbles_def)

lemma unpackNibbles_pack:
  "a AND 0x0F = a \<Longrightarrow> b AND 0x0F = b \<Longrightarrow>
   unpackNibbles ((push_bit 4 a OR b) # bs) = a # b # unpackNibbles bs"
  using nibble_pack [of a b] unfolding unpackNibbles_def by (simp del: drop_bit_or)

lemma decode_encode_pairs:
  "even (length pcm) \<Longrightarrow>
   decodeNibbles e (unpackNibbles (snd (encodePairs e pcm))) =
     (fst (encodePairs e pcm), map int16 (snd (encoderTrack e pcm)))
   \<and> fst (encoderTrack e pcm) = fst (encodePairs e pcm)"
proof (induction e pcm rule: encodePairs.induct)
  case (1 e a b rest)
  obtain e1 n1 where n1: "encodeNibble e a = (e1, n1)" by (cases "encodeNibble e a")
  obtain e2 n2 where n2: "encodeNibble e1 b = (e2, n2)" by (cases "encodeNibble e1 b")
  obtain e3 out where rest: "encodePairs e2 rest = (e3, out)" by (cases "encodePairs e2 rest")
  obtain e4 tr where track: "encoderTrack e2 rest = (e4, tr)" by (cases "encoderTrack e2 rest")
  have IH: "decodeNibbles e2 (unpackNibbles out) = (e3, map int16 tr)" "e4 = e3"
    using 1 n1 n2 rest track by auto
  note pack = unpackNibbles_pack [OF encodeNibble_range [OF n1] encodeNibble_range [OF n2]]
  show ?case
    using IH by (simp add: n1 n2 rest track pack
        decode_encode_nibble [OF n1] decode_encode_nibble [OF n2])
qed simp_all

lemma encoderTrack_int16: "\<forall>x \<in> set (snd (encoderTrack e pcm)). is_int16 x"
proof (induction pcm arbitrary: e)
  case (Cons s ss)
  have "is_int16 (predicted (fst (encodeNibble e s)))"
    using encodeNibble_inv [of e s "fst (encodeNibble e s)" "snd (encodeNibble e s)"]
    by (simp add: adpcm_inv_def)
  with Cons show ?case by (auto simp: Let_def case_prod_unfold)
qed simp

lemma map_int16_encoderTrack [simp]:
  "map int16 (snd (encoderTrack e pcm)) = snd (encoderTrack e pcm)"
  by (rule map_idI) (use encoderTrack_int16 in \<open>auto simp: int16_id\<close>)

lemma length_encodePairs [simp]: "length (snd (encodePairs e pcm)) = length pcm div 2"
  by (induction e pcm rule: encodePairs.induct) (auto simp: Let_def split: prod.splits)

lemma length_decodeNibbles [simp]: "length (snd (decodeNibbles d ns)) = length ns"
  by (induction ns arbitrary: d) (auto simp: Let_def case_prod_unfold)

text \<open>The block header carries the encoder's state exactly.\<close>

lemma int16_word [simp]: "is_int16 x \<Longrightarrow> int16 (uint (word_of_int x :: u16)) = x"
  by (simp add: int16_def is_int16_def uint_word_of_int take_bit_eq_mod mod_simps)

lemma clamp_index_word [simp]:
  "0 \<le> i \<Longrightarrow> i \<le> 88 \<Longrightarrow> clamp_index (uint (word_of_int i :: byte)) = i"
  by (simp add: clamp_index_def uint_word_of_int take_bit_eq_mod)

lemma EncodeBlock_Inr:
  "even (length pcm) \<Longrightarrow> pcm \<noteq> [] \<Longrightarrow>
   EncodeBlock e pcm = Inr (fst (encodePairs e pcm),
     le16 (word_of_int (predicted e)) @ [word_of_int (index e), 0] @ snd (encodePairs e pcm))"
  by (cases pcm; cases "tl pcm") (auto simp: EncodeBlock_def case_prod_unfold Let_def)

lemma Decode_block:
  assumes "adpcm_inv e"
  shows "Decode d (le16 (word_of_int (predicted e)) @ [word_of_int (index e), 0] @ body) =
    decodeNibbles e (unpackNibbles body)"
  using assms
  by (cases e) (simp add: Decode_def wire_defs unpackNibbles_def adpcm_inv_def)

lemma Decode_EncodeBlock:
  assumes "adpcm_inv e" and "EncodeBlock e pcm = Inr (e', block)" and "pcm \<noteq> []"
  shows "Decode d block = (e', snd (encoderTrack e pcm))
    \<and> length block = 4 + length pcm div 2
    \<and> length (snd (Decode d block)) = length pcm"
proof -
  from assms(2,3) have ev: "even (length pcm)"
    by (auto simp: EncodeBlock_def split: if_splits)
  with assms(2,3) have e': "e' = fst (encodePairs e pcm)"
    and block: "block = le16 (word_of_int (predicted e)) @ [word_of_int (index e), 0]
      @ snd (encodePairs e pcm)"
    by (simp_all add: EncodeBlock_Inr)
  have "Decode d block = (e', snd (encoderTrack e pcm))"
    using decode_encode_pairs [OF ev, of e] assms(1) by (simp only: block e' Decode_block) simp
  moreover have "length (snd (Decode d block)) = length pcm"
    using ev assms(1)
    by (simp only: block Decode_block) (simp add: unpackNibbles_def length_concat comp_def sum_list_triv even_two_times_div_two flip: mult_2)
  ultimately show ?thesis by (simp add: block)
qed

section \<open>Streams of blocks\<close>

text \<open>What a stream of blocks relies on: a block decodes to what the encoder tracked, and the track of a
  concatenation is the concatenation of the tracks.\<close>

locale block_codec =
  fixes ok :: "'s \<Rightarrow> bool" and enc :: "'s \<Rightarrow> 'a list \<Rightarrow> 's \<times> 'b" and dec :: "'s \<Rightarrow> 'b \<Rightarrow> 's \<times> 'c list"
    and track :: "'s \<Rightarrow> 'a list \<Rightarrow> 's \<times> 'c list" and whole :: "'a list \<Rightarrow> bool"
  assumes decodes: "ok e \<Longrightarrow> whole x \<Longrightarrow> dec d (snd (enc e x)) = (fst (enc e x), snd (track e x))"
    and kept: "ok e \<Longrightarrow> whole x \<Longrightarrow> ok (fst (enc e x))"
    and tracks: "whole x \<Longrightarrow> fst (track e x) = fst (enc e x)"
    and track_Nil: "track e [] = (e, [])"
    and track_append: "snd (track e (x @ y)) = snd (track e x) @ snd (track (fst (track e x)) y)"
begin

lemma stream_decodes:
  "ok e \<Longrightarrow> \<forall>x \<in> set xs. whole x
   \<Longrightarrow> concat (snd (scan dec d (snd (scan enc e xs)))) = snd (track e (concat xs))"
  by (induction xs arbitrary: e d) (simp_all add: track_Nil track_append tracks decodes kept case_prod_unfold Let_def)

end

definition encode_block :: "adpcm \<Rightarrow> sample list \<Rightarrow> adpcm \<times> byte list" where
  "encode_block e pcm = (case EncodeBlock e pcm of Inr r \<Rightarrow> r | Inl _ \<Rightarrow> (e, []))"

lemma encode_block_Inr: "even (length pcm) \<Longrightarrow> EncodeBlock e pcm = Inr (encode_block e pcm)"
  by (auto simp: encode_block_def EncodeBlock_def case_prod_unfold Let_def dest: even_two_times_div_two)

lemma length_encode_block: "length (snd (encode_block e pcm)) \<le> 4 + length pcm div 2"
  by (auto simp: encode_block_def EncodeBlock_def case_prod_unfold Let_def wire_defs)

lemma encodePairs_inv: "adpcm_inv e \<Longrightarrow> adpcm_inv (fst (encodePairs e pcm))"
  by (induction e pcm rule: encodePairs.induct)
    (auto simp: Let_def split: prod.splits, blast dest: encodeNibble_inv)

lemma encode_block_inv: "adpcm_inv e \<Longrightarrow> adpcm_inv (fst (encode_block e pcm))"
  by (auto simp: encode_block_def EncodeBlock_def case_prod_unfold Let_def encodePairs_inv)

lemma encoderTrack_append:
  "snd (encoderTrack e (x @ y)) = snd (encoderTrack e x) @ snd (encoderTrack (fst (encoderTrack e x)) y)"
  by (induction x arbitrary: e) (simp_all add: Let_def case_prod_unfold)

interpretation adpcm_stream: block_codec adpcm_inv encode_block Decode encoderTrack
  "\<lambda>pcm. pcm \<noteq> [] \<and> even (length pcm)"
proof unfold_locales
  fix e d :: adpcm and x :: "sample list"
  assume e: "adpcm_inv e" and x: "x \<noteq> [] \<and> even (length x)"
  then have "EncodeBlock e x = Inr (fst (encode_block e x), snd (encode_block e x))" by (simp add: encode_block_Inr)
  then show "Decode d (snd (encode_block e x)) = (fst (encode_block e x), snd (encoderTrack e x))"
    using Decode_EncodeBlock [OF e] x by blast
  show "adpcm_inv (fst (encode_block e x))" using e by (rule encode_block_inv)
next
  fix e :: adpcm and x :: "sample list"
  assume x: "x \<noteq> [] \<and> even (length x)"
  then show "fst (encoderTrack e x) = fst (encode_block e x)"
    using decode_encode_pairs [of x e] by (simp add: encode_block_def EncodeBlock_Inr)
qed (simp_all add: encoderTrack_append)

section \<open>Properties\<close>

text \<open>The invariant: whatever bytes or samples come in, decoder and encoder keep the
  predicted value in the 16-bit range and the index inside the step table, so the table
  lookups of the next call stay in bounds.\<close>

lemma adpcm_state_in_range:
  "adpcm_inv adpcm_zero
   \<and> (adpcm_inv d \<longrightarrow> adpcm_inv (fst (Decode d data)))
   \<and> (adpcm_inv e \<longrightarrow> EncodeBlock e pcm = Inr (e', block) \<longrightarrow> adpcm_inv e')
   \<and> length imaStepTable = 89"
proof -
  have dec: "adpcm_inv d \<Longrightarrow> adpcm_inv (fst (decodeNibbles d ns))" for d ns
    by (induction ns arbitrary: d) (auto simp: Let_def case_prod_unfold)
  have enc: "adpcm_inv e \<Longrightarrow> adpcm_inv (fst (encodePairs e pcm))" for e pcm
    by (induction e pcm rule: encodePairs.induct)
      (auto simp: Let_def split: prod.splits, blast dest: encodeNibble_inv)
  show ?thesis
    by (auto simp: Decode_def EncodeBlock_def Let_def case_prod_unfold imaStepTable_def
        intro!: dec enc split: if_splits) (simp_all add: adpcm_inv_def)
qed

text \<open> A block is self-contained and the decoder follows the encoder: from any decoder
  state, decoding an encoded block gives back exactly the samples the encoder predicted while
  it wrote the block, and ends in the encoder's own state.  This is what makes the decoded
  block the true echo reference of what the doorbell plays.\<close>

lemma decode_follows_encoder:
  assumes "adpcm_inv e" and "EncodeBlock e pcm = Inr (e', block)" and "pcm \<noteq> []"
  shows "Decode d block = (e', snd (encoderTrack e pcm))
    \<and> length block = 4 + length pcm div 2
    \<and> length (snd (Decode d block)) = length pcm"
  using assms by (rule Decode_EncodeBlock)

end
