(* ===== verification/G711.thy ===== *)
theory G711
  imports Prelude
begin

unbundle bit_operations_syntax

text \<open>
  G.711 companding: \<^verbatim>\<open>internal/g711/g711.go\<close> and \<^verbatim>\<open>internal/g711/tables.go\<close>.  A payload
  byte is one 8 kHz sample.  Codecs are named by strings as in the Go code, compared after
  \<open>strings.ToLower\<close>; the callers pass the constants \<open>PCMA\<close> and \<open>PCMU\<close>.
\<close>

section \<open>Expansion\<close>

text \<open>\<open>decodeMuLaw\<close>: complement, rebuild the biased magnitude, apply the sign.\<close>

definition decodeMuLaw :: "byte \<Rightarrow> sample" where
  "decodeMuLaw v0 =
     (let v = NOT v0;
          t = (uint (v AND 0x0F)) * 8 + 0x84;
          t = t * 2 ^ unat (drop_bit 4 (v AND 0x70))
      in if v AND 0x80 \<noteq> 0 then int16 (0x84 - t) else int16 (t - 0x84))"

definition decodeALaw :: "byte \<Rightarrow> sample" where
  "decodeALaw v0 =
     (let v = v0 XOR 0x55;
          t = uint (v AND 0x0F) * 16 + 8;
          seg = uint (drop_bit 4 (v AND 0x70));
          t = (if seg \<ge> 1 then t + 0x100 else t);
          t = (if seg > 1 then t * 2 ^ nat (seg - 1) else t)
      in if v AND 0x80 \<noteq> 0 then int16 t else int16 (- t))"

section \<open>Compression\<close>

text \<open>The exponent search of \<open>encodeMuLaw\<close>: \<open>mask\<close> starts at \<open>0x4000\<close> and moves right with
  the exponent, so it is \<open>2 ^ (exponent + 7)\<close> throughout.\<close>

fun muExponent :: "nat \<Rightarrow> int \<Rightarrow> int \<Rightarrow> nat" where
  "muExponent 0 msk pcm = 0"
| "muExponent (Suc e) msk pcm =
     (if pcm AND msk = 0 then muExponent e (msk div 2) pcm else Suc e)"

definition encodeMuLaw :: "sample \<Rightarrow> byte" where
  "encodeMuLaw s =
     (let sign = (if s < 0 then 0x80 else 0 :: int);
          pcm = (if s < 0 then (if - s > 32767 then 32767 else - s) else s);
          pcm = (if pcm > 32635 then 32635 else pcm);
          pcm = pcm + 0x84;
          exponent = muExponent 7 0x4000 pcm;
          mantissa = (pcm div 2 ^ (exponent + 3)) mod 16
      in NOT (word_of_int (sign OR (int exponent * 16) OR mantissa)))"

text \<open>The exponent search of \<open>encodeALaw\<close>: the threshold doubles until it exceeds the sample.\<close>

fun aExponent :: "nat \<Rightarrow> nat \<Rightarrow> int \<Rightarrow> int \<Rightarrow> nat" where
  "aExponent 0 e threshold pcm = e"
| "aExponent (Suc fuel) e threshold pcm =
     (if pcm \<ge> threshold then aExponent fuel (Suc e) (threshold * 2) pcm else e)"

definition encodeALaw :: "sample \<Rightarrow> byte" where
  "encodeALaw s =
     (let msk = (if s < 0 then 0x55 else 0xD5 :: int);
          pcm = (if s < 0 then - s - 1 else s);
          pcm = (if pcm > 32767 then 32767 else pcm);
          aval = (if pcm < 256 then pcm div 16
                  else let exponent = aExponent 6 1 0x200 pcm
                       in int exponent * 16 OR ((pcm div 2 ^ (exponent + 3)) mod 16))
      in word_of_int (aval XOR msk))"

section \<open>Transcoding tables\<close>

definition aLawToMuLaw :: "byte list" where
  "aLawToMuLaw =
     [0x29, 0x2a, 0x27, 0x28, 0x2d, 0x2e, 0x2b, 0x2c, 0x21, 0x22, 0x20, 0x20, 0x25, 0x26, 0x23, 0x24,
      0x39, 0x3a, 0x37, 0x38, 0x3d, 0x3e, 0x3b, 0x3c, 0x31, 0x32, 0x2f, 0x30, 0x35, 0x36, 0x33, 0x34,
      0x0a, 0x0b, 0x08, 0x09, 0x0e, 0x0f, 0x0c, 0x0d, 0x02, 0x03, 0x00, 0x01, 0x06, 0x07, 0x04, 0x05,
      0x1a, 0x1b, 0x18, 0x19, 0x1e, 0x1f, 0x1c, 0x1d, 0x12, 0x13, 0x10, 0x11, 0x16, 0x17, 0x14, 0x15,
      0x62, 0x63, 0x60, 0x61, 0x66, 0x67, 0x64, 0x65, 0x5d, 0x5d, 0x5c, 0x5c, 0x5f, 0x5f, 0x5e, 0x5e,
      0x74, 0x76, 0x70, 0x72, 0x7c, 0x7e, 0x78, 0x7a, 0x6a, 0x6b, 0x68, 0x69, 0x6e, 0x6f, 0x6c, 0x6d,
      0x48, 0x49, 0x46, 0x47, 0x4c, 0x4d, 0x4a, 0x4b, 0x40, 0x41, 0x3f, 0x3f, 0x44, 0x45, 0x42, 0x43,
      0x56, 0x57, 0x54, 0x55, 0x5a, 0x5b, 0x58, 0x59, 0x4f, 0x4f, 0x4e, 0x4e, 0x52, 0x53, 0x50, 0x51,
      0xa9, 0xaa, 0xa7, 0xa8, 0xad, 0xae, 0xab, 0xac, 0xa1, 0xa2, 0xa0, 0xa0, 0xa5, 0xa6, 0xa3, 0xa4,
      0xb9, 0xba, 0xb7, 0xb8, 0xbd, 0xbe, 0xbb, 0xbc, 0xb1, 0xb2, 0xaf, 0xb0, 0xb5, 0xb6, 0xb3, 0xb4,
      0x8a, 0x8b, 0x88, 0x89, 0x8e, 0x8f, 0x8c, 0x8d, 0x82, 0x83, 0x80, 0x81, 0x86, 0x87, 0x84, 0x85,
      0x9a, 0x9b, 0x98, 0x99, 0x9e, 0x9f, 0x9c, 0x9d, 0x92, 0x93, 0x90, 0x91, 0x96, 0x97, 0x94, 0x95,
      0xe2, 0xe3, 0xe0, 0xe1, 0xe6, 0xe7, 0xe4, 0xe5, 0xdd, 0xdd, 0xdc, 0xdc, 0xdf, 0xdf, 0xde, 0xde,
      0xf4, 0xf6, 0xf0, 0xf2, 0xfc, 0xfe, 0xf8, 0xfa, 0xea, 0xeb, 0xe8, 0xe9, 0xee, 0xef, 0xec, 0xed,
      0xc8, 0xc9, 0xc6, 0xc7, 0xcc, 0xcd, 0xca, 0xcb, 0xc0, 0xc1, 0xbf, 0xbf, 0xc4, 0xc5, 0xc2, 0xc3,
      0xd6, 0xd7, 0xd4, 0xd5, 0xda, 0xdb, 0xd8, 0xd9, 0xcf, 0xcf, 0xce, 0xce, 0xd2, 0xd3, 0xd0, 0xd1]"

definition muLawToALaw :: "byte list" where
  "muLawToALaw =
     [0x2a, 0x2b, 0x28, 0x29, 0x2e, 0x2f, 0x2c, 0x2d, 0x22, 0x23, 0x20, 0x21, 0x26, 0x27, 0x24, 0x25,
      0x3a, 0x3b, 0x38, 0x39, 0x3e, 0x3f, 0x3c, 0x3d, 0x32, 0x33, 0x30, 0x31, 0x36, 0x37, 0x34, 0x35,
      0x0b, 0x08, 0x09, 0x0e, 0x0f, 0x0c, 0x0d, 0x02, 0x03, 0x00, 0x01, 0x06, 0x07, 0x04, 0x05, 0x1a,
      0x1b, 0x18, 0x19, 0x1e, 0x1f, 0x1c, 0x1d, 0x12, 0x13, 0x10, 0x11, 0x16, 0x17, 0x14, 0x15, 0x6b,
      0x68, 0x69, 0x6e, 0x6f, 0x6c, 0x6d, 0x62, 0x63, 0x60, 0x61, 0x66, 0x67, 0x64, 0x65, 0x7b, 0x79,
      0x7e, 0x7f, 0x7c, 0x7d, 0x72, 0x73, 0x70, 0x71, 0x76, 0x77, 0x74, 0x75, 0x4b, 0x49, 0x4f, 0x4d,
      0x42, 0x43, 0x40, 0x41, 0x46, 0x47, 0x44, 0x45, 0x5a, 0x5b, 0x58, 0x59, 0x5e, 0x5f, 0x5c, 0x5d,
      0x52, 0x52, 0x53, 0x53, 0x50, 0x50, 0x51, 0x51, 0x56, 0x56, 0x57, 0x57, 0x54, 0x54, 0x55, 0xd5,
      0xaa, 0xab, 0xa8, 0xa9, 0xae, 0xaf, 0xac, 0xad, 0xa2, 0xa3, 0xa0, 0xa1, 0xa6, 0xa7, 0xa4, 0xa5,
      0xba, 0xbb, 0xb8, 0xb9, 0xbe, 0xbf, 0xbc, 0xbd, 0xb2, 0xb3, 0xb0, 0xb1, 0xb6, 0xb7, 0xb4, 0xb5,
      0x8b, 0x88, 0x89, 0x8e, 0x8f, 0x8c, 0x8d, 0x82, 0x83, 0x80, 0x81, 0x86, 0x87, 0x84, 0x85, 0x9a,
      0x9b, 0x98, 0x99, 0x9e, 0x9f, 0x9c, 0x9d, 0x92, 0x93, 0x90, 0x91, 0x96, 0x97, 0x94, 0x95, 0xeb,
      0xe8, 0xe9, 0xee, 0xef, 0xec, 0xed, 0xe2, 0xe3, 0xe0, 0xe1, 0xe6, 0xe7, 0xe4, 0xe5, 0xfb, 0xf9,
      0xfe, 0xff, 0xfc, 0xfd, 0xf2, 0xf3, 0xf0, 0xf1, 0xf6, 0xf7, 0xf4, 0xf5, 0xcb, 0xc9, 0xcf, 0xcd,
      0xc2, 0xc3, 0xc0, 0xc1, 0xc6, 0xc7, 0xc4, 0xc5, 0xda, 0xdb, 0xd8, 0xd9, 0xde, 0xdf, 0xdc, 0xdd,
      0xd2, 0xd2, 0xd3, 0xd3, 0xd0, 0xd0, 0xd1, 0xd1, 0xd6, 0xd6, 0xd7, 0xd7, 0xd4, 0xd4, 0xd5, 0xd5]"

section \<open>Payload operations\<close>

definition PCMA :: string where "PCMA = ''pcma''"

definition PCMU :: string where "PCMU = ''pcmu''"

definition ConvertPayload :: "byte list \<Rightarrow> string \<Rightarrow> string \<Rightarrow> byte list" where
  "ConvertPayload payload from0 to0 =
     (let src = to_lower from0; dst = to_lower to0
      in if src = dst then payload
         else if src = PCMA \<and> dst = PCMU then map (\<lambda>b. aLawToMuLaw ! unat b) payload
         else if src = PCMU \<and> dst = PCMA then map (\<lambda>b. muLawToALaw ! unat b) payload
         else payload)"

text \<open>A \<open>nil\<close> result for an unknown codec is the empty list.\<close>

definition DecodePayload :: "byte list \<Rightarrow> string \<Rightarrow> sample list" where
  "DecodePayload payload codec =
     (if to_lower codec = PCMA then map decodeALaw payload
      else if to_lower codec = PCMU then map decodeMuLaw payload
      else [])"

definition EncodePCM :: "sample list \<Rightarrow> string \<Rightarrow> byte list" where
  "EncodePCM pcm codec =
     (if to_lower codec = PCMA then map encodeALaw pcm
      else if to_lower codec = PCMU then map encodeMuLaw pcm
      else [])"

section \<open>Bytes as sign, segment and mantissa\<close>

lemma and_low_nibble: "(x :: int) AND 0x0F = x mod 16"
  using take_bit_eq_mask [of 4 x] by (simp add: take_bit_eq_mod mask_eq_exp_minus_1)

lemma uint_low_nibble: "uint (w AND 0x0F :: byte) = uint w mod 16"
  by (simp add: unsigned_and_eq and_low_nibble)

lemma uint_segment: "uint (drop_bit 4 (w AND 0x70) :: byte) = uint w div 16 mod 8"
proof -
  have "uint (drop_bit 4 (w AND 0x70)) = drop_bit 4 (uint w AND 0x70)"
  proof -
    have "take_bit 8 (uint x) = uint x" for x :: byte
      using uint_lt2p [of x] by (simp add: take_bit_int_eq_self)
    then show ?thesis by (simp only: unsigned_drop_bit_eq) (simp add: unsigned_and_eq)
  qed
  also have "\<dots> = drop_bit 4 (uint w) AND 7"
    by (simp only: drop_bit_and) simp
  also have "\<dots> = uint w div 16 mod 8"
    using take_bit_eq_mask [of 3 "drop_bit 4 (uint w)"]
    by (simp add: take_bit_eq_mod mask_eq_exp_minus_1 drop_bit_eq_div)
  finally show ?thesis .
qed

lemma bit_top:
  assumes "0 \<le> (p :: int)" "p < 2 ^ Suc k"
  shows "p AND 2 ^ k = 0 \<longleftrightarrow> p < 2 ^ k"
proof -
  have iff: "p AND 2 ^ k = 0 \<longleftrightarrow> even (p div 2 ^ k)"
    by (simp add: and_exp_eq_0_iff_not_bit bit_iff_odd)
  show ?thesis
  proof (cases "p < 2 ^ k")
    case True with iff assms show ?thesis by simp
  next
    case False
    have "p div 2 ^ k = 1"
      using False assms by (intro int_div_pos_eq [of _ _ _ "p - 2 ^ k"]) auto
    with iff False show ?thesis by simp
  qed
qed

lemma sign_bit: "(w AND 0x80 :: byte) \<noteq> 0 \<longleftrightarrow> 128 \<le> uint w"
proof -
  have "uint w < 256" using unsigned_less [of w] by simp
  then have "uint w AND 128 = 0 \<longleftrightarrow> uint w < 128"
    using bit_top [of "uint w" 7] by simp
  moreover have "w AND 0x80 = 0 \<longleftrightarrow> uint (w AND 0x80) = 0"
    by (simp only: uint_0_iff)
  ultimately show ?thesis by (auto simp: unsigned_and_eq)
qed

text \<open>The two expansions on the number the byte stands for.\<close>

definition alaw_value :: "int \<Rightarrow> int" where
  "alaw_value u =
     (let m = u mod 16; seg = u div 16 mod 8;
          t = (if seg = 0 then 16 * m + 8 else (16 * m + 264) * 2 ^ nat (seg - 1))
      in if 128 \<le> u then t else - t)"

definition mulaw_value :: "int \<Rightarrow> int" where
  "mulaw_value u =
     (let m = u mod 16; seg = u div 16 mod 8; t = (8 * m + 132) * 2 ^ nat seg
      in if 128 \<le> u then 132 - t else t - 132)"

lemma segment_pow_bounds:
  assumes "0 \<le> m" "m < (16 :: int)" "0 \<le> seg" "seg < (8 :: int)"
  shows "1 \<le> (2 :: int) ^ nat seg" "(2 :: int) ^ nat seg \<le> 128"
    "1 \<le> (2 :: int) ^ nat (seg - 1)" "(2 :: int) ^ nat (seg - 1) \<le> 64"
proof -
  have "nat seg \<le> 7" "nat (seg - 1) \<le> 6" using assms by auto
  then have "(2 :: int) ^ nat seg \<le> 2 ^ 7" "(2 :: int) ^ nat (seg - 1) \<le> 2 ^ 6"
    by (simp_all only: power_increasing_iff one_less_numeral_iff semiring_norm)
  then show "(2 :: int) ^ nat seg \<le> 128" "(2 :: int) ^ nat (seg - 1) \<le> 64" by simp_all
qed simp_all

lemma alaw_value_bounds: "is_int16 (alaw_value u)"
proof -
  define m where "m = u mod 16"
  define seg where "seg = u div 16 mod 8"
  have r: "0 \<le> m" "m < 16" "0 \<le> seg" "seg < 8" by (simp_all add: m_def seg_def)
  note p = segment_pow_bounds [OF r]
  define t where "t = (16 * m + 264) * 2 ^ nat (seg - 1)"
  have "t \<le> 504 * 64"
    unfolding t_def using r p(4) by (intro mult_mono) auto
  moreover have "0 \<le> t"
    using r by (simp add: t_def)
  ultimately show ?thesis
    using r unfolding alaw_value_def is_int16_def Let_def m_def [symmetric] seg_def [symmetric]
      t_def [symmetric]
    by auto
qed

lemma mulaw_value_bounds: "is_int16 (mulaw_value u)"
proof -
  define m where "m = u mod 16"
  define seg where "seg = u div 16 mod 8"
  have r: "0 \<le> m" "m < 16" "0 \<le> seg" "seg < 8" by (simp_all add: m_def seg_def)
  note p = segment_pow_bounds [OF r]
  define t where "t = (8 * m + 132) * 2 ^ nat seg"
  have "t \<le> 252 * 128"
    unfolding t_def using r p(2) by (intro mult_mono) auto
  moreover have "0 \<le> t"
    using r by (simp add: t_def)
  ultimately show ?thesis
    using r unfolding mulaw_value_def is_int16_def Let_def m_def [symmetric] seg_def [symmetric]
      t_def [symmetric]
    by auto
qed

lemma decodeALaw_value: "decodeALaw b = alaw_value (uint (b XOR 0x55))"
proof -
  define u where "u = uint (b XOR 0x55)"
  have "decodeALaw b = int16 (alaw_value u)"
    unfolding decodeALaw_def Let_def alaw_value_def uint_low_nibble uint_segment sign_bit u_def [symmetric]
    by (auto simp: algebra_simps)
  then show ?thesis by (simp add: int16_id alaw_value_bounds u_def)
qed

lemma decodeMuLaw_value: "decodeMuLaw b = mulaw_value (uint (NOT b))"
proof -
  define u where "u = uint (NOT b)"
  have "decodeMuLaw b = int16 (mulaw_value u)"
    unfolding decodeMuLaw_def Let_def mulaw_value_def uint_low_nibble nat_uint_eq [symmetric]
      uint_segment sign_bit u_def [symmetric]
    by (auto simp: algebra_simps)
  then show ?thesis by (simp add: int16_id mulaw_value_bounds u_def)
qed

section \<open>The exponent searches\<close>

lemma aExponent_bounds:
  "threshold = 2 ^ (e + 8) \<Longrightarrow> 2 ^ (e + 7) \<le> pcm \<Longrightarrow> pcm < 2 ^ (e + 8 + fuel) \<Longrightarrow>
   e \<le> aExponent fuel e threshold pcm \<and> aExponent fuel e threshold pcm \<le> e + fuel
   \<and> 2 ^ (aExponent fuel e threshold pcm + 7) \<le> pcm
   \<and> pcm < 2 ^ (aExponent fuel e threshold pcm + 8)"
proof (induction fuel arbitrary: e threshold)
  case (Suc fuel)
  show ?case
  proof (cases "pcm \<ge> threshold")
    case True
    have "Suc e \<le> aExponent fuel (Suc e) (threshold * 2) pcm
      \<and> aExponent fuel (Suc e) (threshold * 2) pcm \<le> Suc e + fuel
      \<and> 2 ^ (aExponent fuel (Suc e) (threshold * 2) pcm + 7) \<le> pcm
      \<and> pcm < 2 ^ (aExponent fuel (Suc e) (threshold * 2) pcm + 8)"
      using Suc.prems True by (intro Suc.IH) (simp_all add: power_add)
    with True show ?thesis by auto
  next
    case False with Suc.prems show ?thesis by simp
  qed
qed simp

lemma muExponent_bounds:
  "msk = 2 ^ (e + 7) \<Longrightarrow> 128 \<le> pcm \<Longrightarrow> pcm < 2 ^ (e + 8) \<Longrightarrow>
   muExponent e msk pcm \<le> e \<and> 2 ^ (muExponent e msk pcm + 7) \<le> pcm
   \<and> pcm < 2 ^ (muExponent e msk pcm + 8)"
proof (induction e arbitrary: msk)
  case (Suc e)
  have top: "pcm AND msk = 0 \<longleftrightarrow> pcm < 2 ^ (e + 8)"
    using bit_top [of pcm "e + 8"] Suc.prems by (simp add: add.commute)
  show ?case
  proof (cases "pcm < 2 ^ (e + 8)")
    case True
    then have "muExponent e (msk div 2) pcm \<le> e
      \<and> 2 ^ (muExponent e (msk div 2) pcm + 7) \<le> pcm
      \<and> pcm < 2 ^ (muExponent e (msk div 2) pcm + 8)"
      using Suc.prems by (intro Suc.IH) (simp_all add: power_add)
    with top True show ?thesis by simp
  next
    case False
    with top Suc.prems show ?thesis by (simp add: add.commute)
  qed
qed simp

section \<open>Codes as numbers\<close>

text \<open>Every segment is a uniform quantiser: 16 cells, and the expansion is the cell's middle.\<close>

lemma segment_cell:
  assumes "2 ^ (e + 7) \<le> (p :: int)" "p < 2 ^ (e + 8)"
  shows "p div 2 ^ (e + 3) mod 16 = p div 2 ^ (e + 3) - 16"
    and "16 \<le> p div 2 ^ (e + 3)" and "p div 2 ^ (e + 3) < 32"
    and "p div 2 ^ (e + 3) * 2 ^ (e + 3) \<le> p" and "p < (p div 2 ^ (e + 3) + 1) * 2 ^ (e + 3)"
proof -
  define D :: int where "D = 2 ^ (e + 3)"
  define q where "q = p div D"
  have D: "0 < D" by (simp add: D_def)
  have pow: "2 ^ (e + 7) = 16 * D" "2 ^ (e + 8) = 32 * D" by (simp_all add: D_def power_add)
  have lo: "q * D \<le> p" and hi: "p < (q + 1) * D"
    unfolding q_def distrib_right
    using div_mult_mod_eq [of p D] pos_mod_bound [OF D, of p] pos_mod_sign [OF D, of p]
    by linarith+
  have "16 * D < (q + 1) * D" using assms(1) hi pow by linarith
  then have q16: "16 \<le> q" using D by (simp add: mult_less_cancel_right_pos)
  have "q * D < 32 * D" using assms(2) lo pow by linarith
  then have q32: "q < 32" using D by (simp add: mult_less_cancel_right_pos)
  have "q mod 16 = q - 16" using q16 q32 by presburger
  with lo hi q16 q32 show "p div 2 ^ (e + 3) mod 16 = p div 2 ^ (e + 3) - 16"
    and "16 \<le> p div 2 ^ (e + 3)" and "p div 2 ^ (e + 3) < 32"
    and "p div 2 ^ (e + 3) * 2 ^ (e + 3) \<le> p" and "p < (p div 2 ^ (e + 3) + 1) * 2 ^ (e + 3)"
    by (simp_all only: q_def D_def)
qed

lemma segment_unique:
  assumes "2 ^ (e + 7) \<le> (p :: int)" "p < 2 ^ (e + 8)" "2 ^ (f + 7) \<le> p" "p < 2 ^ (f + 8)"
  shows "e = f"
proof -
  have "e + 7 < f + 8" "f + 7 < e + 8"
    using assms by (metis order_le_less_trans power_strict_increasing_iff one_less_numeral_iff semiring_norm(76))+
  then show ?thesis by simp
qed

lemma or_low:
  assumes "0 \<le> m" "m < 2 ^ n"
  shows "(2 ^ n * a) OR m = 2 ^ n * a + (m :: int)"
proof -
  have m: "take_bit n m = m" using assms by (simp add: take_bit_int_eq_self)
  have "(2 ^ n * a) AND m = 0"
  proof (rule bit_eqI)
    fix k
    show "bit (2 ^ n * a AND m) k = bit 0 k"
      using m by (metis bit_0_eq bit_and_iff bit_push_bit_iff bit_take_bit_iff bot2E
          bot_apply bot_bool_def mult.commute not_le push_bit_eq_mult)
  qed
  then show ?thesis using plus_and_or [of "2 ^ n * a" m] by simp
qed

definition alaw_mag :: "int \<Rightarrow> int" where
  "alaw_mag p = (if p < 256 then p div 16
     else let e = aExponent 6 1 0x200 p in int e * 16 + p div 2 ^ (e + 3) mod 16)"

definition mulaw_mag :: "int \<Rightarrow> int" where
  "mulaw_mag p = (let e = muExponent 7 0x4000 p in int e * 16 + p div 2 ^ (e + 3) mod 16)"

lemma aExponent_segment:
  "256 \<le> p \<Longrightarrow> p \<le> 32767 \<Longrightarrow>
   1 \<le> aExponent 6 1 0x200 p \<and> aExponent 6 1 0x200 p \<le> 7
   \<and> 2 ^ (aExponent 6 1 0x200 p + 7) \<le> p \<and> p < 2 ^ (aExponent 6 1 0x200 p + 8)"
  using aExponent_bounds [of "0x200" 1 p 6] by simp

lemma muExponent_segment:
  "132 \<le> p \<Longrightarrow> p \<le> 32767 \<Longrightarrow>
   muExponent 7 0x4000 p \<le> 7
   \<and> 2 ^ (muExponent 7 0x4000 p + 7) \<le> p \<and> p < 2 ^ (muExponent 7 0x4000 p + 8)"
  using muExponent_bounds [of "0x4000" 7 p] by simp

lemma alaw_mag_bounds: "0 \<le> p \<Longrightarrow> p \<le> 32767 \<Longrightarrow> 0 \<le> alaw_mag p \<and> alaw_mag p < 128"
proof (cases "p < 256")
  case False
  moreover assume "p \<le> 32767"
  ultimately have "aExponent 6 1 0x200 p \<le> 7" using aExponent_segment [of p] by simp
  moreover have "0 \<le> p div 2 ^ k mod 16" "p div 2 ^ k mod 16 < 16" for k by simp_all
  ultimately show ?thesis
    using False unfolding alaw_mag_def Let_def by simp
next
  case True
  moreover assume "0 \<le> p"
  ultimately have "0 \<le> p div 16" "p div 16 < 16" by presburger+
  with True show ?thesis by (simp add: alaw_mag_def)
qed

lemma mulaw_mag_bounds: "132 \<le> p \<Longrightarrow> p \<le> 32767 \<Longrightarrow> 0 \<le> mulaw_mag p \<and> mulaw_mag p < 128"
proof -
  assume "132 \<le> p" "p \<le> 32767"
  then have "muExponent 7 0x4000 p \<le> 7" using muExponent_segment [of p] by simp
  then have "int (muExponent 7 0x4000 p) \<le> 7" by simp
  moreover have "0 \<le> p div 2 ^ k mod 16" "p div 2 ^ k mod 16 < 16" for k by simp_all
  ultimately show ?thesis
    unfolding mulaw_mag_def Let_def by (smt (verit) of_nat_0_le_iff)
qed

lemma uint_xor_sign: "uint w < 128 \<Longrightarrow> uint (w XOR 0x80 :: byte) = uint w + 128"
proof -
  assume w: "uint w < 128"
  then have disj: "uint w AND 128 = 0" using bit_top [of "uint w" 7] by simp
  have "uint w XOR 128 = uint w OR 128"
  proof (rule bit_eqI)
    fix n
    have "bit (uint w AND 128) n = False" by (simp add: disj)
    then show "bit (uint w XOR 128) n = bit (uint w OR 128) n"
      by (simp only: bit_and_iff bit_xor_iff bit_or_iff) blast
  qed
  then show ?thesis using plus_and_or [of "uint w" 128] disj by (simp add: unsigned_xor_eq)
qed

lemma word_of_int_xor: "(word_of_int (a XOR b) :: byte) = word_of_int a XOR word_of_int b"
  by (rule bit_word_eqI) (simp add: bit_simps)

lemma uint_of_small: "0 \<le> x \<Longrightarrow> x < 256 \<Longrightarrow> uint (word_of_int x :: byte) = x"
  by (simp add: uint_word_of_int take_bit_eq_mod)

definition alaw_mag_of :: "sample \<Rightarrow> int" where
  "alaw_mag_of s = (if s < 0 then - s - 1 else s)"

definition mulaw_mag_of :: "sample \<Rightarrow> int" where
  "mulaw_mag_of s = min \<bar>s\<bar> 32635 + 132"

lemma mag_of_bounds:
  "is_int16 s \<Longrightarrow> 0 \<le> alaw_mag_of s \<and> alaw_mag_of s \<le> 32767"
  "132 \<le> mulaw_mag_of s \<and> mulaw_mag_of s \<le> 32767"
  by (auto simp: is_int16_def alaw_mag_of_def mulaw_mag_of_def)

text \<open>The code that \<open>encodeALaw\<close> computes, read through the decoder's mask.\<close>

lemma encodeALaw_code:
  assumes "is_int16 s"
  shows "uint (encodeALaw s XOR 0x55) = alaw_mag (alaw_mag_of s) + (if s < 0 then 0 else 128)"
proof -
  define p where "p = alaw_mag_of s"
  have p: "0 \<le> p" "p \<le> 32767" using mag_of_bounds(1) [OF assms] by (simp_all add: p_def)
  have aval: "(if p < 256 then p div 16
      else let e = aExponent 6 1 0x200 p in int e * 16 OR p div 2 ^ (e + 3) mod 16) = alaw_mag p"
    using or_low [of "p div 2 ^ k mod 16" 4 "int e" for e k]
    by (simp add: alaw_mag_def Let_def mult.commute)
  have enc: "encodeALaw s = word_of_int (alaw_mag p) XOR (if s < 0 then 0x55 else 0xD5)"
    using p unfolding aval [symmetric] by (auto simp: encodeALaw_def p_def alaw_mag_of_def word_of_int_xor Let_def)
  have small: "uint (word_of_int (alaw_mag p) :: byte) = alaw_mag p" "alaw_mag p < 128"
    using alaw_mag_bounds [OF p] by (simp_all add: uint_of_small)
  show ?thesis
  proof (cases "s < 0")
    case True with enc small show ?thesis by (simp add: xor.assoc flip: p_def)
  next
    case False
    then have "encodeALaw s XOR 0x55 = word_of_int (alaw_mag p) XOR 0x80"
      by (simp add: enc xor.assoc)
    with False small show ?thesis by (simp add: uint_xor_sign flip: p_def)
  qed
qed

lemma encodeMuLaw_code:
  assumes "is_int16 s"
  shows "uint (NOT (encodeMuLaw s)) = mulaw_mag (mulaw_mag_of s) + (if s < 0 then 128 else 0)"
proof -
  define p where "p = mulaw_mag_of s"
  have p: "132 \<le> p" "p \<le> 32767" using mag_of_bounds(2) by (simp_all add: p_def)
  define e where "e = muExponent 7 0x4000 p"
  define m where "m = p div 2 ^ (e + 3) mod 16"
  have mag: "mulaw_mag p = 16 * int e + m" by (simp add: mulaw_mag_def e_def m_def Let_def)
  have m: "0 \<le> m" "m < 16" by (simp_all add: m_def)
  have b: "0 \<le> 16 * int e + m" "16 * int e + m < 128"
    using mulaw_mag_bounds [OF p] by (simp_all add: mag)
  have enc: "encodeMuLaw s = NOT (word_of_int ((if s < 0 then 0x80 else 0) OR (int e * 16) OR m))"
    using assms unfolding encodeMuLaw_def Let_def
    by (auto simp: e_def m_def p_def mulaw_mag_of_def is_int16_def min_def)
  have "(if s < 0 then 0x80 else 0) OR (int e * 16) OR m = 16 * int e + m + (if s < 0 then 128 else 0)"
    using or_low [of m 4 "int e"] or_low [of "16 * int e + m" 7 1] m b
    by (simp add: or.assoc mult.commute)
  then show ?thesis
    using b uint_of_small [of "16 * int e + m + (if s < 0 then 128 else 0)"]
    unfolding enc bit.double_compl p_def [symmetric] mag by auto
qed

section \<open>Quantisation and round trips\<close>

lemma byte_fields:
  assumes "0 \<le> e" "e < 8" "0 \<le> m" "m < (16 :: int)"
  shows "(16 * e + m) mod 16 = m" "(16 * e + m) div 16 mod 8 = e"
    "(16 * e + m + 128) mod 16 = m" "(16 * e + m + 128) div 16 mod 8 = e"
    "16 * e + m < 128" "0 \<le> 16 * e + m"
proof -
  show "(16 * e + m) mod 16 = m" "(16 * e + m) div 16 mod 8 = e"
    using assms by (simp_all add: div_pos_pos_trivial)
  have "16 * e + m + 128 = 16 * (e + 8) + m" by simp
  then show "(16 * e + m + 128) mod 16 = m" "(16 * e + m + 128) div 16 mod 8 = e"
    using assms by (simp_all only: div_mult_self4 mod_mult_self4) (simp_all add: div_pos_pos_trivial)
qed (use assms in auto)

text \<open>A code of one segment expands to the middle of the cell the sample lies in.\<close>

lemma alaw_value_low:
  assumes "0 \<le> m" "m < 16"
  shows "alaw_value (m + 128) = 16 * m + 8" "alaw_value m = - (16 * m + 8)"
  using byte_fields [of 0 m] assms by (simp_all add: alaw_value_def Let_def)

lemma alaw_mag_value:
  assumes "0 \<le> p" "p \<le> 32767"
  shows "\<exists>d t. alaw_value (alaw_mag p + 128) = t \<and> alaw_value (alaw_mag p) = - t
    \<and> t - d \<le> p \<and> p < t + d \<and> d \<le> max 8 (p div 32)"
proof (cases "p < 256")
  case True
  then have "alaw_mag p = p div 16" "p div 16 < 16" "0 \<le> p div 16" "16 * (p div 16) \<le> p"
    "p < 16 * (p div 16) + 16"
    using assms by (simp_all add: alaw_mag_def)
  note b = this
  have "alaw_value (alaw_mag p + 128) = 16 * (p div 16) + 8" "alaw_value (alaw_mag p) = - (16 * (p div 16) + 8)"
    using alaw_value_low [OF b(3,2)] unfolding b(1) by blast+
  moreover have "16 * (p div 16) + 8 - 8 \<le> p" "p < 16 * (p div 16) + 8 + 8" "8 \<le> max 8 (p div 32)"
    using b by auto
  ultimately show ?thesis by blast
next
  case False
  define e where "e = aExponent 6 1 0x200 p"
  define q where "q = p div 2 ^ (e + 3)"
  have e: "1 \<le> e" "e \<le> 7" "2 ^ (e + 7) \<le> p" "p < 2 ^ (e + 8)"
    using aExponent_segment [of p] False assms by (simp_all add: e_def)
  note cell = segment_cell [OF e(3,4), folded q_def]
  have mag: "alaw_mag p = 16 * int e + (q - 16)"
    using False cell(1) by (simp add: alaw_mag_def Let_def q_def e_def)
  have q: "0 \<le> q - 16" "q - 16 < 16" and e8: "0 \<le> int e" "int e < 8" using cell(2,3) e(2) by auto
  note f = byte_fields [OF e8 q]
  have pw: "(2 :: int) ^ (e + 3) = 16 * 2 ^ nat (int e - 1)" "(2 :: int) ^ (e + 7) = 256 * 2 ^ nat (int e - 1)"
  proof -
    obtain n where "e = Suc n" using e(1) by (cases e) auto
    then show "(2 :: int) ^ (e + 3) = 16 * 2 ^ nat (int e - 1)"
      "(2 :: int) ^ (e + 7) = 256 * 2 ^ nat (int e - 1)"
      by (simp_all add: power_add)
  qed
  define D :: int where "D = 2 ^ nat (int e - 1)"
  have t: "(16 * (q - 16) + 264) * D = q * (16 * D) + 8 * D" by (simp add: algebra_simps)
  have cells: "q * (16 * D) \<le> p" "p < q * (16 * D) + 16 * D"
    using cell(4,5) unfolding pw D_def [symmetric] by (simp_all add: algebra_simps)
  have "256 * D \<le> p" using e(3) unfolding pw D_def [symmetric] .
  then have d: "8 * D \<le> p div 32" by linarith
  define t where "t = q * (16 * D) + 8 * D"
  have "alaw_value (alaw_mag p + 128) = t" "alaw_value (alaw_mag p) = - t"
    unfolding alaw_value_def mag Let_def f(1-4) D_def [symmetric] t t_def [symmetric]
    using e(1) f(5,6) by auto
  moreover have "t - 8 * D \<le> p" "p < t + 8 * D" "8 * D \<le> max 8 (p div 32)"
    using cells d by (auto simp: t_def)
  ultimately show ?thesis by blast
qed

lemma mulaw_mag_value:
  assumes "132 \<le> p" "p \<le> 32767"
  shows "\<exists>d t. mulaw_value (mulaw_mag p) = t - 132 \<and> mulaw_value (mulaw_mag p + 128) = 132 - t
    \<and> t - d \<le> p \<and> p < t + d \<and> d \<le> p div 32 \<and> d \<le> 512"
proof -
  define e where "e = muExponent 7 0x4000 p"
  define q where "q = p div 2 ^ (e + 3)"
  have e: "e \<le> 7" "2 ^ (e + 7) \<le> p" "p < 2 ^ (e + 8)"
    using muExponent_segment [of p] assms by (simp_all add: e_def)
  note cell = segment_cell [OF e(2,3), folded q_def]
  have mag: "mulaw_mag p = 16 * int e + (q - 16)"
    using cell(1) by (simp add: mulaw_mag_def Let_def q_def e_def)
  have q: "0 \<le> q - 16" "q - 16 < 16" and e8: "0 \<le> int e" "int e < 8" using cell(2,3) e(1) by auto
  note f = byte_fields [OF e8 q]
  define D :: int where "D = 2 ^ e"
  have pw: "(2 :: int) ^ (e + 3) = 8 * D" "(2 :: int) ^ (e + 7) = 128 * D"
    by (simp_all add: power_add D_def)
  have t: "(8 * (q - 16) + 132) * D = q * (8 * D) + 4 * D" by (simp add: algebra_simps)
  have cells: "q * (8 * D) \<le> p" "p < q * (8 * D) + 8 * D"
    using cell(4,5) unfolding pw by (simp_all add: algebra_simps)
  have d: "4 * D \<le> p div 32" using e(2) unfolding pw by linarith
  have "D \<le> 2 ^ 7" unfolding D_def using e(1) by (intro power_increasing) auto
  define t where "t = q * (8 * D) + 4 * D"
  have "mulaw_value (mulaw_mag p) = t - 132" "mulaw_value (mulaw_mag p + 128) = 132 - t"
    unfolding mulaw_value_def mag Let_def f(1-4) nat_int D_def [symmetric] t t_def [symmetric]
    using f(5,6) by auto
  moreover have "t - 4 * D \<le> p" "p < t + 4 * D" "4 * D \<le> 512"
    using cells \<open>D \<le> 2 ^ 7\<close> by (auto simp: t_def)
  ultimately show ?thesis using d by blast
qed

text \<open>Every sample of a cell gets that cell's code.\<close>

lemma alaw_mag_cell:
  assumes "1 \<le> e" "e \<le> 7" "0 \<le> m" "m < 16"
    and "(m + 16) * 2 ^ (e + 3) \<le> p" "p < (m + 17) * 2 ^ (e + 3)"
  shows "alaw_mag p = 16 * int e + m"
proof -
  define D :: int where "D = 2 ^ (e + 3)"
  have D: "0 < D" by (simp add: D_def)
  have pw: "2 ^ (e + 7) = 16 * D" "2 ^ (e + 8) = 32 * D" by (simp_all add: D_def power_add)
  have "16 * D \<le> (m + 16) * D" "(m + 17) * D \<le> 32 * D"
    using assms(3,4) D by (auto intro!: mult_right_mono)
  then have seg: "2 ^ (e + 7) \<le> p" "p < 2 ^ (e + 8)"
    using assms(5,6) unfolding pw D_def [symmetric] by linarith+
  have "(2 :: int) ^ 8 \<le> 2 ^ (e + 7)" "(2 :: int) ^ (e + 8) \<le> 2 ^ 15"
    using assms(1,2) by (intro power_increasing; simp)+
  then have p: "256 \<le> p" "p \<le> 32767" using seg by simp_all
  have e: "aExponent 6 1 0x200 p = e"
    using aExponent_segment [OF p] seg by (auto intro: segment_unique)
  have "p div D = m + 16"
    using assms(5,6) D unfolding D_def [symmetric]
    by (intro int_div_pos_eq [of _ _ _ "p - (m + 16) * D"]) (auto simp: algebra_simps)
  then have "p div 2 ^ (e + 3) mod 16 = m" using assms(3,4) by (simp add: D_def)
  then show ?thesis using p e by (simp add: alaw_mag_def Let_def)
qed

lemma mulaw_mag_cell:
  assumes "e \<le> 7" "0 \<le> m" "m < 16"
    and "(m + 16) * 2 ^ (e + 3) \<le> p" "p < (m + 17) * 2 ^ (e + 3)" "132 \<le> p"
  shows "mulaw_mag p = 16 * int e + m"
proof -
  define D :: int where "D = 2 ^ (e + 3)"
  have D: "0 < D" by (simp add: D_def)
  have pw: "2 ^ (e + 7) = 16 * D" "2 ^ (e + 8) = 32 * D" by (simp_all add: D_def power_add)
  have "16 * D \<le> (m + 16) * D" "(m + 17) * D \<le> 32 * D"
    using assms(2,3) D by (auto intro!: mult_right_mono)
  then have seg: "2 ^ (e + 7) \<le> p" "p < 2 ^ (e + 8)"
    using assms(4,5) unfolding pw D_def [symmetric] by linarith+
  have "(2 :: int) ^ (e + 8) \<le> 2 ^ 15"
    using assms(1) by (intro power_increasing; simp)
  then have p: "132 \<le> p" "p \<le> 32767" using seg assms(6) by simp_all
  have e: "muExponent 7 0x4000 p = e"
    using muExponent_segment [OF p] seg by (auto intro: segment_unique)
  have "p div D = m + 16"
    using assms(4,5) D unfolding D_def [symmetric]
    by (intro int_div_pos_eq [of _ _ _ "p - (m + 16) * D"]) (auto simp: algebra_simps)
  then have "p div 2 ^ (e + 3) mod 16 = m" using assms(2,3) by (simp add: D_def)
  then show ?thesis using e by (simp add: mulaw_mag_def Let_def)
qed

lemma byte_split:
  assumes "0 \<le> u" "u < (256 :: int)"
  shows "u = 16 * (u div 16 mod 8) + u mod 16 + (if 128 \<le> u then 128 else 0)"
proof -
  define q where "q = u div 16"
  have u: "u = 16 * q + u mod 16" by (simp add: q_def)
  moreover have "0 \<le> u mod 16" "u mod 16 < 16" by simp_all
  ultimately have q: "0 \<le> q" "q < 16" "128 \<le> u \<longleftrightarrow> 8 \<le> q" using assms by linarith+
  then have "q mod 8 = (if 8 \<le> q then q - 8 else q)" by presburger
  with u q show ?thesis by (auto simp flip: q_def)
qed

lemma alaw_roundtrip_code:
  assumes "0 \<le> u" "u < 256"
  shows "alaw_mag (alaw_mag_of (alaw_value u)) + (if alaw_value u < 0 then 0 else 128) = u"
proof -
  define m where "m = u mod 16"
  define seg where "seg = u div 16 mod 8"
  have r: "0 \<le> m" "m < 16" "0 \<le> seg" "seg < 8" by (simp_all add: m_def seg_def)
  have u: "u = 16 * seg + m + (if 128 \<le> u then 128 else 0)"
    using byte_split [OF assms(1,2)] by (simp add: m_def seg_def)
  define t where "t = (if seg = 0 then 16 * m + 8 else (16 * m + 264) * 2 ^ nat (seg - 1))"
  have v: "alaw_value u = (if 128 \<le> u then t else - t)"
    by (simp add: alaw_value_def Let_def t_def m_def seg_def)
  have cell: "alaw_mag p = 16 * seg + m" if "t - 1 \<le> p" "p \<le> t" for p
  proof (cases "seg = 0")
    case True
    then have "p div 16 = m" "p < 256" using that r by (auto simp: t_def)
    then show ?thesis using True by (simp add: alaw_mag_def)
  next
    case False
    define D :: int where "D = 2 ^ nat (seg - 1)"
    have D: "1 \<le> D" by (simp add: D_def)
    have pw: "(2 :: int) ^ (nat seg + 3) = 16 * D"
      using r False by (simp add: D_def power_add nat_diff_distrib power_diff)
    have t: "t = (m + 16) * (16 * D) + 8 * D" using False by (simp add: t_def D_def algebra_simps)
    have "alaw_mag p = 16 * int (nat seg) + m"
      using that r False D by (intro alaw_mag_cell) (auto simp: pw t algebra_simps)
    with r show ?thesis by simp
  qed
  have pos: "0 < t" using r by (simp add: t_def)
  show ?thesis
    using cell [of t] cell [of "t - 1"] pos u by (auto simp: v alaw_mag_of_def)
qed

lemma mulaw_roundtrip_code:
  assumes "0 \<le> u" "u < 256" "u \<noteq> 128"
  shows "mulaw_mag (mulaw_mag_of (mulaw_value u)) + (if mulaw_value u < 0 then 128 else 0) = u"
proof -
  define m where "m = u mod 16"
  define seg where "seg = u div 16 mod 8"
  have r: "0 \<le> m" "m < 16" "0 \<le> seg" "seg < 8" by (simp_all add: m_def seg_def)
  have u: "u = 16 * seg + m + (if 128 \<le> u then 128 else 0)"
    using byte_split [OF assms(1,2)] by (simp add: m_def seg_def)
  define D :: int where "D = 2 ^ nat seg"
  define t where "t = (8 * m + 132) * D"
  have v: "mulaw_value u = (if 128 \<le> u then 132 - t else t - 132)"
    by (simp add: mulaw_value_def Let_def t_def m_def seg_def D_def)
  have D: "1 \<le> D" "D \<le> 128" using segment_pow_bounds [OF r] by (simp_all add: D_def)
  have pw: "(2 :: int) ^ (nat seg + 3) = 8 * D" by (simp add: D_def power_add)
  have t: "t = (m + 16) * (8 * D) + 4 * D" by (simp add: t_def algebra_simps)
  have "132 * 1 \<le> t" "t \<le> 252 * 128" unfolding t_def using r D by (intro mult_mono; simp)+
  note tb = this
  have mag: "mulaw_mag t = 16 * seg + m"
    using mulaw_mag_cell [of "nat seg" m t] r D tb by (simp add: pw t algebra_simps)
  have "132 < t" if "128 < u"
  proof (cases "seg = 0")
    case True with that u r have "1 \<le> m" by auto
    with True show ?thesis by (simp add: t_def D_def)
  next
    case False
    then have "2 \<le> D" using r by (simp add: D_def self_le_power flip: power_Suc) 
    then have "132 * 2 \<le> t" unfolding t_def using r by (intro mult_mono) auto
    then show ?thesis by simp
  qed
  then show ?thesis
    using tb mag u assms by (auto simp: v mulaw_mag_of_def)
qed

section \<open>The two companding laws as one interface\<close>

text \<open>What the media paths rely on: a law is a compressor and an expander whose expansions are
  samples, whose codes lose nothing when they are expanded and compressed again, and whose
  quantisation error is bounded by a function of the sample's magnitude.\<close>

locale companding_law =
  fixes enc :: "sample \<Rightarrow> byte" and dec :: "byte \<Rightarrow> sample" and err :: "int \<Rightarrow> int"
  assumes dec_int16: "is_int16 (dec b)"
    and dec_enc_dec: "dec (enc (dec b)) = dec b"
    and quantisation: "is_int16 s \<Longrightarrow> \<bar>dec (enc s) - s\<bar> \<le> err \<bar>s\<bar>"
begin

lemma payload_int16: "\<forall>s \<in> set (map dec payload). is_int16 s"
  by (auto simp: dec_int16)

lemma second_generation:
  "map dec (map enc (map dec payload)) = map dec payload"
  by (simp add: dec_enc_dec)

lemma payload_error:
  "\<forall>s \<in> set pcm. is_int16 s \<Longrightarrow>
   list_all2 (\<lambda>s r. \<bar>r - s\<bar> \<le> err \<bar>s\<bar>) pcm (map dec (map enc pcm))"
  by (induction pcm) (auto simp: quantisation)

end

lemma alaw_decode_encode:
  "is_int16 s \<Longrightarrow> \<bar>decodeALaw (encodeALaw s) - s\<bar> \<le> max 8 (\<bar>s\<bar> div 32)"
proof -
  assume s: "is_int16 s"
  define p where "p = alaw_mag_of s"
  have p: "0 \<le> p" "p \<le> 32767" using mag_of_bounds(1) [OF s] by (simp_all add: p_def)
  obtain d t where dt: "alaw_value (alaw_mag p + 128) = t" "alaw_value (alaw_mag p) = - t"
    "t - d \<le> p" "p < t + d" "d \<le> max 8 (p div 32)"
    using alaw_mag_value [OF p] by blast
  have "p div 32 \<le> \<bar>s\<bar> div 32" by (rule zdiv_mono1) (auto simp: p_def alaw_mag_of_def)
  then show ?thesis
    using dt by (auto simp: decodeALaw_value encodeALaw_code [OF s] p_def alaw_mag_of_def split: if_splits)
qed

lemma mulaw_decode_encode:
  "is_int16 s \<Longrightarrow> \<bar>decodeMuLaw (encodeMuLaw s) - s\<bar> \<le> (\<bar>s\<bar> + 132) div 32"
proof -
  assume s: "is_int16 s"
  define p where "p = mulaw_mag_of s"
  have p: "132 \<le> p" "p \<le> 32767" using mag_of_bounds(2) by (simp_all add: p_def)
  obtain d t where dt: "mulaw_value (mulaw_mag p) = t - 132" "mulaw_value (mulaw_mag p + 128) = 132 - t"
    "t - d \<le> p" "p < t + d" "d \<le> p div 32" "d \<le> 512"
    using mulaw_mag_value [OF p] by blast
  have dec: "decodeMuLaw (encodeMuLaw s) = (if s < 0 then 132 - t else t - 132)"
    using dt by (simp add: decodeMuLaw_value encodeMuLaw_code [OF s] p_def)
  show ?thesis
  proof (cases "\<bar>s\<bar> \<le> 32635")
    case True
    then have "p = \<bar>s\<bar> + 132" by (simp add: p_def mulaw_mag_of_def)
    then show ?thesis using dt by (auto simp: dec)
  next
    case False
    then have "p = 32767" by (simp add: p_def mulaw_mag_of_def)
    moreover have "1024 \<le> (\<bar>s\<bar> + 132) div 32" using False by simp
    ultimately show ?thesis using dt s False by (auto simp: dec is_int16_def)
  qed
qed

lemma encode_decode_alaw: "encodeALaw (decodeALaw b) = b"
proof -
  have "uint (encodeALaw (decodeALaw b) XOR 0x55) = uint (b XOR 0x55)"
    using alaw_roundtrip_code [of "uint (b XOR 0x55)"] uint_lt2p [of "b XOR 0x55"]
    by (simp add: encodeALaw_code decodeALaw_value alaw_value_bounds)
  then have "encodeALaw (decodeALaw b) XOR 0x55 = b XOR 0x55" by (simp only: word_uint_eq_iff)
  from arg_cong [OF this, of "\<lambda>x. x XOR 0x55"] show ?thesis by (simp add: xor.assoc)
qed

lemma encode_decode_mulaw:
  "encodeMuLaw (decodeMuLaw b) = (if b = 0x7F then 0xFF else b)"
proof (cases "b = 0x7F")
  case True
  have "uint (NOT (encodeMuLaw 0)) = 0"
    by (simp add: encodeMuLaw_code mulaw_mag_of_def mulaw_mag_cell [of 0 0])
  then have "NOT (encodeMuLaw 0) = 0" by (simp add: word_uint_eq_iff)
  then have "encodeMuLaw 0 = NOT 0" by (metis bit.double_compl)
  then show ?thesis using True by (simp add: decodeMuLaw_value mulaw_value_def)
next
  case False
  have "uint (NOT b) \<noteq> 128"
  proof
    assume "uint (NOT b) = 128"
    then have "NOT b = 0x80" by (simp add: word_uint_eq_iff)
    then have "b = NOT 0x80" by (metis bit.double_compl)
    with False show False by simp
  qed
  then have "uint (NOT (encodeMuLaw (decodeMuLaw b))) = uint (NOT b)"
    using mulaw_roundtrip_code [of "uint (NOT b)"] uint_lt2p [of "NOT b"]
    by (simp add: encodeMuLaw_code decodeMuLaw_value mulaw_value_bounds)
  then have "NOT (encodeMuLaw (decodeMuLaw b)) = NOT b" by (simp only: word_uint_eq_iff)
  then show ?thesis using False by (metis bit.double_compl)
qed

lemma decode_is_int16: "is_int16 (decodeALaw b)" "is_int16 (decodeMuLaw b)"
  by (simp_all add: decodeALaw_value decodeMuLaw_value alaw_value_bounds mulaw_value_bounds)

lemma decodeMuLaw_zero: "decodeMuLaw 0x7F = 0" "decodeMuLaw 0xFF = 0"
  by (simp_all add: decodeMuLaw_value mulaw_value_def)

interpretation alaw: companding_law encodeALaw decodeALaw "\<lambda>a. max 8 (a div 32)"
  by unfold_locales
    (simp_all add: decode_is_int16 encode_decode_alaw alaw_decode_encode)

interpretation mulaw: companding_law encodeMuLaw decodeMuLaw "\<lambda>a. (a + 132) div 32"
  by unfold_locales
    (simp_all add: decode_is_int16 encode_decode_mulaw decodeMuLaw_zero mulaw_decode_encode)

section \<open>The transcoding tables\<close>

text \<open>The tables are checked entry by entry on integers; \<open>table_lookup\<close> brings the result back to
  byte values.\<close>

lemma table_lookup:
  assumes "list_all2 P [0..255] (map uint tbl)"
  shows "P (uint b) (uint (tbl ! unat (b :: byte)))"
proof -
  have b: "unat b < 256" using unsigned_less [of b, where ?'a = nat] by simp
  have "length [0..255] = length (map uint tbl)" using assms by (rule list_all2_lengthD)
  then have "unat b < length tbl" using b by simp
  moreover have "P ([0..255] ! unat b) (map uint tbl ! unat b)"
    using assms b by (intro list_all2_nthD [of P "[0..255]"]) simp_all
  moreover have "[0..255] ! unat b = uint b" using uint_lt2p [of b] by (subst nth_upto) simp_all
  ultimately show ?thesis by simp
qed

lemma uint_not: "uint (NOT b :: byte) = 255 - uint b"
proof -
  have "(- uint b - 1) mod 256 = (255 - uint b + (- 1) * 256) mod 256"
    by (rule arg_cong [of _ _ "\<lambda>x. x mod 256"]) simp
  also have "\<dots> = 255 - uint b"
    unfolding mod_mult_self1 using uint_lt2p [of b] unsigned_greater_eq [of b, where ?'a = int]
    by (intro mod_pos_pos_trivial) (simp, linarith)
  finally show ?thesis by (simp add: unsigned_not_eq take_bit_eq_mod not_int_def)
qed

lemma aLawToMuLaw_table:
  "list_all2 (\<lambda>b c. \<bar>mulaw_value (255 - c) - alaw_value (b XOR 0x55)\<bar>
       \<le> (\<bar>alaw_value (b XOR 0x55)\<bar> + 132) div 32 \<and> (c AND 0x80) = (b AND 0x80))
     [0..255] (map uint aLawToMuLaw)"
  by code_simp

lemma muLawToALaw_table:
  "list_all2 (\<lambda>b c. \<bar>alaw_value (c XOR 0x55) - mulaw_value (255 - b)\<bar>
       \<le> max 8 (\<bar>mulaw_value (255 - b)\<bar> div 32)) [0..255] (map uint muLawToALaw)"
  by code_simp

lemma aLawToMuLaw_entry:
  "\<bar>decodeMuLaw (aLawToMuLaw ! unat b) - decodeALaw b\<bar> \<le> (\<bar>decodeALaw b\<bar> + 132) div 32
     \<and> (aLawToMuLaw ! unat b AND 0x80) = (b AND 0x80)"
  using table_lookup [OF aLawToMuLaw_table, of b]
  by (simp add: decodeMuLaw_value decodeALaw_value uint_not unsigned_xor_eq word_uint_eq_iff unsigned_and_eq)

lemma muLawToALaw_entry:
  "\<bar>decodeALaw (muLawToALaw ! unat b) - decodeMuLaw b\<bar> \<le> max 8 (\<bar>decodeMuLaw b\<bar> div 32)"
  using table_lookup [OF muLawToALaw_table, of b]
  by (simp add: decodeMuLaw_value decodeALaw_value uint_not unsigned_xor_eq)

section \<open>Properties of the payload operations\<close>

lemma codec_names: "to_lower PCMA = PCMA" "to_lower PCMU = PCMU" "PCMA \<noteq> PCMU"
  by (simp_all add: PCMA_def PCMU_def to_lower_def lower_char_def)

lemma payload_ops:
  "DecodePayload p PCMA = map decodeALaw p" "DecodePayload p PCMU = map decodeMuLaw p"
  "EncodePCM s PCMA = map encodeALaw s" "EncodePCM s PCMU = map encodeMuLaw s"
  "ConvertPayload p PCMA PCMU = map (\<lambda>b. aLawToMuLaw ! unat b) p"
  "ConvertPayload p PCMU PCMA = map (\<lambda>b. muLawToALaw ! unat b) p"
  using codec_names by (simp_all add: DecodePayload_def EncodePCM_def ConvertPayload_def)

text \<open>Compressing 16-bit PCM and expanding it again changes every sample by at most a
  relative error of one thirty-second: for A-law at most \<open>max 8 (|s| div 32)\<close>, for mu-law at
  most \<open>(|s| + 132) div 32\<close>, on the whole 16-bit range including \<open>-32768\<close>.\<close>

lemma g711_quantisation:
  assumes "\<forall>s \<in> set pcm. is_int16 s"
  shows "list_all2 (\<lambda>s r. \<bar>r - s\<bar> \<le> max 8 (\<bar>s\<bar> div 32)) pcm
           (DecodePayload (EncodePCM pcm PCMA) PCMA)
     \<and> list_all2 (\<lambda>s r. \<bar>r - s\<bar> \<le> (\<bar>s\<bar> + 132) div 32) pcm
           (DecodePayload (EncodePCM pcm PCMU) PCMU)"
  unfolding payload_ops
  using alaw.payload_error [OF assms] mulaw.payload_error [OF assms] by blast+

text \<open>G.711 is stable after the first generation: A-law bytes survive expansion and
  compression unchanged; mu-law bytes do too, except that the second code of zero, \<open>0x7F\<close>,
  becomes \<open>0xFF\<close>, so that decoding, encoding and decoding again gives the same PCM.\<close>

lemma g711_second_generation:
  "EncodePCM (DecodePayload p PCMA) PCMA = p
     \<and> EncodePCM (DecodePayload p PCMU) PCMU = map (\<lambda>b. if b = 0x7F then 0xFF else b) p
     \<and> DecodePayload (EncodePCM (DecodePayload p PCMU) PCMU) PCMU = DecodePayload p PCMU"
  unfolding payload_ops
  by (simp_all only: mulaw.second_generation)
    (simp_all add: encode_decode_alaw encode_decode_mulaw map_idI)

text \<open>Transcoding a payload byte for byte with the tables keeps its length and stays within
  the quantisation error of the target law; A-law to mu-law also keeps every sign bit.  Between
  equal codecs, and for codec names it does not know, it is the identity.\<close>

lemma convert_payload_within_quantisation:
  "length (ConvertPayload p a b) = length p
     \<and> (to_lower a = to_lower b \<or> to_lower a \<notin> {PCMA, PCMU} \<or> to_lower b \<notin> {PCMA, PCMU} \<longrightarrow>
     ConvertPayload p a b = p)
     \<and> list_all2 (\<lambda>x y. \<bar>decodeMuLaw y - decodeALaw x\<bar> \<le> (\<bar>decodeALaw x\<bar> + 132) div 32
       \<and> (y AND 0x80) = (x AND 0x80)) p (ConvertPayload p PCMA PCMU)
     \<and> list_all2 (\<lambda>x y. \<bar>decodeALaw y - decodeMuLaw x\<bar> \<le> max 8 (\<bar>decodeMuLaw x\<bar> div 32))
     p (ConvertPayload p PCMU PCMA)"
proof (intro conjI impI)
  show "length (ConvertPayload p a b) = length p" by (simp add: ConvertPayload_def Let_def)
  show "to_lower a = to_lower b \<or> to_lower a \<notin> {PCMA, PCMU} \<or> to_lower b \<notin> {PCMA, PCMU} \<Longrightarrow>
     ConvertPayload p a b = p"
    unfolding ConvertPayload_def Let_def insert_iff empty_iff by metis
  show "list_all2 (\<lambda>x y. \<bar>decodeMuLaw y - decodeALaw x\<bar> \<le> (\<bar>decodeALaw x\<bar> + 132) div 32
       \<and> (y AND 0x80) = (x AND 0x80)) p (ConvertPayload p PCMA PCMU)"
    unfolding payload_ops list_all2_map2
    by (rule list_all2_refl) (rule aLawToMuLaw_entry)
  show "list_all2 (\<lambda>x y. \<bar>decodeALaw y - decodeMuLaw x\<bar> \<le> max 8 (\<bar>decodeMuLaw x\<bar> div 32))
     p (ConvertPayload p PCMU PCMA)"
    unfolding payload_ops list_all2_map2
    by (rule list_all2_refl) (rule muLawToALaw_entry)
qed

end
