(* ===== verification/Packetizer.thy ===== *)
theory Packetizer
  imports Rtp
begin

text \<open>
  Packet framing: \<^verbatim>\<open>internal/media/packetizer.go\<close>.  \<open>rtpRepacketizer\<close> turns the RTP payloads of
  the local FFmpeg stream into 20 ms packets for the SIP leg, \<open>g711Chunker\<close> does the same for
  the payloads of the SIP leg towards the RTSP backchannel.  Both are instances of the
  \<open>framing\<close> interface: no sample is lost, duplicated or reordered inside a continuous run.
\<close>

section \<open>State\<close>

definition g711SamplesPerPacket :: nat where
  "g711SamplesPerPacket = 160"

record rtpRepacketizer =
  initialized :: bool
  inputSSRC :: u32
  expectedInputTS :: u32
  sequence :: u16
  timestamp :: u32
  ssrc :: u32
  markerNext :: bool
  buffer :: "byte list"

text \<open>The zero value of the Go struct.\<close>

definition repacketizer_zero :: rtpRepacketizer where
  "repacketizer_zero =
     \<lparr>initialized = False, inputSSRC = 0, expectedInputTS = 0, sequence = 0, timestamp = 0,
      ssrc = 0, markerNext = False, buffer = []\<rparr>"

section \<open>Repacketizing\<close>

text \<open>The loop that cuts full packets off the buffer.\<close>

function emitPackets :: "byte \<Rightarrow> rtpRepacketizer \<Rightarrow> rtpRepacketizer \<times> packet list" where
  "emitPackets payloadType p =
     (if g711SamplesPerPacket \<le> length (buffer p)
      then let pkt = \<lparr>PayloadType = payloadType, Marker = markerNext p, Sequence = sequence p,
                      Timestamp = timestamp p, SSRC = ssrc p,
                      Payload = take g711SamplesPerPacket (buffer p)\<rparr>;
               (q, out) = emitPackets payloadType
                 (p\<lparr>buffer := drop g711SamplesPerPacket (buffer p), markerNext := False,
                    sequence := sequence p + 1,
                    timestamp := timestamp p + of_nat g711SamplesPerPacket\<rparr>)
           in (q, pkt # out)
      else (p, []))"
  by pat_completeness auto
termination
  by (relation "measure (\<lambda>(_, p). length (buffer p))") (auto simp: g711SamplesPerPacket_def)

declare emitPackets.simps [simp del]

definition continues :: "rtpRepacketizer \<Rightarrow> packet \<Rightarrow> bool" where
  "continues p i \<longleftrightarrow> initialized p \<and> SSRC i = inputSSRC p \<and> Timestamp i = expectedInputTS p"

definition resync :: "rtpRepacketizer \<Rightarrow> packet \<Rightarrow> rtpRepacketizer" where
  "resync p i =
     p\<lparr>initialized := True, inputSSRC := SSRC i, sequence := Sequence i, timestamp := Timestamp i,
       ssrc := SSRC i, markerNext := True, buffer := []\<rparr>"

definition Push :: "byte \<Rightarrow> rtpRepacketizer \<Rightarrow> packet \<Rightarrow> rtpRepacketizer \<times> packet list" where
  "Push payloadType p i =
     (if Payload i = [] then (p, [])
      else
        let p = (if \<not> initialized p \<or> SSRC i \<noteq> inputSSRC p \<or> Timestamp i \<noteq> expectedInputTS p
                 then resync p i else p);
            p = p\<lparr>expectedInputTS := Timestamp i + of_nat (length (Payload i)),
                  buffer := buffer p @ Payload i\<rparr>
        in emitPackets payloadType p)"

section \<open>Chunking\<close>

function cutChunks :: "byte list \<Rightarrow> byte list \<times> byte list list" where
  "cutChunks b =
     (if g711SamplesPerPacket \<le> length b
      then let (b', out) = cutChunks (drop g711SamplesPerPacket b)
           in (b', take g711SamplesPerPacket b # out)
      else (b, []))"
  by pat_completeness auto
termination
  by (relation "measure length") (auto simp: g711SamplesPerPacket_def)

declare cutChunks.simps [simp del]

definition chunker_push :: "byte list \<Rightarrow> byte list \<Rightarrow> byte list \<times> byte list list" where
  "chunker_push buf payload = (if payload = [] then (buf, []) else cutChunks (buf @ payload))"

section \<open>The framing interface\<close>

text \<open>A framer keeps a buffer of pending samples.  As long as every input continues the run
  (\<open>ok\<close>), the frames it hands out and the samples it still holds are exactly the samples it was
  given, every frame has the same size, and less than one frame is pending.\<close>

fun run_pushes :: "('s \<Rightarrow> 'i \<Rightarrow> 's \<times> 'o list) \<Rightarrow> 's \<Rightarrow> 'i list \<Rightarrow> 's \<times> 'o list" where
  "run_pushes push s [] = (s, [])"
| "run_pushes push s (i # is) =
     (let (s', os) = push s i; (s'', os') = run_pushes push s' is in (s'', os @ os'))"

fun all_ok :: "('s \<Rightarrow> 'i \<Rightarrow> 's \<times> 'o list) \<Rightarrow> ('s \<Rightarrow> 'i \<Rightarrow> bool) \<Rightarrow> 's \<Rightarrow> 'i list \<Rightarrow> bool" where
  "all_ok push ok s [] = True"
| "all_ok push ok s (i # is) = (ok s i \<and> all_ok push ok (fst (push s i)) is)"

locale framing =
  fixes push :: "'s \<Rightarrow> 'i \<Rightarrow> 's \<times> 'o list"
    and pending :: "'s \<Rightarrow> byte list"
    and input_bytes :: "'i \<Rightarrow> byte list"
    and output_bytes :: "'o \<Rightarrow> byte list"
    and ok :: "'s \<Rightarrow> 'i \<Rightarrow> bool"
    and frame :: nat
  assumes conserve: "ok s i \<Longrightarrow> push s i = (s', os) \<Longrightarrow>
      concat (map output_bytes os) @ pending s' = pending s @ input_bytes i"
    and frame_size: "push s i = (s', os) \<Longrightarrow> f \<in> set os \<Longrightarrow> length (output_bytes f) = frame"
    and rest_small: "length (pending s) < frame \<Longrightarrow> push s i = (s', os) \<Longrightarrow>
      length (pending s') < frame"
begin

lemma run_conserve:
  "all_ok push ok s is \<Longrightarrow> run_pushes push s is = (s', os) \<Longrightarrow>
   concat (map output_bytes os) @ pending s' = pending s @ concat (map input_bytes is)"
proof (induction "is" arbitrary: s os)
  case (Cons i "is")
  obtain s1 os1 where p: "push s i = (s1, os1)" by fastforce
  obtain s2 os2 where r: "run_pushes push s1 is = (s2, os2)" by fastforce
  have "concat (map output_bytes os2) @ pending s' = pending s1 @ concat (map input_bytes is)"
    using Cons p r by simp
  moreover have "concat (map output_bytes os1) @ pending s1 = pending s @ input_bytes i"
    using Cons.prems p by (intro conserve) auto
  ultimately show ?case using Cons.prems p r by (metis (no_types, lifting) append.assoc concat.simps(2)
        concat_append list.simps(9) map_append run_pushes.simps(2) case_prod_conv prod.inject)
qed simp

lemma run_frame_size:
  "run_pushes push s is = (s', os) \<Longrightarrow> f \<in> set os \<Longrightarrow> length (output_bytes f) = frame"
  by (induction "is" arbitrary: s os) (auto split: prod.splits dest: frame_size)

lemma run_rest_small:
  "length (pending s) < frame \<Longrightarrow> run_pushes push s is = (s', os) \<Longrightarrow> length (pending s') < frame"
  by (induction "is" arbitrary: s os) (auto split: prod.splits dest: rest_small)

text \<open>The frames are determined by the input alone: they are its prefix cut in equal parts.\<close>

lemma concat_frames_nth:
  assumes "\<forall>f \<in> set os. length (output_bytes f) = frame" "k < length os"
  shows "output_bytes (os ! k) = take frame (drop (k * frame) (concat (map output_bytes os) @ rest))"
  using assms
proof (induction os arbitrary: k)
  case (Cons f os)
  show ?case
  proof (cases k)
    case (Suc j)
    then have "output_bytes (os ! j)
        = take frame (drop (j * frame) (concat (map output_bytes os) @ rest))"
      using Cons by simp
    moreover have "length (output_bytes f) = frame" using Cons.prems by simp
    ultimately show ?thesis using Suc by simp
  qed (use Cons.prems in simp)
qed simp

lemma run_frames_nth:
  assumes "all_ok push ok s is" "run_pushes push s is = (s', os)" "k < length os"
  shows "output_bytes (os ! k)
    = take frame (drop (k * frame) (pending s @ concat (map input_bytes is)))"
  using concat_frames_nth [of os k "pending s'"] run_frame_size [OF assms(2)] assms
  by (simp add: run_conserve [symmetric])

lemma run_frames_count:
  assumes "all_ok push ok s is" "run_pushes push s is = (s', os)" "length (pending s) < frame"
  shows "length os = length (pending s @ concat (map input_bytes is)) div frame"
proof -
  have len: "length (concat (map output_bytes os)) = length os * frame"
    using run_frame_size [OF assms(2)] by (induction os) auto
  have eq: "concat (map output_bytes os) @ pending s' = pending s @ concat (map input_bytes is)"
    using assms by (intro run_conserve)
  have "length (pending s @ concat (map input_bytes is)) = length os * frame + length (pending s')"
    unfolding eq [symmetric] by (simp add: len)
  then show ?thesis using run_rest_small [OF assms(3,2)] by simp
qed

end

section \<open>The chunker and the repacketizer are framers\<close>

lemma cutChunks_spec:
  "cutChunks b = (b', out) \<Longrightarrow>
   concat out @ b' = b \<and> (\<forall>f \<in> set out. length f = g711SamplesPerPacket)
   \<and> length b' < g711SamplesPerPacket"
proof (induction b arbitrary: b' out rule: cutChunks.induct)
  case (1 b)
  show ?case
  proof (cases "g711SamplesPerPacket \<le> length b")
    case True
    obtain b1 out1 where r: "cutChunks (drop g711SamplesPerPacket b) = (b1, out1)" by fastforce
    have "out = take g711SamplesPerPacket b # out1" "b' = b1"
      using 1(2) True r by (simp_all add: cutChunks.simps [of b])
    then show ?thesis using 1(1) [OF True r] True by auto
  next
    case False
    then show ?thesis using 1(2) by (simp add: cutChunks.simps [of b])
  qed
qed

interpretation chunker: framing chunker_push "\<lambda>b. b" "\<lambda>p. p" "\<lambda>f. f" "\<lambda>_ _. True"
  g711SamplesPerPacket
  by unfold_locales (auto simp: chunker_push_def dest: cutChunks_spec split: if_splits)

text \<open>The closed form of the packet loop: number, contents and numbering of the packets cut off,
  and the state it leaves.\<close>

definition nth_packet :: "byte \<Rightarrow> rtpRepacketizer \<Rightarrow> nat \<Rightarrow> byte list \<Rightarrow> packet" where
  "nth_packet payloadType p k pl =
     \<lparr>PayloadType = payloadType, Marker = (markerNext p \<and> k = 0),
      Sequence = sequence p + of_nat k,
      Timestamp = timestamp p + of_nat (k * g711SamplesPerPacket), SSRC = ssrc p, Payload = pl\<rparr>"

definition numbered :: "byte \<Rightarrow> rtpRepacketizer \<Rightarrow> packet list \<Rightarrow> bool" where
  "numbered payloadType p os \<longleftrightarrow>
     (\<forall>k < length os. os ! k = nth_packet payloadType p k (Payload (os ! k)))"

definition advanced :: "rtpRepacketizer \<Rightarrow> nat \<Rightarrow> rtpRepacketizer \<Rightarrow> bool" where
  "advanced p n q \<longleftrightarrow>
     sequence q = sequence p + of_nat n \<and> timestamp q = timestamp p + of_nat (n * g711SamplesPerPacket)
     \<and> ssrc q = ssrc p \<and> markerNext q = (markerNext p \<and> n = 0)"

lemma advanced_zero [simp]: "advanced p 0 p"
  by (simp add: advanced_def)

lemma numbered_Nil [simp]: "numbered payloadType p []"
  by (simp add: numbered_def)

lemma advanced_trans:
  "advanced p n q \<Longrightarrow> advanced q m r \<Longrightarrow> advanced p (n + m) r"
  by (auto simp: advanced_def algebra_simps)

lemma numbered_append:
  assumes "numbered t p os" "advanced p (length os) q" "numbered t q os'"
  shows "numbered t p (os @ os')"
proof -
  have "nth_packet t q (k - length os) pl = nth_packet t p k pl" if "length os \<le> k" for k pl
  proof -
    obtain j where "k = length os + j" using \<open>length os \<le> k\<close> by (auto simp: le_iff_add)
    then show ?thesis using assms(2)
      by (auto simp: nth_packet_def advanced_def algebra_simps)
  qed
  moreover have "os' ! (k - length os) = nth_packet t q (k - length os) (Payload (os' ! (k - length os)))"
    if "\<not> k < length os" "k < length os + length os'" for k
    using that assms(3) by (simp add: numbered_def)
  ultimately show ?thesis using assms(1) by (simp add: numbered_def nth_append)
qed

lemma emitPackets_spec:
  "emitPackets t p = (q, out) \<Longrightarrow>
   concat (map Payload out) @ buffer q = buffer p
   \<and> (\<forall>f \<in> set out. length (Payload f) = g711SamplesPerPacket)
   \<and> length (buffer q) < g711SamplesPerPacket
   \<and> initialized q = initialized p \<and> inputSSRC q = inputSSRC p
   \<and> expectedInputTS q = expectedInputTS p
   \<and> numbered t p out \<and> advanced p (length out) q"
proof (induction t p arbitrary: q out rule: emitPackets.induct)
  case (1 t p)
  show ?case
  proof (cases "g711SamplesPerPacket \<le> length (buffer p)")
    case True
    define pkt where "pkt = \<lparr>PayloadType = t, Marker = markerNext p, Sequence = sequence p,
      Timestamp = timestamp p, SSRC = ssrc p, Payload = take g711SamplesPerPacket (buffer p)\<rparr>"
    define p1 where "p1 = p\<lparr>buffer := drop g711SamplesPerPacket (buffer p), markerNext := False,
      sequence := sequence p + 1, timestamp := timestamp p + of_nat g711SamplesPerPacket\<rparr>"
    obtain q1 out1 where r: "emitPackets t p1 = (q1, out1)" by fastforce
    have out: "out = pkt # out1" "q = q1"
      using 1(2) True r by (simp_all add: emitPackets.simps [of t p] pkt_def p1_def)
    note ih = 1(1) [OF True pkt_def r [unfolded p1_def]]
    have adv: "advanced p (length [pkt]) p1" by (simp add: advanced_def p1_def)
    have num: "numbered t p [pkt]" by (simp add: numbered_def nth_packet_def pkt_def)
    have "numbered t p ([pkt] @ out1)"
      using ih by (intro numbered_append [OF num adv]) (simp add: p1_def)
    moreover have "advanced p (length [pkt] + length out1) q1"
      using ih by (intro advanced_trans [OF adv]) (simp add: p1_def)
    ultimately show ?thesis using ih True by (simp add: out pkt_def)
  next
    case False
    then show ?thesis using 1(2) by (simp add: emitPackets.simps [of t p])
  qed
qed

lemma Push_continues:
  assumes "continues p i" "Push t p i = (q, os)"
  shows "concat (map Payload os) @ buffer q = buffer p @ Payload i"
    and "numbered t p os" and "advanced p (length os) q"
    and "expectedInputTS q = Timestamp i + of_nat (length (Payload i))"
    and "initialized q" and "inputSSRC q = SSRC i"
proof -
  have "os = [] \<and> q = p" if "Payload i = []" using assms that by (simp add: Push_def)
  moreover have "emitPackets t (p\<lparr>expectedInputTS := Timestamp i + of_nat (length (Payload i)),
      buffer := buffer p @ Payload i\<rparr>) = (q, os)" if "Payload i \<noteq> []"
    using assms that by (simp add: Push_def continues_def Let_def)
  ultimately show "concat (map Payload os) @ buffer q = buffer p @ Payload i"
    "numbered t p os" "advanced p (length os) q"
    "expectedInputTS q = Timestamp i + of_nat (length (Payload i))" "initialized q" "inputSSRC q = SSRC i"
    using assms(1) by (cases "Payload i = []"; force dest: emitPackets_spec
        simp: numbered_def advanced_def nth_packet_def continues_def)+
qed

lemma Push_frames:
  assumes "Push t p i = (q, os)"
  shows "\<forall>f \<in> set os. length (Payload f) = g711SamplesPerPacket"
    and "length (buffer p) < g711SamplesPerPacket \<Longrightarrow> length (buffer q) < g711SamplesPerPacket"
  using assms by (auto simp: Push_def Let_def dest: emitPackets_spec split: if_splits)

interpretation repacketizer: framing "Push t" buffer Payload Payload continues g711SamplesPerPacket for t
  by unfold_locales (auto dest: Push_continues(1) Push_frames)

lemma run_numbered:
  "all_ok (Push t) continues p is \<Longrightarrow> run_pushes (Push t) p is = (q, os) \<Longrightarrow>
   numbered t p os \<and> advanced p (length os) q"
proof (induction "is" arbitrary: p os)
  case (Cons i "is")
  obtain p1 os1 where p: "Push t p i = (p1, os1)" by fastforce
  obtain q2 os2 where r: "run_pushes (Push t) p1 is = (q2, os2)" by fastforce
  have ok: "continues p i" "all_ok (Push t) continues p1 is" and eq: "os = os1 @ os2" "q2 = q"
    using Cons.prems p r by auto
  have "numbered t p1 os2 \<and> advanced p1 (length os2) q" using Cons.IH [OF ok(2)] r eq by simp
  then show ?case
    using Push_continues(2,3) [OF ok(1) p] by (auto simp: eq intro: numbered_append advanced_trans)
qed simp

section \<open>Properties\<close>

text \<open>A contiguous run of input packets, read off the packets alone.\<close>

fun contiguous :: "packet \<Rightarrow> packet list \<Rightarrow> bool" where
  "contiguous i [] = True"
| "contiguous i (j # js) =
     (SSRC j = SSRC i \<and> Timestamp j = Timestamp i + of_nat (length (Payload i)) \<and> Payload j \<noteq> []
      \<and> contiguous j js)"

definition synced :: "rtpRepacketizer \<Rightarrow> packet \<Rightarrow> rtpRepacketizer" where
  "synced p i = (resync p i)\<lparr>expectedInputTS := Timestamp i\<rparr>"

lemma synced_continues: "continues (synced p i) i"
  by (simp add: continues_def synced_def resync_def)

lemma Push_resync: "\<not> continues p i \<Longrightarrow> Payload i \<noteq> [] \<Longrightarrow> Push t p i = Push t (synced p i) i"
  by (simp add: Push_def continues_def synced_def resync_def Let_def)

lemma contiguous_all_ok:
  "contiguous i is \<Longrightarrow> continues p i \<Longrightarrow> Push t p i = (q, os) \<Longrightarrow> all_ok (Push t) continues q is"
proof (induction "is" arbitrary: i p q os)
  case (Cons j js)
  have "continues q j"
    using Push_continues(4-6) [OF Cons.prems(2,3)] Cons.prems(1) by (simp add: continues_def)
  moreover obtain q' os' where q': "Push t q j = (q', os')" by fastforce
  ultimately show ?case using Cons.IH [OF _ _ q'] Cons.prems(1) by simp
qed simp

lemma repacketizer_run:
  assumes "Payload i \<noteq> []" "\<not> continues p i" "contiguous i is"
    and run: "run_pushes (Push t) p (i # is) = (q, os)"
  defines "data \<equiv> concat (map Payload (i # is))"
  shows "length os = length data div 160"
    and "\<forall>k < length os. os ! k =
      \<lparr>PayloadType = t, Marker = (k = 0), Sequence = Sequence i + of_nat k,
       Timestamp = Timestamp i + of_nat (k * 160), SSRC = SSRC i,
       Payload = take 160 (drop (k * 160) data)\<rparr>"
    and "concat (map Payload os) @ buffer q = data"
proof -
  let ?p = "synced p i"
  obtain q1 os1 where p1: "Push t ?p i = (q1, os1)" by fastforce
  have run': "run_pushes (Push t) ?p (i # is) = (q, os)"
    using run Push_resync [OF assms(2,1), of t] by simp
  have ok: "all_ok (Push t) continues ?p (i # is)"
    using synced_continues contiguous_all_ok [OF assms(3) synced_continues p1] p1 by simp
  have nil: "buffer ?p = []" "length (buffer ?p) < g711SamplesPerPacket"
    by (simp_all add: synced_def resync_def g711SamplesPerPacket_def)
  show "length os = length data div 160"
    using repacketizer.run_frames_count [OF ok run' nil(2)] nil
    by (simp add: data_def g711SamplesPerPacket_def)
  show "concat (map Payload os) @ buffer q = data"
    using repacketizer.run_conserve [OF ok run'] nil by (simp add: data_def)
  show "\<forall>k < length os. os ! k =
      \<lparr>PayloadType = t, Marker = (k = 0), Sequence = Sequence i + of_nat k,
       Timestamp = Timestamp i + of_nat (k * 160), SSRC = SSRC i,
       Payload = take 160 (drop (k * 160) data)\<rparr>"
    using run_numbered [OF ok run'] repacketizer.run_frames_nth [OF ok run'] nil
    by (simp add: numbered_def nth_packet_def synced_def resync_def data_def g711SamplesPerPacket_def)
qed

text \<open>C38.  Repacketizing a contiguous run of RTP payloads of any sizes, started by a packet that
  does not continue the previous run, gives exactly the 20 ms frames of the concatenated
  payloads, in order, numbered consecutively from the first packet's sequence number and
  timestamp (both wrapping), with the marker bit on the first packet only; what is left in the
  buffer is the incomplete last frame.\<close>

theorem repacketizer_stream:
  assumes "Payload i \<noteq> []" "\<not> continues p i" "contiguous i is"
    and run: "run_pushes (Push t) p (i # is) = (q, os)"
  defines "data \<equiv> concat (map Payload (i # is))"
  shows "length os = length data div 160
     \<and> (\<forall>k < length os. os ! k =
      \<lparr>PayloadType = t, Marker = (k = 0), Sequence = Sequence i + of_nat k,
       Timestamp = Timestamp i + of_nat (k * 160), SSRC = SSRC i,
       Payload = take 160 (drop (k * 160) data)\<rparr>)
     \<and> concat (map Payload os) @ buffer q = data"
  unfolding data_def by (intro conjI repacketizer_run [OF assms(1-4)])

definition sample_packet :: "u32 \<Rightarrow> nat \<Rightarrow> packet" where
  "sample_packet ts n = \<lparr>PayloadType = 0, Marker = False, Sequence = 0xFFFF, Timestamp = ts,
     SSRC = 7, Payload = replicate n 1\<rparr>"

theorem repacketizer_stream_witness:
  "length (snd (run_pushes (Push 8) repacketizer_zero
     [sample_packet 0xFFFFFFFF 100, sample_packet 99 150])) = 1"
proof -
  obtain q os where run: "run_pushes (Push 8) repacketizer_zero
     [sample_packet 0xFFFFFFFF 100, sample_packet 99 150] = (q, os)" by fastforce
  have "length os = length (concat (map Payload [sample_packet 0xFFFFFFFF 100, sample_packet 99 150])) div 160"
    by (rule repacketizer_stream [OF _ _ _ run, THEN conjunct1])
      (simp_all add: sample_packet_def continues_def repacketizer_zero_def)
  then have "length os = 1" by (simp add: sample_packet_def)
  then show ?thesis unfolding run by simp
qed

end
