(* ===== verification/MediaTiming.thy ===== *)
theory MediaTiming
  imports Packetizer
begin

unbundle bit_operations_syntax

text \<open>
  The small stateful helpers of a media session: the RFC 4733 telephone-event detector
  (\<^verbatim>\<open>internal/media/dtmf.go\<close>), the RTP media clock (\<^verbatim>\<open>rtp_clock.go\<close>), the inactivity watchdog
  (\<^verbatim>\<open>rtp_watchdog.go\<close>) and the pre-answer drain of the SIP RTP socket (\<^verbatim>\<open>preanswer.go\<close>).
  A \<open>time.Time\<close> is an integer number of nanoseconds since Go's zero time, so that \<open>IsZero\<close> is
  equality with \<open>0\<close>; a \<open>time.Duration\<close> is an integer number of nanoseconds.
\<close>

type_synonym time = int
type_synonym duration = int

section \<open>Telephone events\<close>

definition completedTelephoneEventWindow :: nat where
  "completedTelephoneEventWindow = 64"

record DTMFEvent =
  Digit :: string
  DurationMS :: int
  ReceivedAt :: time

record telephoneEventKey =
  key_ssrc :: u32
  key_timestamp :: u32
  key_event :: byte

record telephoneEventDetector =
  clockRate :: int
  completed :: "telephoneEventKey set"
  order :: "telephoneEventKey list"

definition newTelephoneEventDetector :: "int \<Rightarrow> telephoneEventDetector" where
  "newTelephoneEventDetector rate = \<lparr>clockRate = rate, completed = {}, order = []\<rparr>"

definition dtmfDigit :: "byte \<Rightarrow> string option" where
  "dtmfDigit event =
     (if event \<le> 9 then Some [char_of (48 + unat event)]
      else if event = 10 then Some ''*''
      else if event = 11 then Some ''#''
      else if 12 \<le> event \<and> event \<le> 15 then Some [char_of (65 + unat event - 12)]
      else None)"

definition event_key :: "packet \<Rightarrow> telephoneEventKey" where
  "event_key p = \<lparr>key_ssrc = SSRC p, key_timestamp = Timestamp p, key_event = Payload p ! 0\<rparr>"

text \<open>\<open>Push\<close>; the time stamp's conversion to UTC keeps the instant.\<close>

definition detector_push ::
  "telephoneEventDetector \<Rightarrow> packet \<Rightarrow> time \<Rightarrow> telephoneEventDetector \<times> DTMFEvent option" where
  "detector_push d packet receivedAt =
     (if clockRate d \<le> 0 \<or> length (Payload packet) < 4 then (d, None)
      else
        let eventCode = Payload packet ! 0 in
        case dtmfDigit eventCode of
          None \<Rightarrow> (d, None)
        | Some digit \<Rightarrow>
            if Payload packet ! 1 AND 0x40 \<noteq> 0 \<or> Payload packet ! 1 AND 0x80 = 0 then (d, None)
            else
              let duration = of_be16 (Payload packet ! 2) (Payload packet ! 3) in
              if duration = 0 then (d, None)
              else
                let key = event_key packet in
                if key \<in> completed d then (d, None)
                else
                  let d = d\<lparr>completed := insert key (completed d), order := order d @ [key]\<rparr>;
                      d = (if completedTelephoneEventWindow < length (order d)
                           then d\<lparr>completed := completed d - {hd (order d)}, order := tl (order d)\<rparr>
                           else d);
                      durationMS = (uint duration * 1000 + clockRate d div 2) div clockRate d
                  in (d, Some \<lparr>Digit = digit, DurationMS = durationMS, ReceivedAt = receivedAt\<rparr>))"

text \<open>A call on a nil detector does nothing.\<close>

definition detector_push_ptr ::
  "telephoneEventDetector option \<Rightarrow> packet \<Rightarrow> time \<Rightarrow> telephoneEventDetector option \<times> DTMFEvent option"
where
  "detector_push_ptr dp packet receivedAt =
     (case dp of
        None \<Rightarrow> (None, None)
      | Some d \<Rightarrow> (case detector_push d packet receivedAt of (d', e) \<Rightarrow> (Some d', e)))"

text \<open>A session's run of the detector, with the keys of the events it reported.\<close>

fun detector_run ::
  "telephoneEventDetector \<Rightarrow> (packet \<times> time) list \<Rightarrow> telephoneEventDetector \<times> telephoneEventKey list"
where
  "detector_run d [] = (d, [])"
| "detector_run d ((p, t) # ps) =
     (case detector_push d p t of
        (d', e) \<Rightarrow> (case detector_run d' ps of
          (d'', ks) \<Rightarrow> (d'', (case e of None \<Rightarrow> ks | Some _ \<Rightarrow> event_key p # ks))))"

section \<open>The media clock\<close>

definition g711SampleRate :: int where
  "g711SampleRate = 8000"

definition time_second :: duration where
  "time_second = 1000000000"

record rtpMediaClock =
  clk_initialized :: bool
  baseTS :: u32
  baseAt :: time

definition clock_zero :: rtpMediaClock where
  "clock_zero = \<lparr>clk_initialized = False, baseTS = 0, baseAt = 0\<rparr>"

definition At :: "rtpMediaClock \<Rightarrow> packet \<Rightarrow> time \<Rightarrow> rtpMediaClock \<times> time" where
  "At c pkt arrival =
     (if \<not> clk_initialized c \<or> Marker pkt
      then (\<lparr>clk_initialized = True, baseTS = Timestamp pkt, baseAt = arrival\<rparr>, arrival)
      else let delta = sint (Timestamp pkt - baseTS c)
           in (c, baseAt c + go_div (delta * time_second) g711SampleRate))"

fun clock_run :: "rtpMediaClock \<Rightarrow> (packet \<times> time) list \<Rightarrow> time list" where
  "clock_run c [] = []"
| "clock_run c ((p, a) # ps) = (case At c p a of (c', t) \<Rightarrow> t # clock_run c' ps)"

section \<open>The inactivity watchdog\<close>

record rtpWatchdog =
  timeout :: duration
  last_mark :: time

datatype watchdog_error = ErrRTPInactivity duration

definition newRTPWatchdog :: "duration \<Rightarrow> time \<Rightarrow> rtpWatchdog" where
  "newRTPWatchdog t now = \<lparr>timeout = t, last_mark = now\<rparr>"

definition watchdog_mark :: "rtpWatchdog option \<Rightarrow> time \<Rightarrow> rtpWatchdog option" where
  "watchdog_mark w now = map_option (\<lambda>w. w\<lparr>last_mark := now\<rparr>) w"

definition watchdog_check :: "rtpWatchdog option \<Rightarrow> time \<Rightarrow> watchdog_error option" where
  "watchdog_check w0 now =
     (case w0 of
        None \<Rightarrow> None
      | Some w \<Rightarrow>
          if timeout w \<le> 0 \<or> last_mark w = 0 \<or> now - last_mark w < timeout w then None
          else Some (ErrRTPInactivity (timeout w)))"

section \<open>Draining the socket before the answer\<close>

datatype 'e read_result = Datagram | Read_timeout | Read_failed 'e

definition preAnswerDrainLimit :: nat where
  "preAnswerDrainLimit = 4096"

text \<open>The environment of the drain is what each \<open>SetReadDeadline\<close> and each \<open>ReadFromUDP\<close> returns;
  the result is the count, whether the limit was reached, and the error.\<close>

function drain_loop ::
  "(nat \<Rightarrow> 'e option) \<Rightarrow> (nat \<Rightarrow> 'e read_result) \<Rightarrow> nat \<Rightarrow> nat \<times> bool \<times> 'e option" where
  "drain_loop deadline reads discarded =
     (if discarded < preAnswerDrainLimit
      then (case deadline discarded of
              Some e \<Rightarrow> (discarded, False, Some e)
            | None \<Rightarrow>
                (case reads discarded of
                   Read_timeout \<Rightarrow> (discarded, False, None)
                 | Read_failed e \<Rightarrow> (discarded, False, Some e)
                 | Datagram \<Rightarrow> drain_loop deadline reads (discarded + 1)))
      else (discarded, True, None))"
  by pat_completeness auto
termination
  by (relation "measure (\<lambda>(_, _, n). preAnswerDrainLimit - n)") auto

declare drain_loop.simps [simp del]

text \<open>The deferred reset of the deadline reports its own error only if there was none.\<close>

definition discardQueuedSIPRTP ::
  "(nat \<Rightarrow> 'e option) \<Rightarrow> (nat \<Rightarrow> 'e read_result) \<Rightarrow> 'e option \<Rightarrow> nat \<times> bool \<times> 'e option" where
  "discardQueuedSIPRTP deadline reads reset =
     (case drain_loop deadline reads 0 of
        (n, limit, err) \<Rightarrow> (n, limit, (case err of None \<Rightarrow> reset | Some e \<Rightarrow> Some e)))"

section \<open>Lemmas\<close>

definition lastn :: "nat \<Rightarrow> 'a list \<Rightarrow> 'a list" where
  "lastn n xs = drop (length xs - n) xs"

lemma length_lastn [simp]: "length (lastn n xs) = min n (length xs)"
  by (simp add: lastn_def)

lemma lastn_snoc:
  "0 < n \<Longrightarrow> lastn n (xs @ [x]) =
     (if length (lastn n xs) < n then lastn n xs @ [x] else tl (lastn n xs) @ [x])"
  by (auto simp: lastn_def Suc_diff_le drop_Suc tl_drop)

definition terminal_event :: "packet \<Rightarrow> bool" where
  "terminal_event p \<longleftrightarrow> 4 \<le> length (Payload p) \<and> Payload p ! 0 \<le> 15
     \<and> Payload p ! 1 AND 0x40 = 0 \<and> Payload p ! 1 AND 0x80 \<noteq> 0
     \<and> of_be16 (Payload p ! 2) (Payload p ! 3) \<noteq> 0"

lemma dtmfDigit_iff: "dtmfDigit e \<noteq> None \<longleftrightarrow> e \<le> 15"
  by (auto simp: dtmfDigit_def word_le_nat_alt word_unat_eq_iff)

text \<open>The detector's invariant relative to the keys reported so far: the window is the last 64 of
  them, without duplicates, and the lookup set agrees with it.\<close>

definition window_inv :: "telephoneEventDetector \<Rightarrow> telephoneEventKey list \<Rightarrow> bool" where
  "window_inv d ks \<longleftrightarrow>
     order d = lastn completedTelephoneEventWindow ks \<and> completed d = set (order d) \<and> distinct (order d)"

lemma detector_push_reports:
  "0 < clockRate d \<Longrightarrow>
   snd (detector_push d p t) \<noteq> None \<longleftrightarrow> terminal_event p \<and> event_key p \<notin> completed d"
  using dtmfDigit_iff [of "Payload p ! 0"]
  by (auto simp: detector_push_def terminal_event_def Let_def not_less split: option.splits)

lemma detector_push_silent: "snd (detector_push d p t) = None \<Longrightarrow> fst (detector_push d p t) = d"
  by (auto simp: detector_push_def Let_def split: option.splits if_splits)

lemma detector_push_remembers:
  assumes "snd (detector_push d p t) \<noteq> None"
  shows "event_key p \<notin> completed d"
    and "order (fst (detector_push d p t)) =
      (if length (order d) < completedTelephoneEventWindow then order d @ [event_key p]
       else tl (order d @ [event_key p]))"
    and "completed (fst (detector_push d p t)) =
      (if length (order d) < completedTelephoneEventWindow then insert (event_key p) (completed d)
       else insert (event_key p) (completed d) - {hd (order d @ [event_key p])})"
    and "clockRate (fst (detector_push d p t)) = clockRate d"
  using assms by (auto simp: detector_push_def Let_def split: option.splits if_splits)

lemma window_inv_push:
  assumes "window_inv d ks" "snd (detector_push d p t) \<noteq> None"
  shows "window_inv (fst (detector_push d p t)) (ks @ [event_key p])"
proof -
  let ?W = completedTelephoneEventWindow
  have o: "order d = lastn ?W ks" "completed d = set (order d)" "distinct (order d)"
    and fresh: "event_key p \<notin> completed d"
    using assms(1) detector_push_remembers(1) [OF assms(2)] unfolding window_inv_def by metis+
  have W: "0 < ?W" by (simp add: completedTelephoneEventWindow_def)
  show ?thesis
  proof (cases "length (order d) < ?W")
    case True
    then have "order (fst (detector_push d p t)) = order d @ [event_key p]"
      "completed (fst (detector_push d p t)) = insert (event_key p) (set (order d))"
      using detector_push_remembers(2,3) [OF assms(2)] unfolding o(2) by (simp_all only: if_True)
    moreover have "lastn ?W (ks @ [event_key p]) = order d @ [event_key p]"
      using True unfolding o(1) by (simp only: lastn_snoc [OF W] if_True)
    ultimately show ?thesis using o fresh by (simp add: window_inv_def)
  next
    case False
    then obtain k os where k: "order d = k # os" using W by (cases "order d") auto
    then have "order (fst (detector_push d p t)) = os @ [event_key p]"
      "completed (fst (detector_push d p t)) = insert (event_key p) (set os)"
      using False o fresh detector_push_remembers(2,3) [OF assms(2)] by auto
    moreover have "lastn ?W (ks @ [event_key p]) = os @ [event_key p]"
      using False k o(1) by (auto simp: lastn_snoc [OF W])
    ultimately show ?thesis using k o fresh by (simp add: window_inv_def)
  qed
qed

lemma detector_run_inv:
  "window_inv d ks \<Longrightarrow> 0 < clockRate d \<Longrightarrow> detector_run d ps = (d', ks') \<Longrightarrow>
   window_inv d' (ks @ ks') \<and> clockRate d' = clockRate d"
proof (induction ps arbitrary: d ks ks')
  case (Cons x ps)
  obtain p t where x: "x = (p, t)" by fastforce
  obtain d1 e where e: "detector_push d p t = (d1, e)" by fastforce
  obtain d2 ks2 where r: "detector_run d1 ps = (d2, ks2)" by fastforce
  show ?case
  proof (cases e)
    case None
    then have "d1 = d" using detector_push_silent [of d p t] e by simp
    then show ?thesis using Cons x e r None by auto
  next
    case (Some ev)
    then have "window_inv d1 (ks @ [event_key p])" "clockRate d1 = clockRate d"
      using window_inv_push [OF Cons.prems(1), of p t] detector_push_remembers(4) [of d p t] e by auto
    moreover have "d2 = d'" "ks' = event_key p # ks2" using Cons.prems x e r Some by auto
    ultimately show ?thesis using Cons.IH [of d1 "ks @ [event_key p]" ks2] Cons.prems(2) r by simp
  qed
qed simp

section \<open>Properties\<close>

text \<open> Duplicate suppression of telephone events.  After any packets, the detector's memory is
  exactly the last 64 events it reported (each at most once), and the next packet is reported if
  and only if it is a terminal packet (event code at most 15, end bit set, reserved bit clear,
  non-zero duration) whose SSRC, timestamp and event code are not among those: the repeated
  terminal packets of RFC 4733 produce one report.\<close>

lemma dtmf_reported_once:
  assumes "0 < rate" "detector_run (newTelephoneEventDetector rate) ps = (d, ks)"
  shows "order d = lastn 64 ks
     \<and> completed d = set (lastn 64 ks)
     \<and> distinct (lastn 64 ks)
     \<and> (snd (detector_push d p t) \<noteq> None \<longleftrightarrow> terminal_event p \<and> event_key p \<notin> set (lastn 64 ks))"
proof (intro conjI impI)
  have "window_inv (newTelephoneEventDetector rate) []" "clockRate (newTelephoneEventDetector rate) = rate"
    by (simp_all add: window_inv_def newTelephoneEventDetector_def lastn_def)
  with detector_run_inv [OF this(1) _ assms(2)] assms(1)
  have w: "window_inv d ks" "0 < clockRate d" by auto
  then show "order d = lastn 64 ks" "completed d = set (lastn 64 ks)" "distinct (lastn 64 ks)"
    by (metis window_inv_def completedTelephoneEventWindow_def)+
  then show "snd (detector_push d p t) \<noteq> None
      \<longleftrightarrow> terminal_event p \<and> event_key p \<notin> set (lastn 64 ks)"
    using detector_push_reports [OF w(2)] by simp
qed

definition dtmf_packet :: packet where
  "dtmf_packet = \<lparr>PayloadType = 101, Marker = False, Sequence = 1, Timestamp = 9, SSRC = 7,
     Payload = [5, 0x8A, 3, 0x20]\<rparr>"

lemma At_follows:
  assumes "clk_initialized c" "\<not> Marker p" "Timestamp p = baseTS c + of_nat n" "n < 2 ^ 31"
  shows "At c p a = (c, baseAt c + 125000 * int n)"
proof -
  have "sint (of_nat n :: u32) = int n"
    using assms(4) by (simp add: signed_of_nat signed_take_bit_int_eq_self)
  then show ?thesis
    using assms by (simp add: At_def Let_def time_second_def g711SampleRate_def)
qed

lemma clock_run_follows:
  assumes "clk_initialized c"
    and "list_all2 (\<lambda>(p, a) n. \<not> Marker p \<and> Timestamp p = baseTS c + of_nat n \<and> n < 2 ^ 31) ps ns"
  shows "clock_run c ps = map (\<lambda>n. baseAt c + 125000 * int n) ns"
  using assms(2) by (induction rule: list_all2_induct) (auto simp: At_follows [OF assms(1)])

text \<open>The echo aligner's timeline is smooth: the packets of one repacketized run are placed
  exactly 20 ms apart on the media clock, starting at the arrival of the first one, whatever the
  bursts in which they arrive and across a wrap-around of the RTP timestamp (for runs of less
  than \<open>2 ^ 31\<close> samples, about three days).\<close>

lemma repacketized_media_clock:
  assumes "Payload i \<noteq> []" "\<not> continues p i" "contiguous i is"
    and "run_pushes (Push t) p (i # is) = (q, os)"
    and "length (concat (map Payload (i # is))) < 2 ^ 31"
    and "length arrivals = length os"
  shows "clock_run c (zip os arrivals) =
    map (\<lambda>k. arrivals ! 0 + 20000000 * int k) [0..<length os]"
proof (cases os)
  case (Cons o1 os1)
  then obtain a1 as1 where a: "arrivals = a1 # as1" "length as1 = length os1"
    using assms(6) by (cases arrivals) auto
  note stream = repacketizer_run [OF assms(1-4)]
  let ?c = "\<lparr>clk_initialized = True, baseTS = Timestamp i, baseAt = a1\<rparr>"
  have o1: "Marker o1" "Timestamp o1 = Timestamp i" using stream(2) Cons by force+
  have tail: "\<not> Marker (os1 ! k) \<and> Timestamp (os1 ! k) = Timestamp i + of_nat ((k + 1) * 160)
      \<and> (k + 1) * 160 < 2 ^ 31" if "k < length os1" for k
  proof -
    have "os1 ! k = os ! (k + 1)" "k + 1 < length os" using that Cons by simp_all
    moreover have "(k + 1) * 160 \<le> length (concat (map Payload (i # is)))"
    proof -
      have "k + 1 \<le> length os" using that Cons by simp
      then have "(k + 1) * 160 \<le> length os * 160" by (rule mult_le_mono1)
      also have "\<dots> \<le> length (concat (map Payload (i # is)))" unfolding stream(1) by (rule div_times_less_eq_dividend)
      finally show ?thesis .
    qed
    ultimately show ?thesis using stream(2) assms(5) by (simp del: of_nat_mult)
  qed
  have "clock_run ?c (zip os1 as1) = map (\<lambda>n. baseAt ?c + 125000 * int n) (map (\<lambda>k. (k + 1) * 160) [0..<length os1])"
    by (rule clock_run_follows)
      (use tail a(2) in \<open>auto simp: list_all2_conv_all_nth simp del: of_nat_mult mult_Suc\<close>)
  then show ?thesis
    by (simp add: Cons a At_def o1 upt_conv_Cons map_Suc_upt [symmetric] del: upt_Suc)
qed simp

section \<open>The watchdog\<close>

text \<open>What the session does with a watchdog: marks at valid packets, checks on a ticker.\<close>

lemma watchdog_check_marked:
  assumes "0 < to" "now0 \<noteq> 0" "\<forall>m \<in> set marks. m \<noteq> 0"
  shows "watchdog_check (foldl watchdog_mark (Some (newRTPWatchdog to now0)) marks) now =
    (if now - last (now0 # marks) < to then None else Some (ErrRTPInactivity to))"
proof -
  have "foldl watchdog_mark (Some (newRTPWatchdog to now0)) marks
      = Some (newRTPWatchdog to (last (now0 # marks)))"
    by (induction marks arbitrary: now0) (auto simp: watchdog_mark_def newRTPWatchdog_def)
  moreover have "last (now0 # marks) \<noteq> 0" using assms(2,3) by (auto simp: last_ConsR)
  ultimately show ?thesis using assms(1) by (simp add: watchdog_check_def newRTPWatchdog_def)
qed

text \<open>The watchdog ends a session exactly when it should: with a positive timeout and marks
  in time order, \<open>Check\<close> reports inactivity at time \<open>now\<close> if and only if neither the start of the
  session nor any valid audio packet lies within the last \<open>timeout\<close>; with a zero timeout, or no
  watchdog, it never does.\<close>

lemma watchdog_fires_iff_inactive:
  assumes "0 < now0" "sorted (now0 # marks)" "last (now0 # marks) \<le> now"
  shows "(watchdog_check (foldl watchdog_mark (Some (newRTPWatchdog to now0)) marks) now =
    (if 0 < to \<and> (\<forall>m \<in> set (now0 # marks). to \<le> now - m) then Some (ErrRTPInactivity to) else None))
     \<and> watchdog_check (foldl watchdog_mark None marks) now = None"
proof (intro conjI impI)
  have nz: "now0 \<noteq> 0" "\<forall>m \<in> set marks. m \<noteq> 0" using assms(1,2) by auto
  have le: "m \<le> last (now0 # marks)" if "m \<in> set (now0 # marks)" for m
    using assms(2) that by (metis in_set_conv_nth last_conv_nth list.discI sorted_nth_mono
        diff_less One_nat_def length_pos_if_in_set Suc_pred less_Suc_eq_le zero_less_one)
  have mem: "last (now0 # marks) \<in> set (now0 # marks)" by (rule last_in_set) simp
  show "watchdog_check (foldl watchdog_mark (Some (newRTPWatchdog to now0)) marks) now =
    (if 0 < to \<and> (\<forall>m \<in> set (now0 # marks). to \<le> now - m) then Some (ErrRTPInactivity to) else None)"
  proof (cases "0 < to")
    case True
    have "(\<forall>m \<in> set (now0 # marks). to \<le> now - m) \<longleftrightarrow> to \<le> now - last (now0 # marks)"
      using le mem by force
    then show ?thesis using watchdog_check_marked [OF True nz, of now] True by auto
  next
    case False
    have "foldl watchdog_mark (Some (newRTPWatchdog to now0)) marks
        = Some (newRTPWatchdog to (last (now0 # marks)))"
      by (induction marks arbitrary: now0) (auto simp: watchdog_mark_def newRTPWatchdog_def)
    then show ?thesis using False by (simp add: watchdog_check_def newRTPWatchdog_def)
  qed
  show "watchdog_check (foldl watchdog_mark None marks) now = None"
    by (induction marks) (simp_all add: watchdog_mark_def watchdog_check_def)
qed

section \<open>The drain\<close>

lemma drain_loop_spec:
  assumes "n \<le> preAnswerDrainLimit" "drain_loop deadline reads n = (m, limit, err)"
  shows "n \<le> m \<and> m \<le> preAnswerDrainLimit \<and> (\<forall>k. n \<le> k \<and> k < m \<longrightarrow> reads k = Datagram)
    \<and> limit = (m = preAnswerDrainLimit)"
  using assms
proof (induction deadline reads n rule: drain_loop.induct)
  case (1 deadline reads n)
  show ?case
  proof (cases "n < preAnswerDrainLimit \<and> deadline n = None \<and> reads n = Datagram")
    case True
    then have "drain_loop deadline reads (n + 1) = (m, limit, err)"
      using 1(3) by (simp add: drain_loop.simps [of deadline reads n])
    then have "n + 1 \<le> m \<and> m \<le> preAnswerDrainLimit \<and> (\<forall>k. n + 1 \<le> k \<and> k < m \<longrightarrow> reads k = Datagram)
        \<and> limit = (m = preAnswerDrainLimit)"
      using 1(1) True by auto
    moreover have "reads k = Datagram" if "n \<le> k" "k < m" for k
      using that calculation True by (cases "k = n") auto
    ultimately show ?thesis by auto
  next
    case False
    then show ?thesis using 1(2,3)
      by (auto simp: drain_loop.simps [of deadline reads n] split: if_splits option.splits read_result.splits)
  qed
qed

text \<open>The drain is bounded: whatever the peer sends, it reads at most 4096 datagrams, it
  reports the limit exactly when it consumed that many, and everything it counted was a queued
  datagram.\<close>

lemma drain_bounded:
  "case discardQueuedSIPRTP deadline reads reset of
     (n, limit, err) \<Rightarrow> n \<le> 4096 \<and> (limit \<longleftrightarrow> n = 4096) \<and> (\<forall>k < n. reads k = Datagram)
       \<and> (limit \<and> reset = None \<longrightarrow> err = None)"
proof -
  obtain m limit err where l: "drain_loop deadline reads 0 = (m, limit, err)"
    by (cases "drain_loop deadline reads 0") auto
  have "err = None" if "drain_loop deadline reads n = (m, True, err)" for n m err
    using that by (induction deadline reads n rule: drain_loop.induct)
      (subst (asm) (2) drain_loop.simps, auto split: if_splits option.splits read_result.splits)
  then have "limit \<Longrightarrow> err = None" using l by (cases limit) auto
  then show ?thesis using drain_loop_spec [OF _ l] l
    by (auto simp: discardQueuedSIPRTP_def preAnswerDrainLimit_def split: option.splits)
qed

end
