(* ===== verification/CallControl.thy ===== *)
theory CallControl
  imports Prelude
begin

text \<open>
  The single-call controller: \<^verbatim>\<open>internal/callcontrol/controller.go\<close>.  Each critical section of the
  mutex is one definition on the \<open>Controller\<close> record; \<open>call_step\<close> interleaves them with the
  goroutines that \<open>Start\<close> launches, in any order the scheduler may choose.
\<close>

section \<open>The controller's critical sections\<close>

type_synonym ctx_id = nat

record Controller =
  active :: bool
  generation :: "64 word"
  cancel :: "ctx_id option"

datatype 'e call_error = Parent_err 'e | Fn_nil | ErrBusy | ErrNoActiveCall

definition controller_zero :: Controller where
  "controller_zero = \<lparr>active = False, generation = 0, cancel = None\<rparr>"

text \<open>\<open>Start\<close>: the two checks before the lock, then the reservation; \<open>ctx\<close> is the fresh context
  \<open>context.WithCancel\<close> makes.  Success returns the new state and the generation the goroutine
  keeps.\<close>

definition Start ::
  "'e option \<Rightarrow> bool \<Rightarrow> ctx_id \<Rightarrow> Controller \<Rightarrow> 'e call_error + Controller \<times> 64 word" where
  "Start parent_err fn_nil ctx c =
     (case parent_err of
        Some e \<Rightarrow> Inl (Parent_err e)
      | None \<Rightarrow>
          if fn_nil then Inl Fn_nil
          else if active c then Inl ErrBusy
          else let g = generation c + 1
               in Inr (c\<lparr>active := True, generation := g, cancel := Some ctx\<rparr>, g))"

text \<open>The deferred critical section after the call function has returned.\<close>

definition finish_call :: "64 word \<Rightarrow> Controller \<Rightarrow> Controller" where
  "finish_call g c =
     (if generation c = g then c\<lparr>active := False, cancel := None\<rparr> else c)"

text \<open>\<open>CancelActive\<close>: what it does while it holds the lock, in order.\<close>

datatype cancel_event = Before_cancel | Cancel_context ctx_id

definition CancelActive :: "bool \<Rightarrow> Controller \<Rightarrow> 'e call_error + cancel_event list" where
  "CancelActive has_before c =
     (if \<not> active c then Inl ErrNoActiveCall
      else case cancel c of
        None \<Rightarrow> Inl ErrNoActiveCall
      | Some ctx \<Rightarrow> Inr ((if has_before then [Before_cancel] else []) @ [Cancel_context ctx]))"

definition Active :: "Controller \<Rightarrow> bool" where
  "Active c = active c"

section \<open>The system of goroutines\<close>

text \<open>The goroutine of one call: it runs the call function, then the deferred section, then the
  deferred \<open>cancel()\<close>, and is gone.\<close>

datatype call_phase = Running | Returned | Released

record call_goroutine =
  g_generation :: "64 word"
  g_ctx :: ctx_id
  g_phase :: call_phase

record call_system =
  controller :: Controller
  goroutines :: "call_goroutine list"
  cancelled :: "ctx_id set"
  next_ctx :: ctx_id

definition system_init :: call_system where
  "system_init = \<lparr>controller = controller_zero, goroutines = [], cancelled = {}, next_ctx = 0\<rparr>"

definition cancel_contexts :: "cancel_event list \<Rightarrow> ctx_id set" where
  "cancel_contexts evs = {x. Cancel_context x \<in> set evs}"

inductive call_step :: "call_system \<Rightarrow> call_system \<Rightarrow> bool" where
  start: "Start None False (next_ctx s) (controller s) = (Inr (c, g) :: unit call_error + _) \<Longrightarrow>
    call_step s (s\<lparr>controller := c, next_ctx := next_ctx s + 1,
      goroutines := goroutines s @ [\<lparr>g_generation = g, g_ctx = next_ctx s, g_phase = Running\<rparr>]\<rparr>)"
| cancel: "CancelActive b (controller s) = (Inr evs :: unit call_error + _) \<Longrightarrow>
    call_step s (s\<lparr>cancelled := cancelled s \<union> cancel_contexts evs\<rparr>)"
| return: "goroutines s = gs @ r # gs' \<Longrightarrow> g_phase r = Running \<Longrightarrow>
    call_step s (s\<lparr>goroutines := gs @ r\<lparr>g_phase := Returned\<rparr> # gs'\<rparr>)"
| finish: "goroutines s = gs @ r # gs' \<Longrightarrow> g_phase r = Returned \<Longrightarrow>
    call_step s (s\<lparr>controller := finish_call (g_generation r) (controller s),
      goroutines := gs @ r\<lparr>g_phase := Released\<rparr> # gs'\<rparr>)"
| release: "goroutines s = gs @ r # gs' \<Longrightarrow> g_phase r = Released \<Longrightarrow>
    call_step s (s\<lparr>cancelled := insert (g_ctx r) (cancelled s), goroutines := gs @ gs'\<rparr>)"
| parent_done: "call_step s (s\<lparr>cancelled := cancelled s \<union> X\<rparr>)"

inductive call_reachable :: "call_system \<Rightarrow> bool" where
  init: "call_reachable system_init"
| step: "call_reachable s \<Longrightarrow> call_step s s' \<Longrightarrow> call_reachable s'"

section \<open>The slot invariant\<close>

definition occupies :: "call_goroutine \<Rightarrow> bool" where
  "occupies r \<longleftrightarrow> g_phase r \<noteq> Released"

text \<open>The slot is free and nobody occupies it, or exactly one goroutine does and the controller
  holds that goroutine's generation and cancel function.\<close>

definition slot_inv :: "call_system \<Rightarrow> bool" where
  "slot_inv s \<longleftrightarrow>
     (case filter occupies (goroutines s) of
        [] \<Rightarrow> \<not> active (controller s) \<and> cancel (controller s) = None
      | [r] \<Rightarrow> active (controller s) \<and> cancel (controller s) = Some (g_ctx r)
          \<and> generation (controller s) = g_generation r
      | _ \<Rightarrow> False)"

lemma slot_inv_cases:
  assumes "slot_inv s"
  obtains "filter occupies (goroutines s) = []" "\<not> active (controller s)" "cancel (controller s) = None"
  | r where "filter occupies (goroutines s) = [r]" "active (controller s)"
      "cancel (controller s) = Some (g_ctx r)" "generation (controller s) = g_generation r"
  using assms by (auto simp: slot_inv_def split: list.splits)

lemma Start_Inr:
  "Start pe nl x c = Inr (c', g) \<longleftrightarrow>
   pe = None \<and> \<not> nl \<and> \<not> active c \<and> g = generation c + 1
   \<and> c' = c\<lparr>active := True, generation := generation c + 1, cancel := Some x\<rparr>"
  by (auto simp: Start_def Let_def split: option.splits)

lemma occupies_phase [simp]:
  "occupies (r\<lparr>g_phase := Released\<rparr>) = False" "occupies (r\<lparr>g_phase := Returned\<rparr>)"
  "g_phase r = Running \<Longrightarrow> occupies r" "g_phase r = Returned \<Longrightarrow> occupies r"
  "g_phase r = Released \<Longrightarrow> \<not> occupies r"
  by (simp_all add: occupies_def)

lemma slot_inv_step: "call_step s s' \<Longrightarrow> slot_inv s \<Longrightarrow> slot_inv s'"
proof (induction rule: call_step.induct)
  case (start s c g)
  from \<open>slot_inv s\<close> show ?case using start.hyps
    by (cases rule: slot_inv_cases) (auto simp: slot_inv_def Start_Inr occupies_def)
next
  case (return s gs r gs')
  from \<open>slot_inv s\<close> show ?case using return.hyps
    by (cases rule: slot_inv_cases) (auto simp: slot_inv_def append_eq_Cons_conv)
next
  case (finish s gs r gs')
  from \<open>slot_inv s\<close> show ?case using finish.hyps
    by (cases rule: slot_inv_cases) (auto simp: slot_inv_def finish_call_def append_eq_Cons_conv)
qed (simp_all add: slot_inv_def cong: list.case_cong)

lemma reachable_slot_inv: "call_reachable s \<Longrightarrow> slot_inv s"
proof (induction rule: call_reachable.induct)
  case init
  then show ?case by (simp add: slot_inv_def system_init_def controller_zero_def)
qed (rule slot_inv_step)

section \<open>Properties\<close>

text \<open>C1.  The single-call invariant.  In every reachable interleaving of starts, cancellations,
  returning call functions and their deferred clean-ups: at most one call function is running, the
  slot is taken exactly while a call function runs or its deferred section is still pending, and
  \<open>Start\<close> succeeds exactly when it is free; the 64-bit generation counter may wrap.\<close>

theorem at_most_one_call:
  assumes "call_reachable s"
  shows "length (filter (\<lambda>r. g_phase r = Running) (goroutines s)) \<le> 1
     \<and> (Active (controller s) \<longleftrightarrow> (\<exists>r \<in> set (goroutines s). g_phase r \<in> {Running, Returned}))
     \<and> ((\<exists>c g. Start None False x (controller s) = (Inr (c, g) :: 'e call_error + _))
      \<longleftrightarrow> (\<forall>r \<in> set (goroutines s). g_phase r = Released))
     \<and> (Start None False x (controller s) = (Inl e :: 'e call_error + _) \<longleftrightarrow>
      e = ErrBusy \<and> Active (controller s))"
proof (intro conjI impI)
  have occ: "occupies r \<longleftrightarrow> g_phase r \<in> {Running, Returned}" for r
    by (cases "g_phase r") (auto simp: occupies_def)
  have le: "length (filter (\<lambda>r. g_phase r = Running) gs) \<le> length (filter occupies gs)" for gs
    by (induction gs) (auto simp: occupies_def)
  note inv = reachable_slot_inv [OF assms]
  show "length (filter (\<lambda>r. g_phase r = Running) (goroutines s)) \<le> 1"
    using inv le [of "goroutines s"] by (cases rule: slot_inv_cases) auto
  show act: "Active (controller s) \<longleftrightarrow> (\<exists>r \<in> set (goroutines s). g_phase r \<in> {Running, Returned})"
    unfolding occ [symmetric] Active_def using inv
    by (cases rule: slot_inv_cases) (auto simp: filter_empty_conv filter_eq_Cons_iff)
  show "(\<exists>c g. Start None False x (controller s) = (Inr (c, g) :: 'e call_error + _))
      \<longleftrightarrow> (\<forall>r \<in> set (goroutines s). g_phase r = Released)"
    using act unfolding occ [symmetric] Active_def occupies_def by (auto simp: Start_Inr)
  show "Start None False x (controller s) = (Inl e :: 'e call_error + _) \<longleftrightarrow>
      e = ErrBusy \<and> Active (controller s)"
    by (auto simp: Start_def Active_def Let_def)
qed

definition one_call :: call_system where
  "one_call = system_init\<lparr>controller := \<lparr>active = True, generation = 1, cancel = Some 0\<rparr>,
     next_ctx := 1, goroutines := [\<lparr>g_generation = 1, g_ctx = 0, g_phase = Running\<rparr>]\<rparr>"

lemma one_call_reachable: "call_reachable one_call"
proof -
  have "Start None False (next_ctx system_init) (controller system_init)
      = (Inr (\<lparr>active = True, generation = 1, cancel = Some 0\<rparr>, 1) :: unit call_error + _)"
    by (simp add: Start_def system_init_def controller_zero_def)
  from call_step.start [OF this] have "call_step system_init one_call"
    by (simp add: one_call_def system_init_def)
  then show ?thesis by (rule call_reachable.step [OF call_reachable.init])
qed

theorem at_most_one_call_witness:
  "Start None False 5 (controller one_call) = (Inl ErrBusy :: unit call_error + _)"
  using at_most_one_call [OF one_call_reachable, of 5 "ErrBusy :: unit call_error"]
  by (simp add: one_call_def Active_def)

text \<open>\<open>CancelActive\<close> reaches the right call: it succeeds exactly when a call occupies the
  slot, and then it runs \<open>beforeCancel\<close> first and cancels the context of precisely that call,
  never of a call that has already released the slot or of a later one.\<close>

lemma cancel_reaches_the_occupant:
  assumes "call_reachable s"
  shows "(CancelActive b (controller s) = (Inr evs :: 'e call_error + _) \<longleftrightarrow>
    (\<exists>r \<in> set (goroutines s). g_phase r \<in> {Running, Returned}
       \<and> evs = (if b then [Before_cancel] else []) @ [Cancel_context (g_ctx r)]))
     \<and> (CancelActive b (controller s) = (Inl e :: 'e call_error + _) \<longleftrightarrow>
      e = ErrNoActiveCall \<and> (\<forall>r \<in> set (goroutines s). g_phase r = Released))"
proof (intro conjI impI)
  have occ: "g_phase r \<in> {Running, Returned} \<longleftrightarrow> occupies r" "g_phase r = Released \<longleftrightarrow> \<not> occupies r" for r
    by (cases "g_phase r"; auto simp: occupies_def)+
  from reachable_slot_inv [OF assms]
  show "CancelActive b (controller s) = (Inr evs :: 'e call_error + _) \<longleftrightarrow>
    (\<exists>r \<in> set (goroutines s). g_phase r \<in> {Running, Returned}
       \<and> evs = (if b then [Before_cancel] else []) @ [Cancel_context (g_ctx r)])"
    unfolding occ
    by (cases rule: slot_inv_cases)
      (auto simp: CancelActive_def filter_empty_conv dest: filter_singleton)
  from reachable_slot_inv [OF assms]
  show "CancelActive b (controller s) = (Inl e :: 'e call_error + _) \<longleftrightarrow>
      e = ErrNoActiveCall \<and> (\<forall>r \<in> set (goroutines s). g_phase r = Released)"
    unfolding occ
    by (cases rule: slot_inv_cases)
      (auto simp: CancelActive_def filter_empty_conv dest: filter_singleton)
qed

end
