(* ===== verification/DialFork.thy ===== *)
theory DialFork
  imports Prelude "HOL-Library.Multiset"
begin

text \<open>
  Parallel dialling: \<open>DialFirst\<close> and \<open>drainLosingDialogs\<close> of \<^verbatim>\<open>internal/callcontrol/fork.go\<close>.
  The goroutines, the buffered result channel, the \<open>select\<close> of the dialling loop and the
  background drain are a step relation; what a leg's \<open>Dial\<close> returns, when it returns, when the
  caller's context ends and which ready case \<open>select\<close> takes are left open.  Dialogs and errors
  are type parameters.
\<close>

section \<open>Data\<close>

record DialLeg =
  ID :: string
  Destination :: string
  has_dial :: bool

record ('d, 'e) dialResult =
  leg :: DialLeg
  dialog :: "'d option"
  err :: "'e option"

datatype 'e leg_failure =
    Leg_failed string string 'e
  | Leg_no_dialog string string

datatype 'e fork_error =
    Ctx_err 'e
  | ErrNoDialLegs
  | No_dial_function string
  | Joined "'e leg_failure list"

datatype fork_phase =
    Dialing nat
  | Draining nat
  | Waiting
  | Closed

text \<open>The state of one \<open>DialFirst\<close>.  \<open>dialing\<close> are the legs whose goroutine has not yet
  reported, \<open>results\<close> the channel, \<open>hanging\<close> the dialogs whose hang-up goroutine runs, \<open>hung\<close> those
  whose hang-up has returned; \<open>returned\<close> is what the call returned, \<open>dial_cancelled\<close> whether the
  shared dialling context is cancelled, \<open>ctx_err\<close> the caller's \<open>ctx.Err()\<close>.  \<open>established\<close> records
  every dialog a leg has produced.\<close>

record ('d, 'e) fork =
  dialing :: "DialLeg list"
  results :: "('d, 'e) dialResult list"
  failures :: "'e leg_failure list"
  phase :: fork_phase
  returned :: "('e fork_error + DialLeg \<times> 'd) option"
  dial_cancelled :: bool
  ctx_err :: "'e option"
  hanging :: "'d list"
  hung :: "'d list"
  established :: "'d list"

section \<open>Operations\<close>

text \<open>The checks at the start of \<open>DialFirst\<close> and the launch of the legs.\<close>

definition dial_start :: "'e option \<Rightarrow> DialLeg list \<Rightarrow> 'e fork_error + ('d, 'e) fork" where
  "dial_start cerr legs =
     (case cerr of
        Some e \<Rightarrow> Inl (Ctx_err e)
      | None \<Rightarrow>
          if legs = [] then Inl ErrNoDialLegs
          else (case find (\<lambda>l. \<not> has_dial l) legs of
                  Some l \<Rightarrow> Inl (No_dial_function (ID l))
                | None \<Rightarrow> Inr \<lparr>dialing = legs, results = [], failures = [], phase = Dialing (length legs),
                    returned = None, dial_cancelled = False, ctx_err = None, hanging = [],
                    hung = [], established = []\<rparr>))"

text \<open>After a failed leg the loop goes on; when none remains it cancels and joins the errors.\<close>

definition next_round :: "nat \<Rightarrow> 'e leg_failure \<Rightarrow> ('d, 'e) fork \<Rightarrow> ('d, 'e) fork" where
  "next_round remaining f s =
     (let fs = failures s @ [f] in
      if 0 < remaining then s\<lparr>failures := fs, phase := Dialing remaining\<rparr>
      else s\<lparr>failures := fs, phase := Closed, dial_cancelled := True, returned := Some (Inl (Joined fs))\<rparr>)"

text \<open>The first case of the \<open>select\<close>: a result arrives.\<close>

definition handle_result ::
  "nat \<Rightarrow> ('d, 'e) dialResult \<Rightarrow> ('d, 'e) fork \<Rightarrow> ('d, 'e) fork" where
  "handle_result remaining r s =
     (case err r of
        Some e \<Rightarrow> next_round remaining (Leg_failed (ID (leg r)) (Destination (leg r)) e) s
      | None \<Rightarrow>
          (case dialog r of
             None \<Rightarrow> next_round remaining (Leg_no_dialog (ID (leg r)) (Destination (leg r))) s
           | Some d \<Rightarrow> s\<lparr>dial_cancelled := True, phase := Draining remaining,
               returned := Some (Inr (leg r, d))\<rparr>))"

text \<open>The second case: the caller's context is done.\<close>

definition handle_ctx_done :: "nat \<Rightarrow> 'e \<Rightarrow> ('d, 'e) fork \<Rightarrow> ('d, 'e) fork" where
  "handle_ctx_done remaining e s =
     s\<lparr>dial_cancelled := True, phase := Draining remaining, returned := Some (Inl (Ctx_err e))\<rparr>"

text \<open>One iteration of \<open>drainLosingDialogs\<close>: a late success gets its own hang-up goroutine.\<close>

definition drain_result ::
  "nat \<Rightarrow> ('d, 'e) dialResult \<Rightarrow> ('d, 'e) fork \<Rightarrow> ('d, 'e) fork" where
  "drain_result remaining r s =
     (case (err r, dialog r) of
        (None, Some d) \<Rightarrow> s\<lparr>phase := Draining remaining, hanging := hanging s @ [d]\<rparr>
      | _ \<Rightarrow> s\<lparr>phase := Draining remaining\<rparr>)"

text \<open>The dialog a result carries, if it is a success.\<close>

definition success :: "('d, 'e) dialResult \<Rightarrow> 'd list" where
  "success r = (if err r = None then (case dialog r of None \<Rightarrow> [] | Some d \<Rightarrow> [d]) else [])"

inductive fork_step :: "('d, 'e) fork \<Rightarrow> ('d, 'e) fork \<Rightarrow> bool" where
  dial_returns: "dialing s = ls @ l # ls' \<Longrightarrow> leg r = l \<Longrightarrow>
    fork_step s (s\<lparr>dialing := ls @ ls', results := results s @ [r],
      established := established s @ success r\<rparr>)"
| ctx_ends: "ctx_err s = None \<Longrightarrow> fork_step s (s\<lparr>ctx_err := Some e\<rparr>)"
| receive: "phase s = Dialing (Suc n) \<Longrightarrow> results s = r # rs \<Longrightarrow>
    fork_step s (handle_result n r (s\<lparr>results := rs\<rparr>))"
| ctx_done: "phase s = Dialing (Suc n) \<Longrightarrow> ctx_err s = Some e \<Longrightarrow>
    fork_step s (handle_ctx_done (Suc n) e s)"
| drain: "phase s = Draining (Suc n) \<Longrightarrow> results s = r # rs \<Longrightarrow>
    fork_step s (drain_result n r (s\<lparr>results := rs\<rparr>))"
| drained: "phase s = Draining 0 \<Longrightarrow> fork_step s (s\<lparr>phase := Waiting\<rparr>)"
| hangup_returns: "hanging s = ds @ d # ds' \<Longrightarrow>
    fork_step s (s\<lparr>hanging := ds @ ds', hung := hung s @ [d]\<rparr>)"
| close_done: "phase s = Waiting \<Longrightarrow> hanging s = [] \<Longrightarrow> fork_step s (s\<lparr>phase := Closed\<rparr>)"

inductive fork_reachable :: "DialLeg list \<Rightarrow> ('d, 'e) fork \<Rightarrow> bool" for legs where
  start: "dial_start None legs = Inr s \<Longrightarrow> fork_reachable legs s"
| step: "fork_reachable legs s \<Longrightarrow> fork_step s s' \<Longrightarrow> fork_reachable legs s'"

section \<open>Invariant\<close>

definition winner :: "('d, 'e) fork \<Rightarrow> 'd list" where
  "winner s = (case returned s of Some (Inr (l, d)) \<Rightarrow> [d] | _ \<Rightarrow> [])"

definition outstanding :: "('d, 'e) fork \<Rightarrow> nat" where
  "outstanding s = length (dialing s) + length (results s)"

text \<open>What each phase promises.\<close>

definition phase_inv :: "DialLeg list \<Rightarrow> ('d, 'e) fork \<Rightarrow> bool" where
  "phase_inv legs s \<longleftrightarrow>
     (case phase s of
        Dialing n \<Rightarrow> 0 < n \<and> n = outstanding s \<and> returned s = None \<and> hanging s = [] \<and> hung s = []
          \<and> \<not> dial_cancelled s \<and> length (failures s) + n = length legs
      | Draining n \<Rightarrow> n = outstanding s \<and> returned s \<noteq> None \<and> dial_cancelled s
      | Waiting \<Rightarrow> outstanding s = 0 \<and> returned s \<noteq> None \<and> dial_cancelled s
      | Closed \<Rightarrow> outstanding s = 0 \<and> returned s \<noteq> None \<and> dial_cancelled s \<and> hanging s = [])"

definition return_inv :: "DialLeg list \<Rightarrow> ('d, 'e) fork \<Rightarrow> bool" where
  "return_inv legs s \<longleftrightarrow>
     (\<forall>fs. returned s = Some (Inl (Joined fs)) \<longrightarrow>
        length fs = length legs \<and> established s = [] \<and> outstanding s = 0)
     \<and> (\<forall>l d. returned s = Some (Inr (l, d)) \<longrightarrow> l \<in> set legs)
     \<and> (\<forall>e. returned s = Some (Inl (Ctx_err e)) \<longrightarrow> ctx_err s = Some e)
     \<and> set (dialing s) \<subseteq> set legs \<and> leg ` set (results s) \<subseteq> set legs
     \<and> returned s \<noteq> Some (Inl ErrNoDialLegs) \<and> (\<forall>x. returned s \<noteq> Some (Inl (No_dial_function x)))"

text \<open>No dialog is lost or counted twice.\<close>

definition conserve_inv :: "('d, 'e) fork \<Rightarrow> bool" where
  "conserve_inv s \<longleftrightarrow>
     mset (established s) =
       mset (concat (map success (results s))) + mset (winner s) + mset (hanging s) + mset (hung s)"

definition fork_inv :: "DialLeg list \<Rightarrow> ('d, 'e) fork \<Rightarrow> bool" where
  "fork_inv legs s \<longleftrightarrow> phase_inv legs s \<and> return_inv legs s \<and> conserve_inv s"

lemmas fork_inv_defs = fork_inv_def phase_inv_def return_inv_def conserve_inv_def winner_def outstanding_def

lemma phase_inv_step:
  "fork_step s s' \<Longrightarrow> phase_inv legs s \<Longrightarrow> phase_inv legs s'"
  by (induction rule: fork_step.induct)
    (auto simp: phase_inv_def outstanding_def handle_result_def next_round_def handle_ctx_done_def
      drain_result_def Let_def split: option.splits fork_phase.splits)

lemma conserve_inv_step:
  "fork_step s s' \<Longrightarrow> phase_inv legs s \<Longrightarrow> conserve_inv s \<Longrightarrow> conserve_inv s'"
  by (induction rule: fork_step.induct)
    (auto simp: phase_inv_def conserve_inv_def winner_def success_def handle_result_def next_round_def
      handle_ctx_done_def drain_result_def Let_def split: option.splits fork_phase.splits)

lemma joined_nothing_established:
  assumes "phase_inv legs s" "conserve_inv s" "phase s = Dialing (Suc 0)" "results s = r # rs"
    "success r = []"
  shows "established s = [] \<and> dialing s = [] \<and> rs = []"
proof -
  have "outstanding s = 1" "hanging s = []" "hung s = []" "winner s = []"
    using assms(1,3) by (simp_all add: phase_inv_def winner_def)
  then have "dialing s = []" "rs = []" "mset (established s) = {#}"
    using assms(2,4,5) by (simp_all add: outstanding_def conserve_inv_def)
  then show ?thesis by simp
qed

lemma return_inv_receive:
  assumes "phase_inv legs s" "conserve_inv s" "return_inv legs s"
    "phase s = Dialing (Suc n)" "results s = r # rs"
  shows "return_inv legs (handle_result n r (s\<lparr>results := rs\<rparr>))"
proof -
  have base: "returned s = None" "length (failures s) + Suc n = length legs" "leg r \<in> set legs"
    "set (dialing s) \<subseteq> set legs" "leg ` set rs \<subseteq> set legs"
    using assms by (auto simp: phase_inv_def return_inv_def)
  have "return_inv legs (next_round n f (s\<lparr>results := rs\<rparr>))" if "success r = []" for f
  proof (cases n)
    case 0
    then have "established s = [] \<and> dialing s = [] \<and> rs = []"
      using joined_nothing_established [OF assms(1,2) _ assms(5) that] assms(4) by simp
    then show ?thesis using base 0 by (simp add: return_inv_def next_round_def outstanding_def Let_def)
  next
    case (Suc m)
    then show ?thesis using base by (simp add: return_inv_def next_round_def)
  qed
  then show ?thesis using base
    by (auto simp: handle_result_def success_def return_inv_def split: option.splits)
qed

lemma return_inv_step:
  "fork_step s s' \<Longrightarrow> phase_inv legs s \<Longrightarrow> conserve_inv s \<Longrightarrow> return_inv legs s \<Longrightarrow> return_inv legs s'"
proof (induction rule: fork_step.induct)
  case (receive s n r rs)
  then show ?case by (intro return_inv_receive)
next
  case (ctx_done s n e)
  then show ?case by (auto simp: return_inv_def handle_ctx_done_def)
next
  case (drain s n r rs)
  then show ?case
    by (auto simp: return_inv_def drain_result_def outstanding_def split: option.splits)
qed (auto simp: return_inv_def outstanding_def)

lemma reachable_fork_inv: "fork_reachable legs s \<Longrightarrow> fork_inv legs s"
proof (induction rule: fork_reachable.induct)
  case (start s)
  then show ?case
    by (auto simp: dial_start_def fork_inv_defs split: if_splits option.splits)
next
  case (step s s')
  then show ?case
    using phase_inv_step conserve_inv_step return_inv_step unfolding fork_inv_def by metis
qed

section \<open>Termination\<close>

definition phase_weight :: "fork_phase \<Rightarrow> nat" where
  "phase_weight p = (case p of Dialing _ \<Rightarrow> 3 | Draining _ \<Rightarrow> 2 | Waiting \<Rightarrow> 1 | Closed \<Rightarrow> 0)"

definition fork_measure :: "('d, 'e) fork \<Rightarrow> nat" where
  "fork_measure s = 3 * length (dialing s) + 2 * length (results s) + length (hanging s)
     + phase_weight (phase s) + (if ctx_err s = None then 1 else 0)"

lemma fork_measure_step: "fork_step s s' \<Longrightarrow> fork_measure s' < fork_measure s"
  by (induction rule: fork_step.induct)
    (auto simp: fork_measure_def phase_weight_def handle_result_def next_round_def handle_ctx_done_def
      drain_result_def Let_def split: option.splits)

lemma fork_progress:
  assumes "fork_inv legs s" "phase s \<noteq> Closed"
  shows "\<exists>s'. fork_step s s' \<and> ctx_err s' = ctx_err s"
proof (cases "dialing s")
  case (Cons l ls)
  then have "dialing s = [] @ l # ls" by simp
  from fork_step.dial_returns [OF this, of "\<lparr>leg = l, dialog = None, err = None\<rparr>"]
  show ?thesis by force
next
  case Nil
  show ?thesis
  proof (cases "phase s")
    case (Dialing n)
    then obtain m r rs where "n = Suc m" "results s = r # rs"
      using assms(1) Nil by (cases n; cases "results s") (auto simp: fork_inv_defs)
    with Dialing fork_step.receive [of s m r rs] show ?thesis
      by (force simp: handle_result_def next_round_def Let_def split: option.splits)
  next
    case (Draining n)
    show ?thesis
    proof (cases n)
      case 0
      with Draining fork_step.drained [of s] show ?thesis by force
    next
      case (Suc m)
      then obtain r rs where "results s = r # rs"
        using assms(1) Draining Nil by (cases "results s") (auto simp: fork_inv_defs)
      with Draining Suc fork_step.drain [of s m r rs] show ?thesis
        by (force simp: drain_result_def split: option.splits)
    qed
  next
    case Waiting
    show ?thesis
    proof (cases "hanging s")
      case Nil
      with Waiting fork_step.close_done [of s] show ?thesis by force
    next
      case (Cons d ds)
      then have "hanging s = [] @ d # ds" by simp
      from fork_step.hangup_returns [OF this] show ?thesis by force
    qed
  qed (use assms(2) in simp)
qed

section \<open>Properties\<close>

text \<open>C2.  No established dialog leaks.  Once \<open>LosersDone\<close> is closed, whatever the order in which
  the legs answered, failed, or crossed the decision, and whether or not the caller gave up: every
  leg has reported, and the dialogs the legs established are the winner's dialog plus the dialogs
  that were hung up, each exactly once; the dialling context is cancelled.\<close>

theorem fork_no_dialog_leaks:
  assumes "fork_reachable legs s" "phase s = Closed"
  shows "dialing s = [] \<and> results s = [] \<and> hanging s = [] \<and> dial_cancelled s
     \<and> mset (established s) = mset (winner s) + mset (hung s)"
  using reachable_fork_inv [OF assms(1)] assms(2)
  by (auto simp: fork_inv_defs)

definition leg_a :: DialLeg where
  "leg_a = \<lparr>ID = ''a'', Destination = ''10'', has_dial = True\<rparr>"

definition fork_a :: "(nat, nat) fork" where
  "fork_a = \<lparr>dialing = [leg_a], results = [], failures = [], phase = Dialing 1, returned = None,
     dial_cancelled = False, ctx_err = None, hanging = [], hung = [], established = []\<rparr>"

lemma fork_a_start: "dial_start None [leg_a] = Inr fork_a"
  by (simp add: dial_start_def leg_a_def fork_a_def)

definition fork_a_won :: "(nat, nat) fork" where
  "fork_a_won = fork_a\<lparr>dialing := [], phase := Closed, returned := Some (Inr (leg_a, 7)),
     dial_cancelled := True, established := [7]\<rparr>"

lemma fork_a_won_reachable: "fork_reachable [leg_a] fork_a_won"
proof -
  let ?r = "\<lparr>leg = leg_a, dialog = Some 7, err = None\<rparr> :: (nat, nat) dialResult"
  let ?s1 = "fork_a\<lparr>dialing := [], results := [?r], established := [7]\<rparr>"
  let ?s2 = "?s1\<lparr>results := [], dial_cancelled := True, phase := Draining 0, returned := Some (Inr (leg_a, 7))\<rparr>"
  note r0 = fork_reachable.start [OF fork_a_start]
  have "fork_step fork_a ?s1"
    using fork_step.dial_returns [of fork_a "[]" leg_a "[]" ?r] by (simp add: fork_a_def success_def)
  note r1 = fork_reachable.step [OF r0 this]
  have "fork_step ?s1 ?s2"
    using fork_step.receive [of ?s1 0 ?r "[]"] by (simp add: fork_a_def handle_result_def)
  note r2 = fork_reachable.step [OF r1 this]
  have "fork_step ?s2 (?s2\<lparr>phase := Waiting\<rparr>)"
    using fork_step.drained [of ?s2] by simp
  note r3 = fork_reachable.step [OF r2 this]
  have "fork_step (?s2\<lparr>phase := Waiting\<rparr>) fork_a_won"
    using fork_step.close_done [of "?s2\<lparr>phase := Waiting\<rparr>"] by (simp add: fork_a_def fork_a_won_def)
  then show ?thesis by (rule fork_reachable.step [OF r3])
qed

theorem fork_no_dialog_leaks_witness:
  "mset (established fork_a_won) = mset (winner fork_a_won) + mset (hung fork_a_won)
   \<and> winner fork_a_won = [7]"
  using fork_no_dialog_leaks [OF fork_a_won_reachable] by (simp add: fork_a_won_def winner_def)

text \<open>What \<open>DialFirst\<close> returns is justified: a winner is one of the given legs with a dialog
  it established, never hung up as a loser before (its dialog is still counted apart); the joined
  error is returned only when all legs have failed, with one entry per leg and no dialog
  established; the context error only when the caller's context has ended.\<close>

lemma fork_return_justified:
  assumes "fork_reachable legs s"
  shows "(returned s = Some (Inr (l, d)) \<longrightarrow> l \<in> set legs \<and> count (mset (established s)) d > count (mset (hung s)) d)
     \<and> (returned s = Some (Inl (Joined fs)) \<longrightarrow>
      length fs = length legs \<and> established s = [] \<and> dialing s = [])
     \<and> (returned s = Some (Inl (Ctx_err e)) \<longrightarrow> ctx_err s = Some e)
     \<and> (returned s = None \<longleftrightarrow> (\<exists>n. phase s = Dialing n))"
  using reachable_fork_inv [OF assms]
  by (auto simp: fork_inv_defs split: fork_phase.splits)

text \<open>C40.  \<open>DialFirst\<close> and its background drain always complete: every step of the system decreases
  a measure, so no run is infinite, and until \<open>LosersDone\<close> is closed there is always a next step
  that does not depend on the caller's context ending (a leg's \<open>Dial\<close> or a hang-up returning
  counts as a step).\<close>

theorem fork_completes:
  assumes "fork_reachable legs s"
  shows "(phase s \<noteq> Closed \<longrightarrow> (\<exists>s'. fork_step s s' \<and> ctx_err s' = ctx_err s))
     \<and> (\<nexists>f. f 0 = s \<and> (\<forall>i. fork_step (f i) (f (Suc i))))"
proof (intro conjI impI)
  show "phase s \<noteq> Closed \<Longrightarrow> \<exists>s'. fork_step s s' \<and> ctx_err s' = ctx_err s"
    using reachable_fork_inv [OF assms] by (rule fork_progress)
  have "wf {(s', s :: ('a, 'b) fork). fork_step s s'}"
    by (rule wf_subset [OF wf_measure [of fork_measure]]) (auto intro: fork_measure_step)
  then show "\<nexists>f. f 0 = s \<and> (\<forall>i. fork_step (f i) (f (Suc i)))"
    by (auto simp: wf_iff_no_infinite_down_chain)
qed

theorem fork_completes_witness: "\<exists>s'. fork_step fork_a s' \<and> ctx_err s' = ctx_err fork_a"
  using fork_completes [OF fork_reachable.start [OF fork_a_start]] by (simp add: fork_a_def)

end
