(* ===== verification/BaichuanCrypto.thy ===== *)
theory BaichuanCrypto
  imports Prelude
begin

unbundle bit_operations_syntax

text \<open>
  The obfuscation and encryption of the Baichuan protocol: \<^verbatim>\<open>internal/baichuan/crypto.go\<close>.  The
  AES block function and the MD5 digest are parameters (\<open>aes key block\<close>, \<open>md5 bytes\<close>); the CFB mode
  around the block function is modelled.  Both directions of CFB use only the block function
  itself, so nothing but its block size is assumed of it.
\<close>

section \<open>The fixed-key XOR\<close>

definition bcXMLKey :: "byte list" where
  "bcXMLKey = [0x1F, 0x2D, 0x3C, 0x4B, 0x5A, 0x69, 0x78, 0xFF]"

definition BCXOR :: "byte \<Rightarrow> byte list \<Rightarrow> byte list" where
  "BCXOR offset buf =
     map (\<lambda>(i, b). (b XOR bcXMLKey ! ((unat offset + i) mod length bcXMLKey)) XOR offset)
       (zip [0..<length buf] buf)"

section \<open>AES in CFB mode\<close>

definition aesIV :: "byte list" where
  "aesIV = map (\<lambda>c. of_char c) ''0123456789abcdef''"

definition xor_bytes :: "byte list \<Rightarrow> byte list \<Rightarrow> byte list" where
  "xor_bytes a b = map (\<lambda>(x, y). x XOR y) (zip a b)"

function cfb_encrypt :: "(byte list \<Rightarrow> byte list) \<Rightarrow> byte list \<Rightarrow> byte list \<Rightarrow> byte list" where
  "cfb_encrypt E prev src =
     (if src = [] then []
      else let out = xor_bytes (take 16 src) (E prev)
           in out @ cfb_encrypt E out (drop 16 src))"
  by pat_completeness auto
termination
  by (relation "measure (\<lambda>(_, _, src). length src)") auto

function cfb_decrypt :: "(byte list \<Rightarrow> byte list) \<Rightarrow> byte list \<Rightarrow> byte list \<Rightarrow> byte list" where
  "cfb_decrypt E prev src =
     (if src = [] then []
      else xor_bytes (take 16 src) (E prev) @ cfb_decrypt E (take 16 src) (drop 16 src))"
  by pat_completeness auto
termination
  by (relation "measure (\<lambda>(_, _, src). length src)") auto

declare cfb_encrypt.simps [simp del] cfb_decrypt.simps [simp del]

definition aesCFB :: "(byte list \<Rightarrow> byte list \<Rightarrow> byte list) \<Rightarrow> byte list \<Rightarrow> byte list \<Rightarrow> bool \<Rightarrow> byte list" where
  "aesCFB aes buf key encrypt =
     (if encrypt then cfb_encrypt (aes key) aesIV buf else cfb_decrypt (aes key) aesIV buf)"

section \<open>Message encryption\<close>

datatype EncryptionMode = EncryptionNone | EncryptionBC | EncryptionAES

definition encryptXML ::
  "(byte list \<Rightarrow> byte list \<Rightarrow> byte list) \<Rightarrow> byte \<Rightarrow> byte list \<Rightarrow> EncryptionMode \<Rightarrow> byte list \<Rightarrow> bool \<Rightarrow> byte list"
where
  "encryptXML aes offset buf mode aesKey hasAESKey =
     (case mode of
        EncryptionNone \<Rightarrow> buf
      | EncryptionBC \<Rightarrow> BCXOR offset buf
      | EncryptionAES \<Rightarrow> if \<not> hasAESKey then BCXOR offset buf else aesCFB aes buf aesKey True)"

definition decryptXML ::
  "(byte list \<Rightarrow> byte list \<Rightarrow> byte list) \<Rightarrow> byte \<Rightarrow> byte list \<Rightarrow> EncryptionMode \<Rightarrow> byte list \<Rightarrow> bool \<Rightarrow> byte list"
where
  "decryptXML aes offset buf mode aesKey hasAESKey =
     (case mode of
        EncryptionNone \<Rightarrow> buf
      | EncryptionBC \<Rightarrow> BCXOR offset buf
      | EncryptionAES \<Rightarrow> if \<not> hasAESKey then BCXOR offset buf else aesCFB aes buf aesKey False)"

section \<open>Key derivation\<close>

definition hex_upper :: string where
  "hex_upper = ''0123456789ABCDEF''"

definition MD5Modern :: "(byte list \<Rightarrow> byte list) \<Rightarrow> string \<Rightarrow> string" where
  "MD5Modern md5 input =
     (let sum = md5 (string_bytes input);
          out = concat (map (\<lambda>b. [hex_upper ! unat (drop_bit 4 b), hex_upper ! unat (b AND 0x0F)]) sum)
      in if length out > 31 then take 31 out else out)"

definition DeriveAESKey :: "(byte list \<Rightarrow> byte list) \<Rightarrow> string \<Rightarrow> string \<Rightarrow> byte list" where
  "DeriveAESKey md5 nonce password =
     string_bytes (take 16 (MD5Modern md5 (nonce @ ''-'' @ password)))"

section \<open>The cipher interface\<close>

text \<open>What the message layer relies on: decryption undoes encryption and neither changes the
  length, since the header's lengths are computed before or after encryption alike.\<close>

locale length_preserving_cipher =
  fixes enc :: "byte list \<Rightarrow> byte list" and dec :: "byte list \<Rightarrow> byte list"
  assumes dec_enc: "dec (enc x) = x"
    and length_enc: "length (enc x) = length x"
begin

lemma enc_empty_iff: "enc x = [] \<longleftrightarrow> x = []"
  using length_enc [of x] by (metis length_0_conv)

lemma enc_inj: "enc x = enc y \<Longrightarrow> x = y"
  by (metis dec_enc)

text \<open>Two encrypted parts written one after the other are separated by the length of the first.\<close>

lemma split_parts:
  "dec (take (length x) (enc x @ enc y)) = x" "dec (drop (length x) (enc x @ enc y)) = y"
  by (simp_all add: length_enc dec_enc)

end

lemma length_BCXOR [simp]: "length (BCXOR offset buf) = length buf"
  by (simp add: BCXOR_def)

lemma BCXOR_nth:
  "i < length buf \<Longrightarrow>
   BCXOR offset buf ! i = (buf ! i XOR bcXMLKey ! ((unat offset + i) mod length bcXMLKey)) XOR offset"
  by (simp add: BCXOR_def)

lemma BCXOR_involution: "BCXOR offset (BCXOR offset buf) = buf"
proof (rule nth_equalityI)
  have xor: "(((b XOR k) XOR ofs) XOR k) XOR ofs = b" for b k ofs :: byte
    by (simp add: xor.assoc xor.left_commute)
  show "BCXOR offset (BCXOR offset buf) ! i = buf ! i" if "i < length (BCXOR offset (BCXOR offset buf))" for i
    using that by (simp add: BCXOR_nth xor)
qed simp

lemma xor_bytes_xor_bytes: "length a \<le> length k \<Longrightarrow> xor_bytes (xor_bytes a k) k = a"
  by (rule nth_equalityI) (auto simp: xor_bytes_def xor.assoc)

lemma length_xor_bytes [simp]: "length (xor_bytes a b) = min (length a) (length b)"
  by (simp add: xor_bytes_def)

lemma length_cfb_encrypt:
  "(\<And>b. length (E b) = 16) \<Longrightarrow> length (cfb_encrypt E prev src) = length src"
  by (induction E prev src rule: cfb_encrypt.induct)
    (subst cfb_encrypt.simps, auto simp: Let_def)

lemma cfb_decrypt_encrypt:
  assumes E: "\<And>b. length (E b) = 16"
  shows "cfb_decrypt E prev (cfb_encrypt E prev src) = src"
  using assms
proof (induction E prev src rule: cfb_encrypt.induct)
  case (1 E prev src)
  show ?case
  proof (cases "src = []")
    case True
    then show ?thesis by (simp add: cfb_encrypt.simps cfb_decrypt.simps)
  next
    case False
    define out where "out = xor_bytes (take 16 src) (E prev)"
    define rest where "rest = cfb_encrypt E out (drop 16 src)"
    have enc: "cfb_encrypt E prev src = out @ rest"
      using False by (simp add: cfb_encrypt.simps [of E prev src] out_def rest_def Let_def)
    have len: "length out = min 16 (length src)" by (simp add: out_def "1.prems")
    have short: "rest = []" if "length src \<le> 16"
      using that by (simp add: rest_def cfb_encrypt.simps)
    have "take 16 (out @ rest) = out" "drop 16 (out @ rest) = rest" "out @ rest \<noteq> []"
      using len short False by (cases "length src \<le> 16"; auto)+
    then have "cfb_decrypt E prev (out @ rest) = xor_bytes out (E prev) @ cfb_decrypt E out rest"
      by (simp only: cfb_decrypt.simps [of E prev "out @ rest"] if_False)
    also have "\<dots> = take 16 src @ drop 16 src"
      using "1.IH" [OF False out_def "1.prems"] by (simp add: out_def rest_def xor_bytes_xor_bytes "1.prems")
    finally show ?thesis by (simp add: enc)
  qed
qed

interpretation bcxor: length_preserving_cipher "BCXOR offset" "BCXOR offset" for offset
  by unfold_locales (simp_all add: BCXOR_involution)

lemma encryptXML_cipher:
  assumes "\<And>k b. length (aes k b) = 16"
  shows "length_preserving_cipher (\<lambda>x. encryptXML aes offset x m key has)
    (\<lambda>x. decryptXML aes offset x m key has)"
  by unfold_locales
    (auto simp: encryptXML_def decryptXML_def aesCFB_def assms cfb_decrypt_encrypt length_cfb_encrypt
      bcxor.dec_enc split: EncryptionMode.split)

text \<open>A concrete block function of the right size.\<close>

definition toy_block :: "byte list \<Rightarrow> byte list \<Rightarrow> byte list" where
  "toy_block k b = take 16 (map (\<lambda>x. x + 1) b @ k @ replicate 16 0x5A)"

lemma length_toy_block [simp]: "length (toy_block k b) = 16"
  by (simp add: toy_block_def)

section \<open>Properties\<close>

text \<open>Encryption of message parts round-trips in every mode, with and without a negotiated key,
  for messages of any length (including a last partial AES block), and keeps the length.  The
  block function is only assumed to give 16 bytes.\<close>

lemma encryption_round_trip:
  assumes "\<And>k b. length (aes k b) = 16"
  shows "decryptXML aes offset (encryptXML aes offset buf mode key has) mode key has = buf
     \<and> length (encryptXML aes offset buf mode key has) = length buf"
proof (intro conjI impI)
  have c: "length_preserving_cipher (\<lambda>x. encryptXML aes offset x mode key has)
    (\<lambda>x. decryptXML aes offset x mode key has)"
    by (rule encryptXML_cipher) (rule assms)
  show "decryptXML aes offset (encryptXML aes offset buf mode key has) mode key has = buf"
    by (rule length_preserving_cipher.dec_enc [OF c])
  show "length (encryptXML aes offset buf mode key has) = length buf"
    by (rule length_preserving_cipher.length_enc [OF c])
qed

text \<open>The key derived from a 16-byte digest is 16 bytes of upper-case hexadecimal digits, and the
  login hashes have 31.\<close>

lemma derived_key_shape:
  assumes "\<And>x. length (md5 x) = 16"
  shows "length (MD5Modern md5 input) = 31
     \<and> set (MD5Modern md5 input) \<subseteq> set hex_upper
     \<and> length (DeriveAESKey md5 nonce password) = 16"
proof (intro conjI impI)
  have dig: "hex_upper ! unat (drop_bit 4 b) \<in> set hex_upper" "hex_upper ! unat (b AND 0x0F) \<in> set hex_upper"
    for b :: byte
  proof -
    have "unat b < 256" using unsigned_less [of b, where ?'a = nat] by simp
    then have "unat (drop_bit 4 b) < 16" by (simp only: unat_drop_bit_eq) (simp add: drop_bit_eq_div)
    then show "hex_upper ! unat (drop_bit 4 b) \<in> set hex_upper"
      by (intro nth_mem) (simp add: hex_upper_def)
    have "b AND 0x0F \<le> 15" by (rule word_and_le1)
    then show "hex_upper ! unat (b AND 0x0F) \<in> set hex_upper"
      by (intro nth_mem) (simp add: hex_upper_def word_le_nat_alt)
  qed
  define out where "out input = concat (map (\<lambda>b. [hex_upper ! unat (drop_bit 4 b), hex_upper ! unat (b AND 0x0F)])
    (md5 (string_bytes input)))" for input
  have len: "length (out input) = 32" for input
    by (simp add: out_def length_concat comp_def assms sum_list_triv)
  have eq: "MD5Modern md5 input = take 31 (out input)" for input
    using len by (simp add: MD5Modern_def out_def Let_def)
  show "length (MD5Modern md5 input) = 31" by (simp add: eq len)
  show "set (MD5Modern md5 input) \<subseteq> set hex_upper"
    using dig by (auto simp: eq out_def dest!: in_set_takeD)
  show "length (DeriveAESKey md5 nonce password) = 16"
    by (simp add: DeriveAESKey_def string_bytes_def eq len)
qed


end
