(* ===== verification/BaichuanMedia.thy ===== *)
theory BaichuanMedia
  imports Prelude
begin

unbundle bit_operations_syntax

text \<open>
  The bcmedia stream of a Baichuan preview, \<^verbatim>\<open>internal/baichuan/media.go\<close>, and the talk blocks the
  gateway sends, \<open>serializeTalkADPCMBlock\<close> of \<^verbatim>\<open>internal/baichuan/talk.go\<close>.  The parser is
  incremental: \<open>Append\<close> adds the bytes of one message to a buffer and takes complete packets off it.
\<close>

section \<open>Packets\<close>

datatype MediaPacketKind =
    MediaPacketInfoV1
  | MediaPacketInfoV2
  | MediaPacketIFrame
  | MediaPacketPFrame
  | MediaPacketAAC
  | MediaPacketADPCM

record MediaPacket =
  Kind :: MediaPacketKind
  Codec :: string
  Data :: "byte list"
  TimestampMicrosecs :: u32
  HasTimestamp :: bool
  UnixTime :: "int option"
  Width :: u32
  Height :: u32
  FPS :: byte

text \<open>A Go composite literal with only the kind set.\<close>

definition media_packet :: "MediaPacketKind \<Rightarrow> MediaPacket" where
  "media_packet k = \<lparr>Kind = k, Codec = [], Data = [], TimestampMicrosecs = 0, HasTimestamp = False,
     UnixTime = None, Width = 0, Height = 0, FPS = 0\<rparr>"

definition bcmediaInfoV1 :: u32 where "bcmediaInfoV1 = 0x31303031"
definition bcmediaInfoV2 :: u32 where "bcmediaInfoV2 = 0x32303031"
definition bcmediaIFrameMin :: u32 where "bcmediaIFrameMin = 0x63643030"
definition bcmediaIFrameMax :: u32 where "bcmediaIFrameMax = 0x63643039"
definition bcmediaPFrameMin :: u32 where "bcmediaPFrameMin = 0x63643130"
definition bcmediaPFrameMax :: u32 where "bcmediaPFrameMax = 0x63643139"
definition bcmediaAAC :: u32 where "bcmediaAAC = 0x62773530"
definition bcmediaAACV2 :: u32 where "bcmediaAACV2 = 0x62773531"
definition bcmediaADPCM :: u32 where "bcmediaADPCM = 0x62773130"
definition bcmediaADPCMHeader :: u16 where "bcmediaADPCMHeader = 0x0100"
definition bcmediaPadSize :: nat where "bcmediaPadSize = 8"

lemmas magic_defs = bcmediaInfoV1_def bcmediaInfoV2_def bcmediaIFrameMin_def bcmediaIFrameMax_def
  bcmediaPFrameMin_def bcmediaPFrameMax_def bcmediaAAC_def bcmediaAACV2_def bcmediaADPCM_def

datatype media_error =
    Bad_info_header nat
  | Bad_aac_size nat
  | Bad_adpcm_size nat
  | Bad_adpcm_marker u16
  | Unknown_magic u32
  | Bad_codec string
  | Bad_video_sizes nat nat

text \<open>The three outcomes of a parse step: the error return, \<open>ok = false\<close> (more bytes needed), and a
  packet with the number of bytes consumed.\<close>

datatype parse_outcome =
    Media_error media_error
  | Need_more
  | Parsed MediaPacket nat

definition padLen :: "nat \<Rightarrow> nat" where
  "padLen n = (if n mod bcmediaPadSize = 0 then 0 else bcmediaPadSize - n mod bcmediaPadSize)"

definition u32_at :: "byte list \<Rightarrow> nat \<Rightarrow> u32" where
  "u32_at b i = of_le32 (b ! i) (b ! (i + 1)) (b ! (i + 2)) (b ! (i + 3))"

definition u16_at :: "byte list \<Rightarrow> nat \<Rightarrow> u16" where
  "u16_at b i = of_le16 (b ! i) (b ! (i + 1))"

section \<open>The parser\<close>

definition parseVideoFrame :: "byte list \<Rightarrow> bool \<Rightarrow> bool \<Rightarrow> parse_outcome" where
  "parseVideoFrame buf iframe copyPayload =
     (if length buf < 24 then Need_more
      else
        let codec = bytes_string (slice 4 8 buf) in
        if codec \<noteq> ''H264'' \<and> codec \<noteq> ''H265'' then Media_error (Bad_codec codec)
        else
          let payloadSize = unat (u32_at buf 8);
              additionalHeaderSize = unat (u32_at buf 12);
              microseconds = u32_at buf 16
          in if payloadSize > 50 * 1024 * 1024 \<or> additionalHeaderSize > 1024 * 1024
             then Media_error (Bad_video_sizes payloadSize additionalHeaderSize)
             else
               let total = 24 + additionalHeaderSize + payloadSize + padLen payloadSize in
               if length buf < total then Need_more
               else
                 let unixTime = (if iframe \<and> additionalHeaderSize \<ge> 4
                                 then Some (uint (u32_at buf 24)) else None);
                     pos = 24 + additionalHeaderSize;
                     packet = (media_packet MediaPacketPFrame)
                       \<lparr>Codec := codec, TimestampMicrosecs := microseconds, HasTimestamp := True,
                        UnixTime := unixTime\<rparr>;
                     packet = (if copyPayload
                               then packet\<lparr>Data := slice pos (pos + payloadSize) buf\<rparr> else packet);
                     packet = (if iframe then packet\<lparr>Kind := MediaPacketIFrame\<rparr> else packet)
                 in Parsed packet total)"

definition parseInfo :: "byte list \<Rightarrow> u32 \<Rightarrow> parse_outcome" where
  "parseInfo buf magic =
     (if length buf < 32 then Need_more
      else
        let headerSize = u32_at buf 4 in
        if headerSize \<noteq> 32 then Media_error (Bad_info_header (unat headerSize))
        else Parsed ((media_packet (if magic = bcmediaInfoV2 then MediaPacketInfoV2 else MediaPacketInfoV1))
               \<lparr>Width := u32_at buf 8, Height := u32_at buf 12, FPS := buf ! 17\<rparr>) 32)"

definition parseAAC :: "byte list \<Rightarrow> parse_outcome" where
  "parseAAC buf =
     (if length buf < 8 then Need_more
      else
        let payloadSize = unat (u16_at buf 4) in
        if payloadSize > 1024 * 1024 then Media_error (Bad_aac_size payloadSize)
        else
          let total = 8 + payloadSize + padLen payloadSize in
          if length buf < total then Need_more
          else Parsed ((media_packet MediaPacketAAC)\<lparr>Data := slice 8 (8 + payloadSize) buf\<rparr>) total)"

definition parseADPCM :: "byte list \<Rightarrow> parse_outcome" where
  "parseADPCM buf =
     (if length buf < 12 then Need_more
      else
        let payloadSize = unat (u16_at buf 4) in
        if payloadSize < 4 \<or> payloadSize > 1024 * 1024 then Media_error (Bad_adpcm_size payloadSize)
        else
          let total = 8 + payloadSize + padLen payloadSize in
          if length buf < total then Need_more
          else if u16_at buf 8 \<noteq> bcmediaADPCMHeader then Media_error (Bad_adpcm_marker (u16_at buf 8))
          else
            let blockSize = payloadSize - 4
            in Parsed ((media_packet MediaPacketADPCM)\<lparr>Data := slice 12 (12 + blockSize) buf\<rparr>) total)"

definition parseMediaPacket :: "byte list \<Rightarrow> bool \<Rightarrow> parse_outcome" where
  "parseMediaPacket buf copyVideo =
     (if length buf < 4 then Need_more
      else
        let magic = u32_at buf 0 in
        if magic = bcmediaInfoV1 \<or> magic = bcmediaInfoV2 then parseInfo buf magic
        else if bcmediaIFrameMin \<le> magic \<and> magic \<le> bcmediaIFrameMax then parseVideoFrame buf True copyVideo
        else if bcmediaPFrameMin \<le> magic \<and> magic \<le> bcmediaPFrameMax then parseVideoFrame buf False copyVideo
        else if magic = bcmediaAAC \<or> magic = bcmediaAACV2 then parseAAC buf
        else if magic = bcmediaADPCM then parseADPCM buf
        else Media_error (Unknown_magic magic))"

section \<open>Talk blocks\<close>

definition serializeTalkADPCMBlock :: "byte list \<Rightarrow> u16 \<Rightarrow> byte list" where
  "serializeTalkADPCMBlock block seq =
     (let payloadSize = length block + 4
      in le32 bcmediaADPCM @ le16 (of_nat payloadSize) @ le16 (of_nat payloadSize)
         @ le16 bcmediaADPCMHeader @ le16 seq @ block @ replicate (padLen payloadSize) 0)"

section \<open>A parse step consumes at least eight bytes and depends only on what it consumes\<close>

lemmas parser_defs = parseVideoFrame_def parseInfo_def parseAAC_def parseADPCM_def

lemma parsed_consumes:
  "parseMediaPacket buf cv = Parsed p n \<Longrightarrow> 8 \<le> n \<and> n \<le> length buf"
  by (auto simp: parseMediaPacket_def parser_defs Let_def split: if_splits)

lemma reads_append [simp]:
  "i + 3 < length b \<Longrightarrow> u32_at (b @ c) i = u32_at b i"
  "i + 1 < length b \<Longrightarrow> u16_at (b @ c) i = u16_at b i"
  by (simp_all add: u32_at_def u16_at_def nth_append)

lemma slice_append [simp]: "hi \<le> length b \<Longrightarrow> slice lo hi (b @ c) = slice lo hi b"
  by (cases "lo \<le> hi") (auto simp: slice_def)

lemma parse_parts_stable:
  "parseVideoFrame buf i cv \<noteq> Need_more \<Longrightarrow> parseVideoFrame (buf @ extra) i cv = parseVideoFrame buf i cv"
  "parseInfo buf m \<noteq> Need_more \<Longrightarrow> parseInfo (buf @ extra) m = parseInfo buf m"
  "parseAAC buf \<noteq> Need_more \<Longrightarrow> parseAAC (buf @ extra) = parseAAC buf"
  "parseADPCM buf \<noteq> Need_more \<Longrightarrow> parseADPCM (buf @ extra) = parseADPCM buf"
  by (auto simp: parser_defs Let_def nth_append split: if_splits)

lemma if_stable:
  "(if c then x else y) \<noteq> n \<Longrightarrow> (x \<noteq> n \<Longrightarrow> x' = x) \<Longrightarrow> (y \<noteq> n \<Longrightarrow> y' = y) \<Longrightarrow>
   (if c then x' else y') = (if c then x else y)"
  by (cases c) auto

lemma parse_stable:
  "parseMediaPacket buf cv \<noteq> Need_more \<Longrightarrow>
   parseMediaPacket (buf @ extra) cv = parseMediaPacket buf cv"
proof -
  assume nm: "parseMediaPacket buf cv \<noteq> Need_more"
  then have len: "\<not> length buf < 4" "\<not> length (buf @ extra) < 4" by (auto simp: parseMediaPacket_def)
  then have magic: "u32_at (buf @ extra) 0 = u32_at buf 0" by simp
  show ?thesis
    using nm unfolding parseMediaPacket_def Let_def magic
    unfolding if_not_P [OF len(1)] if_not_P [OF len(2)]
    by - ((erule if_stable parse_parts_stable | rule refl)+)
qed

section \<open>The incremental parser\<close>

record MediaParser =
  buf :: "byte list"
  AudioOnly :: bool

function append_loop :: "bool \<Rightarrow> byte list \<Rightarrow> byte list \<times> MediaPacket list \<times> media_error option" where
  "append_loop audioOnly b =
     (case parseMediaPacket b (\<not> audioOnly) of
        Media_error e \<Rightarrow> (b, [], Some e)
      | Need_more \<Rightarrow> (b, [], None)
      | Parsed packet consumed \<Rightarrow>
          (case append_loop audioOnly (drop consumed b) of
             (b', out, e) \<Rightarrow>
               (b', if audioOnly \<and> Kind packet \<noteq> MediaPacketAAC \<and> Kind packet \<noteq> MediaPacketADPCM
                    then out else packet # out, e)))"
  by pat_completeness auto
termination
  by (relation "measure (\<lambda>(_, b). length b)") (auto dest: parsed_consumes)

declare append_loop.simps [simp del]

definition Append :: "MediaParser \<Rightarrow> byte list \<Rightarrow> MediaParser \<times> MediaPacket list \<times> media_error option" where
  "Append p data =
     (case append_loop (AudioOnly p) (buf p @ data) of (b, out, e) \<Rightarrow> (p\<lparr>buf := b\<rparr>, out, e))"

text \<open>The preview goroutine: append the payloads of successive messages, stop at the first error.\<close>

fun append_all :: "MediaParser \<Rightarrow> byte list list \<Rightarrow> MediaParser \<times> MediaPacket list \<times> media_error option" where
  "append_all p [] = (p, [], None)"
| "append_all p (c # cs) =
     (case Append p c of
        (p', out, Some e) \<Rightarrow> (p', out, Some e)
      | (p', out, None) \<Rightarrow>
          (case append_all p' cs of (p'', out', e) \<Rightarrow> (p'', out @ out', e)))"

lemma append_loop_append:
  "append_loop a b = (r, out, e) \<Longrightarrow>
   append_loop a (b @ extra) =
     (case e of Some err \<Rightarrow> (r @ extra, out, Some err)
      | None \<Rightarrow> (case append_loop a (r @ extra) of (r', out', e') \<Rightarrow> (r', out @ out', e')))"
proof (induction a b arbitrary: r out e rule: append_loop.induct)
  case (1 a b)
  show ?case
  proof (cases "parseMediaPacket b (\<not> a)")
    case (Media_error err)
    then have "parseMediaPacket (b @ extra) (\<not> a) = Media_error err" using parse_stable by fastforce
    then have "append_loop a (b @ extra) = (b @ extra, [], Some err)" by (simp add: append_loop.simps)
    moreover have "r = b" "out = []" "e = Some err"
      using 1(2) Media_error by (simp_all add: append_loop.simps [of a b])
    ultimately show ?thesis by simp
  next
    case Need_more
    then show ?thesis using 1(2) by (simp add: append_loop.simps [of a b])
  next
    case (Parsed pkt n)
    then have p: "parseMediaPacket (b @ extra) (\<not> a) = Parsed pkt n" using parse_stable by fastforce
    obtain r1 out1 e1 where l: "append_loop a (drop n b) = (r1, out1, e1)" by (cases "append_loop a (drop n b)")
    have d: "drop n (b @ extra) = drop n b @ extra" using parsed_consumes [OF Parsed] by simp
    note ih = 1(1) [OF Parsed l]
    have eb: "append_loop a (b @ extra) = (case append_loop a (drop n b @ extra) of (b', out, e) \<Rightarrow>
        (b', if a \<and> Kind pkt \<noteq> MediaPacketAAC \<and> Kind pkt \<noteq> MediaPacketADPCM then out else pkt # out, e))"
      by (simp only: append_loop.simps [of a "b @ extra"] p d parse_outcome.case)
    show ?thesis
      using 1(2) Parsed l ih unfolding eb
      by (auto simp: append_loop.simps [of a b] split: option.splits prod.splits)
  qed
qed

lemma append_loop_rest:
  "append_loop a b = (r, out, None) \<Longrightarrow> append_loop a r = (r, [], None)"
proof (induction a b arbitrary: r out rule: append_loop.induct)
  case (1 a b)
  then show ?case
    by (cases "parseMediaPacket b (\<not> a)")
      (auto simp: append_loop.simps [of a b] append_loop.simps [of a r] split: prod.splits)
qed

lemma append_all_concat:
  assumes "append_loop (AudioOnly p) (buf p) = (buf p, [], None)"
    and "append_all p cs = (p', out, e)"
  shows "case append_loop (AudioOnly p) (buf p @ concat cs) of
    (r, out', e') \<Rightarrow> out' = out \<and> e' = e \<and> AudioOnly p' = AudioOnly p \<and> (e = None \<longrightarrow> r = buf p')"
  using assms
proof (induction cs arbitrary: p out)
  case (Cons c cs)
  obtain r1 out1 e1 where l: "append_loop (AudioOnly p) (buf p @ c) = (r1, out1, e1)"
    by (cases "append_loop (AudioOnly p) (buf p @ c)")
  have whole: "append_loop (AudioOnly p) (buf p @ concat (c # cs)) =
     (case e1 of Some err \<Rightarrow> (r1 @ concat cs, out1, Some err)
      | None \<Rightarrow> (case append_loop (AudioOnly p) (r1 @ concat cs) of (r', out', e') \<Rightarrow> (r', out1 @ out', e')))"
    using append_loop_append [OF l, of "concat cs"] by simp
  show ?case
  proof (cases e1)
    case (Some err)
    then show ?thesis using Cons.prems l whole by (auto simp: Append_def)
  next
    case None
    let ?q = "p\<lparr>buf := r1\<rparr>"
    obtain p2 out2 e2 where r: "append_all ?q cs = (p2, out2, e2)" by (cases "append_all ?q cs")
    have "append_loop (AudioOnly ?q) (buf ?q) = (buf ?q, [], None)"
      using append_loop_rest l None by simp
    moreover have "p2 = p'" "e2 = e" "out = out1 @ out2"
      using Cons.prems(2) l None r by (simp_all add: Append_def)
    ultimately show ?thesis using Cons.IH [of ?q out2] r whole None by (auto split: prod.splits)
  qed
qed (simp split: prod.splits)

section \<open>Properties\<close>

text \<open>C33.  The media parser does not depend on how the stream is cut into messages: feeding any
  chunks one after the other gives the same packets, the same error and, if there is none, the
  same pending bytes as feeding their concatenation at once.\<close>

theorem media_chunking_irrelevant:
  "case (append_all \<lparr>buf = [], AudioOnly = a\<rparr> chunks, Append \<lparr>buf = [], AudioOnly = a\<rparr> (concat chunks)) of
     ((p, out, e), (p', out', e')) \<Rightarrow> out' = out \<and> e' = e \<and> (e = None \<longrightarrow> p' = p)"
proof -
  have "append_loop a [] = ([], [], None)" by (simp add: append_loop.simps parseMediaPacket_def)
  then show ?thesis
    using append_all_concat [of "\<lparr>buf = [], AudioOnly = a\<rparr>" chunks]
    by (auto simp: Append_def split: prod.splits)
qed

text \<open>A talk block is parsed back.\<close>

lemma parse_serialized:
  assumes "length block \<le> 65531"
  shows "parseMediaPacket (serializeTalkADPCMBlock block seq @ rest) cv =
    Parsed ((media_packet MediaPacketADPCM)\<lparr>Data := block\<rparr>) (length (serializeTalkADPCMBlock block seq))"
proof -
  let ?n = "length block + 4"
  let ?s = "serializeTalkADPCMBlock block seq"
  have len: "length ?s = 8 + ?n + padLen ?n" by (simp add: serializeTalkADPCMBlock_def Let_def)
  have un: "unat (of_nat ?n :: u16) = ?n" using assms by (simp only: unat_of_nat) simp
  have hdr: "u32_at (?s @ rest) 0 = bcmediaADPCM" "u16_at (?s @ rest) 4 = of_nat ?n"
    "u16_at (?s @ rest) 8 = bcmediaADPCMHeader"
    by (simp_all add: u32_at_def u16_at_def serializeTalkADPCMBlock_def Let_def le32_def le16_def
        del: of_nat_add)
  have data: "slice 12 (12 + length block) (?s @ rest) = block"
    by (simp add: slice_def serializeTalkADPCMBlock_def Let_def le32_def le16_def)
  have "parseMediaPacket (?s @ rest) cv = parseADPCM (?s @ rest)"
    unfolding parseMediaPacket_def Let_def hdr using len
    by (simp add: magic_defs)
  also have "\<dots> = Parsed ((media_packet MediaPacketADPCM)\<lparr>Data := block\<rparr>) (8 + ?n + padLen ?n)"
    unfolding parseADPCM_def Let_def hdr un using len assms data by simp
  finally show ?thesis by (simp add: len)
qed

lemma append_loop_blocks:
  assumes "\<forall>(block, seq) \<in> set blocks. length block \<le> 65531"
  shows "append_loop a (concat (map (\<lambda>(block, seq). serializeTalkADPCMBlock block seq) blocks))
    = ([], map (\<lambda>(block, seq). (media_packet MediaPacketADPCM)\<lparr>Data := block\<rparr>) blocks, None)"
  using assms
proof (induction blocks)
  case Nil
  then show ?case by (simp add: append_loop.simps parseMediaPacket_def)
next
  case (Cons x blocks)
  obtain block seq where x: "x = (block, seq)" by fastforce
  have "length block \<le> 65531" using Cons.prems x by simp
  then show ?case using Cons x
    by (subst append_loop.simps) (simp add: parse_serialized media_packet_def)
qed

definition sample_block :: "byte list" where
  "sample_block = serializeTalkADPCMBlock [1, 2, 3, 4, 5] 9"

theorem media_chunking_irrelevant_witness:
  "append_all \<lparr>buf = [], AudioOnly = True\<rparr> [take 5 sample_block, drop 5 sample_block]
     = (\<lparr>buf = [], AudioOnly = True\<rparr>, [(media_packet MediaPacketADPCM)\<lparr>Data := [1, 2, 3, 4, 5]\<rparr>], None)"
proof -
  have "append_loop True sample_block = ([], [(media_packet MediaPacketADPCM)\<lparr>Data := [1, 2, 3, 4, 5]\<rparr>], None)"
    using parse_serialized [of "[1, 2, 3, 4, 5]" 9 "[]" False]
    by (simp add: sample_block_def append_loop.simps parseMediaPacket_def [of "[]"] media_packet_def)
  then have "Append \<lparr>buf = [], AudioOnly = True\<rparr> (concat [take 5 sample_block, drop 5 sample_block])
      = (\<lparr>buf = [], AudioOnly = True\<rparr>, [(media_packet MediaPacketADPCM)\<lparr>Data := [1, 2, 3, 4, 5]\<rparr>], None)"
    by (simp add: Append_def)
  then show ?thesis
    using media_chunking_irrelevant [where a = True and chunks = "[take 5 sample_block, drop 5 sample_block]"]
    by (auto split: prod.splits)
qed

text \<open>What the gateway sends as talk audio is what a bcmedia parser reads: the serialized blocks,
  concatenated in any number and with any sequence numbers, parse back to exactly the ADPCM
  blocks, with nothing left over, as long as a block fits the 16-bit length field; every
  serialized block is a multiple of eight bytes.\<close>

lemma talk_blocks_round_trip:
  assumes "\<forall>(block, seq) \<in> set blocks. length block \<le> 65531"
  shows "Append \<lparr>buf = [], AudioOnly = a\<rparr> (concat (map (\<lambda>(block, seq). serializeTalkADPCMBlock block seq) blocks))
    = (\<lparr>buf = [], AudioOnly = a\<rparr>,
       map (\<lambda>(block, seq). (media_packet MediaPacketADPCM)\<lparr>Data := block\<rparr>) blocks, None)
     \<and> (\<forall>(block, seq) \<in> set blocks. length (serializeTalkADPCMBlock block seq) mod 8 = 0)"
proof (intro conjI impI)
  have "append_loop a (concat (map (\<lambda>(block, seq). serializeTalkADPCMBlock block seq) blocks))
    = ([], map (\<lambda>(block, seq). (media_packet MediaPacketADPCM)\<lparr>Data := block\<rparr>) blocks, None)"
    using assms by (rule append_loop_blocks)
  then show "Append \<lparr>buf = [], AudioOnly = a\<rparr> (concat (map (\<lambda>(block, seq). serializeTalkADPCMBlock block seq) blocks))
    = (\<lparr>buf = [], AudioOnly = a\<rparr>,
       map (\<lambda>(block, seq). (media_packet MediaPacketADPCM)\<lparr>Data := block\<rparr>) blocks, None)"
    by (simp add: Append_def)
  have "(12 + n + padLen (n + 4)) mod 8 = 0" for n
    unfolding padLen_def bcmediaPadSize_def by presburger
  then show "\<forall>(block, seq) \<in> set blocks. length (serializeTalkADPCMBlock block seq) mod 8 = 0"
    by (auto simp: serializeTalkADPCMBlock_def Let_def add.commute add.left_commute)
qed

end
