(* ===== verification/BaichuanMessage.thy ===== *)
theory BaichuanMessage
  imports BaichuanCrypto
begin

unbundle bit_operations_syntax

text \<open>
  Baichuan messages on the wire: \<^verbatim>\<open>internal/baichuan/message.go\<close>, the header types of
  \<^verbatim>\<open>types.go\<close>, the XML helpers of \<^verbatim>\<open>xml.go\<close> and the cipher state of \<^verbatim>\<open>client.go\<close>.  The transport is
  the list of bytes still to arrive, so that \<open>io.ReadFull\<close> fails exactly when too few are left.
  XML decoding (\<^verbatim>\<open>encoding/xml\<close>) is a parameter: \<open>unmarshal_ext\<close> for the extension element and
  \<open>unmarshal_len\<close> for the \<open>encryptLen\<close> of a body, both \<open>None\<close> on a decoding error.
\<close>

section \<open>Constants\<close>

definition magicHeader :: u32 where "magicHeader = 0x0ABCDEF0"
definition classLegacy :: u16 where "classLegacy = 0x6514"
definition classModern :: u16 where "classModern = 0x6614"
definition classModernWithOffset :: u16 where "classModernWithOffset = 0x6414"
definition msgIDLogin :: u32 where "msgIDLogin = 1"

section \<open>Headers and messages\<close>

record Header =
  MsgID :: u32
  BodyLen :: u32
  ChannelID :: byte
  StreamType :: byte
  MsgNum :: u16
  ResponseCode :: u16
  Class :: u16
  PayloadOffset :: u32

definition HasPayloadOffset :: "Header \<Rightarrow> bool" where
  "HasPayloadOffset h \<longleftrightarrow> Class h = classModernWithOffset \<or> Class h = 0"

definition IsModern :: "Header \<Rightarrow> bool" where
  "IsModern h \<longleftrightarrow> Class h \<noteq> classLegacy"

record Extension =
  BinaryData :: "int option"
  ExtChannelID :: "int option"
  EncryptLen :: "int option"

record Message =
  Msg_Header :: Header
  Msg_Extension :: "byte list"
  Msg_Payload :: "byte list"
  XML :: string
  Binary :: bool
  ExtensionMeta :: "Extension option"

datatype message_error =
    Read_EOF
  | Unexpected_magic u32
  | Body_too_large nat
  | Invalid_payload_offset nat nat

text \<open>\<open>success\<close>: the status check of a response.\<close>

definition msg_success :: "Message \<Rightarrow> u16 option" where
  "msg_success m =
     (if \<not> HasPayloadOffset (Msg_Header m) then None
      else if ResponseCode (Msg_Header m) \<in> {200, 201, 300} then None
      else Some (ResponseCode (Msg_Header m)))"

section \<open>Requests\<close>

record request =
  Rq_MsgID :: u32
  Rq_ChannelID :: byte
  Rq_StreamType :: byte
  Rq_Class :: u16
  Rq_MsgNum :: u16
  Rq_Extension :: "byte list"
  Rq_Body :: "byte list"
  Rq_Binary :: bool
  Rq_ForceBC :: bool

section \<open>Cipher state\<close>

record bc_state =
  bc_mode :: EncryptionMode
  bc_aesKey :: "byte list"
  bc_hasAESKey :: bool
  bc_binaryMsgNums :: "u16 set"

definition setNegotiatedEncryption :: "u16 \<Rightarrow> bc_state \<Rightarrow> bc_state" where
  "setNegotiatedEncryption code c =
     (let low = (ucast code :: byte) in
      if low = 0 then c\<lparr>bc_mode := EncryptionNone\<rparr>
      else if low = 0x01 \<or> low = 0x12 then c\<lparr>bc_mode := EncryptionBC\<rparr>
      else if low = 0x02 \<or> low = 0x03 then c\<lparr>bc_mode := EncryptionAES\<rparr>
      else c)"

section \<open>XML helpers\<close>

definition parseExtension :: "(byte list \<Rightarrow> Extension option) \<Rightarrow> byte list \<Rightarrow> Extension option" where
  "parseExtension unmarshal_ext b = (if b = [] then None else unmarshal_ext b)"

definition trimXML :: "byte list \<Rightarrow> string" where
  "trimXML b = trim_space (bytes_string b)"

definition parseEncryptLen :: "(string \<Rightarrow> int option) \<Rightarrow> string \<Rightarrow> int option" where
  "parseEncryptLen unmarshal_len xmlText =
     (if xmlText = [] then None
      else case unmarshal_len xmlText of
        None \<Rightarrow> None
      | Some n \<Rightarrow> if n \<le> 0 then None else Some n)"

section \<open>Writing\<close>

definition encodeRequest :: "(byte list \<Rightarrow> byte list \<Rightarrow> byte list) \<Rightarrow> bc_state \<Rightarrow> request \<Rightarrow> byte list" where
  "encodeRequest aes c req =
     (let mode = (if Rq_ForceBC req then EncryptionBC else bc_mode c);
          enc = (\<lambda>b. encryptXML aes (Rq_ChannelID req) b mode (bc_aesKey c) (bc_hasAESKey c));
          extension = (if Rq_Class req \<noteq> classLegacy \<and> Rq_Extension req \<noteq> []
                       then enc (Rq_Extension req) else Rq_Extension req);
          body = (if Rq_Class req \<noteq> classLegacy \<and> \<not> Rq_Binary req \<and> Rq_Body req \<noteq> []
                  then enc (Rq_Body req) else Rq_Body req);
          responseCode = (if Rq_Class req = classLegacy \<and> Rq_MsgID req = msgIDLogin \<and> body = []
                          then 0xDC12 else 0);
          offset = (if Rq_Class req = classModernWithOffset \<or> Rq_Class req = 0
                    then le32 (of_nat (length extension)) else [])
      in le32 magicHeader @ le32 (Rq_MsgID req) @ le32 (of_nat (length extension + length body))
         @ [Rq_ChannelID req, Rq_StreamType req] @ le16 (Rq_MsgNum req) @ le16 responseCode
         @ le16 (Rq_Class req) @ offset @ extension @ body)"

section \<open>Reading\<close>

definition read_u32 :: "byte list \<Rightarrow> nat \<Rightarrow> u32" where
  "read_u32 b i = of_le32 (b ! i) (b ! (i + 1)) (b ! (i + 2)) (b ! (i + 3))"

definition read_u16 :: "byte list \<Rightarrow> nat \<Rightarrow> u16" where
  "read_u16 b i = of_le16 (b ! i) (b ! (i + 1))"

definition parse_header :: "byte list \<Rightarrow> Header" where
  "parse_header b =
     \<lparr>MsgID = read_u32 b 4, BodyLen = read_u32 b 8, ChannelID = b ! 12, StreamType = b ! 13,
      MsgNum = read_u16 b 14, ResponseCode = read_u16 b 16, Class = read_u16 b 18, PayloadOffset = 0\<rparr>"

text \<open>The part of \<open>readMessage\<close> up to the body: header, optional payload offset, body, rest.\<close>

definition read_frame :: "byte list \<Rightarrow> message_error + Header \<times> byte list \<times> byte list" where
  "read_frame s =
     (if length s < 20 then Inl Read_EOF
      else if read_u32 s 0 \<noteq> magicHeader then Inl (Unexpected_magic (read_u32 s 0))
      else
        let h = parse_header s; s1 = drop 20 s in
        if HasPayloadOffset h \<and> length s1 < 4 then Inl Read_EOF
        else
          let h = (if HasPayloadOffset h then h\<lparr>PayloadOffset := read_u32 s1 0\<rparr> else h);
              s2 = (if HasPayloadOffset h then drop 4 s1 else s1);
              n = unat (BodyLen h)
          in if n > 8 * 1024 * 1024 then Inl (Body_too_large n)
             else if length s2 < n then Inl Read_EOF
             else Inr (h, take n s2, drop n s2))"

text \<open>The interpretation of the body: decryption, binary detection, XML text.\<close>

definition encrypt_len ::
  "(string \<Rightarrow> int option) \<Rightarrow> Extension option \<Rightarrow> string \<Rightarrow> int" where
  "encrypt_len unmarshal_len extensionMeta prePayloadXML =
     (case extensionMeta of
        Some m \<Rightarrow> (case EncryptLen m of
            Some n \<Rightarrow> n
          | None \<Rightarrow> (case parseEncryptLen unmarshal_len prePayloadXML of Some n \<Rightarrow> n | None \<Rightarrow> 0))
      | None \<Rightarrow> (case parseEncryptLen unmarshal_len prePayloadXML of Some n \<Rightarrow> n | None \<Rightarrow> 0))"

definition is_flagged :: "Extension option \<Rightarrow> bool" where
  "is_flagged extensionMeta = (case extensionMeta of None \<Rightarrow> False | Some m \<Rightarrow> BinaryData m = Some 1)"

definition decode_parts ::
  "(byte list \<Rightarrow> byte list \<Rightarrow> byte list) \<Rightarrow> (byte list \<Rightarrow> Extension option) \<Rightarrow> (string \<Rightarrow> int option)
   \<Rightarrow> bc_state \<Rightarrow> Header \<Rightarrow> byte list \<Rightarrow> byte list \<Rightarrow> bc_state \<times> Message" where
  "decode_parts aes unmarshal_ext unmarshal_len c h extEncrypted payloadEncrypted =
     (let dec = (\<lambda>b. decryptXML aes (ChannelID h) b (bc_mode c) (bc_aesKey c) (bc_hasAESKey c));
          extension = (if extEncrypted \<noteq> [] then dec extEncrypted else []);
          prePayloadXML = (if extEncrypted \<noteq> [] then trimXML extension else []);
          extensionMeta = parseExtension unmarshal_ext extension;
          flagged = is_flagged extensionMeta;
          c = (if flagged then c\<lparr>bc_binaryMsgNums := insert (MsgNum h) (bc_binaryMsgNums c)\<rparr> else c);
          binaryPayload = (flagged \<or> MsgNum h \<in> bc_binaryMsgNums c);
          encryptLen = encrypt_len unmarshal_len extensionMeta prePayloadXML;
          payload = (if payloadEncrypted = [] then []
            else if binaryPayload
            then (if 0 < encryptLen \<and> bc_hasAESKey c \<and> encryptLen \<le> int (length payloadEncrypted)
                  then aesCFB aes (take (nat encryptLen) payloadEncrypted) (bc_aesKey c) False
                       @ drop (nat encryptLen) payloadEncrypted
                  else payloadEncrypted)
            else dec payloadEncrypted);
          xmlText = (if payloadEncrypted = [] then []
            else if binaryPayload then prePayloadXML else trimXML payload)
      in (c, \<lparr>Msg_Header = h, Msg_Extension = extension, Msg_Payload = payload, XML = xmlText,
            Binary = binaryPayload, ExtensionMeta = extensionMeta\<rparr>))"

definition decode_body ::
  "(byte list \<Rightarrow> byte list \<Rightarrow> byte list) \<Rightarrow> (byte list \<Rightarrow> Extension option) \<Rightarrow> (string \<Rightarrow> int option)
   \<Rightarrow> bc_state \<Rightarrow> Header \<Rightarrow> byte list \<Rightarrow> bc_state \<times> (message_error + Message)" where
  "decode_body aes unmarshal_ext unmarshal_len c h body =
     (let c = (if MsgID h = msgIDLogin \<and> IsModern h \<and> drop_bit 8 (ResponseCode h) = 0xDD
               then setNegotiatedEncryption (ResponseCode h) c else c);
          extLen = (if HasPayloadOffset h \<and> PayloadOffset h > 0 then unat (PayloadOffset h) else 0)
      in if extLen > unat (BodyLen h) then (c, Inl (Invalid_payload_offset extLen (unat (BodyLen h))))
         else (case decode_parts aes unmarshal_ext unmarshal_len c h (take extLen body) (drop extLen body) of
                 (c', m) \<Rightarrow> (c', Inr m)))"

definition readMessage ::
  "(byte list \<Rightarrow> byte list \<Rightarrow> byte list) \<Rightarrow> (byte list \<Rightarrow> Extension option) \<Rightarrow> (string \<Rightarrow> int option)
   \<Rightarrow> bc_state \<Rightarrow> byte list \<Rightarrow> bc_state \<times> (message_error + Message \<times> byte list)" where
  "readMessage aes unmarshal_ext unmarshal_len c s =
     (case read_frame s of
        Inl e \<Rightarrow> (c, Inl e)
      | Inr (h, body, rest) \<Rightarrow>
          (case decode_body aes unmarshal_ext unmarshal_len c h body of
             (c', Inl e) \<Rightarrow> (c', Inl e)
           | (c', Inr m) \<Rightarrow> (c', Inr (m, rest))))"

section \<open>Frames\<close>

definition frame_header :: "u32 \<Rightarrow> nat \<Rightarrow> byte \<Rightarrow> byte \<Rightarrow> u16 \<Rightarrow> u16 \<Rightarrow> u16 \<Rightarrow> byte list" where
  "frame_header mid n ch st num rc cls =
     le32 magicHeader @ le32 mid @ le32 (of_nat n) @ [ch, st] @ le16 num @ le16 rc @ le16 cls"

lemma length_frame_header [simp]: "length (frame_header mid n ch st num rc cls) = 20"
  by (simp add: frame_header_def)

lemma unat_of_nat_u32: "n \<le> 8 * 1024 * 1024 \<Longrightarrow> unat (of_nat n :: u32) = n"
  by (simp only: unat_of_nat) simp

lemma frame_header_fields:
  "read_u32 (frame_header mid n ch st num rc cls @ x) 0 = magicHeader"
  "parse_header (frame_header mid n ch st num rc cls @ x) =
     \<lparr>MsgID = mid, BodyLen = of_nat n, ChannelID = ch, StreamType = st, MsgNum = num,
      ResponseCode = rc, Class = cls, PayloadOffset = 0\<rparr>"
  by (simp_all add: frame_header_def parse_header_def read_u32_def read_u16_def le32_def le16_def)

lemma read_u32_le32 [simp]: "read_u32 (le32 w @ x) 0 = w"
  by (simp add: read_u32_def le32_def)

lemma drop_le32 [simp]: "drop 4 (le32 w @ x) = x"
  by (simp add: le32_def)

lemma read_frame_header:
  assumes "n \<le> 8 * 1024 * 1024" "n \<le> length x" "cls = classModernWithOffset \<or> cls = 0"
  shows "read_frame (frame_header mid n ch st num rc cls @ le32 off @ x) =
    Inr (\<lparr>MsgID = mid, BodyLen = of_nat n, ChannelID = ch, StreamType = st, MsgNum = num,
          ResponseCode = rc, Class = cls, PayloadOffset = off\<rparr>, take n x, drop n x)"
  using assms
  by (simp add: read_frame_def frame_header_fields HasPayloadOffset_def Let_def unat_of_nat_u32)

text \<open>A frame cut off anywhere is an end of input, never a message.\<close>

lemma read_frame_truncated:
  assumes "length x = n" "n \<le> 8 * 1024 * 1024" "cls = classModernWithOffset \<or> cls = 0"
    and "k < 24 + n"
  shows "read_frame (take k (frame_header mid n ch st num rc cls @ le32 off @ x)) = Inl Read_EOF"
proof -
  let ?H = "frame_header mid n ch st num rc cls"
  consider "k < 20" | "20 \<le> k" "k < 24" | "24 \<le> k" by linarith
  then show ?thesis
  proof cases
    case 1
    then show ?thesis by (simp add: read_frame_def)
  next
    case 2
    then have "take k (?H @ le32 off @ x) = ?H @ take (k - 20) (le32 off)" by simp
    moreover have "k - 20 < 4" using 2 by linarith
    ultimately show ?thesis using assms(3)
      by (simp only:) (simp add: read_frame_def frame_header_fields HasPayloadOffset_def Let_def)
  next
    case 3
    then have "take k (?H @ le32 off @ x) = ?H @ le32 off @ take (k - 24) x" by simp
    then show ?thesis using 3 assms
      by (simp only:) (simp add: read_frame_def frame_header_fields HasPayloadOffset_def Let_def unat_of_nat_u32)
  qed
qed

section \<open>What a reader with the same cipher state gets from an encoded request\<close>

definition sent_mode :: "bc_state \<Rightarrow> request \<Rightarrow> EncryptionMode" where
  "sent_mode c req = (if Rq_ForceBC req then EncryptionBC else bc_mode c)"

definition sent_extension :: "(byte list \<Rightarrow> byte list \<Rightarrow> byte list) \<Rightarrow> bc_state \<Rightarrow> request \<Rightarrow> byte list" where
  "sent_extension aes c req =
     encryptXML aes (Rq_ChannelID req) (Rq_Extension req) (sent_mode c req) (bc_aesKey c) (bc_hasAESKey c)"

definition sent_body :: "(byte list \<Rightarrow> byte list \<Rightarrow> byte list) \<Rightarrow> bc_state \<Rightarrow> request \<Rightarrow> byte list" where
  "sent_body aes c req =
     (if Rq_Binary req then Rq_Body req
      else encryptXML aes (Rq_ChannelID req) (Rq_Body req) (sent_mode c req) (bc_aesKey c) (bc_hasAESKey c))"

lemma trimXML_Nil [simp]: "trimXML [] = []"
  by (simp add: trimXML_def trim_space_def trim_left_def bytes_string_def)

lemma encryptXML_Nil [simp]: "encryptXML aes ofs [] m k h = []" "decryptXML aes ofs [] m k h = []"
  by (auto simp: encryptXML_def decryptXML_def BCXOR_def aesCFB_def cfb_encrypt.simps cfb_decrypt.simps
      split: EncryptionMode.splits)

lemma encodeRequest_frame:
  assumes "Rq_Class req = classModernWithOffset \<or> Rq_Class req = 0"
  shows "encodeRequest aes c req =
    frame_header (Rq_MsgID req) (length (sent_extension aes c req) + length (sent_body aes c req))
      (Rq_ChannelID req) (Rq_StreamType req) (Rq_MsgNum req) 0 (Rq_Class req)
    @ le32 (of_nat (length (sent_extension aes c req))) @ sent_extension aes c req @ sent_body aes c req"
proof -
  have "Rq_Class req \<noteq> classLegacy"
    using assms by (auto simp: classLegacy_def classModernWithOffset_def)
  then show ?thesis using assms
    by (auto simp: encodeRequest_def frame_header_def sent_extension_def sent_body_def sent_mode_def Let_def)
qed

text \<open>The conditions under which the two ends agree: the same cipher state, the binary flag of the
  request announced by its extension (and no partial encryption announced for a binary body), and
  a message number that the reader does not take for an earlier binary stream.\<close>

definition agrees ::
  "(byte list \<Rightarrow> Extension option) \<Rightarrow> (string \<Rightarrow> int option) \<Rightarrow> bc_state \<Rightarrow> bc_state \<Rightarrow> request \<Rightarrow> bool" where
  "agrees ux ul c d req \<longleftrightarrow>
     bc_mode d = sent_mode c req \<and> bc_aesKey d = bc_aesKey c \<and> bc_hasAESKey d = bc_hasAESKey c
     \<and> Rq_Binary req = is_flagged (parseExtension ux (Rq_Extension req))
     \<and> (if Rq_Binary req
        then encrypt_len ul (parseExtension ux (Rq_Extension req)) (trimXML (Rq_Extension req)) = 0
        else Rq_MsgNum req \<notin> bc_binaryMsgNums d)"

lemma decode_parts_sent:
  assumes aes: "\<And>k b. length (aes k b) = 16"
    and agr: "agrees ux ul c d req"
    and h: "ChannelID h = Rq_ChannelID req" "MsgNum h = Rq_MsgNum req"
  shows "\<exists>m. decode_parts aes ux ul d h (sent_extension aes c req) (sent_body aes c req) =
      (if Rq_Binary req then d\<lparr>bc_binaryMsgNums := insert (Rq_MsgNum req) (bc_binaryMsgNums d)\<rparr> else d, m)
    \<and> Msg_Header m = h \<and> Msg_Extension m = Rq_Extension req \<and> Msg_Payload m = Rq_Body req
    \<and> Binary m = Rq_Binary req"
proof -
  let ?e = "sent_extension aes c req"
  let ?b = "sent_body aes c req"
  have cipher: "length_preserving_cipher (\<lambda>x. encryptXML aes (Rq_ChannelID req) x (sent_mode c req) (bc_aesKey c) (bc_hasAESKey c))
    (\<lambda>x. decryptXML aes (Rq_ChannelID req) x (sent_mode c req) (bc_aesKey c) (bc_hasAESKey c))"
    by (rule encryptXML_cipher) (rule aes)
  note rt = length_preserving_cipher.dec_enc [OF cipher]
  note nil = length_preserving_cipher.enc_empty_iff [OF cipher]
  have keys: "bc_mode d = sent_mode c req" "bc_aesKey d = bc_aesKey c" "bc_hasAESKey d = bc_hasAESKey c"
    using agr by (simp_all add: agrees_def)
  have ext: "(if ?e \<noteq> [] then decryptXML aes (Rq_ChannelID req) ?e (sent_mode c req) (bc_aesKey c) (bc_hasAESKey c) else [])
      = Rq_Extension req"
    by (simp add: sent_extension_def rt nil)
  have pre: "(if ?e \<noteq> [] then trimXML (Rq_Extension req) else []) = trimXML (Rq_Extension req)"
    by (simp add: sent_extension_def nil)
  show ?thesis
  proof (cases "Rq_Binary req")
    case True
    then have f: "is_flagged (parseExtension ux (Rq_Extension req))"
      "encrypt_len ul (parseExtension ux (Rq_Extension req)) (trimXML (Rq_Extension req)) = 0"
      using agr by (simp_all add: agrees_def)
    have b: "?b = Rq_Body req" using True by (simp add: sent_body_def)
    show ?thesis
      unfolding decode_parts_def Let_def keys h ext pre b using True f by simp
  next
    case False
    then have f: "\<not> is_flagged (parseExtension ux (Rq_Extension req))" "Rq_MsgNum req \<notin> bc_binaryMsgNums d"
      using agr by (simp_all add: agrees_def)
    have b: "(if ?b = [] then [] else decryptXML aes (Rq_ChannelID req) ?b (sent_mode c req) (bc_aesKey c) (bc_hasAESKey c))
        = Rq_Body req"
      using False by (simp add: sent_body_def rt nil)
    show ?thesis
      unfolding decode_parts_def Let_def keys h ext pre using False f b by (simp split: if_split_asm)
  qed
qed

lemma read_encoded:
  assumes "\<And>k b. length (aes k b) = 16"
    and "Rq_Class req = classModernWithOffset \<or> Rq_Class req = 0"
    and "length (Rq_Extension req) + length (Rq_Body req) \<le> 8 * 1024 * 1024"
    and "agrees ux ul c d req"
  shows "\<exists>m. readMessage aes ux ul d (encodeRequest aes c req @ rest) =
      (if Rq_Binary req then d\<lparr>bc_binaryMsgNums := insert (Rq_MsgNum req) (bc_binaryMsgNums d)\<rparr> else d, Inr (m, rest))
    \<and> MsgID (Msg_Header m) = Rq_MsgID req \<and> MsgNum (Msg_Header m) = Rq_MsgNum req
    \<and> ChannelID (Msg_Header m) = Rq_ChannelID req \<and> StreamType (Msg_Header m) = Rq_StreamType req
    \<and> Msg_Extension m = Rq_Extension req \<and> Msg_Payload m = Rq_Body req \<and> Binary m = Rq_Binary req"
proof -
  let ?e = "sent_extension aes c req"
  let ?b = "sent_body aes c req"
  let ?n = "length ?e + length ?b"
  have cipher: "length_preserving_cipher (\<lambda>x. encryptXML aes (Rq_ChannelID req) x (sent_mode c req) (bc_aesKey c) (bc_hasAESKey c))
    (\<lambda>x. decryptXML aes (Rq_ChannelID req) x (sent_mode c req) (bc_aesKey c) (bc_hasAESKey c))"
    by (rule encryptXML_cipher) (rule assms(1))
  note len = length_preserving_cipher.length_enc [OF cipher]
  have n: "?n \<le> 8 * 1024 * 1024" using assms(3) by (simp add: sent_extension_def sent_body_def len)
  define h where "h = \<lparr>MsgID = Rq_MsgID req, BodyLen = of_nat ?n, ChannelID = Rq_ChannelID req,
    StreamType = Rq_StreamType req, MsgNum = Rq_MsgNum req, ResponseCode = 0, Class = Rq_Class req,
    PayloadOffset = of_nat (length ?e)\<rparr>"
  have frame: "read_frame (encodeRequest aes c req @ rest) = Inr (h, ?e @ ?b, rest)"
    unfolding encodeRequest_frame [OF assms(2)] h_def
    using read_frame_header [OF n, of "?e @ ?b @ rest" "Rq_Class req"] assms(2) by simp
  let ?d = "if Rq_Binary req then d\<lparr>bc_binaryMsgNums := insert (Rq_MsgNum req) (bc_binaryMsgNums d)\<rparr> else d"
  obtain m where parts: "decode_parts aes ux ul d h ?e ?b = (?d, m)"
    "Msg_Header m = h" "Msg_Extension m = Rq_Extension req" "Msg_Payload m = Rq_Body req" "Binary m = Rq_Binary req"
    using decode_parts_sent [of aes ux ul c d req h] assms(1,4) unfolding h_def by fastforce
  have un: "unat (of_nat (length ?e) :: u32) = length ?e" "unat (of_nat ?n :: u32) = ?n"
    using n unat_of_nat_u32 [of "length ?e"] unat_of_nat_u32 [of ?n] by simp_all
  have ext: "(if HasPayloadOffset h \<and> 0 < PayloadOffset h then unat (PayloadOffset h) else 0) = length ?e"
    using un(1) assms(2) by (auto simp: h_def HasPayloadOffset_def word_less_nat_alt)
  have plain: "\<not> (MsgID h = msgIDLogin \<and> IsModern h \<and> drop_bit 8 (ResponseCode h) = 0xDD)"
    by (simp add: h_def)
  have bl: "unat (BodyLen h) = ?n" using un(2) by (simp add: h_def)
  have "decode_body aes ux ul d h (?e @ ?b) = (?d, Inr m)"
    unfolding decode_body_def Let_def ext bl if_not_P [OF plain] using parts(1) by simp
  then show ?thesis using parts(2-) frame by (auto simp: readMessage_def h_def)
qed

section \<open>Properties\<close>

text \<open>C22.  A request written by \<open>encodeRequest\<close> is read back by \<open>readMessage\<close> as the message that was
  meant: the same message id, number, channel and stream type, extension and body, in every
  encryption mode, text or binary, leaving exactly the bytes that follow it in the stream.  The
  reader shares the cipher state, the message is at most 8 MiB and of the class with a payload
  offset.\<close>

theorem message_round_trip:
  assumes "\<And>k b. length (aes k b) = 16"
    and "Rq_Class req = classModernWithOffset \<or> Rq_Class req = 0"
    and "length (Rq_Extension req) + length (Rq_Body req) \<le> 8 * 1024 * 1024"
    and "agrees ux ul c d req"
  shows "\<exists>d' m. readMessage aes ux ul d (encodeRequest aes c req @ rest) = (d', Inr (m, rest))
    \<and> MsgID (Msg_Header m) = Rq_MsgID req \<and> MsgNum (Msg_Header m) = Rq_MsgNum req
    \<and> ChannelID (Msg_Header m) = Rq_ChannelID req \<and> StreamType (Msg_Header m) = Rq_StreamType req
    \<and> Msg_Extension m = Rq_Extension req \<and> Msg_Payload m = Rq_Body req \<and> Binary m = Rq_Binary req"
  using read_encoded [of aes req ux ul c d rest] assms by blast

definition ping_request :: request where
  "ping_request = \<lparr>Rq_MsgID = 93, Rq_ChannelID = 2, Rq_StreamType = 0, Rq_Class = classModernWithOffset,
     Rq_MsgNum = 7, Rq_Extension = [0x61], Rq_Body = [0x62, 0x63], Rq_Binary = False, Rq_ForceBC = False\<rparr>"

definition aes_state :: bc_state where
  "aes_state = \<lparr>bc_mode = EncryptionAES, bc_aesKey = replicate 16 0x41, bc_hasAESKey = True, bc_binaryMsgNums = {}\<rparr>"

lemma ping_agrees: "agrees (\<lambda>_. None) (\<lambda>_. None) aes_state aes_state ping_request"
  by (simp add: agrees_def ping_request_def aes_state_def sent_mode_def parseExtension_def is_flagged_def)

theorem message_round_trip_witness:
  "\<exists>d' m. readMessage toy_block (\<lambda>_. None) (\<lambda>_. None) aes_state (encodeRequest toy_block aes_state ping_request @ [1, 2])
     = (d', Inr (m, [1, 2])) \<and> Msg_Payload m = [0x62, 0x63]"
  using message_round_trip [of toy_block ping_request "\<lambda>_. None" "\<lambda>_. None" aes_state aes_state "[1, 2]"]
    ping_agrees by (auto simp: ping_request_def)

text \<open>A message cut off anywhere is never accepted: every proper prefix of an encoded request is
  an end-of-input error and leaves the reader's state alone.\<close>

lemma truncated_message_rejected:
  assumes "\<And>k b. length (aes k b) = 16"
    and "Rq_Class req = classModernWithOffset \<or> Rq_Class req = 0"
    and "length (Rq_Extension req) + length (Rq_Body req) \<le> 8 * 1024 * 1024"
    and "k < length (encodeRequest aes c req)"
  shows "readMessage aes ux ul d (take k (encodeRequest aes c req)) = (d, Inl Read_EOF)"
proof -
  let ?e = "sent_extension aes c req"
  let ?b = "sent_body aes c req"
  have cipher: "length_preserving_cipher (\<lambda>x. encryptXML aes (Rq_ChannelID req) x (sent_mode c req) (bc_aesKey c) (bc_hasAESKey c))
    (\<lambda>x. decryptXML aes (Rq_ChannelID req) x (sent_mode c req) (bc_aesKey c) (bc_hasAESKey c))"
    by (rule encryptXML_cipher) (rule assms(1))
  have n: "length ?e + length ?b \<le> 8 * 1024 * 1024"
    using assms(3) by (simp add: sent_extension_def sent_body_def length_preserving_cipher.length_enc [OF cipher])
  have "k < 24 + length (?e @ ?b)"
    using assms(4) unfolding encodeRequest_frame [OF assms(2)] by simp
  then have "read_frame (take k (encodeRequest aes c req)) = Inl Read_EOF"
    unfolding encodeRequest_frame [OF assms(2)]
    using read_frame_truncated [of "?e @ ?b" "length ?e + length ?b" "Rq_Class req" k] n assms(2)
    by simp
  then show ?thesis by (simp add: readMessage_def)
qed

end
