(* ===== verification/GoStrings.thy ===== *)
theory GoStrings
  imports Prelude "HOL-Library.Sublist"
begin

text \<open>
  The functions of Go's \<^verbatim>\<open>strings\<close>, \<^verbatim>\<open>strconv\<close> and \<^verbatim>\<open>fmt\<close> packages that the text protocols of the
  gateway use, on ASCII strings, with the lemmas on joining, splitting and printing that their
  round trips need.
\<close>

section \<open>Characters\<close>

definition CR :: char where "CR = CHR 0x0D"
definition LF :: char where "LF = CHR 0x0A"
definition CRLF :: string where "CRLF = [CR, LF]"

definition upper_char :: "char \<Rightarrow> char" where
  "upper_char c = (let n = (of_char c :: nat) in if 97 \<le> n \<and> n \<le> 122 then char_of (n - 32) else c)"

definition to_upper :: "string \<Rightarrow> string" where
  "to_upper s = map upper_char s"

lemma upper_char_idem [simp]: "upper_char (upper_char c) = upper_char c"
  by (auto simp: upper_char_def Let_def)

lemma to_upper_idem [simp]: "to_upper (to_upper s) = to_upper s"
  by (simp add: to_upper_def)

text \<open>\<open>strings.EqualFold\<close>.\<close>

definition equal_fold :: "string \<Rightarrow> string \<Rightarrow> bool" where
  "equal_fold a b = (to_lower a = to_lower b)"

section \<open>Searching and splitting\<close>

text \<open>\<open>strings.Index\<close> with the parts before and after the first occurrence.\<close>

fun cut :: "string \<Rightarrow> string \<Rightarrow> (string \<times> string) option" where
  "cut sep [] = (if sep = [] then Some ([], []) else None)"
| "cut sep (x # xs) =
     (if prefix sep (x # xs) then Some ([], drop (length sep) (x # xs))
      else map_option (\<lambda>(a, b). (x # a, b)) (cut sep xs))"

text \<open>\<open>strings.LastIndexByte\<close>, likewise.\<close>

fun cut_last :: "char \<Rightarrow> string \<Rightarrow> (string \<times> string) option" where
  "cut_last c [] = None"
| "cut_last c (x # xs) =
     (case cut_last c xs of
        Some (a, b) \<Rightarrow> Some (x # a, b)
      | None \<Rightarrow> if x = c then Some ([], xs) else None)"

lemma cut_length: "cut sep s = Some (a, b) \<Longrightarrow> length s = length a + length sep + length b"
  by (induction s arbitrary: a) (auto split: if_splits dest: prefix_length_le)

text \<open>\<open>strings.Split\<close> with a non-empty separator.\<close>

function split_str :: "string \<Rightarrow> string \<Rightarrow> string list" where
  "split_str sep s =
     (if sep = [] then [s]
      else case cut sep s of None \<Rightarrow> [s] | Some (a, b) \<Rightarrow> a # split_str sep b)"
  by pat_completeness auto
termination
  by (relation "measure (\<lambda>(_, s). length s)") (auto dest: cut_length)

declare split_str.simps [simp del]

text \<open>\<open>strings.SplitN(s, sep, 2)\<close>.\<close>

definition split2 :: "string \<Rightarrow> string \<Rightarrow> string list" where
  "split2 sep s = (case cut sep s of None \<Rightarrow> [s] | Some (a, b) \<Rightarrow> [a, b])"

fun join :: "string \<Rightarrow> string list \<Rightarrow> string" where
  "join sep [] = []"
| "join sep [x] = x"
| "join sep (x # y # ys) = x @ sep @ join sep (y # ys)"

text \<open>\<open>strings.Fields\<close>.\<close>

fun split_space :: "string \<Rightarrow> string list" where
  "split_space [] = [[]]"
| "split_space (x # xs) =
     (if is_space x then [] # split_space xs
      else case split_space xs of p # ps \<Rightarrow> (x # p) # ps | [] \<Rightarrow> [[x]])"

definition str_fields :: "string \<Rightarrow> string list" where
  "str_fields s = filter (\<lambda>w. w \<noteq> []) (split_space s)"

text \<open>\<open>strings.HasPrefix\<close>, \<open>strings.TrimPrefix\<close>, \<open>strings.Trim\<close> with a set of characters,
  \<open>strings.ReplaceAll\<close>.\<close>

definition trim_prefix :: "string \<Rightarrow> string \<Rightarrow> string" where
  "trim_prefix p s = (if prefix p s then drop (length p) s else s)"

definition trim_chars :: "string \<Rightarrow> string \<Rightarrow> string" where
  "trim_chars cs s =
     rev (dropWhile (\<lambda>c. c \<in> set cs) (rev (dropWhile (\<lambda>c. c \<in> set cs) s)))"

definition replace_all :: "string \<Rightarrow> string \<Rightarrow> string \<Rightarrow> string" where
  "replace_all s old new = join new (split_str old s)"

section \<open>Numbers\<close>

definition is_digit :: "char \<Rightarrow> bool" where
  "is_digit c = (let n = (of_char c :: nat) in 48 \<le> n \<and> n \<le> 57)"

definition digit_value :: "char \<Rightarrow> nat" where
  "digit_value c = of_char c - 48"

definition digits_value :: "string \<Rightarrow> nat" where
  "digits_value s = foldl (\<lambda>n c. 10 * n + digit_value c) 0 s"

text \<open>\<open>strconv.Atoi\<close>: the value and whether there was no error.  On a syntax error the value is 0,
  on a range error the nearest representable value.\<close>

definition atoi :: "string \<Rightarrow> int \<times> bool" where
  "atoi s =
     (let neg = (s \<noteq> [] \<and> hd s = CHR ''-'');
          ds = (if s \<noteq> [] \<and> (hd s = CHR ''-'' \<or> hd s = CHR ''+'') then tl s else s);
          n = int (digits_value ds)
      in if ds = [] \<or> \<not> list_all is_digit ds then (0, False)
         else if neg then (if n \<le> 2 ^ 63 then (- n, True) else (- (2 ^ 63), False))
         else (if n < 2 ^ 63 then (n, True) else (2 ^ 63 - 1, False)))"

text \<open>\<open>strconv.ParseUint(s, 10, 32)\<close>.\<close>

definition parse_uint32 :: "string \<Rightarrow> nat \<times> bool" where
  "parse_uint32 s =
     (if s = [] \<or> \<not> list_all is_digit s then (0, False)
      else if digits_value s < 2 ^ 32 then (digits_value s, True)
      else (2 ^ 32 - 1, False))"

definition digit_char :: "nat \<Rightarrow> char" where
  "digit_char d = char_of (48 + d)"

text \<open>The decimal notation that \<open>%d\<close> and \<open>strconv.Itoa\<close> print.\<close>

fun show_nat :: "nat \<Rightarrow> string" where
  "show_nat n = (if n < 10 then [digit_char n] else show_nat (n div 10) @ [digit_char (n mod 10)])"

declare show_nat.simps [simp del]

section \<open>Lemmas on splitting\<close>

lemma cut_Some: "cut sep s = Some (a, b) \<Longrightarrow> s = a @ sep @ b"
  by (induction s arbitrary: a) (auto split: if_splits simp: prefix_def)

lemma cut_first:
  assumes "sep \<noteq> []" "hd sep \<notin> set a"
  shows "cut sep (a @ sep @ b) = Some (a, b)"
  using assms(2)
proof (induction a)
  case Nil
  then show ?case using assms(1) by (cases sep) auto
next
  case (Cons x a)
  have "\<not> prefix sep (x # a @ sep @ b)" using Cons.prems assms(1) by (cases sep) auto
  then show ?case using Cons by simp
qed

lemma cut_None: "sep \<noteq> [] \<Longrightarrow> hd sep \<notin> set s \<Longrightarrow> cut sep s = None"
  by (induction s) (auto simp: neq_Nil_conv)

lemma split_no_sep: "sep \<noteq> [] \<Longrightarrow> hd sep \<notin> set s \<Longrightarrow> split_str sep s = [s]"
  by (simp add: split_str.simps cut_None)

lemma split_step:
  "sep \<noteq> [] \<Longrightarrow> hd sep \<notin> set a \<Longrightarrow> split_str sep (a @ sep @ b) = a # split_str sep b"
  by (subst split_str.simps) (simp add: cut_first)

lemma split_join:
  assumes "sep \<noteq> []" "\<forall>x \<in> set xs. hd sep \<notin> set x" "xs \<noteq> []"
  shows "split_str sep (join sep xs) = xs"
  using assms by (induction sep xs rule: join.induct) (auto simp: split_no_sep split_step)

lemma split2_cut:
  "hd sep \<notin> set a \<Longrightarrow> sep \<noteq> [] \<Longrightarrow> split2 sep (a @ sep @ b) = [a, b]"
  by (simp add: split2_def cut_first)

lemma split2_none: "hd sep \<notin> set a \<Longrightarrow> sep \<noteq> [] \<Longrightarrow> split2 sep a = [a]"
  by (simp add: split2_def cut_None)

lemma join_append:
  "xs \<noteq> [] \<Longrightarrow> ys \<noteq> [] \<Longrightarrow> join sep (xs @ ys) = join sep xs @ sep @ join sep ys"
proof (induction sep xs rule: join.induct)
  case (2 sep x)
  then show ?case by (cases ys) auto
qed auto

section \<open>Lemmas on fields\<close>

lemma split_space_Nil [simp]: "split_space s \<noteq> []"
  by (cases s) (auto split: list.splits)

lemma split_space_word:
  "list_all (\<lambda>c. \<not> is_space c) w \<Longrightarrow> split_space w = [w]"
  by (induction w) auto

lemma split_space_append:
  "list_all (\<lambda>c. \<not> is_space c) w \<Longrightarrow> is_space c \<Longrightarrow> split_space (w @ c # s) = w # split_space s"
  by (induction w) auto

lemma str_fields_word: "list_all (\<lambda>c. \<not> is_space c) w \<Longrightarrow> w \<noteq> [] \<Longrightarrow> str_fields w = [w]"
  by (simp add: str_fields_def split_space_word)

lemma str_fields_append:
  "list_all (\<lambda>c. \<not> is_space c) w \<Longrightarrow> w \<noteq> [] \<Longrightarrow> is_space c \<Longrightarrow> str_fields (w @ c # s) = w # str_fields s"
  by (simp add: str_fields_def split_space_append)

section \<open>Lemmas on numbers\<close>

lemma digit_char_facts:
  assumes "d < 10"
  shows "is_digit (digit_char d)" "digit_value (digit_char d) = d" "\<not> is_space (digit_char d)"
proof -
  have "of_char (digit_char d) = 48 + d"
    using assms by (simp add: digit_char_def)
  then show "is_digit (digit_char d)" "digit_value (digit_char d) = d" "\<not> is_space (digit_char d)"
    using assms by (simp_all add: is_digit_def digit_value_def is_space_def Let_def)
qed

lemma show_nat_digits: "list_all is_digit (show_nat n)"
  by (induction n rule: show_nat.induct) (subst show_nat.simps, auto simp: digit_char_facts)

lemma show_nat_not_Nil [simp]: "show_nat n \<noteq> []"
  by (subst show_nat.simps) simp

lemma digits_value_snoc: "digits_value (s @ [c]) = 10 * digits_value s + digit_value c"
  by (simp add: digits_value_def)

lemma digits_value_show_nat [simp]: "digits_value (show_nat n) = n"
proof (induction n rule: show_nat.induct)
  case (1 n)
  show ?case
  proof (cases "n < 10")
    case True
    then show ?thesis by (subst show_nat.simps) (simp add: digits_value_def digit_char_facts)
  next
    case False
    then show ?thesis using 1 by (subst show_nat.simps) (simp add: digits_value_snoc digit_char_facts)
  qed
qed

lemma is_digit_facts:
  "is_digit c \<Longrightarrow> \<not> is_space c" "is_digit c \<Longrightarrow> c \<noteq> CHR ''-''" "is_digit c \<Longrightarrow> c \<noteq> CHR ''+''"
  "is_digit c \<Longrightarrow> c \<noteq> CR" "is_digit c \<Longrightarrow> c \<noteq> LF"
  by (auto simp: is_digit_def is_space_def Let_def CR_def LF_def)

lemma show_nat_hd: "hd (show_nat n) \<noteq> CHR ''-''" "hd (show_nat n) \<noteq> CHR ''+''"
  using show_nat_digits [of n] is_digit_facts(2,3) by (cases "show_nat n"; force)+

lemma atoi_show_nat: "n < 2 ^ 63 \<Longrightarrow> atoi (show_nat n) = (int n, True)"
  using show_nat_hd [of n] show_nat_digits [of n] by (simp add: atoi_def Let_def)

lemma parse_uint32_show_nat: "n < 2 ^ 32 \<Longrightarrow> parse_uint32 (show_nat n) = (n, True)"
  using show_nat_digits [of n] by (simp add: parse_uint32_def)

lemma show_nat_no_space: "list_all (\<lambda>c. \<not> is_space c) (show_nat n)"
  using show_nat_digits [of n] by (auto simp: list_all_iff is_digit_facts)

lemma show_nat_inj: "show_nat a = show_nat b \<Longrightarrow> a = b"
  by (metis digits_value_show_nat)

section \<open>Replacing one character\<close>

lemma split_str_Nil [simp]: "split_str sep s \<noteq> []"
  by (subst split_str.simps) (auto split: option.split)

lemma replace_all_char: "replace_all s [c] new = concat (map (\<lambda>x. if x = c then new else [x]) s)"
proof (induction "length s" arbitrary: s rule: less_induct)
  case less
  have id: "concat (map (\<lambda>x. if x = c then new else [x]) t) = t" if "c \<notin> set t" for t
    using that by (induction t) auto
  show ?case
  proof (cases "c \<in> set s")
    case True
    then obtain a b where s: "s = a @ c # b" and a: "c \<notin> set a" by (meson split_list_first)
    have "split_str [c] s = a # split_str [c] b" using split_step [of "[c]" a b] a by (simp add: s)
    then have "replace_all s [c] new = a @ new @ replace_all b [c] new"
      by (cases "split_str [c] b") (simp_all add: replace_all_def)
    then show ?thesis using less [of b] id [OF a] by (simp add: s)
  next
    case False
    then show ?thesis using id [OF False] by (simp add: replace_all_def split_no_sep)
  qed
qed


section \<open>Addresses\<close>

text \<open>\<open>net.JoinHostPort\<close>.\<close>

definition join_host_port :: "string \<Rightarrow> string \<Rightarrow> string" where
  "join_host_port host port =
     (if CHR '':'' \<in> set host then ''['' @ host @ '']:'' @ port else host @ '':'' @ port)"

text \<open>The decimal notation of an integer.\<close>

definition show_int :: "int \<Rightarrow> string" where
  "show_int n = (if n < 0 then ''-'' @ show_nat (nat (- n)) else show_nat (nat n))"


section \<open>First hits and exact reads\<close>

fun first_some :: "('a \<Rightarrow> 'b option) \<Rightarrow> 'a list \<Rightarrow> 'b option" where
  "first_some f [] = None"
| "first_some f (x # xs) = (case f x of Some y \<Rightarrow> Some y | None \<Rightarrow> first_some f xs)"

text \<open>\<open>io.ReadFull\<close>.\<close>

definition read_full :: "nat \<Rightarrow> byte list \<Rightarrow> (byte list \<times> byte list) option" where
  "read_full n s = (if n \<le> length s then Some (take n s, drop n s) else None)"

lemma read_full_length: "read_full n s = Some (a, b) \<Longrightarrow> length s = n + length b"
  by (auto simp: read_full_def split: if_splits)

lemma read_full_append: "length a = n \<Longrightarrow> read_full n (a @ b) = Some (a, b)"
  by (auto simp: read_full_def)

lemma unat_small: "n < 2 ^ LENGTH('a) \<Longrightarrow> unat (of_nat n :: 'a::len word) = n"
  by (simp add: unsigned_of_nat take_bit_nat_eq_self)

end
