(* ===== verification/SipText.thy ===== *)
theory SipText
  imports GoStrings
begin

text \<open>
  SIP messages as text: parsing, building and the header accessors of
  \<^verbatim>\<open>internal/sip/client.go\<close> and \<^verbatim>\<open>internal/sip/incoming.go\<close>.  A datagram is a string; the header map is
  a function from lower-case names to the list of values, empty for an absent header.
\<close>

section \<open>Messages\<close>

record Message =
  IsResponse :: bool
  StatusCode :: int
  Reason :: string
  Method :: string
  URI :: string
  Headers :: "string \<Rightarrow> string list"
  Body :: string
  Raw :: string

datatype sip_parse_error =
    Missing_header_terminator
  | Bad_start_line
  | Missing_method

section \<open>Parsing\<close>

text \<open>The compact header names.\<close>

definition header_alias :: "string \<Rightarrow> string" where
  "header_alias n =
     (if n = ''v'' then ''via'' else if n = ''f'' then ''from'' else if n = ''t'' then ''to''
      else if n = ''i'' then ''call-id'' else if n = ''l'' then ''content-length''
      else if n = ''m'' then ''contact'' else n)"

text \<open>One iteration of the header loop: a continuation line extends the last value, a line without
  colon is skipped.\<close>

definition header_step ::
  "(string \<Rightarrow> string list) \<times> string \<Rightarrow> string \<Rightarrow> (string \<Rightarrow> string list) \<times> string" where
  "header_step st line =
     (case st of (hs, lst) \<Rightarrow>
        if line \<noteq> [] \<and> (hd line = CHR '' '' \<or> hd line = CHR 0x09) \<and> lst \<noteq> []
        then (hs(lst := butlast (hs lst) @ [last (hs lst) @ '' '' @ trim_space line]), lst)
        else case split2 '':'' line of
          [a, b] \<Rightarrow>
            let name = header_alias (to_lower (trim_space a))
            in (hs(name := hs name @ [trim_space b]), name)
        | _ \<Rightarrow> (hs, lst))"

definition parse_start :: "string list \<Rightarrow> string \<Rightarrow> string \<Rightarrow> Message" where
  "parse_start first body raw =
     (let m = \<lparr>IsResponse = False, StatusCode = 0, Reason = [], Method = [], URI = [],
               Headers = (\<lambda>_. []), Body = body, Raw = raw\<rparr>
      in if prefix ''SIP/'' (first ! 0)
         then m\<lparr>IsResponse := True, StatusCode := fst (atoi (first ! 1)),
                Reason := (if length first > 2 then join '' '' (drop 2 first) else [])\<rparr>
         else m\<lparr>Method := first ! 0, URI := first ! 1\<rparr>)"

definition parseMessage :: "string \<Rightarrow> sip_parse_error + Message" where
  "parseMessage s =
     (case cut (CRLF @ CRLF) s of
        None \<Rightarrow> Inl Missing_header_terminator
      | Some (head, body) \<Rightarrow>
          let lines = split_str CRLF head;
              first = str_fields (hd lines)
          in if length first < 2 then Inl Bad_start_line
             else
               let m = parse_start first body s;
                   hs = fst (foldl header_step (\<lambda>_. [], []) (tl lines));
                   m = m\<lparr>Headers := hs\<rparr>
               in if \<not> IsResponse m \<and> Method m = [] then Inl Missing_method else Inr m)"

definition Header :: "Message \<Rightarrow> string \<Rightarrow> string" where
  "Header m name = (case Headers m (to_lower name) of [] \<Rightarrow> [] | v # _ \<Rightarrow> v)"

section \<open>Header values\<close>

text \<open>\<open>param\<close>: the first \<open>;name=value\<close> parameter, the name compared case-insensitively, quotes
  stripped from the value.\<close>

definition param_value :: "string \<Rightarrow> string \<Rightarrow> string option" where
  "param_value name p =
     (case split2 ''='' (trim_space p) of
        [k, v] \<Rightarrow> if equal_fold k name then Some (trim_chars [CHR 0x22] v) else None
      | _ \<Rightarrow> None)"

definition param :: "string \<Rightarrow> string \<Rightarrow> string" where
  "param h name =
     (case first_some (param_value name) (tl (split_str '';'' h)) of Some v \<Rightarrow> v | None \<Rightarrow> [])"

text \<open>\<open>extractURI\<close>: the text between the first \<open><\<close> and the first \<open>>\<close> if they are in that order,
  else the text before the first semicolon.\<close>

definition index_of :: "string \<Rightarrow> string \<Rightarrow> nat option" where
  "index_of sep s = map_option (\<lambda>(a, _). length a) (cut sep s)"

definition extractURI :: "string \<Rightarrow> string" where
  "extractURI h =
     (case (index_of ''<'' h, index_of ''>'' h) of
        (Some i, Some j) \<Rightarrow>
          if i < j then slice (i + 1) j h
          else (case cut '';'' h of Some (a, _) \<Rightarrow> trim_space a | None \<Rightarrow> trim_space h)
      | _ \<Rightarrow> (case cut '';'' h of Some (a, _) \<Rightarrow> trim_space a | None \<Rightarrow> trim_space h))"

definition cseqMethod :: "string \<Rightarrow> string" where
  "cseqMethod h = (case str_fields h of _ # m # _ \<Rightarrow> to_upper m | _ \<Rightarrow> [])"

definition cseqNumber :: "string \<Rightarrow> nat" where
  "cseqNumber h = (case str_fields h of [] \<Rightarrow> 0 | n # _ \<Rightarrow> fst (parse_uint32 n))"

definition requestHeader :: "string list \<Rightarrow> string \<Rightarrow> string" where
  "requestHeader headers name =
     (let p = to_lower name @ '':'' in
      case find (\<lambda>h. prefix p (to_lower h)) headers of
        Some h \<Rightarrow> trim_space (drop (length p) h)
      | None \<Rightarrow> [])"

definition serverInviteKey :: "Message \<Rightarrow> string" where
  "serverInviteKey req =
     join ''|'' [Header req ''call-id'', show_nat (cseqNumber (Header req ''cseq'')),
                 param (Header req ''via'') ''branch'']"

datatype invite_header_error =
    Missing_header string
  | No_branch
  | No_from_tag
  | Invalid_cseq

definition validateIncomingInviteHeaders :: "Message \<Rightarrow> invite_header_error option" where
  "validateIncomingInviteHeaders req =
     (case find (\<lambda>name. trim_space (Header req name) = []) [''via'', ''from'', ''to'', ''call-id'', ''cseq''] of
        Some name \<Rightarrow> Some (Missing_header name)
      | None \<Rightarrow>
          if param (Header req ''via'') ''branch'' = [] then Some No_branch
          else if param (Header req ''from'') ''tag'' = [] then Some No_from_tag
          else if cseqNumber (Header req ''cseq'') = 0 \<or> cseqMethod (Header req ''cseq'') \<noteq> ''INVITE''
          then Some Invalid_cseq
          else None)"

text \<open>The key under which \<open>readLoop\<close> looks up the transaction of a response, and the key \<open>transact\<close>
  registers.\<close>

definition response_key :: "Message \<Rightarrow> string" where
  "response_key m = param (Header m ''via'') ''branch'' @ ''|'' @ cseqMethod (Header m ''cseq'')"

definition transaction_key :: "string \<Rightarrow> string \<Rightarrow> string" where
  "transaction_key branch method = branch @ ''|'' @ method"

section \<open>Building\<close>

definition buildRequest :: "string \<Rightarrow> string \<Rightarrow> string list \<Rightarrow> string \<Rightarrow> string" where
  "buildRequest method uri headers body =
     join CRLF ([method @ '' '' @ uri @ '' SIP/2.0''] @ headers
       @ [''Content-Length: '' @ show_nat (length body), [], []]) @ body"

definition buildResponse ::
  "Message \<Rightarrow> nat \<Rightarrow> string \<Rightarrow> string \<Rightarrow> string list \<Rightarrow> string \<Rightarrow> string" where
  "buildResponse req code reason toTag extra body =
     (let to = Header req ''to'';
          to = (if toTag \<noteq> [] \<and> param to ''tag'' = [] then to @ '';tag='' @ toTag else to)
      in join CRLF ([''SIP/2.0 '' @ show_nat code @ '' '' @ reason]
           @ map (\<lambda>v. ''Via: '' @ v) (Headers req ''via'')
           @ [''From: '' @ Header req ''from'']
           @ [''To: '' @ to, ''Call-ID: '' @ Header req ''call-id'', ''CSeq: '' @ Header req ''cseq'']
           @ extra
           @ [''Server: ReolinkSIPGateway/1.5.0'', ''Content-Length: '' @ show_nat (length body), [], []]) @ body)"

definition canonical :: "string \<Rightarrow> string" where
  "canonical s =
     (if s = ''call-id'' then ''Call-ID'' else if s = ''cseq'' then ''CSeq''
      else to_upper (take 1 s) @ drop 1 s)"

text \<open>The packet \<open>sendResponse\<close> writes.\<close>

definition simple_response :: "Message \<Rightarrow> nat \<Rightarrow> string \<Rightarrow> string" where
  "simple_response req code reason =
     join CRLF ([''SIP/2.0 '' @ show_nat code @ '' '' @ reason]
       @ concat (map (\<lambda>name. map (\<lambda>v. canonical name @ '': '' @ v) (Headers req name))
           [''via'', ''from'', ''to'', ''call-id'', ''cseq''])
       @ [''Content-Length: 0'', [], []])"

definition escapeDisplay :: "string \<Rightarrow> string" where
  "escapeDisplay s = map (\<lambda>c. if c = CHR 0x22 then CHR 0x27 else c) s"

text \<open>The client's configuration that its messages carry.\<close>

record sip_identity =
  localIP :: string
  LocalPort :: nat
  Username :: string
  DisplayName :: string

definition baseHeaders ::
  "sip_identity \<Rightarrow> string \<Rightarrow> string \<Rightarrow> nat \<Rightarrow> string \<Rightarrow> string \<Rightarrow> string \<Rightarrow> string \<Rightarrow> string \<Rightarrow> string list" where
  "baseHeaders c method branch cseq callID fromURI toURI fromTag toTag =
     (let to = ''<'' @ toURI @ ''>'';
          to = (if toTag \<noteq> [] then to @ '';tag='' @ toTag else to);
          from = [CHR 0x22] @ escapeDisplay (DisplayName c) @ [CHR 0x22] @ '' <'' @ fromURI @ ''>;tag='' @ fromTag
      in [''Via: SIP/2.0/UDP '' @ localIP c @ '':'' @ show_nat (LocalPort c) @ '';branch='' @ branch @ '';rport'',
          ''Max-Forwards: 70'', ''From: '' @ from, ''To: '' @ to, ''Call-ID: '' @ callID,
          ''CSeq: '' @ show_nat cseq @ '' '' @ method,
          ''Contact: <sip:'' @ Username c @ ''@'' @ localIP c @ '':'' @ show_nat (LocalPort c) @ '';transport=udp>'',
          ''User-Agent: ReolinkSIPGateway/1.5.0''])"

text \<open>The packet \<open>sendCancel\<close> writes: the INVITE's own Via, From, To and Call-ID lines (the last one of
  each name), so that it carries the INVITE's branch.\<close>

definition last_header :: "string \<Rightarrow> string list \<Rightarrow> string" where
  "last_header p headers =
     (case find (\<lambda>h. prefix p (to_lower h)) (rev headers) of Some h \<Rightarrow> h | None \<Rightarrow> [])"

definition cancel_packet :: "string \<Rightarrow> nat \<Rightarrow> string list \<Rightarrow> string" where
  "cancel_packet uri cseq inviteHeaders =
     buildRequest ''CANCEL'' uri
       [last_header ''via:'' inviteHeaders, ''Max-Forwards: 70'', last_header ''from:'' inviteHeaders,
        last_header ''to:'' inviteHeaders, last_header ''call-id:'' inviteHeaders,
        ''CSeq: '' @ show_nat cseq @ '' CANCEL''] []"

section \<open>The head of a message\<close>

lemma CR_LF [simp]: "CR \<noteq> LF" "LF \<noteq> CR" "CRLF \<noteq> []" "hd CRLF = CR" "hd (CRLF @ x) = CR"
  "is_space CR" "is_space LF" "is_space (CHR '' '')"
  by (simp_all add: CR_def LF_def CRLF_def is_space_def)

lemma cut_skip:
  assumes "sep \<noteq> []" "hd sep \<notin> set a"
  shows "cut sep (a @ r) = map_option (\<lambda>(p, q). (a @ p, q)) (cut sep r)"
  using assms(2)
proof (induction a)
  case Nil
  show ?case by (cases "cut sep r") auto
next
  case (Cons x a)
  have "\<not> prefix sep (x # a @ r)" using Cons.prems assms(1) by (cases sep) auto
  then show ?case using Cons by (cases "cut sep r") auto
qed

text \<open>A line of a head: not empty and free of carriage returns.\<close>

definition clean_line :: "string \<Rightarrow> bool" where
  "clean_line l \<longleftrightarrow> l \<noteq> [] \<and> CR \<notin> set l"

lemma cut_head:
  assumes "\<forall>l \<in> set ls. clean_line l" "ls \<noteq> []"
  shows "cut (CRLF @ CRLF) (join CRLF ls @ CRLF @ CRLF @ body) = Some (join CRLF ls, body)"
  using assms
proof (induction ls)
  case (Cons x ls)
  have x: "CR \<notin> set x" and rest: "\<forall>l \<in> set ls. clean_line l"
    using Cons.prems by (simp_all add: clean_line_def)
  show ?case
  proof (cases "ls = []")
    case True
    then show ?thesis using cut_first [of "CRLF @ CRLF" x body] x by simp
  next
    case False
    then obtain y ys where ls: "ls = y # ys" by (cases ls) auto
    define J where "J = join CRLF ls @ CRLF @ CRLF @ body"
    obtain a w where y: "y = a # w" "a \<noteq> CR" using rest ls by (cases y) (auto simp: clean_line_def)
    obtain t where J: "J = a # t" unfolding J_def ls y(1) by (cases ys) auto
    have "cut (CRLF @ CRLF) (CRLF @ J) = map_option (\<lambda>(p, q). (CRLF @ p, q)) (cut (CRLF @ CRLF) J)"
      unfolding J using y(2) by (simp add: CRLF_def option.map_comp comp_def case_prod_unfold)
    moreover have "cut (CRLF @ CRLF) J = Some (join CRLF ls, body)"
      unfolding J_def using Cons.IH rest False by blast
    ultimately have "cut (CRLF @ CRLF) (x @ CRLF @ J) = Some (x @ CRLF @ join CRLF ls, body)"
      using cut_skip [of "CRLF @ CRLF" x "CRLF @ J"] x by simp
    then show ?thesis by (simp add: ls J_def)
  qed
qed simp

lemma parse_head:
  assumes "\<forall>l \<in> set (start # ls). clean_line l"
  shows "parseMessage (join CRLF (start # ls @ [[], []]) @ body) =
    (let first = str_fields start;
         raw = join CRLF (start # ls @ [[], []]) @ body;
         m = (parse_start first body raw)\<lparr>Headers := fst (foldl header_step (\<lambda>_. [], []) ls)\<rparr>
     in if length first < 2 then Inl Bad_start_line
        else if \<not> IsResponse m \<and> Method m = [] then Inl Missing_method else Inr m)"
proof -
  have j: "join CRLF (start # ls @ [[], []]) = join CRLF (start # ls) @ CRLF @ CRLF"
    using join_append [of "start # ls" "[[], []]" CRLF] by simp
  have c: "cut (CRLF @ CRLF) (join CRLF (start # ls @ [[], []]) @ body) = Some (join CRLF (start # ls), body)"
    using cut_head [OF assms] by (simp add: j)
  have sp: "split_str CRLF (join CRLF (start # ls)) = start # ls"
    by (rule split_join) (use assms in \<open>auto simp: clean_line_def\<close>)
  show ?thesis unfolding parseMessage_def c by (simp add: sp Let_def)
qed

section \<open>Header lines\<close>

definition header_line :: "string \<times> string \<Rightarrow> string" where
  "header_line p = fst p @ '': '' @ snd p"

definition clean_value :: "string \<Rightarrow> bool" where
  "clean_value v \<longleftrightarrow> trimmed v \<and> CR \<notin> set v"

definition clean_header :: "string \<times> string \<Rightarrow> bool" where
  "clean_header p \<longleftrightarrow> fst p \<noteq> [] \<and> trimmed (fst p) \<and> CR \<notin> set (fst p) \<and> CHR '':'' \<notin> set (fst p)
     \<and> clean_value (snd p)"

definition header_key :: "string \<Rightarrow> string" where
  "header_key n = header_alias (to_lower n)"

definition collect_headers :: "(string \<times> string) list \<Rightarrow> string \<Rightarrow> string list" where
  "collect_headers ps k = map snd (filter (\<lambda>p. header_key (fst p) = k) ps)"

lemma clean_header_line: "clean_header p \<Longrightarrow> clean_line (header_line p)"
  by (auto simp: clean_header_def clean_line_def header_line_def clean_value_def CR_def)

lemma trim_space_Cons: "is_space c \<Longrightarrow> trim_space (c # v) = trim_space v"
  by (simp add: trim_space_def trim_left_def)

lemma header_step_line:
  assumes "clean_header p"
  shows "header_step (hs, lst) (header_line p) =
    (hs(header_key (fst p) := hs (header_key (fst p)) @ [snd p]), header_key (fst p))"
proof -
  obtain n v where p: "p = (n, v)" by fastforce
  have n: "n \<noteq> []" "\<not> is_space (hd n)" "trim_space n = n" "CHR '':'' \<notin> set n"
    using assms p by (auto simp: clean_header_def trimmed_def trim_space_trimmed)
  have v: "trim_space ('' '' @ v) = v"
    using assms p by (simp add: clean_header_def clean_value_def trim_space_Cons trim_space_trimmed)
  have hd: "hd (header_line p) = hd n" "header_line p \<noteq> []" using n(1) p by (auto simp: header_line_def)
  have nsp: "hd n \<noteq> CHR '' ''" "hd n \<noteq> CHR 0x09" using n(2) by (auto simp: is_space_def)
  have sp: "split2 '':'' (header_line p) = [n, '' '' @ v]"
    using split2_cut [of "'':''" n "'' '' @ v"] n(4) p by (simp add: header_line_def)
  show ?thesis
    unfolding header_step_def sp using hd nsp n(3) v p by (simp add: header_key_def Let_def)
qed

lemma header_fold:
  "\<forall>p \<in> set ps. clean_header p \<Longrightarrow>
   fst (foldl header_step (hs, lst) (map header_line ps)) = (\<lambda>k. hs k @ collect_headers ps k)"
proof (induction ps arbitrary: hs lst)
  case (Cons p ps)
  then show ?case by (auto simp: header_step_line collect_headers_def fun_eq_iff)
qed (simp add: collect_headers_def)

section \<open>Round trips\<close>

definition token :: "string \<Rightarrow> bool" where
  "token t \<longleftrightarrow> t \<noteq> [] \<and> list_all (\<lambda>c. \<not> is_space c) t"

lemma token_no_CR: "token t \<Longrightarrow> CR \<notin> set t"
  by (auto simp: token_def list_all_iff)

lemma start_line_fields:
  assumes "token method" "token uri"
  shows "str_fields (method @ '' '' @ uri @ '' SIP/2.0'') = [method, uri, ''SIP/2.0'']"
proof -
  have "str_fields ''SIP/2.0'' = [''SIP/2.0'']"
    by (rule str_fields_word) (simp_all add: is_space_def)
  then show ?thesis
    using assms str_fields_append [of "method" "CHR '' ''" "uri @ '' SIP/2.0''"]
      str_fields_append [of uri "CHR '' ''" "''SIP/2.0''"]
    by (simp add: token_def)
qed

definition content_length :: "string \<Rightarrow> string \<times> string" where
  "content_length body = (''Content-Length'', show_nat (length body))"

lemma digits_clean_value:
  assumes "list_all is_digit d" "d \<noteq> []"
  shows "clean_value d"
proof -
  have "\<not> is_space c" "c \<noteq> CR" if "c \<in> set d" for c
    using assms(1) that is_digit_facts by (auto simp: list_all_iff)
  then show ?thesis using assms(2) by (auto simp: clean_value_def trimmed_def)
qed

lemma clean_content_length: "clean_header (content_length body)"
  using digits_clean_value [OF show_nat_digits show_nat_not_Nil]
  by (simp add: clean_header_def content_length_def trimmed_def is_space_def CR_def)

lemma content_length_line: "''Content-Length: '' @ show_nat (length body) = header_line (content_length body)"
  by (simp add: header_line_def content_length_def)

lemma parsed_request:
  assumes "token method" "token uri" "\<not> prefix ''SIP/'' method" "\<forall>p \<in> set hs. clean_header p"
  shows "parseMessage (buildRequest method uri (map header_line hs) body) =
    Inr \<lparr>IsResponse = False, StatusCode = 0, Reason = [], Method = method, URI = uri,
         Headers = collect_headers (hs @ [content_length body]), Body = body,
         Raw = buildRequest method uri (map header_line hs) body\<rparr>"
proof -
  let ?start = "method @ '' '' @ uri @ '' SIP/2.0''"
  let ?ls = "map header_line (hs @ [content_length body])"
  have raw: "buildRequest method uri (map header_line hs) body = join CRLF (?start # ?ls @ [[], []]) @ body"
    unfolding buildRequest_def content_length_line by simp
  have hs: "\<forall>p \<in> set (hs @ [content_length body]). clean_header p"
    using assms(4) clean_content_length by auto
  have "clean_line ?start"
    using token_no_CR [OF assms(1)] token_no_CR [OF assms(2)] by (auto simp: clean_line_def CR_def)
  then have clean: "\<forall>l \<in> set (?start # ?ls). clean_line l" using hs clean_header_line by auto
  show ?thesis
    unfolding raw parse_head [OF clean] start_line_fields [OF assms(1,2)] header_fold [OF hs]
    using assms(1,3) by (simp add: parse_start_def token_def)
qed

text \<open>C34.  A request built by \<open>buildRequest\<close> parses back to itself: method, URI, body and, for every
  header name (long or compact, in any case), the values in order, with the Content-Length that was
  added.  The method and URI are tokens, header names contain no colon and values no carriage
  return or outer white space; the body is arbitrary.\<close>

theorem request_round_trip:
  assumes "token method" "token uri" "\<not> prefix ''SIP/'' method" "\<forall>p \<in> set hs. clean_header p"
  shows "parseMessage (buildRequest method uri (map header_line hs) body) =
    Inr \<lparr>IsResponse = False, StatusCode = 0, Reason = [], Method = method, URI = uri,
         Headers = collect_headers (hs @ [content_length body]), Body = body,
         Raw = buildRequest method uri (map header_line hs) body\<rparr>"
  by (rule parsed_request [OF assms])

theorem request_round_trip_witness:
  "parseMessage (buildRequest ''BYE'' ''sip:a@b'' (map header_line [(''Call-ID'', ''x y'')]) ''body'') =
    Inr \<lparr>IsResponse = False, StatusCode = 0, Reason = [], Method = ''BYE'', URI = ''sip:a@b'',
         Headers = collect_headers [(''Call-ID'', ''x y''), content_length ''body''], Body = ''body'',
         Raw = buildRequest ''BYE'' ''sip:a@b'' (map header_line [(''Call-ID'', ''x y'')]) ''body''\<rparr>"
  using request_round_trip [of "''BYE''" "''sip:a@b''" "[(''Call-ID'', ''x y'')]" "''body''"]
  by (simp add: token_def is_space_def clean_header_def clean_value_def trimmed_def CR_def)

section \<open>Responses\<close>

lemma header_keys:
  "header_key ''Via'' = ''via''" "header_key ''From'' = ''from''" "header_key ''To'' = ''to''"
  "header_key ''Call-ID'' = ''call-id''" "header_key ''CSeq'' = ''cseq''" "header_key ''Server'' = ''server''"
  "header_key ''Content-Length'' = ''content-length''" "header_key ''Max-Forwards'' = ''max-forwards''"
  "header_key ''Contact'' = ''contact''" "header_key ''User-Agent'' = ''user-agent''"
  by code_simp+

lemma header_names:
  "to_lower ''via'' = ''via''" "to_lower ''from'' = ''from''" "to_lower ''to'' = ''to''"
  "to_lower ''call-id'' = ''call-id''" "to_lower ''cseq'' = ''cseq''"
  by code_simp+

text \<open>The To header of a response.\<close>

definition response_to :: "Message \<Rightarrow> string \<Rightarrow> string" where
  "response_to req toTag =
     (if toTag \<noteq> [] \<and> param (Header req ''to'') ''tag'' = [] then Header req ''to'' @ '';tag='' @ toTag
      else Header req ''to'')"

definition response_headers :: "Message \<Rightarrow> string \<Rightarrow> (string \<times> string) list \<Rightarrow> string \<Rightarrow> (string \<times> string) list" where
  "response_headers req toTag es body =
     map (\<lambda>v. (''Via'', v)) (Headers req ''via'')
     @ [(''From'', Header req ''from''), (''To'', response_to req toTag),
        (''Call-ID'', Header req ''call-id''), (''CSeq'', Header req ''cseq'')]
     @ es @ [(''Server'', ''ReolinkSIPGateway/1.5.0''), content_length body]"

lemma buildResponse_lines:
  "buildResponse req code reason toTag (map header_line es) body =
     join CRLF ((''SIP/2.0 '' @ show_nat code @ '' '' @ reason)
       # map header_line (response_headers req toTag es body) @ [[], []]) @ body"
proof -
  have via: "map (\<lambda>v. ''Via: '' @ v) vs = map header_line (map (\<lambda>v. (''Via'', v)) vs)" for vs
    by (simp add: header_line_def)
  have other: "''From: '' @ f = header_line (''From'', f)" "''To: '' @ f = header_line (''To'', f)"
    "''Call-ID: '' @ f = header_line (''Call-ID'', f)" "''CSeq: '' @ f = header_line (''CSeq'', f)"
    "''Server: ReolinkSIPGateway/1.5.0'' = header_line (''Server'', ''ReolinkSIPGateway/1.5.0'')" for f
    by (simp_all add: header_line_def)
  show ?thesis
    unfolding buildResponse_def response_headers_def content_length_line Let_def via other
      response_to_def [symmetric] by (simp only: map_append list.map append.assoc append_Cons append_Nil)
qed

lemma response_start_fields:
  "str_fields (''SIP/2.0 '' @ show_nat code @ '' '' @ reason) = ''SIP/2.0'' # show_nat code # str_fields reason"
proof -
  have "list_all (\<lambda>c. \<not> is_space c) ''SIP/2.0''" by (simp add: is_space_def)
  then show ?thesis
    using str_fields_append [of "''SIP/2.0''" "CHR '' ''" "show_nat code @ '' '' @ reason"]
      str_fields_append [OF show_nat_no_space show_nat_not_Nil, of "CHR '' ''" code reason]
    by simp
qed

text \<open>A request whose echoed headers can be copied into a response.\<close>

definition echoable :: "Message \<Rightarrow> string \<Rightarrow> bool" where
  "echoable req toTag \<longleftrightarrow>
     (\<forall>v \<in> set (Headers req ''via''). clean_value v) \<and> clean_value (Header req ''from'')
     \<and> clean_value (response_to req toTag) \<and> clean_value (Header req ''call-id'')
     \<and> clean_value (Header req ''cseq'')"

definition dialog_headers :: "string list" where
  "dialog_headers = [''via'', ''from'', ''to'', ''call-id'', ''cseq'']"

lemma collect_response:
  assumes "\<forall>p \<in> set es. header_key (fst p) \<notin> set dialog_headers"
  shows "collect_headers (response_headers req toTag es body) ''via'' = Headers req ''via''"
    and "collect_headers (response_headers req toTag es body) ''from'' = [Header req ''from'']"
    and "collect_headers (response_headers req toTag es body) ''to'' = [response_to req toTag]"
    and "collect_headers (response_headers req toTag es body) ''call-id'' = [Header req ''call-id'']"
    and "collect_headers (response_headers req toTag es body) ''cseq'' = [Header req ''cseq'']"
proof -
  have none: "filter (\<lambda>p. header_key (fst p) = k) es = []" if "k \<in> set dialog_headers" for k
    using assms that by (auto simp: filter_empty_conv)
  show "collect_headers (response_headers req toTag es body) ''via'' = Headers req ''via''"
    using none [of "''via''"]
    by (simp add: collect_headers_def response_headers_def content_length_def header_keys dialog_headers_def
        filter_map comp_def)
  show "collect_headers (response_headers req toTag es body) ''from'' = [Header req ''from'']"
    using none [of "''from''"]
    by (simp add: collect_headers_def response_headers_def content_length_def header_keys dialog_headers_def
        filter_map comp_def)
  show "collect_headers (response_headers req toTag es body) ''to'' = [response_to req toTag]"
    using none [of "''to''"]
    by (simp add: collect_headers_def response_headers_def content_length_def header_keys dialog_headers_def
        filter_map comp_def)
  show "collect_headers (response_headers req toTag es body) ''call-id'' = [Header req ''call-id'']"
    using none [of "''call-id''"]
    by (simp add: collect_headers_def response_headers_def content_length_def header_keys dialog_headers_def
        filter_map comp_def)
  show "collect_headers (response_headers req toTag es body) ''cseq'' = [Header req ''cseq'']"
    using none [of "''cseq''"]
    by (simp add: collect_headers_def response_headers_def content_length_def header_keys dialog_headers_def
        filter_map comp_def)
qed

lemma clean_response_headers:
  assumes "echoable req toTag" "\<forall>p \<in> set es. clean_header p"
  shows "\<forall>p \<in> set (response_headers req toTag es body). clean_header p"
proof -
  have n: "clean_header (n, v) = clean_value v"
    if "n \<in> {''Via'', ''From'', ''To'', ''Call-ID'', ''CSeq'', ''Server''}" for n v
    using that by (auto simp: clean_header_def trimmed_def is_space_def CR_def)
  have "clean_value ''ReolinkSIPGateway/1.5.0''"
    by (simp add: clean_value_def trimmed_def is_space_def CR_def)
  then show ?thesis
    using assms clean_content_length by (auto simp: response_headers_def n echoable_def)
qed

lemma response_parsed:
  assumes "echoable req toTag" "\<forall>p \<in> set es. clean_header p" "CR \<notin> set reason" "code < 1000"
  shows "parseMessage (buildResponse req code reason toTag (map header_line es) body) =
    Inr \<lparr>IsResponse = True, StatusCode = int code, Reason = join '' '' (str_fields reason), Method = [],
         URI = [], Headers = collect_headers (response_headers req toTag es body), Body = body,
         Raw = buildResponse req code reason toTag (map header_line es) body\<rparr>"
proof -
  let ?start = "''SIP/2.0 '' @ show_nat code @ '' '' @ reason"
  let ?hs = "response_headers req toTag es body"
  have hs: "\<forall>p \<in> set ?hs. clean_header p" by (rule clean_response_headers [OF assms(1,2)])
  have "CR \<notin> set (show_nat code)"
    using show_nat_no_space [of code] by (auto simp: list_all_iff)
  then have "clean_line ?start" using assms(3) by (auto simp: clean_line_def CR_def)
  then have clean: "\<forall>l \<in> set (?start # map header_line ?hs). clean_line l"
    using hs clean_header_line by auto
  have at: "atoi (show_nat code) = (int code, True)" using assms(4) by (simp add: atoi_show_nat)
  have reason: "(if 2 < length (''SIP/2.0'' # show_nat code # str_fields reason)
      then join '' '' (drop 2 (''SIP/2.0'' # show_nat code # str_fields reason)) else [])
      = join '' '' (str_fields reason)"
    by (cases "str_fields reason") auto
  show ?thesis
    unfolding buildResponse_lines parse_head [OF clean] response_start_fields header_fold [OF hs]
    unfolding parse_start_def reason by (simp add: at)
qed

text \<open> A response built by \<open>buildResponse\<close> for a request is parsed by the peer as the response to that
  request: the status code, all Via values in order, From, Call-ID and CSeq unchanged, the To header
  with the tag added only if there was none, and the body; so the peer's transaction lookup (branch
  and CSeq method) finds the same key as for the request.\<close>

lemma response_round_trip:
  assumes "echoable req toTag" "\<forall>p \<in> set es. clean_header p \<and> header_key (fst p) \<notin> set dialog_headers"
    and "CR \<notin> set reason" "code < 1000"
  shows "\<exists>m. parseMessage (buildResponse req code reason toTag (map header_line es) body) = Inr m
    \<and> IsResponse m \<and> StatusCode m = int code \<and> Headers m ''via'' = Headers req ''via''
    \<and> Header m ''from'' = Header req ''from'' \<and> Header m ''to'' = response_to req toTag
    \<and> Header m ''call-id'' = Header req ''call-id'' \<and> Header m ''cseq'' = Header req ''cseq''
    \<and> Body m = body \<and> response_key m = response_key req"
proof -
  have es: "\<forall>p \<in> set es. clean_header p" "\<forall>p \<in> set es. header_key (fst p) \<notin> set dialog_headers"
    using assms(2) by auto
  show ?thesis
    unfolding response_parsed [OF assms(1) es(1) assms(3,4)]
    by (simp add: Header_def collect_response [OF es(2)] header_names response_key_def)
qed

definition sample_invite :: Message where
  "sample_invite = \<lparr>IsResponse = False, StatusCode = 0, Reason = [], Method = ''INVITE'', URI = ''sip:g@h'',
     Headers = collect_headers [(''v'', ''SIP/2.0/UDP 1.2.3.4;branch=z9''), (''From'', ''<sip:a@b>;tag=1''),
       (''To'', ''<sip:g@h>''), (''Call-ID'', ''c1''), (''CSeq'', ''7 INVITE'')],
     Body = [], Raw = []\<rparr>"

lemma sample_invite_headers:
  "Headers sample_invite ''via'' = [''SIP/2.0/UDP 1.2.3.4;branch=z9'']"
  "Header sample_invite ''from'' = ''<sip:a@b>;tag=1''" "Header sample_invite ''call-id'' = ''c1''"
  "Header sample_invite ''cseq'' = ''7 INVITE''" "response_to sample_invite ''t9'' = ''<sip:g@h>;tag=t9''"
  unfolding sample_invite_def by code_simp+

section \<open>Transaction keys\<close>

definition base_pairs ::
  "sip_identity \<Rightarrow> string \<Rightarrow> string \<Rightarrow> nat \<Rightarrow> string \<Rightarrow> string \<Rightarrow> string \<Rightarrow> (string \<times> string) list" where
  "base_pairs c method branch cseq callID frm to =
     [(''Via'', ''SIP/2.0/UDP '' @ localIP c @ '':'' @ show_nat (LocalPort c) @ '';branch='' @ branch @ '';rport''),
      (''Max-Forwards'', ''70''), (''From'', frm), (''To'', to), (''Call-ID'', callID),
      (''CSeq'', show_nat cseq @ '' '' @ method),
      (''Contact'', ''<sip:'' @ Username c @ ''@'' @ localIP c @ '':'' @ show_nat (LocalPort c) @ '';transport=udp>''),
      (''User-Agent'', ''ReolinkSIPGateway/1.5.0'')]"

lemma baseHeaders_pairs:
  "\<exists>frm to. baseHeaders c method branch cseq callID fromURI toURI fromTag toTag
     = map header_line (base_pairs c method branch cseq callID frm to)
   \<and> frm = [CHR 0x22] @ escapeDisplay (DisplayName c) @ [CHR 0x22] @ '' <'' @ fromURI @ ''>;tag='' @ fromTag
   \<and> to = ''<'' @ toURI @ ''>'' @ (if toTag \<noteq> [] then '';tag='' @ toTag else [])"
  by (simp add: baseHeaders_def base_pairs_def header_line_def Let_def)

lemma first_param:
  assumes "CHR '';'' \<notin> set pre" "CHR '';'' \<notin> set v" "CHR ''='' \<notin> set n" "token n" "token v"
    and "CHR '';'' \<notin> set n" and "CHR 0x22 \<notin> set v"
  shows "param (pre @ '';'' @ n @ ''='' @ v @ '';'' @ rest) n = v"
proof -
  have "split_str '';'' (pre @ '';'' @ (n @ ''='' @ v) @ '';'' @ rest)
      = pre # (n @ ''='' @ v) # split_str '';'' rest"
    using assms(1,2,6) split_step [of "'';''" pre "(n @ ''='' @ v) @ '';'' @ rest"]
      split_step [of "'';''" "n @ ''='' @ v" rest] by simp
  moreover have tr: "trim_space (n @ ''='' @ v) = n @ ''='' @ v"
    using assms(4,5) by (intro trim_space_trimmed) (auto simp: trimmed_def token_def list_all_iff)
  moreover have "split2 ''='' (n @ ''='' @ v) = [n, v]" using split2_cut [of "''=''" n v] assms(3) by simp
  moreover have "trim_chars [CHR 0x22] v = v"
  proof -
    have "dropWhile (\<lambda>c. c \<in> set [CHR 0x22]) w = w" if "CHR 0x22 \<notin> set w" for w
      using that by (cases w) auto
    then show ?thesis using assms(7) by (simp add: trim_chars_def)
  qed
  ultimately show ?thesis
    by (simp add: param_def param_value_def equal_fold_def)
qed

lemma via_branch:
  assumes "CHR '';'' \<notin> set (localIP c)" "token branch" "CHR '';'' \<notin> set branch" "CHR 0x22 \<notin> set branch"
  shows "param (''SIP/2.0/UDP '' @ localIP c @ '':'' @ show_nat (LocalPort c) @ '';branch='' @ branch @ '';rport'') ''branch''
    = branch"
proof -
  have "CHR '';'' \<notin> set (show_nat (LocalPort c))"
    using show_nat_digits [of "LocalPort c"] by (auto simp: list_all_iff is_digit_def Let_def)
  then show ?thesis
    using first_param [of "''SIP/2.0/UDP '' @ localIP c @ '':'' @ show_nat (LocalPort c)" branch "''branch''" "''rport''"]
      assms by (simp add: token_def is_space_def)
qed

lemma cseq_method:
  assumes "token method" "to_upper method = method"
  shows "cseqMethod (show_nat n @ '' '' @ method) = method"
    and "n < 2 ^ 32 \<Longrightarrow> cseqNumber (show_nat n @ '' '' @ method) = n"
proof -
  have "str_fields (show_nat n @ '' '' @ method) = [show_nat n, method]"
    using str_fields_append [OF show_nat_no_space show_nat_not_Nil, of "CHR '' ''" n "method"]
      str_fields_word [of "method"] assms(1) by (simp add: token_def)
  then show "cseqMethod (show_nat n @ '' '' @ method) = method"
    "n < 2 ^ 32 \<Longrightarrow> cseqNumber (show_nat n @ '' '' @ method) = n"
    using assms(2) by (simp_all add: cseqMethod_def cseqNumber_def parse_uint32_show_nat)
qed

lemma collect_base_pairs:
  "collect_headers (base_pairs c method branch cseq callID frm to @ extra) ''via''
     = (''SIP/2.0/UDP '' @ localIP c @ '':'' @ show_nat (LocalPort c) @ '';branch='' @ branch @ '';rport'')
       # collect_headers extra ''via''"
  "collect_headers (base_pairs c method branch cseq callID frm to @ extra) ''cseq''
     = (show_nat cseq @ '' '' @ method) # collect_headers extra ''cseq''"
  "collect_headers (base_pairs c method branch cseq callID frm to @ extra) ''call-id''
     = callID # collect_headers extra ''call-id''"
  by (simp_all add: collect_headers_def base_pairs_def header_keys)

text \<open>Header lines determine their names and values.\<close>

lemma header_line_inj:
  assumes "header_line p = header_line q" "CHR '':'' \<notin> set (fst p)" "CHR '':'' \<notin> set (fst q)"
  shows "p = q"
proof -
  have "cut '':'' (header_line p) = Some (fst p, '' '' @ snd p)"
    "cut '':'' (header_line q) = Some (fst q, '' '' @ snd q)"
    using assms(2,3) cut_first [of "'':''" "fst p" "'' '' @ snd p"] cut_first [of "'':''" "fst q" "'' '' @ snd q"]
    by (simp_all add: header_line_def)
  then show ?thesis using assms(1) by (simp add: prod_eq_iff)
qed

lemma header_lines_prefix:
  "map header_line ps @ extra = map header_line hs \<Longrightarrow> \<forall>p \<in> set hs. clean_header p \<Longrightarrow>
   \<forall>p \<in> set ps. CHR '':'' \<notin> set (fst p) \<Longrightarrow> \<exists>es. hs = ps @ es"
proof (induction ps arbitrary: hs)
  case (Cons p ps)
  obtain q hs' where hs: "hs = q # hs'" using Cons.prems(1) by (cases hs) auto
  have "q = p" using Cons.prems hs by (intro header_line_inj) (auto simp: clean_header_def)
  then show ?case using Cons.IH [of hs'] Cons.prems hs by auto
qed simp

text \<open>Requests carry the key under which their responses are looked up: when any request built from
  \<open>baseHeaders\<close> (REGISTER, INVITE, ACK or BYE, with any further headers) is read by the peer, its top Via
  branch and CSeq give exactly the key \<open>transact\<close> registered, its Call-ID is the dialog's, and its CSeq
  number is the one passed in.\<close>

lemma request_carries_transaction_key:
  assumes "CHR '';'' \<notin> set (localIP c)" "token branch" "CHR '';'' \<notin> set branch" "CHR 0x22 \<notin> set branch"
    and "token method" "to_upper method = method" "\<not> prefix ''SIP/'' method" "token uri" "cseq < 2 ^ 32"
    and hdrs: "baseHeaders c method branch cseq callID fromURI toURI fromTag toTag @ extra = map header_line hs"
    and clean: "\<forall>p \<in> set hs. clean_header p"
  shows "\<exists>m. parseMessage (buildRequest method uri
        (baseHeaders c method branch cseq callID fromURI toURI fromTag toTag @ extra) body) = Inr m
    \<and> Method m = method \<and> response_key m = transaction_key branch method
    \<and> Header m ''call-id'' = callID \<and> cseqNumber (Header m ''cseq'') = cseq \<and> Body m = body"
proof -
  obtain frm to where b: "baseHeaders c method branch cseq callID fromURI toURI fromTag toTag
      = map header_line (base_pairs c method branch cseq callID frm to)"
    using baseHeaders_pairs by blast
  obtain es where hs: "hs = base_pairs c method branch cseq callID frm to @ es"
    using header_lines_prefix [OF hdrs [unfolded b] clean] by (auto simp: base_pairs_def)
  have m: "parseMessage (buildRequest method uri (map header_line hs) body) = Inr
      \<lparr>IsResponse = False, StatusCode = 0, Reason = [], Method = method, URI = uri,
       Headers = collect_headers (base_pairs c method branch cseq callID frm to @ (es @ [content_length body])),
       Body = body, Raw = buildRequest method uri (map header_line hs) body\<rparr>"
    using parsed_request [OF assms(5,8,7) clean, of body] by (simp add: hs)
  show ?thesis unfolding hdrs m
    using via_branch [OF assms(1-4)] cseq_method [OF assms(5,6)] assms(9)
    by (simp add: Header_def header_names collect_base_pairs response_key_def transaction_key_def)
qed

definition sample_identity :: sip_identity where
  "sample_identity = \<lparr>localIP = ''10.0.0.2'', LocalPort = 5060, Username = ''door'', DisplayName = ''Door''\<rparr>"

definition sample_pairs :: "(string \<times> string) list" where
  "sample_pairs = base_pairs sample_identity ''BYE'' ''z9hG4bK-1'' 3 ''id1''
     ([CHR 0x22] @ ''Door'' @ [CHR 0x22] @ '' <sip:a@b>;tag=f1'') ''<sip:c@d>;tag=t1''"

end
