(* ===== verification/SipSdp.thy ===== *)
theory SipSdp
  imports GoStrings
begin

text \<open>
  SDP offer and answer of the SIP leg: \<open>parseAudioSDP\<close>, the negotiation functions and \<open>offerSDP\<close> of
  \<^verbatim>\<open>internal/sip/client.go\<close>, \<open>answerSDP\<close> of \<^verbatim>\<open>internal/sip/incoming.go\<close>.  The resolution of the
  connection address (\<open>net.ParseIP\<close>, then a DNS query) is the parameter \<open>lookup_ip\<close>; the Unix time in the
  origin line is an argument.
\<close>

section \<open>Data\<close>

record Codec =
  Name :: string
  CodecPT :: int

record TelephoneEvent =
  EventPT :: int
  ClockRate :: int

record parsedAudioSDP =
  payloads :: "int list"
  rtpmap :: "int \<Rightarrow> string"
  rtpclock :: "int \<Rightarrow> int"
  remote :: "string \<times> int"

record negotiatedAudio =
  Codec :: Codec
  RemoteRTP :: "string \<times> int"
  Event :: "TelephoneEvent option"

datatype sdp_error =
    No_usable_media
  | No_usable_address
  | Cannot_resolve string
  | No_common_codec

section \<open>The line loop\<close>

record sdp_state =
  st_payloads :: "int list"
  st_rtpmap :: "int \<Rightarrow> string"
  st_rtpclock :: "int \<Rightarrow> int"
  sessionIP :: string
  audioIP :: string
  st_port :: int
  inAudio :: bool
  beforeMedia :: bool

definition sdp_init :: sdp_state where
  "sdp_init = \<lparr>st_payloads = [], st_rtpmap = (\<lambda>_. []), st_rtpclock = (\<lambda>_. 0), sessionIP = [],
     audioIP = [], st_port = 0, inAudio = False, beforeMedia = True\<rparr>"

definition usable_pts :: "string list \<Rightarrow> int list" where
  "usable_pts vs = map (\<lambda>v. fst (atoi v)) (filter (\<lambda>v. snd (atoi v) \<and> 0 \<le> fst (atoi v) \<and> fst (atoi v) \<le> 127) vs)"

definition sdp_audio_line :: "sdp_state \<Rightarrow> string \<Rightarrow> sdp_state" where
  "sdp_audio_line st line =
     (let f = str_fields (trim_prefix ''m='' line);
          st = (if length f \<ge> 4 \<and> st_port st = 0
                then st\<lparr>inAudio := True, st_port := fst (atoi (f ! 1)),
                        st_payloads := st_payloads st @ usable_pts (drop 3 f)\<rparr>
                else st\<lparr>inAudio := False\<rparr>)
      in st\<lparr>beforeMedia := False\<rparr>)"

definition sdp_connection_line :: "sdp_state \<Rightarrow> string \<Rightarrow> sdp_state" where
  "sdp_connection_line st line =
     (case str_fields (trim_space (trim_prefix ''c=IN IP4 '' line)) of
        [] \<Rightarrow> st
      | ip # _ \<Rightarrow>
          if inAudio st then st\<lparr>audioIP := ip\<rparr>
          else if beforeMedia st \<and> sessionIP st = [] then st\<lparr>sessionIP := ip\<rparr>
          else st)"

definition sdp_rtpmap_line :: "sdp_state \<Rightarrow> string \<Rightarrow> sdp_state" where
  "sdp_rtpmap_line st line =
     (case split2 '' '' (trim_prefix ''a=rtpmap:'' line) of
        [a, b] \<Rightarrow>
          (case atoi a of
             (pt, True) \<Rightarrow>
               let encoding = split_str ''/'' b;
                   st = st\<lparr>st_rtpmap := (st_rtpmap st)(pt := to_upper (hd encoding))\<rparr>
               in if length encoding \<ge> 2
                  then st\<lparr>st_rtpclock := (st_rtpclock st)(pt := fst (atoi (encoding ! 1)))\<rparr> else st
           | (pt, False) \<Rightarrow> st)
      | _ \<Rightarrow> st)"

definition sdp_line :: "sdp_state \<Rightarrow> string \<Rightarrow> sdp_state" where
  "sdp_line st raw =
     (let line = trim_space raw in
      if prefix ''m=audio '' line then sdp_audio_line st line
      else if prefix ''m='' line then st\<lparr>inAudio := False, beforeMedia := False\<rparr>
      else if prefix ''c=IN IP4 '' line then sdp_connection_line st line
      else if inAudio st \<and> prefix ''a=rtpmap:'' line then sdp_rtpmap_line st line
      else st)"

section \<open>The result\<close>

definition sdp_result :: "(string \<Rightarrow> string option) \<Rightarrow> sdp_state \<Rightarrow> sdp_error + parsedAudioSDP" where
  "sdp_result lookup_ip st =
     (if st_port st < 1 \<or> 65535 < st_port st \<or> st_payloads st = [] then Inl No_usable_media
      else
        let ipText = (if audioIP st = [] then sessionIP st else audioIP st) in
        if ipText = [] \<or> ipText = ''0.0.0.0'' then Inl No_usable_address
        else case lookup_ip ipText of
          None \<Rightarrow> Inl (Cannot_resolve ipText)
        | Some ip \<Rightarrow> Inr \<lparr>payloads = st_payloads st, rtpmap = st_rtpmap st, rtpclock = st_rtpclock st,
            remote = (ip, st_port st)\<rparr>)"

definition sdp_lines :: "string \<Rightarrow> string list" where
  "sdp_lines s = split_str [LF] (replace_all s CRLF [LF])"

definition parseAudioSDP :: "(string \<Rightarrow> string option) \<Rightarrow> string \<Rightarrow> sdp_error + parsedAudioSDP" where
  "parseAudioSDP lookup_ip s = sdp_result lookup_ip (foldl sdp_line sdp_init (sdp_lines s))"

section \<open>Negotiation\<close>

definition codecForPayload :: "int \<Rightarrow> (int \<Rightarrow> string) \<Rightarrow> Codec option" where
  "codecForPayload pt rm =
     (let name = rm pt;
          name = (if name = [] then (if pt = 8 then ''PCMA'' else if pt = 0 then ''PCMU'' else []) else name)
      in if name \<noteq> ''PCMA'' \<and> name \<noteq> ''PCMU'' then None
         else Some \<lparr>Name = to_lower name, CodecPT = pt\<rparr>)"

definition event_ok :: "parsedAudioSDP \<Rightarrow> bool \<Rightarrow> int \<Rightarrow> bool" where
  "event_ok p answer pt \<longleftrightarrow>
     \<not> (answer \<and> pt \<noteq> 101)
     \<and> \<not> (pt < 96 \<or> 127 < pt \<or> rtpmap p pt \<noteq> ''TELEPHONE-EVENT'' \<or> rtpclock p pt \<noteq> 8000)"

definition telephoneEventForPayloads :: "parsedAudioSDP \<Rightarrow> bool \<Rightarrow> TelephoneEvent option" where
  "telephoneEventForPayloads p answer =
     map_option (\<lambda>pt. \<lparr>EventPT = pt, ClockRate = rtpclock p pt\<rparr>) (find (event_ok p answer) (payloads p))"

fun first_codec :: "(int \<Rightarrow> Codec option) \<Rightarrow> (Codec \<Rightarrow> bool) \<Rightarrow> int list \<Rightarrow> Codec option" where
  "first_codec f ok [] = None"
| "first_codec f ok (pt # pts) =
     (case f pt of
        Some c \<Rightarrow> if ok c then Some c else first_codec f ok pts
      | None \<Rightarrow> first_codec f ok pts)"

definition parseAnswerMedia :: "(string \<Rightarrow> string option) \<Rightarrow> string \<Rightarrow> sdp_error + negotiatedAudio" where
  "parseAnswerMedia lookup_ip s =
     (case parseAudioSDP lookup_ip s of
        Inl e \<Rightarrow> Inl e
      | Inr p \<Rightarrow>
          (case first_codec (\<lambda>pt. codecForPayload pt (rtpmap p)) (\<lambda>_. True) (payloads p) of
             Some c \<Rightarrow> Inr \<lparr>Codec = c, RemoteRTP = remote p, Event = telephoneEventForPayloads p True\<rparr>
           | None \<Rightarrow> Inl No_common_codec))"

definition codec_order :: "string \<Rightarrow> string list" where
  "codec_order preference =
     (if equal_fold (trim_space preference) ''pcmu'' then [''pcmu'', ''pcma''] else [''pcma'', ''pcmu''])"

definition offered_codec :: "parsedAudioSDP \<Rightarrow> string \<Rightarrow> Codec option" where
  "offered_codec p wanted =
     first_codec (\<lambda>pt. codecForPayload pt (rtpmap p)) (\<lambda>c. Name c = wanted) (payloads p)"

definition parseOfferMedia ::
  "(string \<Rightarrow> string option) \<Rightarrow> string \<Rightarrow> string \<Rightarrow> sdp_error + negotiatedAudio" where
  "parseOfferMedia lookup_ip s preference =
     (case parseAudioSDP lookup_ip s of
        Inl e \<Rightarrow> Inl e
      | Inr p \<Rightarrow>
          (let accept = (\<lambda>c. Inr \<lparr>Codec = c, RemoteRTP = remote p, Event = telephoneEventForPayloads p False\<rparr>);
               order = codec_order preference
           in case offered_codec p (order ! 0) of
                Some c \<Rightarrow> accept c
              | None \<Rightarrow> (case offered_codec p (order ! 1) of
                  Some c \<Rightarrow> accept c
                | None \<Rightarrow> Inl No_common_codec)))"

section \<open>Printing\<close>

definition offerSDP :: "string \<Rightarrow> string \<Rightarrow> nat \<Rightarrow> nat \<Rightarrow> string" where
  "offerSDP localIP codecPreference now port =
     (let pcmu = (codecPreference = ''pcmu'');
          pts = (if pcmu then ''0 8 101'' else ''8 0 101'');
          maps = (if pcmu then [''a=rtpmap:0 PCMU/8000'', ''a=rtpmap:8 PCMA/8000'']
                  else [''a=rtpmap:8 PCMA/8000'', ''a=rtpmap:0 PCMU/8000''])
      in join CRLF [''v=0'', ''o=- '' @ show_nat now @ '' 1 IN IP4 '' @ localIP, ''s=Reolink SIP Gateway'',
           ''c=IN IP4 '' @ localIP, ''t=0 0'', ''m=audio '' @ show_nat port @ '' RTP/AVP '' @ pts,
           maps ! 0, maps ! 1, ''a=rtpmap:101 telephone-event/8000'', ''a=fmtp:101 0-15'', ''a=ptime:20'',
           ''a=sendrecv'', []])"

definition answerSDP :: "string \<Rightarrow> nat \<Rightarrow> nat \<Rightarrow> Codec \<Rightarrow> TelephoneEvent option \<Rightarrow> string" where
  "answerSDP localIP now port codec telephoneEvent =
     (let name = to_upper (Name codec);
          pls = show_nat (nat (CodecPT codec));
          pls = (case telephoneEvent of None \<Rightarrow> pls | Some te \<Rightarrow> pls @ '' '' @ show_nat (nat (EventPT te)))
      in join CRLF ([''v=0'', ''o=- '' @ show_nat now @ '' 1 IN IP4 '' @ localIP, ''s=Reolink SIP Gateway'',
           ''c=IN IP4 '' @ localIP, ''t=0 0'', ''m=audio '' @ show_nat port @ '' RTP/AVP '' @ pls,
           ''a=rtpmap:'' @ show_nat (nat (CodecPT codec)) @ '' '' @ name @ ''/8000'']
         @ (case telephoneEvent of
              None \<Rightarrow> []
            | Some te \<Rightarrow>
                [''a=rtpmap:'' @ show_nat (nat (EventPT te)) @ '' telephone-event/'' @ show_nat (nat (ClockRate te)),
                 ''a=fmtp:'' @ show_nat (nat (EventPT te)) @ '' 0-15''])
         @ [''a=ptime:20'', ''a=sendrecv'', []]))"

section \<open>What negotiation guarantees\<close>

lemma first_codec_Some:
  "first_codec f ok pts = Some c \<Longrightarrow> \<exists>pt \<in> set pts. f pt = Some c \<and> ok c"
  by (induction pts) (auto split: option.splits if_splits)

lemma first_codec_None:
  "first_codec f ok pts = None \<longleftrightarrow> (\<forall>pt \<in> set pts. \<forall>c. f pt = Some c \<longrightarrow> \<not> ok c)"
  by (induction pts) (auto split: option.splits)

lemma lower_codec_names: "to_lower ''PCMA'' = ''pcma''" "to_lower ''PCMU'' = ''pcmu''"
  by code_simp+

lemma codecForPayload_name:
  "codecForPayload pt rm = Some c \<Longrightarrow> CodecPT c = pt \<and> Name c \<in> {''pcma'', ''pcmu''}"
  by (auto simp: codecForPayload_def Let_def lower_codec_names split: if_splits)

lemma usable_pts_range: "pt \<in> set (usable_pts vs) \<Longrightarrow> 0 \<le> pt \<and> pt \<le> 127"
  by (auto simp: usable_pts_def)

lemma sdp_payload_range:
  "\<forall>pt \<in> set (st_payloads st). 0 \<le> pt \<and> pt \<le> 127 \<Longrightarrow>
   \<forall>pt \<in> set (st_payloads (foldl sdp_line st ls)). 0 \<le> pt \<and> pt \<le> 127"
proof (induction ls arbitrary: st)
  case (Cons l ls)
  have "\<forall>pt \<in> set (st_payloads (sdp_line st l)). 0 \<le> pt \<and> pt \<le> 127"
    using Cons.prems usable_pts_range
    by (auto simp: sdp_line_def sdp_audio_line_def sdp_connection_line_def sdp_rtpmap_line_def Let_def
        split: list.splits prod.splits bool.splits)
  then show ?case using Cons.IH by simp
qed simp

lemma parsed_ranges:
  assumes "parseAudioSDP lookup_ip s = Inr p"
  shows "\<forall>pt \<in> set (payloads p). 0 \<le> pt \<and> pt \<le> 127" "1 \<le> snd (remote p)" "snd (remote p) \<le> 65535"
proof -
  have "\<forall>pt \<in> set (st_payloads (foldl sdp_line sdp_init (sdp_lines s))). 0 \<le> pt \<and> pt \<le> 127"
    by (rule sdp_payload_range) (simp add: sdp_init_def)
  then show "\<forall>pt \<in> set (payloads p). 0 \<le> pt \<and> pt \<le> 127" "1 \<le> snd (remote p)" "snd (remote p) \<le> 65535"
    using assms by (auto simp: parseAudioSDP_def sdp_result_def Let_def split: if_splits option.splits)
qed

lemma negotiated_parts:
  assumes "parseOfferMedia lookup_ip s preference = Inr m"
  shows "\<exists>p. parseAudioSDP lookup_ip s = Inr p \<and> CodecPT (Codec m) \<in> set (payloads p)
    \<and> codecForPayload (CodecPT (Codec m)) (rtpmap p) = Some (Codec m)
    \<and> (offered_codec p (codec_order preference ! 0) \<noteq> None \<longrightarrow> Name (Codec m) = codec_order preference ! 0)
    \<and> Event m = telephoneEventForPayloads p False \<and> RemoteRTP m = remote p"
proof -
  obtain p c w where p: "parseAudioSDP lookup_ip s = Inr p" and c: "offered_codec p w = Some c"
    and m: "m = \<lparr>Codec = c, RemoteRTP = remote p, Event = telephoneEventForPayloads p False\<rparr>"
    and w: "w = codec_order preference ! 0 \<or>
      (w = codec_order preference ! 1 \<and> offered_codec p (codec_order preference ! 0) = None)"
    using assms by (auto simp: parseOfferMedia_def Let_def split: sum.splits option.splits)
  obtain pt where "pt \<in> set (payloads p)" "codecForPayload pt (rtpmap p) = Some c" "Name c = w"
    using first_codec_Some [OF c [unfolded offered_codec_def]] by auto
  then show ?thesis using p w codecForPayload_name by (intro exI [of _ p]) (auto simp: m)
qed



section \<open>Reading back what the gateway prints\<close>

definition word_text :: "string \<Rightarrow> bool" where
  "word_text t \<longleftrightarrow> t \<noteq> [] \<and> list_all (\<lambda>c. \<not> is_space c) t"

lemma word_text_show_nat [simp]: "word_text (show_nat n)"
  by (simp add: word_text_def show_nat_no_space)

lemma word_text_trimmed: "word_text t \<Longrightarrow> trimmed t"
  by (auto simp: word_text_def trimmed_def list_all_iff)

text \<open>A printed line: no line breaks, no outer white space.\<close>

definition plain_line :: "string \<Rightarrow> bool" where
  "plain_line l \<longleftrightarrow> trimmed l \<and> CR \<notin> set l \<and> LF \<notin> set l"

lemma word_text_breaks: "word_text t \<Longrightarrow> CR \<notin> set t" "word_text t \<Longrightarrow> LF \<notin> set t"
  by (auto simp: word_text_def list_all_iff is_space_def CR_def LF_def)

lemma plain_line_word:
  assumes "word_text t" "a \<noteq> []" "\<not> is_space (hd a)" "CR \<notin> set a" "LF \<notin> set a"
  shows "plain_line (a @ t)"
  using assms word_text_breaks [OF assms(1)] by (auto simp: plain_line_def trimmed_def word_text_def list_all_iff)

lemma sdp_lines_join:
  assumes "\<forall>l \<in> set ls. plain_line l" "ls \<noteq> []"
  shows "sdp_lines (join CRLF ls) = ls"
proof -
  have "split_str CRLF (join CRLF ls) = ls"
    by (rule split_join) (use assms in \<open>auto simp: plain_line_def CRLF_def\<close>)
  moreover have "split_str [LF] (join [LF] ls) = ls"
    by (rule split_join) (use assms in \<open>auto simp: plain_line_def\<close>)
  ultimately show ?thesis by (simp add: sdp_lines_def replace_all_def)
qed

lemma sdp_line_other:
  assumes "trimmed l" "\<not> prefix ''m='' l" "\<not> prefix ''c=IN IP4 '' l" "\<not> prefix ''a=rtpmap:'' l"
  shows "sdp_line st l = st"
proof -
  have "\<not> prefix ''m=audio '' l" using assms(2) by (cases l; cases "tl l") auto
  then show ?thesis using assms by (simp add: sdp_line_def trim_space_trimmed Let_def)
qed

lemma sdp_line_connection:
  assumes "word_text ip" "\<not> inAudio st" "beforeMedia st" "sessionIP st = []"
  shows "sdp_line st (''c=IN IP4 '' @ ip) = st\<lparr>sessionIP := ip\<rparr>"
proof -
  have t: "trim_space (''c=IN IP4 '' @ ip) = ''c=IN IP4 '' @ ip"
    using assms(1) by (intro trim_space_trimmed) (auto simp: trimmed_def word_text_def is_space_def list_all_iff)
  have f: "str_fields (trim_space ip) = [ip]"
    using assms(1) by (simp add: trim_space_trimmed word_text_trimmed word_text_def str_fields_word)
  show ?thesis
    unfolding sdp_line_def t Let_def sdp_connection_line_def trim_prefix_def
    using assms(2-) f by simp
qed

lemma sdp_line_audio:
  assumes "st_port st = 0" "word_text pts" "port < 2 ^ 63"
    and "pts' = '' '' @ pts'' \<and> word_text pts'' \<or> pts' = [] \<and> pts'' = []"
  shows "sdp_line st (''m=audio '' @ show_nat port @ '' RTP/AVP '' @ pts @ pts') =
    st\<lparr>inAudio := True, st_port := int port, beforeMedia := False,
       st_payloads := st_payloads st @ usable_pts (pts # (if pts' = [] then [] else [pts'']))\<rparr>"
proof -
  let ?l = "''m=audio '' @ show_nat port @ '' RTP/AVP '' @ pts @ pts'"
  have tr: "trimmed ?l"
    using assms(2,4) by (auto simp: trimmed_def word_text_def is_space_def list_all_iff)
  have tail: "str_fields (pts @ pts') = pts # (if pts' = [] then [] else [pts''])"
    using assms(2,4) str_fields_append [of pts "CHR '' ''" pts''] str_fields_word [of pts] str_fields_word [of pts'']
    by (auto simp: word_text_def is_space_def)
  have f: "str_fields (''audio '' @ show_nat port @ '' RTP/AVP '' @ pts @ pts')
      = ''audio'' # show_nat port # ''RTP/AVP'' # pts # (if pts' = [] then [] else [pts''])"
    using str_fields_append [of "''audio''" "CHR '' ''" "show_nat port @ '' RTP/AVP '' @ pts @ pts'"]
      str_fields_append [OF show_nat_no_space show_nat_not_Nil, of "CHR '' ''" port "''RTP/AVP '' @ pts @ pts'"]
      str_fields_append [of "''RTP/AVP''" "CHR '' ''" "pts @ pts'"] tail
    by (simp add: is_space_def)
  have tp: "trim_prefix ''m='' ?l = ''audio '' @ show_nat port @ '' RTP/AVP '' @ pts @ pts'"
    by (simp add: trim_prefix_def)
  have "sdp_line st ?l = sdp_audio_line st ?l"
    unfolding sdp_line_def Let_def trim_space_trimmed [OF tr] by simp
  then show ?thesis
    unfolding sdp_audio_line_def Let_def tp f using assms(1,3) by (simp add: atoi_show_nat)
qed

lemma sdp_line_rtpmap:
  assumes "inAudio st" "pt < 2 ^ 63" "clock < 2 ^ 63" "word_text enc" "CHR ''/'' \<notin> set enc"
  shows "sdp_line st (''a=rtpmap:'' @ show_nat pt @ '' '' @ enc @ ''/'' @ show_nat clock) =
    st\<lparr>st_rtpmap := (st_rtpmap st)(int pt := to_upper enc),
       st_rtpclock := (st_rtpclock st)(int pt := int clock)\<rparr>"
proof -
  let ?l = "''a=rtpmap:'' @ show_nat pt @ '' '' @ enc @ ''/'' @ show_nat clock"
  have last: "\<not> is_space (last (show_nat clock))"
    using show_nat_no_space [of clock] last_in_set [of "show_nat clock"] by (auto simp: list_all_iff)
  have tr: "trimmed ?l" using last by (auto simp: trimmed_def is_space_def)
  have tp: "trim_prefix ''a=rtpmap:'' ?l = show_nat pt @ '' '' @ enc @ ''/'' @ show_nat clock"
    by (simp add: trim_prefix_def)
  have s2: "split2 '' '' (show_nat pt @ '' '' @ enc @ ''/'' @ show_nat clock)
      = [show_nat pt, enc @ ''/'' @ show_nat clock]"
    using show_nat_no_space [of pt] by (intro split2_cut) (auto simp: list_all_iff is_space_def)
  have "CHR ''/'' \<notin> set (show_nat clock)"
    using show_nat_digits [of clock] by (auto simp: list_all_iff is_digit_def Let_def)
  then have sp: "split_str ''/'' (enc @ ''/'' @ show_nat clock) = [enc, show_nat clock]"
    using assms(5) by (simp add: split_step [of "''/''", simplified] split_no_sep)
  have "sdp_line st ?l = sdp_rtpmap_line st ?l"
    unfolding sdp_line_def Let_def trim_space_trimmed [OF tr] using assms(1) by simp
  then show ?thesis
    unfolding sdp_rtpmap_line_def Let_def tp s2 using assms(2,3) sp by (simp add: atoi_show_nat)
qed

definition answer_lines :: "string \<Rightarrow> nat \<Rightarrow> nat \<Rightarrow> Codec \<Rightarrow> TelephoneEvent option \<Rightarrow> string list" where
  "answer_lines ip now port codec te =
     [''v=0'', (''o=- '' @ show_nat now @ '' 1 IN IP4 '') @ ip, ''s=Reolink SIP Gateway'',
      ''c=IN IP4 '' @ ip, ''t=0 0'',
      ''m=audio '' @ show_nat port @ '' RTP/AVP '' @ show_nat (nat (CodecPT codec))
        @ (case te of None \<Rightarrow> [] | Some t \<Rightarrow> '' '' @ show_nat (nat (EventPT t))),
      ''a=rtpmap:'' @ show_nat (nat (CodecPT codec)) @ '' '' @ to_upper (Name codec) @ ''/'' @ show_nat 8000]
     @ (case te of
          None \<Rightarrow> []
        | Some t \<Rightarrow>
            [''a=rtpmap:'' @ show_nat (nat (EventPT t)) @ '' '' @ ''telephone-event'' @ ''/'' @ show_nat (nat (ClockRate t)),
             (''a=fmtp:'' @ show_nat (nat (EventPT t)) @ '' '') @ ''0-15''])
     @ [''a=ptime:20'', ''a=sendrecv'', []]"

lemma show_8000: "show_nat 8000 = ''8000''"
  by (simp add: show_nat.simps digit_char_def) code_simp

lemma answerSDP_lines: "answerSDP ip now port codec te = join CRLF (answer_lines ip now port codec te)"
  by (cases te) (simp_all add: answerSDP_def answer_lines_def Let_def show_8000)

lemma upper_codec_names: "to_upper ''pcma'' = ''PCMA''" "to_upper ''pcmu'' = ''PCMU''"
  "to_upper ''telephone-event'' = ''TELEPHONE-EVENT''"
  by code_simp+

lemma show_nat_breaks [simp]: "CR \<notin> set (show_nat n)" "LF \<notin> set (show_nat n)"
  using word_text_breaks [of "show_nat n"] by simp_all

lemma answer_lines_plain:
  assumes "word_text ip" "Name codec \<in> {''pcma'', ''pcmu''}"
  shows "\<forall>l \<in> set (answer_lines ip now port codec te). plain_line l"
proof -
  have lit: "plain_line l" if "l \<in> {''v=0'', ''s=Reolink SIP Gateway'', ''t=0 0'', ''a=ptime:20'', ''a=sendrecv'', []}" for l
    using that by (auto simp: plain_line_def trimmed_def is_space_def CR_def LF_def)
  have o: "plain_line ((''o=- '' @ show_nat now @ '' 1 IN IP4 '') @ ip)"
    by (rule plain_line_word [OF assms(1)]) (auto simp: is_space_def CR_def LF_def show_nat_breaks [unfolded CR_def LF_def])
  have c: "plain_line (''c=IN IP4 '' @ ip)"
    by (rule plain_line_word [OF assms(1)]) (auto simp: is_space_def CR_def LF_def)
  have m0: "plain_line ((''m=audio '' @ show_nat port @ '' RTP/AVP '') @ show_nat k)" for k
    by (rule plain_line_word) (auto simp: is_space_def CR_def LF_def show_nat_breaks [unfolded CR_def LF_def])
  have m1: "plain_line ((''m=audio '' @ show_nat port @ '' RTP/AVP '' @ show_nat k @ '' '') @ show_nat k')" for k k'
    by (rule plain_line_word) (auto simp: is_space_def CR_def LF_def show_nat_breaks [unfolded CR_def LF_def])
  have r: "plain_line ((''a=rtpmap:'' @ show_nat k @ '' '' @ e @ ''/'') @ show_nat k')"
    if "CR \<notin> set e" "LF \<notin> set e" for k k' e
    using that by (intro plain_line_word) (auto simp: is_space_def CR_def LF_def show_nat_breaks [unfolded CR_def LF_def])
  have f: "plain_line ((''a=fmtp:'' @ show_nat k @ '' '') @ ''0-15'')" for k
    by (rule plain_line_word) (auto simp: word_text_def is_space_def CR_def LF_def show_nat_breaks [unfolded CR_def LF_def])
  have e: "CR \<notin> set (to_upper (Name codec))" "LF \<notin> set (to_upper (Name codec))"
    "CR \<notin> set ''telephone-event''" "LF \<notin> set ''telephone-event''"
    using assms(2) by (auto simp: upper_codec_names CR_def LF_def)
  show ?thesis
    using lit o c m0 m1 r [OF e(1,2)] r [OF e(3,4)] f
    by (cases te) (auto simp: answer_lines_def)
qed

lemma answer_state:
  assumes "word_text ip" "Name codec \<in> {''pcma'', ''pcmu''}" "0 \<le> CodecPT codec" "CodecPT codec \<le> 127"
    and "port < 2 ^ 63"
    and te: "\<forall>t. te = Some t \<longrightarrow> 96 \<le> EventPT t \<and> EventPT t \<le> 127 \<and> ClockRate t = 8000"
  shows "foldl sdp_line sdp_init (answer_lines ip now port codec te) =
    \<lparr>st_payloads = CodecPT codec # (case te of None \<Rightarrow> [] | Some t \<Rightarrow> [EventPT t]),
     st_rtpmap = (case te of
         None \<Rightarrow> (\<lambda>_. [])(CodecPT codec := to_upper (Name codec))
       | Some t \<Rightarrow> (\<lambda>_. [])(CodecPT codec := to_upper (Name codec), EventPT t := ''TELEPHONE-EVENT'')),
     st_rtpclock = (case te of
         None \<Rightarrow> (\<lambda>_. 0)(CodecPT codec := 8000)
       | Some t \<Rightarrow> (\<lambda>_. 0)(CodecPT codec := 8000, EventPT t := 8000)),
     sessionIP = ip, audioIP = [], st_port = int port, inAudio = True, beforeMedia = False\<rparr>"
proof -
  have noop: "sdp_line st l = st"
    if "l \<in> {''v=0'', ''s=Reolink SIP Gateway'', ''t=0 0'', ''a=ptime:20'', ''a=sendrecv'', []}" for st l
    using that by (intro sdp_line_other) (auto simp: trimmed_def is_space_def)
  have o: "sdp_line st ((''o=- '' @ show_nat now @ '' 1 IN IP4 '') @ ip) = st" for st
    by (rule sdp_line_other)
      (use assms(1) in \<open>auto simp: trimmed_def is_space_def word_text_def list_all_iff\<close>)
  have f: "sdp_line st ((''a=fmtp:'' @ show_nat k @ '' '') @ ''0-15'') = st" for st k
    by (rule sdp_line_other) (auto simp: trimmed_def is_space_def)
  have pts: "usable_pts [show_nat k] = [int k]" "usable_pts [show_nat k, show_nat k'] = [int k, int k']"
    if "k \<le> 127" "k' \<le> 127" for k k'
    using that by (simp_all add: usable_pts_def atoi_show_nat)
  have nm: "word_text (to_upper (Name codec))" "CHR ''/'' \<notin> set (to_upper (Name codec))"
    "word_text ''telephone-event''" "CHR ''/'' \<notin> set ''telephone-event''"
    using assms(2) by (auto simp: upper_codec_names word_text_def is_space_def)
  have pt: "nat (CodecPT codec) \<le> 127" "int (nat (CodecPT codec)) = CodecPT codec" "nat (CodecPT codec) < 2 ^ 63"
    using assms(3,4) by auto
  define lo where "lo = (''o=- '' @ show_nat now @ '' 1 IN IP4 '') @ ip"
  define lc where "lc = ''c=IN IP4 '' @ ip"
  define lm where "lm x = ''m=audio '' @ show_nat port @ '' RTP/AVP '' @ show_nat (nat (CodecPT codec)) @ x" for x
  define lr where "lr = ''a=rtpmap:'' @ show_nat (nat (CodecPT codec)) @ '' '' @ to_upper (Name codec) @ ''/'' @ show_nat 8000"
  define le where "le t = ''a=rtpmap:'' @ show_nat (nat (EventPT t)) @ '' '' @ ''telephone-event'' @ ''/'' @ show_nat (nat (ClockRate t))" for t :: TelephoneEvent
  define lf where "lf t = (''a=fmtp:'' @ show_nat (nat (EventPT t)) @ '' '') @ ''0-15''" for t :: TelephoneEvent
  have steps: "sdp_line st lo = st" "sdp_line st (lf t) = st"
    "sdp_line sdp_init lc = sdp_init\<lparr>sessionIP := ip\<rparr>"
    "inAudio st \<Longrightarrow> sdp_line st lr = st\<lparr>st_rtpmap := (st_rtpmap st)(CodecPT codec := to_upper (Name codec)),
       st_rtpclock := (st_rtpclock st)(CodecPT codec := 8000)\<rparr>" for st t
    unfolding lo_def lf_def lc_def lr_def
    using o f sdp_line_connection [OF assms(1), of sdp_init] sdp_line_rtpmap [OF _ pt(3) _ nm(1,2), of st 8000] pt(2)
    by (simp_all only: simp_thms of_nat_numeral) (simp_all add: sdp_init_def)
  let ?s1 = "sdp_init\<lparr>sessionIP := ip\<rparr>"
  have s1: "st_port ?s1 = 0" "st_payloads ?s1 = []" by (simp_all add: sdp_init_def)
  show ?thesis
  proof (cases te)
    case None
    have "sdp_line ?s1 (lm []) = ?s1\<lparr>inAudio := True, st_port := int port, beforeMedia := False,
        st_payloads := [CodecPT codec]\<rparr>"
      unfolding lm_def using sdp_line_audio [OF s1(1) word_text_show_nat assms(5), of "[]" "[]"] pts(1) [OF pt(1) pt(1)] pt(2) s1(2)
      by simp
    moreover have "answer_lines ip now port codec te =
        [''v=0'', lo, ''s=Reolink SIP Gateway'', lc, ''t=0 0'', lm [], lr, ''a=ptime:20'', ''a=sendrecv'', []]"
      by (simp add: answer_lines_def None lo_def lc_def lm_def lr_def)
    ultimately show ?thesis using None by (simp add: noop steps) (simp add: sdp_init_def)
  next
    case (Some t)
    then have e: "nat (EventPT t) \<le> 127" "int (nat (EventPT t)) = EventPT t" "nat (EventPT t) < 2 ^ 63"
      "ClockRate t = 8000" using te Some by auto
    have "sdp_line ?s1 (lm ('' '' @ show_nat (nat (EventPT t)))) = ?s1\<lparr>inAudio := True, st_port := int port,
        beforeMedia := False, st_payloads := [CodecPT codec, EventPT t]\<rparr>"
      unfolding lm_def
      using sdp_line_audio [OF s1(1) word_text_show_nat assms(5), of "'' '' @ show_nat (nat (EventPT t))" "show_nat (nat (EventPT t))"]
        pts(2) [OF pt(1) e(1)] pt(2) e(2) s1(2)
      by simp
    moreover have "inAudio st \<Longrightarrow> sdp_line st (le t) =
        st\<lparr>st_rtpmap := (st_rtpmap st)(EventPT t := ''TELEPHONE-EVENT''),
           st_rtpclock := (st_rtpclock st)(EventPT t := 8000)\<rparr>" for st
      unfolding le_def e(4) using sdp_line_rtpmap [OF _ e(3) _ nm(3,4), of st 8000] e(2)
      by (simp add: upper_codec_names)
    moreover have "answer_lines ip now port codec te =
        [''v=0'', lo, ''s=Reolink SIP Gateway'', lc, ''t=0 0'', lm ('' '' @ show_nat (nat (EventPT t))), lr, le t, lf t,
         ''a=ptime:20'', ''a=sendrecv'', []]"
      by (simp add: answer_lines_def Some lo_def lc_def lm_def lr_def le_def lf_def)
    ultimately show ?thesis using Some by (simp add: noop steps) (simp add: sdp_init_def)
  qed
qed

text \<open>The answer the gateway sends for an accepted offer says what was negotiated: read by an answer
  parser it selects exactly the negotiated codec and payload type at the gateway's address and port, and
  the telephone-event payload exactly when it is 101 (the only one an answer to the gateway's own offer may
  use).\<close>

lemma answer_states_the_negotiation:
  assumes "parseOfferMedia lookup_ip s preference = Inr m"
    and "word_text ip" "ip \<noteq> ''0.0.0.0''" "lookup_ip ip = Some ip" "1 \<le> port" "port \<le> 65535"
  shows "parseAnswerMedia lookup_ip (answerSDP ip now port (Codec m) (Event m)) =
    Inr \<lparr>Codec = Codec m, RemoteRTP = (ip, int port),
         Event = (case Event m of Some t \<Rightarrow> if EventPT t = 101 then Some t else None | None \<Rightarrow> None)\<rparr>"
proof -
  obtain p where p: "parseAudioSDP lookup_ip s = Inr p" "CodecPT (Codec m) \<in> set (payloads p)"
      "codecForPayload (CodecPT (Codec m)) (rtpmap p) = Some (Codec m)"
      "Event m = telephoneEventForPayloads p False"
    using negotiated_parts [OF assms(1)] by blast
  have rng: "0 \<le> CodecPT (Codec m)" "CodecPT (Codec m) \<le> 127" using parsed_ranges(1) [OF p(1)] p(2) by auto
  have nm: "Name (Codec m) \<in> {''pcma'', ''pcmu''}" using codecForPayload_name [OF p(3)] by blast
  have te: "96 \<le> EventPT t \<and> EventPT t \<le> 127 \<and> ClockRate t = 8000 \<and> rtpmap p (EventPT t) = ''TELEPHONE-EVENT''"
    if "Event m = Some t" for t
    using that p(4) by (auto simp: telephoneEventForPayloads_def event_ok_def find_Some_iff)
  have neq: "EventPT t \<noteq> CodecPT (Codec m)" if "Event m = Some t" for t
    using te [OF that] p(3) by (auto simp: codecForPayload_def Let_def split: if_splits)
  have st: "parseAudioSDP lookup_ip (answerSDP ip now port (Codec m) (Event m)) =
      sdp_result lookup_ip (foldl sdp_line sdp_init (answer_lines ip now port (Codec m) (Event m)))"
    unfolding parseAudioSDP_def answerSDP_lines
    using sdp_lines_join [OF answer_lines_plain [OF assms(2) nm]] by (simp add: answer_lines_def)
  have codec: "\<lparr>Name = to_lower (to_upper (Name (Codec m))), CodecPT = CodecPT (Codec m)\<rparr> = Codec m"
    using nm by (cases "Codec m") (auto simp: upper_codec_names lower_codec_names)
  have up: "to_upper (Name (Codec m)) = ''PCMA'' \<or> to_upper (Name (Codec m)) = ''PCMU''"
    using nm by (auto simp: upper_codec_names)
  have "\<forall>t. Event m = Some t \<longrightarrow> 96 \<le> EventPT t \<and> EventPT t \<le> 127 \<and> ClockRate t = 8000" using te by blast
  note state = answer_state [OF assms(2) nm rng _ this]
  have port: "port < 2 ^ 63" using assms(6) by simp
  show ?thesis
  proof (cases "Event m")
    case None
    have "parseAudioSDP lookup_ip (answerSDP ip now port (Codec m) (Event m)) =
      Inr \<lparr>payloads = [CodecPT (Codec m)], rtpmap = (\<lambda>_. [])(CodecPT (Codec m) := to_upper (Name (Codec m))),
        rtpclock = (\<lambda>_. 0)(CodecPT (Codec m) := 8000), remote = (ip, int port)\<rparr>"
      unfolding st using state [OF port] assms(2-6) None by (simp add: sdp_result_def word_text_def)
    then show ?thesis using up codec None
      by (auto simp: parseAnswerMedia_def codecForPayload_def telephoneEventForPayloads_def event_ok_def Let_def)
  next
    case (Some t)
    have t: "t = \<lparr>EventPT = EventPT t, ClockRate = 8000\<rparr>" using te [OF Some] by (cases t) simp
    have "parseAudioSDP lookup_ip (answerSDP ip now port (Codec m) (Event m)) =
      Inr \<lparr>payloads = [CodecPT (Codec m), EventPT t],
        rtpmap = (\<lambda>_. [])(CodecPT (Codec m) := to_upper (Name (Codec m)), EventPT t := ''TELEPHONE-EVENT''),
        rtpclock = (\<lambda>_. 0)(CodecPT (Codec m) := 8000, EventPT t := 8000), remote = (ip, int port)\<rparr>"
      unfolding st using state [OF port] assms(2-6) Some by (simp add: sdp_result_def word_text_def)
    then show ?thesis using up codec Some neq [OF Some] te [OF Some] t
      by (auto simp: parseAnswerMedia_def codecForPayload_def telephoneEventForPayloads_def event_ok_def Let_def)
  qed
qed

end
