(* ===== verification/CallerFilter.thy ===== *)
theory CallerFilter
  imports SipText
begin

text \<open>
  The caller allow list of incoming calls: \<^verbatim>\<open>internal/sip/caller_filter.go\<close>.  \<open>url.PathUnescape\<close> is
  modelled by \<open>path_unescape\<close>: \<open>None\<close> for a malformed escape.
\<close>

section \<open>Percent decoding\<close>

definition hex_value :: "char \<Rightarrow> nat option" where
  "hex_value c =
     (let n = (of_char c :: nat) in
      if 48 \<le> n \<and> n \<le> 57 then Some (n - 48)
      else if 97 \<le> n \<and> n \<le> 102 then Some (n - 87)
      else if 65 \<le> n \<and> n \<le> 70 then Some (n - 55)
      else None)"

fun path_unescape :: "string \<Rightarrow> string option" where
  "path_unescape [] = Some []"
| "path_unescape (c # s) =
     (if c = CHR ''%'' then
        (case s of
           a # b # t \<Rightarrow>
             (case (hex_value a, hex_value b) of
                (Some x, Some y) \<Rightarrow> map_option (\<lambda>r. char_of (16 * x + y) # r) (path_unescape t)
              | _ \<Rightarrow> None)
         | _ \<Rightarrow> None)
      else map_option (\<lambda>r. c # r) (path_unescape s))"

section \<open>Canonical caller identities\<close>

definition strip_scheme :: "string \<Rightarrow> string" where
  "strip_scheme v =
     (case find (\<lambda>p. prefix p (to_lower v)) [''sip:'', ''sips:'', ''tel:''] of
        Some p \<Rightarrow> drop (length p) v
      | None \<Rightarrow> v)"

definition before_last_at :: "string \<Rightarrow> string" where
  "before_last_at v = (case cut_last (CHR ''@'') v of Some (a, _) \<Rightarrow> a | None \<Rightarrow> v)"

definition before_params :: "string \<Rightarrow> string" where
  "before_params v = takeWhile (\<lambda>c. c \<noteq> CHR '';'' \<and> c \<noteq> CHR ''?'') v"

definition dial_char :: "char \<Rightarrow> bool" where
  "dial_char c \<longleftrightarrow> is_digit c \<or> c = CHR ''*'' \<or> c = CHR ''#''"

definition dial_punctuation :: "char \<Rightarrow> bool" where
  "dial_punctuation c \<longleftrightarrow> is_space c \<or> c \<in> {CHR ''-'', CHR ''('', CHR '')'', CHR ''.'', CHR ''/''}"

text \<open>The loop over the characters: the dial string and whether the text is dial-like.\<close>

fun dial_scan :: "nat \<Rightarrow> string \<Rightarrow> string \<times> bool" where
  "dial_scan i [] = ([], True)"
| "dial_scan i (c # s) =
     (case dial_scan (i + 1) s of (d, like) \<Rightarrow>
        if dial_char c then (c # d, like)
        else if c = CHR ''+'' \<and> i = 0 then (c # d, like)
        else if dial_punctuation c then (d, like)
        else (d, False))"

definition caller_user :: "string \<Rightarrow> string" where
  "caller_user value =
     (let v = trim_space (extractURI value);
          v = trim_chars [CHR 0x22] v;
          v = before_params (before_last_at (strip_scheme v));
          v = (case path_unescape v of Some d \<Rightarrow> d | None \<Rightarrow> v)
      in trim_space (trim_chars [CHR 0x22] v))"

definition canonicalCallerID :: "string \<Rightarrow> string" where
  "canonicalCallerID value =
     (let v = caller_user value in
      if v = [] then []
      else case dial_scan 0 v of (d, like) \<Rightarrow> if like \<and> d \<noteq> [] then d else to_lower v)"

definition CanonicalRemoteNumber :: "string \<Rightarrow> string" where
  "CanonicalRemoteNumber value = canonicalCallerID value"

section \<open>The allow list\<close>

record callerAllowlist =
  allow_all :: bool
  ids :: "string set"

fun allowlist_loop :: "string set \<Rightarrow> string list \<Rightarrow> callerAllowlist" where
  "allowlist_loop acc [] = \<lparr>allow_all = False, ids = acc\<rparr>"
| "allowlist_loop acc (v # vs) =
     (let v = trim_space v in
      if v = ''*'' then \<lparr>allow_all = True, ids = {}\<rparr>
      else let i = canonicalCallerID v in allowlist_loop (if i \<noteq> [] then insert i acc else acc) vs)"

definition newCallerAllowlist :: "string list \<Rightarrow> callerAllowlist" where
  "newCallerAllowlist values = allowlist_loop {} values"

definition allows :: "callerAllowlist \<Rightarrow> string \<Rightarrow> bool" where
  "allows a value =
     (if allow_all a then True
      else let i = canonicalCallerID value in if i = [] then False else i \<in> ids a)"

section \<open>Lemmas\<close>

lemma allowlist_loop_spec:
  "allow_all (allowlist_loop acc vs) \<longleftrightarrow> (\<exists>v \<in> set vs. trim_space v = ''*'')"
  "\<not> allow_all (allowlist_loop acc vs) \<Longrightarrow>
   ids (allowlist_loop acc vs) = acc \<union> ((\<lambda>v. canonicalCallerID (trim_space v)) ` set vs - {[]})"
  by (induction acc vs rule: allowlist_loop.induct) (auto simp: Let_def split: if_splits)

lemma path_unescape_plain: "CHR ''%'' \<notin> set s \<Longrightarrow> path_unescape s = Some s"
  by (induction s rule: path_unescape.induct) auto

lemma dial_scan_digits: "list_all is_digit d \<Longrightarrow> dial_scan i d = (d, True)"
  by (induction d arbitrary: i) (auto simp: dial_char_def)

lemma cut_last_none: "c \<notin> set s \<Longrightarrow> cut_last c s = None"
  by (induction s) auto

lemma cut_last_at: "c \<notin> set b \<Longrightarrow> cut_last c (a @ c # b) = Some (a, b)"
  by (induction a) (auto simp: cut_last_none)

lemma trim_chars_none: "set cs \<inter> set s = {} \<Longrightarrow> trim_chars cs s = s"
proof -
  have "dropWhile (\<lambda>c. c \<in> set cs) w = w" if "set cs \<inter> set w = {}" for w
    using that by (cases w) auto
  then show "set cs \<inter> set s = {} \<Longrightarrow> trim_chars cs s = s" by (simp add: trim_chars_def)
qed

text \<open>A bracketed address is extracted.\<close>

lemma extractURI_brackets:
  assumes "CHR ''<'' \<notin> set u" "CHR ''>'' \<notin> set u" "CHR ''<'' \<notin> set pre" "CHR ''>'' \<notin> set pre"
  shows "extractURI (pre @ ''<'' @ u @ ''>'' @ rest) = u"
proof -
  let ?h = "pre @ ''<'' @ u @ ''>'' @ rest"
  have "cut ''<'' ?h = Some (pre, u @ ''>'' @ rest)" using cut_first [of "''<''" pre "u @ ''>'' @ rest"] assms(3) by simp
  moreover have "cut ''>'' ((pre @ ''<'' @ u) @ ''>'' @ rest) = Some (pre @ ''<'' @ u, rest)"
    using assms by (intro cut_first) auto
  ultimately have "index_of ''<'' ?h = Some (length pre)" "index_of ''>'' ?h = Some (length pre + 1 + length u)"
    by (simp_all add: index_of_def)
  then show ?thesis by (simp add: extractURI_def slice_def)
qed

text \<open>A number survives every step.\<close>

lemma digit_chars:
  "is_digit c \<Longrightarrow> c \<notin> {CHR ''<'', CHR ''>'', CHR ''@'', CHR '';'', CHR ''?'', CHR ''%'', CHR 0x22}
     \<and> \<not> is_space c \<and> lower_char c = c \<and> c \<noteq> CHR ''s'' \<and> c \<noteq> CHR ''t''"
  by (auto simp: is_digit_def is_space_def lower_char_def Let_def)

definition number :: "string \<Rightarrow> bool" where
  "number d \<longleftrightarrow> d \<noteq> [] \<and> list_all is_digit d"

lemma number_chars: "number d \<Longrightarrow> c \<in> set d \<Longrightarrow> c \<notin> {CHR ''<'', CHR ''>'', CHR ''@'', CHR '';'', CHR ''?'', CHR ''%'', CHR 0x22}
     \<and> \<not> is_space c \<and> lower_char c = c \<and> c \<noteq> CHR ''s'' \<and> c \<noteq> CHR ''t''"
  by (rule digit_chars) (simp add: number_def list_all_iff)

lemma number_trimmed: "number d \<Longrightarrow> trimmed d"
  using number_chars by (auto simp: trimmed_def number_def)

lemma number_lower: "number d \<Longrightarrow> to_lower d = d"
  using number_chars by (simp add: to_lower_def map_idI)

lemma number_unquoted: "number d \<Longrightarrow> trim_chars [CHR 0x22] d = d"
  using number_chars by (intro trim_chars_none) auto

lemma canonical_number:
  assumes d: "number d" and r: "r = [] \<or> (\<exists>h. r = ''@'' @ h \<and> CHR ''@'' \<notin> set h)"
    and x: "strip_scheme (trim_chars [CHR 0x22] (trim_space (extractURI x))) = d @ r"
  shows "canonicalCallerID x = d"
proof -
  have "CHR ''@'' \<notin> set d" using number_chars [OF d] by blast
  then have at: "before_last_at (d @ r) = d"
    using r by (auto simp: before_last_at_def cut_last_at cut_last_none)
  have bp: "before_params d = d"
    unfolding before_params_def by (rule takeWhile_eq_all_conv [THEN iffD2]) (use number_chars [OF d] in auto)
  have "path_unescape d = Some d" using number_chars [OF d] by (intro path_unescape_plain) auto
  then have "caller_user x = d"
    using x at bp number_trimmed [OF d] number_unquoted [OF d] by (simp add: caller_user_def Let_def trim_space_trimmed)
  then show ?thesis using d by (simp add: canonicalCallerID_def number_def dial_scan_digits)
qed

lemma extractURI_plain:
  "CHR ''<'' \<notin> set x \<Longrightarrow> CHR '';'' \<notin> set x \<Longrightarrow> extractURI x = trim_space x"
  using cut_None [of "''<''" x] cut_None [of "'';''" x]
  by (simp add: extractURI_def index_of_def split: option.splits)

lemma strip_scheme_known:
  "strip_scheme (''sip:'' @ s) = s" "strip_scheme (''tel:'' @ s) = s"
proof -
  have "to_lower ''sip:'' = ''sip:''" "to_lower ''tel:'' = ''tel:''" by code_simp+
  then have "to_lower (''sip:'' @ s) = ''sip:'' @ to_lower s" "to_lower (''tel:'' @ s) = ''tel:'' @ to_lower s"
    by (simp_all add: to_lower_def)
  then show "strip_scheme (''sip:'' @ s) = s" "strip_scheme (''tel:'' @ s) = s"
    by (simp_all add: strip_scheme_def)
qed

section \<open>Properties\<close>

text \<open> The allow list admits exactly the configured identities: a caller is allowed if and only if
  some entry is \<open>*\<close>, or the caller's canonical identity is not empty and equals the canonical identity of
  some entry.  There is no suffix or prefix matching, and an empty list admits nobody.\<close>

lemma allowlist_exact:
  "allows (newCallerAllowlist vs) caller \<longleftrightarrow>
   (\<exists>v \<in> set vs. trim_space v = ''*'') \<or>
   (canonicalCallerID caller \<noteq> [] \<and>
    (\<exists>v \<in> set vs. canonicalCallerID caller = canonicalCallerID (trim_space v)))"
proof (cases "allow_all (allowlist_loop {} vs)")
  case True
  then show ?thesis using allowlist_loop_spec(1) [of "{}" vs] by (auto simp: allows_def newCallerAllowlist_def)
next
  case False
  then show ?thesis
    using allowlist_loop_spec [of "{}" vs]
    by (auto simp: allows_def newCallerAllowlist_def Let_def image_iff)
qed

text \<open>A telephone number is recognised however the caller's identity is written: as a bare number, as
  a \<open>sip:\<close> address at any host, with a display name and parameters, or as a \<open>tel:\<close> address, the
  canonical identity is the number itself.\<close>

lemma number_is_canonical:
  assumes d: "number d" and host: "CHR ''<'' \<notin> set host" "CHR ''>'' \<notin> set host" "CHR ''@'' \<notin> set host"
      "CHR 0x22 \<notin> set host" "trimmed host" "host \<noteq> []"
    and name: "CHR ''<'' \<notin> set name" "CHR ''>'' \<notin> set name"
  shows "canonicalCallerID (name @ ''<sip:'' @ d @ ''@'' @ host @ ''>'' @ rest) = d
     \<and> canonicalCallerID (''tel:'' @ d) = d
     \<and> canonicalCallerID d = d"
proof (intro conjI impI)
  note dig = number_chars [OF d]
  let ?u = "''sip:'' @ d @ ''@'' @ host"
  have "extractURI (name @ ''<'' @ ?u @ ''>'' @ rest) = ?u"
    using host(1,2) name dig by (intro extractURI_brackets) auto
  moreover have "trim_space ?u = ?u"
    using host(5,6) by (intro trim_space_trimmed) (auto simp: trimmed_def is_space_def)
  moreover have "trim_chars [CHR 0x22] ?u = ?u" using host(4) dig by (intro trim_chars_none) auto
  ultimately show "canonicalCallerID (name @ ''<sip:'' @ d @ ''@'' @ host @ ''>'' @ rest) = d"
    using canonical_number [OF d, of "''@'' @ host" "name @ ''<'' @ ?u @ ''>'' @ rest"] host(3)
      strip_scheme_known(1) [of "d @ ''@'' @ host"] by simp
  have "trim_space (''tel:'' @ d) = ''tel:'' @ d"
    using number_trimmed [OF d] d by (intro trim_space_trimmed) (auto simp: trimmed_def is_space_def number_def)
  moreover have "trim_chars [CHR 0x22] (''tel:'' @ d) = ''tel:'' @ d" using dig by (intro trim_chars_none) auto
  moreover have "extractURI (''tel:'' @ d) = trim_space (''tel:'' @ d)" using dig by (intro extractURI_plain) auto
  ultimately show "canonicalCallerID (''tel:'' @ d) = d"
    using canonical_number [OF d, of "[]" "''tel:'' @ d"] strip_scheme_known(2) [of d] by simp
  have "strip_scheme d = d"
  proof -
    obtain c cs where c: "d = c # cs" using d by (cases d) (auto simp: number_def)
    then have "c \<noteq> CHR ''s''" "c \<noteq> CHR ''t''" using dig [of c] by simp_all
    then show ?thesis unfolding strip_scheme_def number_lower [OF d] by (simp add: c)
  qed
  moreover have "extractURI d = trim_space d" using dig by (intro extractURI_plain) auto
  ultimately show "canonicalCallerID d = d"
    using canonical_number [OF d, of "[]" d] number_trimmed [OF d] number_unquoted [OF d]
    by (simp add: trim_space_trimmed)
qed


end
