(* ===== verification/SipClient.thy ===== *)
theory SipClient
  imports CallerFilter SipSdp
begin

text \<open>
  The SIP user agent's dialog state: \<^verbatim>\<open>internal/sip/incoming.go\<close> and the dialog bookkeeping of
  \<^verbatim>\<open>internal/sip/client.go\<close>.  Calls and incoming invites live in a store addressed by references, because
  the code compares them by pointer; the maps of the Go client hold references.  Every datagram written is
  appended to \<open>sent\<close>.  What lies outside is passed in: random tags and branches, the hash behind the
  stateless response tag (\<open>sha\<close>), name resolution (\<open>lookup_ip\<close>, \<open>dest\<close>), the time in SDP origin lines,
  whether a socket write succeeds, and the effect of other goroutines where a handler gives up the lock.
\<close>

section \<open>State\<close>

type_synonym ref = nat
type_synonym addr = "string \<times> nat"

datatype incomingState =
    incomingPending
  | incomingAnswered
  | incomingAcknowledged
  | incomingRejected
  | incomingCanceled

datatype call_result =
    Ended
  | Rejected nat string
  | ErrIncomingCallCanceled
  | ErrIncomingACKTimeout
  | Client_closed
  | Send_failed
  | Bye_failed

text \<open>\<open>late\<close> is not in the code: it marks a dialog that a 2xx response created after its INVITE had been
  given up, which the client only keeps to acknowledge and close it.\<close>

record Call =
  CallID :: string
  FromTag :: string
  ToTag :: string
  FromURI :: string
  ToURI :: string
  RemoteTarget :: string
  CallerID :: string
  InviteCSeq :: nat
  CSeq :: nat
  CallMedia :: "negotiatedAudio option"
  inbound :: bool
  incoming :: "ref option"
  call_done :: "call_result option"
  late :: bool

record IncomingInvite =
  request :: Message
  source :: addr
  key :: string
  inv_call :: ref
  state :: incomingState
  lastResponse :: string
  acked :: bool
  stopped :: bool
  expiring :: bool
  retransmitting :: bool

record canceledInvite =
  ci_uri :: string
  ci_branch :: string
  ci_cseq :: nat
  ci_callID :: string
  ci_fromURI :: string
  ci_toURI :: string
  ci_fromTag :: string
  ci_headers :: "string list"
  ci_cancelSent :: bool

record client =
  ident :: sip_identity
  AcceptIncoming :: bool
  CodecPreference :: string
  registrar :: addr
  allowedCallers :: callerAllowlist
  maxConcurrentCalls :: nat
  active :: "string \<Rightarrow> ref option"
  dialing :: "string set"
  serverInvites :: "string \<Rightarrow> ref option"
  canceledInvites :: "string \<Rightarrow> canceledInvite option"
  completedDialogs :: "string \<Rightarrow> ref option"
  incomingCalls :: "ref list"
  closed :: bool
  calls :: "ref \<Rightarrow> Call"
  invites :: "ref \<Rightarrow> IncomingInvite"
  next_ref :: ref
  sent :: "(string \<times> addr) list"

section \<open>Helpers\<close>

definition send_packet :: "string \<Rightarrow> addr \<Rightarrow> client \<Rightarrow> client" where
  "send_packet packet a c = c\<lparr>sent := sent c @ [(packet, a)]\<rparr>"

definition hasCallCapacityLocked :: "client \<Rightarrow> bool" where
  "hasCallCapacityLocked c \<longleftrightarrow> card (dom (active c)) + card (dialing c) < maxConcurrentCalls c"

definition isRegistrarSource :: "client \<Rightarrow> addr \<Rightarrow> bool" where
  "isRegistrarSource c a \<longleftrightarrow> a = registrar c"

definition allow_line :: string where
  "allow_line = ''Allow: INVITE, ACK, CANCEL, BYE, OPTIONS''"

definition statelessResponseTag :: "(string \<Rightarrow> string) \<Rightarrow> Message \<Rightarrow> string" where
  "statelessResponseTag sha req = sha (serverInviteKey req)"

definition sendTaggedResponse ::
  "(string \<Rightarrow> string) \<Rightarrow> Message \<Rightarrow> addr \<Rightarrow> nat \<Rightarrow> string \<Rightarrow> client \<Rightarrow> client" where
  "sendTaggedResponse sha req a code reason c =
     send_packet (buildResponse req code reason (statelessResponseTag sha req) [allow_line] []) a c"

definition sendResponse :: "Message \<Rightarrow> addr \<Rightarrow> nat \<Rightarrow> string \<Rightarrow> client \<Rightarrow> client" where
  "sendResponse req a code reason c = send_packet (simple_response req code reason) a c"

definition contact_line :: "client \<Rightarrow> string" where
  "contact_line c = ''Contact: <sip:'' @ Username (ident c) @ ''@'' @ localIP (ident c) @ '':''
     @ show_nat (LocalPort (ident c)) @ '';transport=udp>''"

definition upd_invite :: "ref \<Rightarrow> (IncomingInvite \<Rightarrow> IncomingInvite) \<Rightarrow> client \<Rightarrow> client" where
  "upd_invite i f c = c\<lparr>invites := (invites c)(i := f (invites c i))\<rparr>"

definition upd_call :: "ref \<Rightarrow> (Call \<Rightarrow> Call) \<Rightarrow> client \<Rightarrow> client" where
  "upd_call r f c = c\<lparr>calls := (calls c)(r := f (calls c r))\<rparr>"

section \<open>The end of a call\<close>

text \<open>\<open>expireAfter\<close> starts the timer once; \<open>expire_invite\<close> is what the timer does.\<close>

definition expireAfter :: "ref \<Rightarrow> client \<Rightarrow> client" where
  "expireAfter i c = upd_invite i (\<lambda>v. v\<lparr>expiring := True\<rparr>) c"

definition expire_invite :: "ref \<Rightarrow> client \<Rightarrow> client" where
  "expire_invite i c =
     (let k = key (invites c i) in
      if serverInvites c k = Some i then c\<lparr>serverInvites := (serverInvites c)(k := None)\<rparr> else c)"

definition stopRetransmission :: "ref \<Rightarrow> client \<Rightarrow> client" where
  "stopRetransmission i c = expireAfter i (upd_invite i (\<lambda>v. v\<lparr>stopped := True\<rparr>) c)"

definition finish :: "ref \<Rightarrow> call_result \<Rightarrow> client \<Rightarrow> client" where
  "finish r err c =
     (if call_done (calls c r) \<noteq> None then c
      else
        let call = calls c r;
            c = (if active c (CallID call) = Some r
                 then c\<lparr>active := (active c)(CallID call := None)\<rparr> else c);
            rememberDialog = (\<not> inbound call \<and> InviteCSeq call \<noteq> 0);
            c = (if rememberDialog
                 then c\<lparr>completedDialogs := (completedDialogs c)(CallID call := Some r)\<rparr> else c);
            c = (case incoming call of Some i \<Rightarrow> stopRetransmission i c | None \<Rightarrow> c)
        in upd_call r (\<lambda>call. call\<lparr>call_done := Some err\<rparr>) c)"

definition expireCompletedDialog :: "ref \<Rightarrow> client \<Rightarrow> client" where
  "expireCompletedDialog r c =
     (let k = CallID (calls c r) in
      if completedDialogs c k = Some r then c\<lparr>completedDialogs := (completedDialogs c)(k := None)\<rparr> else c)"

section \<open>Answering and rejecting\<close>

datatype answer_error = Invalid_port nat | Invalid_status nat | Was_canceled | Not_pending | Write_error

definition answer_media :: "Call \<Rightarrow> Codec \<times> TelephoneEvent option" where
  "answer_media call =
     (case CallMedia call of Some m \<Rightarrow> (Codec m, Event m) | None \<Rightarrow> (\<lparr>Name = [], CodecPT = 0\<rparr>, None))"

definition not_pending :: "IncomingInvite \<Rightarrow> answer_error" where
  "not_pending v = (if state v = incomingCanceled then Was_canceled else Not_pending)"

definition Answer :: "ref \<Rightarrow> nat \<Rightarrow> nat \<Rightarrow> bool \<Rightarrow> client \<Rightarrow> answer_error option \<times> client" where
  "Answer i rtpPort now write_ok c =
     (if rtpPort < 1 \<or> 65535 < rtpPort then (Some (Invalid_port rtpPort), c)
      else
        let v = invites c i;
            call = calls c (inv_call v);
            (codec, te) = answer_media call;
            sdp = answerSDP (localIP (ident c)) now rtpPort codec te;
            extra = [contact_line c, allow_line, ''Content-Type: application/sdp''];
            packet = buildResponse (request v) 200 ''OK'' (FromTag call) extra sdp
        in if state v \<noteq> incomingPending then (Some (not_pending v), c)
           else
             let c = upd_invite i (\<lambda>v. v\<lparr>state := incomingAnswered, lastResponse := packet\<rparr>) c
             in if \<not> write_ok then (Some Write_error, finish (inv_call v) Send_failed c)
                else (None, upd_invite i (\<lambda>v. v\<lparr>retransmitting := True\<rparr>) (send_packet packet (source v) c)))"

definition Reject :: "ref \<Rightarrow> nat \<Rightarrow> string \<Rightarrow> client \<Rightarrow> answer_error option \<times> client" where
  "Reject i code reason c =
     (if code < 400 \<or> 699 < code then (Some (Invalid_status code), c)
      else
        let v = invites c i;
            call = calls c (inv_call v);
            packet = buildResponse (request v) code reason (FromTag call) [allow_line] []
        in if state v \<noteq> incomingPending then (Some (not_pending v), c)
           else
             let c = upd_invite i (\<lambda>v. v\<lparr>state := incomingRejected, lastResponse := packet\<rparr>) c;
                 c = send_packet packet (source v) c;
                 c = finish (inv_call v) (Rejected code reason) c
             in (None, expireAfter i c))"

definition resendLastResponse :: "ref \<Rightarrow> addr \<Rightarrow> client \<Rightarrow> client" where
  "resendLastResponse i a c =
     (let packet = lastResponse (invites c i) in if packet \<noteq> [] then send_packet packet a c else c)"

definition acknowledge :: "ref \<Rightarrow> Message \<Rightarrow> client \<Rightarrow> client" where
  "acknowledge i req c =
     (let v = invites c i in
      if cseqNumber (Header req ''cseq'') \<noteq> cseqNumber (Header (request v) ''cseq'') then c
      else if state v = incomingAnswered
      then expireAfter i (upd_invite i (\<lambda>v. v\<lparr>state := incomingAcknowledged, acked := True\<rparr>) c)
      else c)"

definition cancel_invite :: "ref \<Rightarrow> Message \<Rightarrow> addr \<Rightarrow> client \<Rightarrow> client" where
  "cancel_invite i cancelReq a c =
     (let v = invites c i;
          tag = FromTag (calls c (inv_call v))
      in if state v \<noteq> incomingPending
         then send_packet (buildResponse cancelReq 481 ''Call/Transaction Does Not Exist'' tag [] []) a c
         else
           let inviteFinal = buildResponse (request v) 487 ''Request Terminated'' tag [] [];
               c = upd_invite i (\<lambda>v. v\<lparr>state := incomingCanceled, lastResponse := inviteFinal\<rparr>) c;
               c = send_packet (buildResponse cancelReq 200 ''OK'' tag [] []) a c;
               c = send_packet inviteFinal (source v) c;
               c = finish (inv_call v) ErrIncomingCallCanceled c
           in expireAfter i c)"

text \<open>The goroutine \<open>retransmitAnswer\<close>, which a successful \<open>Answer\<close> starts: its \<open>select\<close> may take the
  retransmission timer or the deadline, or leave once \<open>acked\<close> or \<open>stop\<close> is closed; when several are ready
  the choice is open.\<close>

definition retransmit_tick :: "ref \<Rightarrow> client \<Rightarrow> client" where
  "retransmit_tick i c =
     (if retransmitting (invites c i) then resendLastResponse i (source (invites c i)) c else c)"

definition ack_deadline :: "ref \<Rightarrow> client \<Rightarrow> client" where
  "ack_deadline i c =
     (if retransmitting (invites c i)
      then upd_invite i (\<lambda>v. v\<lparr>retransmitting := False\<rparr>) (finish (inv_call (invites c i)) ErrIncomingACKTimeout c)
      else c)"

definition retransmit_end :: "ref \<Rightarrow> client \<Rightarrow> client" where
  "retransmit_end i c =
     (if acked (invites c i) \<or> stopped (invites c i)
      then upd_invite i (\<lambda>v. v\<lparr>retransmitting := False\<rparr>) c else c)"

section \<open>Incoming requests\<close>

text \<open>The first part of \<open>handleIncomingInvite\<close>, up to the release of the lock before the SDP is parsed:
  \<open>Inl\<close> if the request has been dealt with.\<close>

definition invite_precheck :: "(string \<Rightarrow> string) \<Rightarrow> Message \<Rightarrow> addr \<Rightarrow> client \<Rightarrow> client + unit" where
  "invite_precheck sha req a c =
     (if \<not> AcceptIncoming c then Inl (sendTaggedResponse sha req a 403 ''Forbidden'' c)
      else if \<not> isRegistrarSource c a then Inl (sendTaggedResponse sha req a 403 ''Forbidden'' c)
      else if validateIncomingInviteHeaders req \<noteq> None then Inl (sendTaggedResponse sha req a 400 ''Bad Request'' c)
      else if \<not> allows (allowedCallers c) (extractURI (Header req ''from''))
      then Inl (sendTaggedResponse sha req a 403 ''Forbidden'' c)
      else case serverInvites c (serverInviteKey req) of
        Some prior \<Rightarrow> Inl (resendLastResponse prior a c)
      | None \<Rightarrow>
          if \<not> hasCallCapacityLocked c then Inl (sendTaggedResponse sha req a 486 ''Busy Here'' c)
          else Inr ())"

definition new_call :: "string \<Rightarrow> Message \<Rightarrow> addr \<Rightarrow> negotiatedAudio \<Rightarrow> ref \<Rightarrow> Call" where
  "new_call tag req a media i =
     (let remoteURI = extractURI (Header req ''from'');
          target = extractURI (Header req ''contact'');
          target = (if target = [] then ''sip:remote@'' @ fst a @ '':'' @ show_nat (snd a) else target)
      in \<lparr>CallID = Header req ''call-id'', FromTag = tag, ToTag = param (Header req ''from'') ''tag'',
          FromURI = extractURI (Header req ''to''), ToURI = remoteURI, RemoteTarget = target,
          CallerID = canonicalCallerID remoteURI, InviteCSeq = 0, CSeq = 0, CallMedia = Some media,
          inbound = True, incoming = Some i, call_done = None, late = False\<rparr>)"

definition new_invite :: "Message \<Rightarrow> addr \<Rightarrow> ref \<Rightarrow> IncomingInvite" where
  "new_invite req a r =
     \<lparr>request = req, source = a, key = serverInviteKey req, inv_call = r, state = incomingPending,
      lastResponse = buildResponse req 100 ''Trying'' [] [] [], acked = False, stopped = False,
      expiring = False, retransmitting = False\<rparr>"

text \<open>The second part: the re-check under the lock, the registration (the call at reference
  \<open>next_ref c\<close>, the invite at the one after it), and the hand-over to the application.
  \<open>choose_closed\<close> resolves the \<open>select\<close> when the client is closed and the queue has room.\<close>

definition register_invite :: "string \<Rightarrow> Message \<Rightarrow> addr \<Rightarrow> negotiatedAudio \<Rightarrow> client \<Rightarrow> client" where
  "register_invite tag req a media c =
     (let r = next_ref c; i = next_ref c + 1;
          call = new_call tag req a media i;
          invite = new_invite req a r
      in c\<lparr>calls := (calls c)(r := call), invites := (invites c)(i := invite), next_ref := next_ref c + 2,
           active := (active c)(CallID call := Some r),
           serverInvites := (serverInvites c)(key invite := Some i)\<rparr>)"

definition hand_over :: "bool \<Rightarrow> ref \<Rightarrow> client \<Rightarrow> client" where
  "hand_over choose_closed i c =
     (if closed c \<and> (choose_closed \<or> 4 \<le> length (incomingCalls c)) then finish (inv_call (invites c i)) Client_closed c
      else if length (incomingCalls c) < 4 then c\<lparr>incomingCalls := incomingCalls c @ [i]\<rparr>
      else snd (Reject i 503 ''Service Unavailable'' c))"

definition invite_commit ::
  "(string \<Rightarrow> string) \<Rightarrow> string \<Rightarrow> bool \<Rightarrow> Message \<Rightarrow> addr \<Rightarrow> negotiatedAudio \<Rightarrow> client \<Rightarrow> client" where
  "invite_commit sha tag choose_closed req a media c =
     (if \<not> hasCallCapacityLocked c then sendTaggedResponse sha req a 486 ''Busy Here'' c
      else case serverInvites c (serverInviteKey req) of
        Some prior \<Rightarrow> resendLastResponse prior a c
      | None \<Rightarrow>
          let i = next_ref c + 1;
              c = register_invite tag req a media c;
              c = send_packet (lastResponse (invites c i)) a c
          in hand_over choose_closed i c)"

definition handleIncomingInvite ::
  "(string \<Rightarrow> string) \<Rightarrow> (string \<Rightarrow> string option) \<Rightarrow> string \<Rightarrow> bool \<Rightarrow> (client \<Rightarrow> client) \<Rightarrow> Message \<Rightarrow> addr
   \<Rightarrow> client \<Rightarrow> client" where
  "handleIncomingInvite sha lookup_ip tag choose_closed between req a c =
     (case invite_precheck sha req a c of
        Inl c' \<Rightarrow> c'
      | Inr _ \<Rightarrow>
          (case parseOfferMedia lookup_ip (Body req) (CodecPreference c) of
             Inl _ \<Rightarrow> sendTaggedResponse sha req a 488 ''Not Acceptable Here'' (between c)
           | Inr media \<Rightarrow> invite_commit sha tag choose_closed req a media (between c)))"

definition handleIncomingACK :: "Message \<Rightarrow> addr \<Rightarrow> client \<Rightarrow> client" where
  "handleIncomingACK req a c =
     (if \<not> isRegistrarSource c a then c
      else case active c (Header req ''call-id'') of
        None \<Rightarrow> c
      | Some r \<Rightarrow>
          if inbound (calls c r)
          then (case incoming (calls c r) of Some i \<Rightarrow> acknowledge i req c | None \<Rightarrow> c)
          else c)"

definition handleIncomingCancel :: "(string \<Rightarrow> string) \<Rightarrow> Message \<Rightarrow> addr \<Rightarrow> client \<Rightarrow> client" where
  "handleIncomingCancel sha req a c =
     (if \<not> isRegistrarSource c a then sendTaggedResponse sha req a 403 ''Forbidden'' c
      else case serverInvites c (serverInviteKey req) of
        None \<Rightarrow> sendTaggedResponse sha req a 481 ''Call/Transaction Does Not Exist'' c
      | Some i \<Rightarrow> cancel_invite i req a c)"

definition handleBye :: "Message \<Rightarrow> addr \<Rightarrow> client \<Rightarrow> client" where
  "handleBye req a c =
     (case active c (Header req ''call-id'') of
        None \<Rightarrow> sendResponse req a 481 ''Call/Transaction Does Not Exist'' c
      | Some r \<Rightarrow>
          if inbound (calls c r) \<and> \<not> isRegistrarSource c a then sendResponse req a 403 ''Forbidden'' c
          else finish r Ended (sendResponse req a 200 ''OK'' c))"

definition handleRequest ::
  "(string \<Rightarrow> string) \<Rightarrow> (string \<Rightarrow> string option) \<Rightarrow> string \<Rightarrow> bool \<Rightarrow> (client \<Rightarrow> client) \<Rightarrow> Message \<Rightarrow> addr
   \<Rightarrow> client \<Rightarrow> client" where
  "handleRequest sha lookup_ip tag choose_closed between req a c =
     (let method = to_upper (Method req) in
      if method = ''INVITE'' then handleIncomingInvite sha lookup_ip tag choose_closed between req a c
      else if method = ''ACK'' then handleIncomingACK req a c
      else if method = ''CANCEL'' then handleIncomingCancel sha req a c
      else if method = ''BYE'' then handleBye req a c
      else if method = ''OPTIONS'' \<or> method = ''NOTIFY'' then sendResponse req a 200 ''OK'' c
      else sendResponse req a 501 ''Not Implemented'' c)"

section \<open>Outgoing calls\<close>

text \<open>The critical sections of \<open>Dial\<close>: the reservation, its release when no dialog was established, and the
  move to the active calls.\<close>

definition dial_reserve :: "string \<Rightarrow> client \<Rightarrow> client option" where
  "dial_reserve callID c =
     (if \<not> hasCallCapacityLocked c then None else Some (c\<lparr>dialing := insert callID (dialing c)\<rparr>))"

definition dial_release :: "string \<Rightarrow> client \<Rightarrow> client" where
  "dial_release callID c = c\<lparr>dialing := dialing c - {callID}\<rparr>"

definition outgoing_call ::
  "string \<Rightarrow> string \<Rightarrow> string \<Rightarrow> string \<Rightarrow> nat \<Rightarrow> Message \<Rightarrow> Call" where
  "outgoing_call callID fromTag fromURI toURI cseq res =
     (let target = extractURI (Header res ''contact'') in
      \<lparr>CallID = callID, FromTag = fromTag, ToTag = param (Header res ''to'') ''tag'', FromURI = fromURI,
       ToURI = toURI, RemoteTarget = (if target = [] then toURI else target), CallerID = [],
       InviteCSeq = cseq, CSeq = cseq, CallMedia = None, inbound = False, incoming = None, call_done = None,
       late = False\<rparr>)"

definition dial_establish :: "Call \<Rightarrow> client \<Rightarrow> ref \<times> client" where
  "dial_establish call c =
     (let r = next_ref c in
      (r, c\<lparr>dialing := dialing c - {CallID call}, active := (active c)(CallID call := Some r),
            calls := (calls c)(r := call), next_ref := next_ref c + 1\<rparr>))"

text \<open>If the ACK cannot be sent, the call is taken out again.\<close>

definition dial_ack_failed :: "ref \<Rightarrow> client \<Rightarrow> client" where
  "dial_ack_failed r c =
     (let k = CallID (calls c r) in
      if active c k = Some r then c\<lparr>active := (active c)(k := None)\<rparr> else c)"

definition sendACK :: "(string \<Rightarrow> addr option) \<Rightarrow> string \<Rightarrow> Call \<Rightarrow> client \<Rightarrow> bool \<times> client" where
  "sendACK dest branch call c =
     (case dest (RemoteTarget call) of
        None \<Rightarrow> (False, c)
      | Some a \<Rightarrow>
          (True, send_packet (buildRequest ''ACK'' (RemoteTarget call)
             (baseHeaders (ident c) ''ACK'' branch (InviteCSeq call) (CallID call) (FromURI call) (ToURI call)
                (FromTag call) (ToTag call)) []) a c))"

definition sendInviteFinalACK ::
  "(string \<Rightarrow> addr option) \<Rightarrow> canceledInvite \<Rightarrow> string \<Rightarrow> client \<Rightarrow> client" where
  "sendInviteFinalACK dest v toTag c =
     (case dest (ci_uri v) of
        None \<Rightarrow> c
      | Some a \<Rightarrow>
          send_packet (buildRequest ''ACK'' (ci_uri v)
             (baseHeaders (ident c) ''ACK'' (ci_branch v) (ci_cseq v) (ci_callID v) (ci_fromURI v) (ci_toURI v)
                (ci_fromTag v) toTag) []) a c)"

definition sendCancel :: "(string \<Rightarrow> addr option) \<Rightarrow> canceledInvite \<Rightarrow> client \<Rightarrow> client" where
  "sendCancel dest v c =
     (case dest (ci_uri v) of
        None \<Rightarrow> c
      | Some a \<Rightarrow> send_packet (cancel_packet (ci_uri v) (ci_cseq v) (ci_headers v)) a c)"

definition newCanceledInvite :: "string \<Rightarrow> string \<Rightarrow> nat \<Rightarrow> string list \<Rightarrow> bool \<Rightarrow> canceledInvite option" where
  "newCanceledInvite uri branch cseq headers cancelSent =
     (let callID = requestHeader headers ''call-id'' in
      if callID = [] then None
      else Some \<lparr>ci_uri = uri, ci_branch = branch, ci_cseq = cseq, ci_callID = callID,
        ci_fromURI = extractURI (requestHeader headers ''from''),
        ci_toURI = extractURI (requestHeader headers ''to''),
        ci_fromTag = param (requestHeader headers ''from'') ''tag'', ci_headers = headers,
        ci_cancelSent = cancelSent\<rparr>)"

definition rememberCanceledInvite :: "canceledInvite \<Rightarrow> client \<Rightarrow> client" where
  "rememberCanceledInvite v c = c\<lparr>canceledInvites := (canceledInvites c)(ci_callID v := Some v)\<rparr>"

definition late_call :: "canceledInvite \<Rightarrow> Message \<Rightarrow> Call" where
  "late_call v res = (outgoing_call (ci_callID v) (ci_fromTag v) (ci_fromURI v) (ci_toURI v) (ci_cseq v) res)
     \<lparr>late := True, RemoteTarget := (let t = extractURI (Header res ''contact'') in if t = [] then ci_uri v else t)\<rparr>"

definition is_2xx :: "Message \<Rightarrow> bool" where
  "is_2xx m \<longleftrightarrow> 200 \<le> StatusCode m \<and> StatusCode m < 300"

text \<open>A 2xx response to an INVITE that was given up: the dialog it creates is entered, acknowledged, and
  handed to a goroutine that hangs it up.\<close>

definition late_dialog ::
  "(string \<Rightarrow> addr option) \<Rightarrow> string \<Rightarrow> string \<Rightarrow> canceledInvite \<Rightarrow> Message \<Rightarrow> client \<Rightarrow> client" where
  "late_dialog dest branch callID v response c =
     (let r = next_ref c;
          c = c\<lparr>active := (active c)(callID := Some r), calls := (calls c)(r := late_call v response),
                next_ref := next_ref c + 1\<rparr>;
          (ok, c) = sendACK dest branch (late_call v response) c
      in if ok then c else finish r Send_failed c)"

text \<open>\<open>handleUnmatchedInviteResponse\<close>: a response to an INVITE without a live transaction.\<close>

definition handleUnmatchedInviteResponse ::
  "(string \<Rightarrow> addr option) \<Rightarrow> string \<Rightarrow> Message \<Rightarrow> client \<Rightarrow> client" where
  "handleUnmatchedInviteResponse dest branch response c =
     (let callID = Header response ''call-id''; cseq = cseqNumber (Header response ''cseq'') in
      case active c callID of
        Some r \<Rightarrow>
          if is_2xx response \<and> \<not> inbound (calls c r) \<and> cseq = InviteCSeq (calls c r)
          then snd (sendACK dest branch (calls c r) c) else c
      | None \<Rightarrow>
          (case completedDialogs c callID of
             Some r \<Rightarrow>
               if is_2xx response \<and> cseq = InviteCSeq (calls c r)
               then snd (sendACK dest branch (calls c r) c) else c
           | None \<Rightarrow>
               (case canceledInvites c callID of
                  None \<Rightarrow> c
                | Some v \<Rightarrow>
                    if ci_cseq v \<noteq> cseq then c
                    else if StatusCode response < 200
                    then (let c' = c\<lparr>canceledInvites := (canceledInvites c)(callID := Some (v\<lparr>ci_cancelSent := True\<rparr>))\<rparr>
                          in if \<not> ci_cancelSent v then sendCancel dest v c' else c')
                    else
                      let c = c\<lparr>canceledInvites := (canceledInvites c)(callID := None)\<rparr> in
                      if StatusCode response < 300
                      then late_dialog dest branch callID v response c
                      else sendInviteFinalACK dest v (param (Header response ''to'') ''tag'') c)))"

section \<open>Hanging up and closing\<close>

definition hangup_begin :: "(string \<Rightarrow> addr option) \<Rightarrow> string \<Rightarrow> ref \<Rightarrow> client \<Rightarrow> client" where
  "hangup_begin dest branch r c =
     (let c = upd_call r (\<lambda>call. call\<lparr>CSeq := CSeq call + 1\<rparr>) c; call = calls c r in
      case dest (RemoteTarget call) of
        None \<Rightarrow> c
      | Some a \<Rightarrow>
          send_packet (buildRequest ''BYE'' (RemoteTarget call)
             (baseHeaders (ident c) ''BYE'' branch (CSeq call) (CallID call) (FromURI call) (ToURI call)
                (FromTag call) (ToTag call)) []) a c)"

text \<open>The calls \<open>Close\<close> finishes are those it read from the active map.\<close>

definition close_client :: "ref list \<Rightarrow> client \<Rightarrow> client" where
  "close_client rs c = foldl (\<lambda>c r. finish r Client_closed c) (c\<lparr>closed := True\<rparr>) rs"

section \<open>The client as a system of steps\<close>

text \<open>Every critical section and handler, in any interleaving: requests from the network (the two parts of
  the INVITE handler apart), responses, timers, and the calls of the application.\<close>

inductive sip_step :: "client \<Rightarrow> client \<Rightarrow> bool" where
  precheck: "invite_precheck sha req a c = Inl c' \<Longrightarrow> sip_step c c'"
| bad_offer: "sip_step c (sendTaggedResponse sha req a 488 ''Not Acceptable Here'' c)"
| commit: "sip_step c (invite_commit sha tag b req a media c)"
| ack: "sip_step c (handleIncomingACK req a c)"
| cancel: "sip_step c (handleIncomingCancel sha req a c)"
| bye: "sip_step c (handleBye req a c)"
| reply: "sip_step c (sendResponse req a code reason c)"
| response: "sip_step c (handleUnmatchedInviteResponse dest branch res c)"
| answer: "sip_step c (snd (Answer i port now ok c))"
| reject: "sip_step c (snd (Reject i code reason c))"
| tick: "sip_step c (retransmit_tick i c)"
| deadline: "sip_step c (ack_deadline i c)"
| retransmit_end: "sip_step c (retransmit_end i c)"
| expire: "sip_step c (expire_invite i c)"
| expire_dialog: "sip_step c (expireCompletedDialog r c)"
| take_incoming: "incomingCalls c = i # is \<Longrightarrow> sip_step c (c\<lparr>incomingCalls := is\<rparr>)"
| reserve: "dial_reserve callID c = Some c' \<Longrightarrow> sip_step c c'"
| release: "sip_step c (dial_release callID c)"
| establish: "CallID call \<in> dialing c \<Longrightarrow> \<not> late call \<Longrightarrow> sip_step c (snd (dial_establish call c))"
| ack_failed: "sip_step c (dial_ack_failed r c)"
| remember: "sip_step c (rememberCanceledInvite v c)"
| hangup: "sip_step c (hangup_begin dest branch r c)"
| finished: "sip_step c (finish r res c)"
| close: "sip_step c (close_client rs c)"

definition client_init :: "client \<Rightarrow> bool" where
  "client_init c \<longleftrightarrow> active c = (\<lambda>_. None) \<and> dialing c = {} \<and> serverInvites c = (\<lambda>_. None)
     \<and> canceledInvites c = (\<lambda>_. None) \<and> completedDialogs c = (\<lambda>_. None) \<and> \<not> closed c
     \<and> incomingCalls c = [] \<and> next_ref c = 0 \<and> 1 \<le> maxConcurrentCalls c"

inductive sip_reachable :: "client \<Rightarrow> bool" where
  init: "client_init c \<Longrightarrow> sip_reachable c"
| step: "sip_reachable c \<Longrightarrow> sip_step c c' \<Longrightarrow> sip_reachable c'"

section \<open>Frame lemmas\<close>

text \<open>What the invariants read of a client.\<close>

definition capacity_view :: "client \<Rightarrow> (string \<Rightarrow> ref option) \<times> string set \<times> (ref \<Rightarrow> bool) \<times> ref \<times> nat" where
  "capacity_view c = (active c, dialing c, (\<lambda>r. late (calls c r)), next_ref c, maxConcurrentCalls c)"

definition invite_view :: "IncomingInvite \<Rightarrow> Message \<times> addr \<times> string \<times> ref \<times> incomingState \<times> string" where
  "invite_view v = (request v, source v, key v, inv_call v, state v, lastResponse v)"

named_theorems frame \<open>operations that leave a view alone\<close>

lemma send_frame [frame]:
  "capacity_view (send_packet p a c) = capacity_view c"
  "capacity_view (sendTaggedResponse sha req a code reason c) = capacity_view c"
  "capacity_view (sendResponse req a code reason c) = capacity_view c"
  "capacity_view (resendLastResponse i a c) = capacity_view c"
  "capacity_view (sendCancel dest v c) = capacity_view c"
  "capacity_view (sendInviteFinalACK dest v tag c) = capacity_view c"
  "capacity_view (snd (sendACK dest branch call c)) = capacity_view c"
  "invites (send_packet p a c) = invites c"
  "invites (sendTaggedResponse sha req a code reason c) = invites c"
  "invites (sendResponse req a code reason c) = invites c"
  "invites (resendLastResponse i a c) = invites c"
  "invites (sendCancel dest v c) = invites c"
  "invites (sendInviteFinalACK dest v tag c) = invites c"
  "invites (snd (sendACK dest branch call c)) = invites c"
  by (simp_all add: capacity_view_def send_packet_def sendTaggedResponse_def sendResponse_def
      resendLastResponse_def sendCancel_def sendInviteFinalACK_def sendACK_def Let_def split: option.splits)

lemma upd_frame [frame]:
  "capacity_view (upd_invite i f c) = capacity_view c"
  "(\<And>x. late (g x) = late x) \<Longrightarrow> capacity_view (upd_call r g c) = capacity_view c"
  "capacity_view (expireAfter i c) = capacity_view c"
  "capacity_view (stopRetransmission i c) = capacity_view c"
  "capacity_view (expire_invite i c) = capacity_view c"
  "capacity_view (expireCompletedDialog r c) = capacity_view c"
  "invites (upd_call r g c) = invites c"
  "invites (expire_invite i c) = invites c"
  "invites (expireCompletedDialog r c) = invites c"
  by (auto simp: capacity_view_def upd_invite_def upd_call_def expireAfter_def stopRetransmission_def
      expire_invite_def expireCompletedDialog_def Let_def fun_eq_iff)

lemma invite_frame [frame]:
  "invite_view (invites (expireAfter i c) j) = invite_view (invites c j)"
  "invite_view (invites (stopRetransmission i c) j) = invite_view (invites c j)"
  by (auto simp: invite_view_def upd_invite_def expireAfter_def stopRetransmission_def)

end
