(* ===== verification/SipDialogs.thy ===== *)
theory SipDialogs
  imports SipClient
begin

text \<open>
  Invariants of the SIP user agent's dialog state, proved over every interleaving of its steps
  (\<^verbatim>\<open>SipClient.thy\<close>): the bound on concurrent calls, the life cycle of an incoming INVITE, and who may
  change the state from the network.
\<close>

section \<open>The bound on concurrent calls\<close>

definition counted :: "client \<Rightarrow> string set" where
  "counted c = {k. \<exists>r. active c k = Some r \<and> \<not> late (calls c r)}"

definition capacity_inv :: "client \<Rightarrow> bool" where
  "capacity_inv c \<longleftrightarrow>
     finite (dom (active c)) \<and> finite (dialing c) \<and> (\<forall>k r. active c k = Some r \<longrightarrow> r < next_ref c)
     \<and> card (counted c) + card (dialing c) \<le> maxConcurrentCalls c"

text \<open>Most operations only take calls and reservations away.\<close>

definition shrinks :: "client \<Rightarrow> client \<Rightarrow> bool" where
  "shrinks c c' \<longleftrightarrow>
     (\<forall>k r. active c' k = Some r \<longrightarrow> active c k = Some r) \<and> dialing c' \<subseteq> dialing c \<and> next_ref c \<le> next_ref c'
     \<and> (\<forall>r < next_ref c. late (calls c' r) = late (calls c r)) \<and> maxConcurrentCalls c' = maxConcurrentCalls c"

lemma view_shrinks: "capacity_view c' = capacity_view c \<Longrightarrow> shrinks c c'"
  by (auto simp: capacity_view_def shrinks_def fun_eq_iff)

lemma shrinks_refl [simp]: "shrinks c c"
  by (simp add: shrinks_def)

lemma shrinks_trans [trans]: "shrinks c c' \<Longrightarrow> shrinks c' c'' \<Longrightarrow> shrinks c c''"
  unfolding shrinks_def by (auto; metis order.strict_trans2)

lemma counted_finite: "capacity_inv c \<Longrightarrow> finite (counted c)"
  by (rule finite_subset [of _ "dom (active c)"]) (auto simp: capacity_inv_def counted_def)

lemma shrinks_capacity:
  assumes "shrinks c c'" "capacity_inv c"
  shows "capacity_inv c'"
proof -
  have le: "active c k = Some r \<and> r < next_ref c" if "active c' k = Some r" for k r
    using assms that unfolding shrinks_def capacity_inv_def by blast
  have sub: "counted c' \<subseteq> counted c"
    using assms(1) le unfolding shrinks_def counted_def by blast
  have dom: "dom (active c') \<subseteq> dom (active c)" using le by blast
  have "card (counted c') \<le> card (counted c)" by (rule card_mono [OF counted_finite [OF assms(2)] sub])
  moreover have "card (dialing c') \<le> card (dialing c)"
    using assms by (auto simp: shrinks_def capacity_inv_def intro: card_mono)
  moreover have "finite (dom (active c'))" "finite (dialing c')"
    using assms finite_subset [OF dom] by (auto simp: shrinks_def capacity_inv_def intro: finite_subset)
  ultimately show ?thesis
    using assms le unfolding capacity_inv_def shrinks_def by (auto dest!: le intro: order.strict_trans2)
qed

text \<open>Entering a call in the active map keeps the bound if the call is late or there was room.\<close>

lemma admit_capacity:
  assumes inv: "capacity_inv c"
    and act: "active c' = (active c)(k \<mapsto> r)" "next_ref c \<le> r" "r < next_ref c'"
    and same: "\<forall>x < next_ref c. late (calls c' x) = late (calls c x)" "dialing c' \<subseteq> dialing c"
      "maxConcurrentCalls c' = maxConcurrentCalls c"
    and room: "\<not> late (calls c' r) \<Longrightarrow> card (counted c) + card (dialing c') < maxConcurrentCalls c"
  shows "capacity_inv c'"
proof -
  have fin: "finite (counted c)" "finite (dom (active c))" "finite (dialing c)"
    using inv counted_finite by (auto simp: capacity_inv_def)
  have dial: "card (dialing c') \<le> card (dialing c)" by (rule card_mono [OF fin(3) same(2)])
  have sub: "counted c' \<subseteq> (if late (calls c' r) then counted c else insert k (counted c))"
    using inv same(1) by (auto simp: counted_def act(1) capacity_inv_def split: if_splits)
  have "card (counted c') + card (dialing c') \<le> maxConcurrentCalls c"
  proof (cases "late (calls c' r)")
    case True
    then have "card (counted c') \<le> card (counted c)" using sub fin by (auto intro: card_mono)
    then show ?thesis using dial inv by (simp add: capacity_inv_def)
  next
    case False
    then have "card (counted c') \<le> card (insert k (counted c))" using sub fin by (auto intro: card_mono)
    also have "\<dots> \<le> Suc (card (counted c))" by (simp add: card_insert_le_m1 card_insert_if fin)
    finally show ?thesis using room [OF False] by simp
  qed
  moreover have "\<forall>k r. active c' k = Some r \<longrightarrow> r < next_ref c'"
    using inv act by (auto simp: capacity_inv_def) (meson order.strict_trans order.strict_trans2)
  moreover have "finite (dialing c')" using same(2) fin(3) by (rule finite_subset)
  ultimately show ?thesis using fin same(3) by (simp add: capacity_inv_def act(1))
qed

lemma has_capacity_room:
  assumes "hasCallCapacityLocked c" "finite (dom (active c))"
  shows "card (counted c) + card (dialing c) < maxConcurrentCalls c"
proof -
  have "card (counted c) \<le> card (dom (active c))"
    by (rule card_mono [OF assms(2)]) (auto simp: counted_def)
  then show ?thesis using assms(1) by (simp add: hasCallCapacityLocked_def)
qed

section \<open>What the operations may do to the state\<close>

text \<open>A preorder on client states that allows each primitive update of the dialog layer: writing datagrams,
  bookkeeping in the tables, dropping a call or a reservation, updates of a call that do not touch \<open>late\<close>,
  flags of an invite, the one decision of a pending invite, and the acknowledgement of an answered one.
  Whatever such a preorder states about two client states holds across every handler and timer that admits no
  call.\<close>

locale dialog_preorder =
  fixes R :: "client \<Rightarrow> client \<Rightarrow> bool"
  assumes R_refl: "R c c"
    and R_trans: "R c c' \<Longrightarrow> R c' c'' \<Longrightarrow> R c c''"
    and R_send: "R c (send_packet p a c)"
    and R_tables: "R c (c\<lparr>serverInvites := m, canceledInvites := n, completedDialogs := d, incomingCalls := q, closed := b\<rparr>)"
    and R_drop_active: "R c (c\<lparr>active := (active c)(k := None)\<rparr>)"
    and R_drop_dialing: "R c (c\<lparr>dialing := dialing c - {k}\<rparr>)"
    and R_call: "(\<And>x. late (g x) = late x) \<Longrightarrow> R c (upd_call r g c)"
    and R_flag: "(\<And>v. invite_view (f v) = invite_view v) \<Longrightarrow> R c (upd_invite i f c)"
    and R_decide: "state (invites c i) = incomingPending \<Longrightarrow> R c (upd_invite i (\<lambda>v. v\<lparr>state := x, lastResponse := p\<rparr>) c)"
    and R_ack: "state (invites c i) = incomingAnswered \<Longrightarrow>
      R c (upd_invite i (\<lambda>v. v\<lparr>state := incomingAcknowledged, acked := True\<rparr>) c)"
begin

lemma R_then:
  assumes "R c c'"
  shows "R c (send_packet p a c')" and "R c (c'\<lparr>active := (active c')(k := None)\<rparr>)"
    and "(\<And>x. late (g x) = late x) \<Longrightarrow> R c (upd_call r g c')"
    and "(\<And>v. invite_view (f v) = invite_view v) \<Longrightarrow> R c (upd_invite i f c')"
  by (rule R_trans [OF assms], (rule R_send R_drop_active R_call R_flag), assumption?)+

lemma R_table:
  "R c (c\<lparr>serverInvites := m\<rparr>)" "R c (c\<lparr>canceledInvites := n\<rparr>)" "R c (c\<lparr>completedDialogs := d\<rparr>)"
  "R c (c\<lparr>incomingCalls := q\<rparr>)" "R c (c\<lparr>closed := b\<rparr>)"
  using R_tables [of c "closed c" "incomingCalls c" "completedDialogs c" "canceledInvites c" m]
    R_tables [of c "closed c" "incomingCalls c" "completedDialogs c" n "serverInvites c"]
    R_tables [of c "closed c" "incomingCalls c" d "canceledInvites c" "serverInvites c"]
    R_tables [of c "closed c" q "completedDialogs c" "canceledInvites c" "serverInvites c"]
    R_tables [of c b "incomingCalls c" "completedDialogs c" "canceledInvites c" "serverInvites c"]
  by simp_all

lemma R_replies:
  assumes "R c c'"
  shows "R c (resendLastResponse i a c')" and "R c (sendTaggedResponse sha req a code reason c')"
    and "R c (sendResponse req a code reason c')" and "R c (sendCancel dest v c')"
    and "R c (sendInviteFinalACK dest v tag c')" and "R c (snd (sendACK dest branch call c'))"
  using assms R_then(1) [OF assms]
  by (auto simp: resendLastResponse_def sendTaggedResponse_def sendResponse_def sendCancel_def
      sendInviteFinalACK_def sendACK_def Let_def split: option.splits)

lemma R_timers:
  assumes "R c c'"
  shows "R c (expireAfter i c')" and "R c (stopRetransmission i c')"
  unfolding expireAfter_def stopRetransmission_def
  by (intro R_then(4) assms; simp add: invite_view_def)+

lemma R_finish:
  assumes "R c c'"
  shows "R c (finish r err c')"
proof (cases "call_done (calls c' r) = None")
  case True
  let ?call = "calls c' r"
  define c1 where "c1 = (if active c' (CallID ?call) = Some r then c'\<lparr>active := (active c')(CallID ?call := None)\<rparr> else c')"
  define c2 where "c2 = (if \<not> inbound ?call \<and> InviteCSeq ?call \<noteq> 0
    then c1\<lparr>completedDialogs := (completedDialogs c1)(CallID ?call := Some r)\<rparr> else c1)"
  define c3 where "c3 = (case incoming ?call of Some i \<Rightarrow> stopRetransmission i c2 | None \<Rightarrow> c2)"
  have "R c c1" using R_then(2) [OF assms] assms by (simp add: c1_def)
  then have "R c c2" using R_trans [OF _ R_table(3)] by (simp add: c2_def)
  then have "R c c3" by (simp add: c3_def R_timers split: option.split)
  moreover have "finish r err c' = upd_call r (\<lambda>call. call\<lparr>call_done := Some err\<rparr>) c3"
    using True by (simp add: finish_def Let_def c1_def c2_def c3_def split: option.split)
  ultimately show ?thesis by (simp add: R_then)
qed (use assms in \<open>simp add: finish_def\<close>)

lemma R_retransmitting: "R c c' \<Longrightarrow> R c (upd_invite i (\<lambda>v. v\<lparr>retransmitting := b\<rparr>) c')"
  by (rule R_then) (simp_all add: invite_view_def)

lemmas R_step = R_then(1-3) R_replies R_timers R_finish R_retransmitting R_decide R_ack

lemma R_invites:
  "R c (snd (Answer i port now ok c))" "R c (snd (Reject i code reason c))"
  "R c (acknowledge i req c)" "R c (cancel_invite i req a c)"
  "R c (retransmit_tick i c)" "R c (ack_deadline i c)" "R c (retransmit_end i c)"
  by (auto simp: Answer_def Reject_def acknowledge_def cancel_invite_def retransmit_tick_def ack_deadline_def
      retransmit_end_def Let_def R_refl intro!: R_step split: prod.splits)

lemma R_requests:
  "R c (handleIncomingACK req a c)" "R c (handleIncomingCancel sha req a c)" "R c (handleBye req a c)"
  "invite_precheck sha req a c = Inl c' \<Longrightarrow> R c c'"
  by (auto simp: handleIncomingACK_def handleIncomingCancel_def handleBye_def invite_precheck_def R_refl R_invites
      intro!: R_step split: option.splits if_splits)

lemma R_expiry: "R c (expire_invite i c)" "R c (expireCompletedDialog r c)"
  by (auto simp: expire_invite_def expireCompletedDialog_def Let_def R_refl R_table)

lemma R_hand_over: "R c (hand_over b i c)"
  by (auto simp: hand_over_def R_invites R_table intro: R_finish R_refl)

lemma R_close: "R c (close_client rs c)"
proof -
  have "R d (foldl (\<lambda>c r. finish r Client_closed c) d rs)" for d
    by (induction rs rule: rev_induct) (simp_all add: R_refl R_finish)
  then show ?thesis unfolding close_client_def using R_table(5) R_trans by blast
qed

lemma R_hangup: "R c (hangup_begin dest branch r c)"
  unfolding hangup_begin_def Let_def by (auto split: option.splits intro!: R_step R_refl)

lemma R_dial: "R c (dial_release callID c)" "R c (dial_ack_failed r c)" "R c (rememberCanceledInvite v c)"
  by (auto simp: dial_release_def dial_ack_failed_def rememberCanceledInvite_def Let_def R_drop_dialing
      R_drop_active R_refl R_table)

lemmas R_all = R_replies [OF R_refl] R_invites R_requests R_expiry R_close R_hangup R_dial R_finish [OF R_refl] R_table

end

interpretation shrink: dialog_preorder shrinks
proof unfold_locales
  show "shrinks c c'" if "shrinks c d" "shrinks d c'" for c c' d using that by (rule shrinks_trans)
qed (auto simp: shrinks_def send_packet_def upd_call_def upd_invite_def)

lemmas keeps_capacity = shrink.R_all [THEN shrinks_capacity] shrink.R_finish [OF shrinks_refl, THEN shrinks_capacity]

section \<open>Which operations admit a call\<close>

lemma register_capacity:
  assumes inv: "capacity_inv c" and room: "hasCallCapacityLocked c"
  shows "capacity_inv (register_invite tag req a media c)"
proof (rule admit_capacity [OF inv])
  show "active (register_invite tag req a media c) =
      (active c)(CallID (new_call tag req a media (next_ref c + 1)) \<mapsto> next_ref c)"
    by (simp add: register_invite_def Let_def)
  show "card (counted c) + card (dialing (register_invite tag req a media c)) < maxConcurrentCalls c"
    using inv has_capacity_room [OF room] by (simp add: register_invite_def Let_def capacity_inv_def)
qed (auto simp: register_invite_def Let_def)

lemma commit_capacity:
  assumes inv: "capacity_inv c"
  shows "capacity_inv (invite_commit sha tag b req a media c)"
proof -
  have "capacity_inv (hand_over b i (send_packet p a (register_invite tag req a media c)))"
    if "hasCallCapacityLocked c" for i p
    by (rule shrinks_capacity [OF shrinks_trans [OF shrink.R_send shrink.R_hand_over]])
      (rule register_capacity [OF inv that])
  then show ?thesis
    using inv unfolding invite_commit_def Let_def
    by (auto split: option.splits simp: keeps_capacity)
qed

lemma establish_capacity:
  assumes inv: "capacity_inv c" and "CallID call \<in> dialing c"
  shows "capacity_inv (snd (dial_establish call c))"
proof (rule admit_capacity [OF inv])
  have "card (dialing c - {CallID call}) < card (dialing c)"
    using assms by (intro card_Diff1_less) (auto simp: capacity_inv_def)
  then show "card (counted c) + card (dialing (snd (dial_establish call c))) < maxConcurrentCalls c"
    using inv by (simp add: dial_establish_def capacity_inv_def Let_def)
qed (auto simp: dial_establish_def Let_def)

lemma late_dialog_capacity:
  assumes inv: "capacity_inv c"
  shows "capacity_inv (late_dialog dest branch k v res c)"
proof -
  let ?r = "next_ref c"
  let ?d = "c\<lparr>active := (active c)(k := Some ?r), calls := (calls c)(?r := late_call v res), next_ref := ?r + 1\<rparr>"
  have "capacity_inv ?d"
    by (rule admit_capacity [OF inv, of _ k ?r]) (auto simp: late_call_def)
  then have "capacity_inv (snd (sendACK dest branch (late_call v res) ?d))" by (rule keeps_capacity)
  then show ?thesis by (auto simp: late_dialog_def Let_def keeps_capacity split: prod.splits)
qed

lemma unmatched_capacity:
  assumes inv: "capacity_inv c"
  shows "capacity_inv (handleUnmatchedInviteResponse dest branch res c)"
proof -
  have "capacity_inv (c\<lparr>canceledInvites := m\<rparr>)" for m using inv by (simp add: capacity_inv_def counted_def)
  then show ?thesis
    using inv by (simp add: handleUnmatchedInviteResponse_def Let_def keeps_capacity late_dialog_capacity
        split: option.split)
qed

lemma capacity_step: "sip_step c c' \<Longrightarrow> capacity_inv c \<Longrightarrow> capacity_inv c'"
proof (induction rule: sip_step.induct)
  case (reserve callID c c')
  then have c': "c' = c\<lparr>dialing := insert callID (dialing c)\<rparr>" and room: "hasCallCapacityLocked c"
    by (auto simp: dial_reserve_def split: if_splits)
  have "card (insert callID (dialing c)) \<le> Suc (card (dialing c))"
    by (simp add: card_insert_le_m1 card_insert_if)
  then show ?case
    using reserve.prems has_capacity_room [OF room] by (auto simp: c' capacity_inv_def counted_def)
qed (auto intro: commit_capacity establish_capacity unmatched_capacity keeps_capacity)

lemma reachable_capacity: "sip_reachable c \<Longrightarrow> capacity_inv c"
  by (induction rule: sip_reachable.induct)
    (simp add: client_init_def capacity_inv_def counted_def, rule capacity_step)

section \<open>The life of an incoming INVITE\<close>

text \<open>Who an invite is never changes; once it is decided, its response stays and only an answered invite moves
  on, to acknowledged.\<close>

definition invite_later :: "IncomingInvite \<Rightarrow> IncomingInvite \<Rightarrow> bool" where
  "invite_later v v' \<longleftrightarrow>
     request v' = request v \<and> source v' = source v \<and> key v' = key v \<and> inv_call v' = inv_call v
     \<and> (state v = incomingPending \<or> lastResponse v' = lastResponse v
          \<and> (state v' = state v \<or> state v = incomingAnswered \<and> state v' = incomingAcknowledged))"

definition later :: "client \<Rightarrow> client \<Rightarrow> bool" where
  "later c c' \<longleftrightarrow> next_ref c \<le> next_ref c' \<and> (\<forall>i < next_ref c. invite_later (invites c i) (invites c' i))"

lemma invite_later_refl [simp]: "invite_later v v"
  by (simp add: invite_later_def)

lemma invite_later_trans: "invite_later v v' \<Longrightarrow> invite_later v' v'' \<Longrightarrow> invite_later v v''"
  by (auto simp: invite_later_def)

interpretation life: dialog_preorder later
proof unfold_locales
  show "later c c'" if "later c d" "later d c'" for c c' d
    using that unfolding later_def by (auto intro: invite_later_trans order.strict_trans2)
qed (auto simp: later_def send_packet_def upd_call_def upd_invite_def invite_later_def invite_view_def)

lemma later_admit:
  "later c (register_invite tag req a media c)" "later c (snd (dial_establish call c))"
  "later c (c\<lparr>active := m, calls := f, next_ref := next_ref c + 1\<rparr>)" "later c (c\<lparr>dialing := d\<rparr>)"
  by (simp_all add: later_def register_invite_def dial_establish_def Let_def)

lemma later_commit: "later c (invite_commit sha tag b req a media c)"
proof -
  have "later c (hand_over b i (send_packet p a (register_invite tag req a media c)))" for i p
    by (rule life.R_trans [OF life.R_then(1) [OF later_admit(1)] life.R_hand_over])
  then show ?thesis
    by (simp add: invite_commit_def Let_def life.R_all split: option.split)
qed

lemma later_late_dialog: "later c (late_dialog dest branch k v res c)"
proof -
  have "later c (snd (sendACK dest branch (late_call v res)
      (c\<lparr>active := (active c)(k := Some (next_ref c)), calls := (calls c)(next_ref c := late_call v res),
         next_ref := next_ref c + 1\<rparr>)))"
    by (rule life.R_replies(6) [OF later_admit(3)])
  then show ?thesis by (auto simp: late_dialog_def Let_def life.R_finish split: prod.splits)
qed

lemma later_unmatched: "later c (handleUnmatchedInviteResponse dest branch res c)"
  unfolding handleUnmatchedInviteResponse_def Let_def
  by (auto simp: life.R_all life.R_refl split: option.split
      intro: life.R_replies life.R_trans [OF life.R_table(2) later_late_dialog])

lemma later_step: "sip_step c c' \<Longrightarrow> later c c'"
proof (induction rule: sip_step.induct)
  case (reserve callID c c')
  then show ?case by (auto simp: dial_reserve_def later_admit split: if_splits)
qed (auto intro: later_commit later_unmatched later_admit life.R_all)

lemma later_steps: "sip_step\<^sup>*\<^sup>* c c' \<Longrightarrow> later c c'"
  by (induction rule: rtranclp_induct) (auto intro: life.R_refl life.R_trans later_step)

section \<open>Datagrams that change nothing\<close>

text \<open>The client answered, with at most one datagram to the sender, and did nothing else.\<close>

definition only_replied :: "addr \<Rightarrow> client \<Rightarrow> client \<Rightarrow> bool" where
  "only_replied a c c' \<longleftrightarrow> (\<exists>ps. length ps \<le> 1 \<and> snd ` set ps \<subseteq> {a} \<and> c' = c\<lparr>sent := sent c @ ps\<rparr>)"

lemma only_replied_refl [simp]: "only_replied a c c"
  unfolding only_replied_def by (rule exI [of _ "[]"]) simp

lemma only_replied_send [simp]: "only_replied a c (send_packet p a c)"
  unfolding only_replied_def by (rule exI [of _ "[(p, a)]"]) (simp add: send_packet_def)

lemma only_replied_simps [simp]:
  "only_replied a c (sendResponse req a code reason c)"
  "only_replied a c (sendTaggedResponse sha req a code reason c)" "only_replied a c (resendLastResponse i a c)"
  by (simp_all add: sendResponse_def sendTaggedResponse_def resendLastResponse_def Let_def)

lemma precheck_only_replies: "invite_precheck sha req a c = Inl c' \<Longrightarrow> only_replied a c c'"
  by (auto simp: invite_precheck_def split: if_splits option.splits)

lemma finish_keeps:
  "serverInvites (finish r e c) = serverInvites c"
  "CallMedia (calls (finish r e c) x) = CallMedia (calls c x)" "CallerID (calls (finish r e c) x) = CallerID (calls c x)"
  by (auto simp: finish_def Let_def upd_call_def upd_invite_def stopRetransmission_def expireAfter_def split: option.split)

lemma hand_over_keeps:
  "serverInvites (hand_over b i c) = serverInvites c"
  "CallMedia (calls (hand_over b i c) x) = CallMedia (calls c x)"
  "CallerID (calls (hand_over b i c) x) = CallerID (calls c x)"
  by (auto simp: hand_over_def Reject_def Let_def finish_keeps upd_invite_def expireAfter_def send_packet_def)

lemma hand_over_invite:
  assumes "i < next_ref c"
  shows "request (invites (hand_over b i c) i) = request (invites c i)"
    "source (invites (hand_over b i c) i) = source (invites c i)"
    "inv_call (invites (hand_over b i c) i) = inv_call (invites c i)"
  using life.R_hand_over [of c b i] assms by (auto simp: later_def invite_later_def)

section \<open>Properties\<close>

text \<open>C13.  The client never has more calls than configured: in every state the interleaved handlers, timers
  and callers can reach, the calls in the active map and the reservations of calls being dialled are together at
  most \<open>maxConcurrentCalls\<close>, not counting dialogs a late 2xx created after the INVITE was given up (those are
  entered only to be acknowledged and hung up); without such dialogs the capacity test the client itself makes
  counts at most that many.\<close>

theorem concurrent_calls_bounded:
  assumes "sip_reachable c"
  shows "card {k. \<exists>r. active c k = Some r \<and> \<not> late (calls c r)} + card (dialing c) \<le> maxConcurrentCalls c
    \<and> finite (dom (active c)) \<and> finite (dialing c)
    \<and> ((\<forall>k r. active c k = Some r \<longrightarrow> \<not> late (calls c r)) \<longrightarrow>
         card (dom (active c)) + card (dialing c) \<le> maxConcurrentCalls c)"
proof -
  note inv = reachable_capacity [OF assms, unfolded capacity_inv_def counted_def]
  have "card (dom (active c)) + card (dialing c) \<le> maxConcurrentCalls c"
    if "\<forall>k r. active c k = Some r \<longrightarrow> \<not> late (calls c r)"
  proof -
    have "dom (active c) = {k. \<exists>r. active c k = Some r \<and> \<not> late (calls c r)}" using that by auto
    then show ?thesis using inv by simp
  qed
  then show ?thesis using inv by blast
qed

definition sample_client :: "client" where
  "sample_client =
     \<lparr>ident = \<lparr>localIP = ''10.0.0.2'', LocalPort = 5060, Username = ''door'', DisplayName = ''Door''\<rparr>,
      AcceptIncoming = True, CodecPreference = ''pcma'', registrar = (''10.0.0.1'', 5060),
      allowedCallers = newCallerAllowlist [''610''], maxConcurrentCalls = 1, active = (\<lambda>_. None), dialing = {},
      serverInvites = (\<lambda>_. None), canceledInvites = (\<lambda>_. None), completedDialogs = (\<lambda>_. None),
      incomingCalls = [], closed = False, calls = (\<lambda>_. outgoing_call [] [] [] [] 0 sample_invite),
      invites = (\<lambda>_. new_invite sample_invite (''10.0.0.1'', 5060) 0), next_ref = 0, sent = []\<rparr>"

lemma sample_client_reachable: "sip_reachable sample_client"
  by (rule sip_reachable.init) (simp add: client_init_def sample_client_def)

lemma sample_dialing_reachable: "sip_reachable (sample_client\<lparr>dialing := {''a@10.0.0.2''}\<rparr>)"
proof (rule sip_reachable.step [OF sample_client_reachable sip_step.reserve])
  show "dial_reserve ''a@10.0.0.2'' sample_client = Some (sample_client\<lparr>dialing := {''a@10.0.0.2''}\<rparr>)"
    by (simp add: dial_reserve_def hasCallCapacityLocked_def sample_client_def)
qed

theorem concurrent_calls_bounded_witness:
  "card (dialing (sample_client\<lparr>dialing := {''a@10.0.0.2''}\<rparr>)) \<le> 1"
  using concurrent_calls_bounded [OF sample_dialing_reachable] by (simp add: sample_client_def)

text \<open>C15.  An incoming INVITE is decided once.  After it has been answered, rejected or cancelled, no later
  step of any goroutine changes its final response, the request, the source it came from or its call, and
  the only further change of state is from answered to acknowledged; so when the INVITE is received again (a
  retransmission, which has the same server key) the client sends exactly that response, and nothing else
  happens.\<close>

theorem invite_decided_once:
  assumes "i < next_ref c" "state (invites c i) \<noteq> incomingPending" "sip_step\<^sup>*\<^sup>* c c'"
  shows "lastResponse (invites c' i) = lastResponse (invites c i)
    \<and> request (invites c' i) = request (invites c i) \<and> source (invites c' i) = source (invites c i)
    \<and> inv_call (invites c' i) = inv_call (invites c i)
    \<and> (state (invites c' i) = state (invites c i)
        \<or> state (invites c i) = incomingAnswered \<and> state (invites c' i) = incomingAcknowledged)
    \<and> (serverInvites c' (serverInviteKey req) = Some i \<and> lastResponse (invites c i) \<noteq> [] \<and> AcceptIncoming c'
        \<and> isRegistrarSource c' a \<and> validateIncomingInviteHeaders req = None
        \<and> allows (allowedCallers c') (extractURI (Header req ''from'')) \<longrightarrow>
         handleIncomingInvite sha lookup_ip tag b between req a c' = send_packet (lastResponse (invites c i)) a c')"
proof -
  have "invite_later (invites c i) (invites c' i)"
    using later_steps [OF assms(3)] assms(1) by (simp add: later_def)
  then have l: "lastResponse (invites c' i) = lastResponse (invites c i)
    \<and> request (invites c' i) = request (invites c i) \<and> source (invites c' i) = source (invites c i)
    \<and> inv_call (invites c' i) = inv_call (invites c i)
    \<and> (state (invites c' i) = state (invites c i)
        \<or> state (invites c i) = incomingAnswered \<and> state (invites c' i) = incomingAcknowledged)"
    using assms(2) by (auto simp: invite_later_def)
  then show ?thesis
    by (simp add: handleIncomingInvite_def invite_precheck_def resendLastResponse_def Let_def)
qed

definition rejected_client :: "client" where
  "rejected_client = sample_client\<lparr>next_ref := 2, invites := (\<lambda>_. (new_invite sample_invite (''10.0.0.1'', 5060) 0)
     \<lparr>state := incomingRejected, lastResponse := ''SIP/2.0 486 Busy Here''\<rparr>)\<rparr>"

theorem invite_decided_once_witness:
  "lastResponse (invites (snd (Answer 1 4000 0 True rejected_client)) 1) = ''SIP/2.0 486 Busy Here''"
proof -
  have "sip_step\<^sup>*\<^sup>* rejected_client (snd (Answer 1 4000 0 True rejected_client))"
    by (rule r_into_rtranclp) (rule sip_step.answer)
  from invite_decided_once [OF _ _ this, of 1] show ?thesis by (simp add: rejected_client_def)
qed

text \<open>C14.  Only the registrar can set up or end an incoming call.  Whatever request arrives from any other
  address: the client sends at most one datagram back to that address and its state does not change, unless the
  request is a BYE for a call the gateway itself placed.\<close>

theorem untrusted_source_changes_nothing:
  assumes "\<not> isRegistrarSource c a"
    and "\<And>r. to_upper (Method req) = ''BYE'' \<Longrightarrow> active c (Header req ''call-id'') = Some r \<Longrightarrow> inbound (calls c r)"
  shows "\<exists>ps. length ps \<le> 1 \<and> snd ` set ps \<subseteq> {a}
    \<and> handleRequest sha lookup_ip tag b between req a c = c\<lparr>sent := sent c @ ps\<rparr>"
proof -
  have "only_replied a c (handleRequest sha lookup_ip tag b between req a c)"
    using assms
    by (auto simp: handleRequest_def Let_def handleIncomingInvite_def invite_precheck_def handleIncomingACK_def
        handleIncomingCancel_def handleBye_def split: option.splits)
  then show ?thesis by (simp add: only_replied_def)
qed

theorem untrusted_source_changes_nothing_witness:
  "\<exists>ps. length ps \<le> 1 \<and> snd ` set ps \<subseteq> {(''10.9.9.9'', 5060)}
    \<and> handleRequest (\<lambda>x. x) Some ''t'' False id sample_invite (''10.9.9.9'', 5060) sample_client
        = sample_client\<lparr>sent := sent sample_client @ ps\<rparr>"
  by (rule untrusted_source_changes_nothing)
    (simp_all add: isRegistrarSource_def sample_client_def sample_invite_def to_upper_def)

text \<open>What it takes to be admitted.  Handling an INVITE either only answers it (refused, a retransmission, or
  busy), in the state before or after what other goroutines did while the offer was parsed; or incoming calls are
  enabled, the sender is the registrar, the headers are complete, the caller is on the allow list, there was room
  for a call at both checks, the offer was negotiated, and the new invite is registered under the server key of
  this request with the caller's address and the negotiated media.\<close>

lemma invite_admission:
  fixes between :: "client \<Rightarrow> client" and c :: client
  defines "d \<equiv> between c"
  shows "only_replied a c (handleIncomingInvite sha lookup_ip tag b between req a c)
    \<or> only_replied a d (handleIncomingInvite sha lookup_ip tag b between req a c)
    \<or> AcceptIncoming c \<and> isRegistrarSource c a \<and> validateIncomingInviteHeaders req = None
      \<and> allows (allowedCallers c) (extractURI (Header req ''from''))
      \<and> hasCallCapacityLocked c \<and> hasCallCapacityLocked d \<and> serverInvites d (serverInviteKey req) = None
      \<and> (\<exists>media. parseOfferMedia lookup_ip (Body req) (CodecPreference c) = Inr media
          \<and> (let c' = handleIncomingInvite sha lookup_ip tag b between req a c; v = invites c' (next_ref d + 1) in
               serverInvites c' (serverInviteKey req) = Some (next_ref d + 1)
               \<and> request v = req \<and> source v = a \<and> CallMedia (calls c' (inv_call v)) = Some media
               \<and> CallerID (calls c' (inv_call v)) = canonicalCallerID (extractURI (Header req ''from''))))"
proof (cases "invite_precheck sha req a c")
  case (Inl c')
  then show ?thesis using precheck_only_replies by (simp add: handleIncomingInvite_def)
next
  case (Inr u)
  then have ok: "AcceptIncoming c" "isRegistrarSource c a" "validateIncomingInviteHeaders req = None"
    "allows (allowedCallers c) (extractURI (Header req ''from''))" "hasCallCapacityLocked c"
    by (auto simp: invite_precheck_def split: if_splits option.splits)
  show ?thesis
  proof (cases "parseOfferMedia lookup_ip (Body req) (CodecPreference c)")
    case (Inl e)
    then show ?thesis using Inr by (simp add: handleIncomingInvite_def d_def)
  next
    case (Inr media)
    let ?d = "send_packet (buildResponse req 100 ''Trying'' [] [] []) a (register_invite tag req a media d)"
    have h: "handleIncomingInvite sha lookup_ip tag b between req a c = invite_commit sha tag b req a media d"
      using Inr \<open>invite_precheck sha req a c = Inr u\<close> by (simp add: handleIncomingInvite_def d_def)
    show ?thesis
    proof (cases "hasCallCapacityLocked d \<and> serverInvites d (serverInviteKey req) = None")
      case True
      then have "invite_commit sha tag b req a media d = hand_over b (next_ref d + 1) ?d"
        by (simp add: invite_commit_def Let_def register_invite_def new_invite_def)
      then show ?thesis
        using ok Inr True unfolding h
        by (simp add: Let_def hand_over_keeps hand_over_invite send_packet_def register_invite_def new_call_def
            new_invite_def)
    next
      case False
      then show ?thesis unfolding h by (auto simp: invite_commit_def)
    qed
  qed
qed

end
