(* ===== verification/Talkback.thy ===== *)
theory Talkback
  imports G711 MediaTiming "HOL-Library.Sublist"
begin

unbundle bit_operations_syntax

text \<open>
  The phone-to-camera audio path (\<^verbatim>\<open>internal/media/talkback_audio.go\<close>): the bounded sample FIFO, the
  streaming linear resampler, the RTP sequencer, the phone audio buffer that aligns packets on the RTP
  timeline, the receive loop's handling of one datagram, and the pacing of the writer.  The counters are
  64-bit words.  The elastic playout (floating point, \<^verbatim>\<open>elastic_talkback.go\<close>) appears only through the two
  notifications it gets from here, kept as a log; its reads of the FIFO are pops of any size.
\<close>

section \<open>Counters\<close>

record audioBridgeStats =
  PacketsAccepted :: "64 word"
  PacketsDuplicateLate :: "64 word"
  PacketsReordered :: "64 word"
  SequenceGaps :: "64 word"
  TimelineResets :: "64 word"
  SilenceInsertedInput :: "64 word"
  FIFOOverflowSamples :: "64 word"
  FIFOMaxSamples :: "64 word"
  SSRCChanges :: "64 word"
  RTPJitterMaxUS :: "64 word"
  BaichuanBlocks :: "64 word"
  BaichuanWriteTotalUS :: "64 word"
  BaichuanWriteMaxUS :: "64 word"

definition stats_zero :: audioBridgeStats where
  "stats_zero = \<lparr>PacketsAccepted = 0, PacketsDuplicateLate = 0, PacketsReordered = 0, SequenceGaps = 0,
     TimelineResets = 0, SilenceInsertedInput = 0, FIFOOverflowSamples = 0, FIFOMaxSamples = 0, SSRCChanges = 0,
     RTPJitterMaxUS = 0, BaichuanBlocks = 0, BaichuanWriteTotalUS = 0, BaichuanWriteMaxUS = 0\<rparr>"

section \<open>The sample FIFO\<close>

record sampleFIFO =
  fifo_buf :: "sample list"
  fifo_max :: nat

definition newSampleFIFO :: "int \<Rightarrow> sampleFIFO" where
  "newSampleFIFO m = \<lparr>fifo_buf = [], fifo_max = nat (if m < 1 then 1 else m)\<rparr>"

definition fifo_reset :: "sampleFIFO \<Rightarrow> sampleFIFO" where
  "fifo_reset f = f\<lparr>fifo_buf := []\<rparr>"

definition fifo_pop :: "int \<Rightarrow> sampleFIFO \<Rightarrow> sampleFIFO \<times> sample list" where
  "fifo_pop n f =
     (if n \<le> 0 \<or> fifo_buf f = [] then (f, [])
      else let k = (if n > int (length (fifo_buf f)) then length (fifo_buf f) else nat n)
           in (f\<lparr>fifo_buf := drop k (fifo_buf f)\<rparr>, take k (fifo_buf f)))"

definition fifo_push :: "sample list \<Rightarrow> sampleFIFO \<Rightarrow> sampleFIFO \<times> nat" where
  "fifo_push samples f =
     (if samples = [] then (f, 0)
      else if fifo_max f \<le> length samples
      then (f\<lparr>fifo_buf := drop (length samples - fifo_max f) samples\<rparr>,
            length (fifo_buf f) + length samples - fifo_max f)
      else let overflow = length (fifo_buf f) + length samples - fifo_max f;
               rest = (if 0 < overflow then drop overflow (fifo_buf f) else fifo_buf f)
           in (f\<lparr>fifo_buf := rest @ samples\<rparr>, overflow))"

section \<open>The resampler\<close>

record linearResampler =
  outRate :: int
  havePrev :: bool
  prev :: sample
  sourceIndex :: int
  nextOutTick :: int

datatype talkback_error =
    Unsupported_rate int
  | Unsupported_codec string

definition newLinearResampler :: "int \<Rightarrow> talkback_error + linearResampler" where
  "newLinearResampler rate =
     (if rate < g711SampleRate \<or> 48000 < rate then Inl (Unsupported_rate rate)
      else Inr \<lparr>outRate = rate, havePrev = False, prev = 0, sourceIndex = 0, nextOutTick = 0\<rparr>)"

definition resampler_reset :: "linearResampler \<Rightarrow> linearResampler" where
  "resampler_reset r = r\<lparr>havePrev := False, prev := 0, sourceIndex := 0, nextOutTick := 0\<rparr>"

definition clamp16 :: "int \<Rightarrow> int" where
  "clamp16 v = (if v > 32767 then 32767 else if v < - 32768 then - 32768 else v)"

text \<open>The inner loop: the output ticks before \<open>endTick\<close>, from \<open>tick\<close> in steps of 8000.\<close>

function emit_ticks :: "int \<Rightarrow> sample \<Rightarrow> sample \<Rightarrow> int \<Rightarrow> int \<Rightarrow> int \<Rightarrow> sample list \<times> int" where
  "emit_ticks rate p cur startTick endTick tick =
     (if tick < endTick
      then let num = tick - startTick;
               num = (if num < 0 then 0 else num);
               value = p + go_div ((cur - p) * num) rate
           in (case emit_ticks rate p cur startTick endTick (tick + g711SampleRate) of
                 (out, t) \<Rightarrow> (int16 (clamp16 value) # out, t))
      else ([], tick))"
  by pat_completeness auto
termination
  by (relation "measure (\<lambda>(_, _, _, _, e, t). nat (e - t))") (auto simp: g711SampleRate_def)

declare emit_ticks.simps [simp del]

definition resample_step :: "linearResampler \<Rightarrow> sample \<Rightarrow> linearResampler \<times> sample list" where
  "resample_step r cur =
     (if \<not> havePrev r then (r\<lparr>prev := cur, havePrev := True, sourceIndex := 0, nextOutTick := 0\<rparr>, [])
      else let startTick = sourceIndex r * outRate r;
               endTick = (sourceIndex r + 1) * outRate r;
               (out, tick) = emit_ticks (outRate r) (prev r) cur startTick endTick (nextOutTick r)
           in (r\<lparr>sourceIndex := sourceIndex r + 1, nextOutTick := tick, prev := cur\<rparr>, out))"

fun resample_loop :: "linearResampler \<Rightarrow> sample list \<Rightarrow> linearResampler \<times> sample list" where
  "resample_loop r [] = (r, [])"
| "resample_loop r (cur # rest) =
     (case resample_step r cur of
        (r', out) \<Rightarrow> (case resample_loop r' rest of (r'', out') \<Rightarrow> (r'', out @ out')))"

definition resampler_push :: "linearResampler \<Rightarrow> sample list \<Rightarrow> linearResampler \<times> sample list" where
  "resampler_push r ins =
     (if ins = [] then (r, []) else if outRate r = g711SampleRate then (r, ins) else resample_loop r ins)"

section \<open>The sequencer\<close>

record sequencedPacket =
  seq_packet :: packet
  reset :: bool

record rtpSequencer =
  q_initialized :: bool
  q_ssrc :: u32
  expected :: u16
  pending :: "u16 \<Rightarrow> packet option"
  window :: int
  q_stats :: audioBridgeStats

definition newRTPSequencer :: "int \<Rightarrow> rtpSequencer" where
  "newRTPSequencer w = \<lparr>q_initialized = False, q_ssrc = 0, expected = 0, pending = (\<lambda>_. None),
     window = (if w < 1 then 1 else w), q_stats = stats_zero\<rparr>"

text \<open>\<open>drain\<close>: the run of pending packets from \<open>expected\<close> on; only the first may carry the reset mark.\<close>

function drain :: "bool \<Rightarrow> rtpSequencer \<Rightarrow> rtpSequencer \<times> sequencedPacket list" where
  "drain resetFirst q =
     (case pending q (expected q) of
        None \<Rightarrow> (q, [])
      | Some p \<Rightarrow>
          (case drain False (q\<lparr>pending := (pending q)(expected q := None), expected := expected q + 1\<rparr>) of
             (q', out) \<Rightarrow> (q', \<lparr>seq_packet = p, reset = resetFirst\<rparr> # out)))"
  by pat_completeness auto
termination
proof (relation "measure (\<lambda>(_, q). card (dom (pending q)))")
  fix resetFirst :: bool and q :: rtpSequencer and p :: packet
  assume "pending q (expected q) = Some p"
  then have "card (dom (pending q) - {expected q}) < card (dom (pending q))"
    by (intro card_Diff1_less) auto
  then show "((False, q\<lparr>pending := (pending q)(expected q := None), expected := expected q + 1\<rparr>), resetFirst, q)
      \<in> measure (\<lambda>(_, q). card (dom (pending q)))"
    by simp
qed simp

declare drain.simps [simp del]

definition resetAt :: "packet \<Rightarrow> bool \<Rightarrow> rtpSequencer \<Rightarrow> rtpSequencer \<times> sequencedPacket list" where
  "resetAt p ssrcChanged q =
     (let q = q\<lparr>pending := (\<lambda>_. None), q_ssrc := SSRC p, expected := Sequence p, q_initialized := True\<rparr>;
          q = (if ssrcChanged then q\<lparr>q_stats := (q_stats q)\<lparr>SSRCChanges := SSRCChanges (q_stats q) + 1\<rparr>\<rparr> else q)
      in drain True (q\<lparr>pending := (pending q)(Sequence p \<mapsto> p)\<rparr>))"

text \<open>\<open>FlushGap\<close>: pending packets behind \<open>expected\<close> are dropped, and the closest one ahead (the minimum the
  loop over the map finds) becomes the next to expect.\<close>

definition ahead :: "u16 \<Rightarrow> u16 \<Rightarrow> int" where
  "ahead e s = sint (s - e)"

definition best_ahead :: "rtpSequencer \<Rightarrow> nat option" where
  "best_ahead q = find (\<lambda>d. pending q (expected q + of_nat d) \<noteq> None) [0..<32768]"

definition FlushGap :: "rtpSequencer \<Rightarrow> rtpSequencer \<times> sequencedPacket list" where
  "FlushGap q =
     (if \<not> q_initialized q \<or> (\<forall>s. pending q s = None) then (q, [])
      else
        let kept = q\<lparr>pending := (\<lambda>s. if ahead (expected q) s < 0 then None else pending q s)\<rparr> in
        case best_ahead q of
          None \<Rightarrow> (kept, [])
        | Some d \<Rightarrow>
            let best = expected q + of_nat d;
                q' = (if best \<noteq> expected q
                      then kept\<lparr>expected := best,
                        q_stats := (q_stats kept)\<lparr>SequenceGaps := SequenceGaps (q_stats kept) + 1\<rparr>\<rparr>
                      else kept)
            in drain False q')"

definition count_late :: "rtpSequencer \<Rightarrow> rtpSequencer" where
  "count_late q = q\<lparr>q_stats := (q_stats q)\<lparr>PacketsDuplicateLate := PacketsDuplicateLate (q_stats q) + 1\<rparr>\<rparr>"

definition sequencer_push :: "packet \<Rightarrow> rtpSequencer \<Rightarrow> rtpSequencer \<times> sequencedPacket list" where
  "sequencer_push p q =
     (if \<not> q_initialized q then resetAt p False q
      else if SSRC p \<noteq> q_ssrc q then resetAt p True q
      else if pending q (Sequence p) \<noteq> None then (count_late q, [])
      else
        let diff = sint (Sequence p - expected q) in
        if diff < 0 then (count_late q, [])
        else if diff > int16 (window q * 8)
        then resetAt p False (q\<lparr>q_stats := (q_stats q)\<lparr>SequenceGaps := SequenceGaps (q_stats q) + 1,
               TimelineResets := TimelineResets (q_stats q) + 1\<rparr>\<rparr>)
        else
          let q = (if diff > 0
                   then q\<lparr>q_stats := (q_stats q)\<lparr>PacketsReordered := PacketsReordered (q_stats q) + 1\<rparr>\<rparr> else q);
              q = q\<lparr>pending := (pending q)(Sequence p \<mapsto> p)\<rparr>
          in if diff = 0 then drain False q
             else if window q \<le> int (card (dom (pending q))) then FlushGap q
             else (q, []))"

section \<open>The phone audio buffer\<close>

definition maxInputGapSamples :: int where
  "maxInputGapSamples = 1600"

datatype elastic_op = ResetTimeline | MarkOverflow

text \<open>\<open>pcm8\<close> and \<open>base8\<close> are not in the code: the 8 kHz samples handed to the resampler since the last reset, and
  the RTP time of the first of them.\<close>

record phoneAudioBuffer =
  codecName :: string
  resampler :: linearResampler
  fifo :: sampleFIFO
  elastic :: "elastic_op list"
  b_stats :: audioBridgeStats
  haveTimeline :: bool
  nextTimestamp :: u32
  receivedAudio :: bool
  pcm8 :: "sample list"
  base8 :: u32

definition newPhoneAudioBuffer :: "string \<Rightarrow> int \<Rightarrow> int \<Rightarrow> talkback_error + phoneAudioBuffer" where
  "newPhoneAudioBuffer codec outputRate blockSamples =
     (if codec \<noteq> PCMA \<and> codec \<noteq> PCMU then Inl (Unsupported_codec codec)
      else case newLinearResampler outputRate of
        Inl e \<Rightarrow> Inl e
      | Inr r \<Rightarrow> Inr \<lparr>codecName = codec, resampler = r, fifo = newSampleFIFO (blockSamples * 4), elastic = [],
          b_stats = stats_zero, haveTimeline = False, nextTimestamp = 0, receivedAudio = False, pcm8 = [],
          base8 = 0\<rparr>)"

definition resetLocked :: "phoneAudioBuffer \<Rightarrow> phoneAudioBuffer" where
  "resetLocked b = b\<lparr>haveTimeline := False, nextTimestamp := 0, resampler := resampler_reset (resampler b),
     fifo := fifo_reset (fifo b), elastic := elastic b @ [ResetTimeline], pcm8 := []\<rparr>"

definition count_reset :: "phoneAudioBuffer \<Rightarrow> phoneAudioBuffer" where
  "count_reset b = b\<lparr>b_stats := (b_stats b)\<lparr>TimelineResets := TimelineResets (b_stats b) + 1\<rparr>\<rparr>"

definition pushPCM8Locked :: "sample list \<Rightarrow> phoneAudioBuffer \<Rightarrow> phoneAudioBuffer" where
  "pushPCM8Locked pcm b =
     (let (r, resampled) = resampler_push (resampler b) pcm;
          (f, dropped) = fifo_push resampled (fifo b);
          b = b\<lparr>resampler := r, fifo := f, pcm8 := pcm8 b @ pcm\<rparr>;
          b = (if 0 < dropped
               then b\<lparr>b_stats := (b_stats b)\<lparr>FIFOOverflowSamples := FIFOOverflowSamples (b_stats b) + of_nat dropped\<rparr>,
                      elastic := elastic b @ [MarkOverflow]\<rparr>
               else b);
          n = of_nat (length (fifo_buf f))
      in if FIFOMaxSamples (b_stats b) < n then b\<lparr>b_stats := (b_stats b)\<lparr>FIFOMaxSamples := n\<rparr>\<rparr> else b)"

text \<open>The second half of \<open>Push\<close>: decode and append a payload that starts at RTP time \<open>ts\<close>.\<close>

definition accept_payload :: "u32 \<Rightarrow> byte list \<Rightarrow> phoneAudioBuffer \<Rightarrow> phoneAudioBuffer" where
  "accept_payload ts payload b =
     (let pcm = DecodePayload payload (codecName b) in
      if pcm = [] then b
      else let b = pushPCM8Locked pcm (b\<lparr>base8 := (if haveTimeline b then base8 b else ts)\<rparr>)
           in b\<lparr>haveTimeline := True, nextTimestamp := ts + of_nat (length payload), receivedAudio := True,
                b_stats := (b_stats b)\<lparr>PacketsAccepted := PacketsAccepted (b_stats b) + 1\<rparr>\<rparr>)"

definition buffer_push :: "sequencedPacket \<Rightarrow> phoneAudioBuffer \<Rightarrow> phoneAudioBuffer" where
  "buffer_push frame b =
     (let b = (if reset frame then count_reset (resetLocked b) else b);
          ts = Timestamp (seq_packet frame);
          payload = Payload (seq_packet frame)
      in if payload = [] then b
         else if \<not> haveTimeline b then accept_payload ts payload b
         else
           let delta = sint (ts - nextTimestamp b) in
           if 0 < delta \<and> delta \<le> maxInputGapSamples
           then let b = pushPCM8Locked (replicate (nat delta) 0) b;
                    b = b\<lparr>b_stats := (b_stats b)\<lparr>SilenceInsertedInput := SilenceInsertedInput (b_stats b) + of_int delta\<rparr>\<rparr>
                in accept_payload ts payload b
           else if maxInputGapSamples < delta then accept_payload ts payload (count_reset (resetLocked b))
           else if delta < 0
           then (let overlap = nat (- delta) in
                 if length payload \<le> overlap
                 then b\<lparr>b_stats := (b_stats b)\<lparr>PacketsDuplicateLate := PacketsDuplicateLate (b_stats b) + 1\<rparr>\<rparr>
                 else accept_payload (ts + of_nat overlap) (drop overlap payload) b)
           else accept_payload ts payload b)"

text \<open>A read by the elastic playout.\<close>

definition buffer_read :: "int \<Rightarrow> phoneAudioBuffer \<Rightarrow> phoneAudioBuffer" where
  "buffer_read n b = b\<lparr>fifo := fst (fifo_pop n (fifo b))\<rparr>"

definition MergeSequencerStats :: "audioBridgeStats \<Rightarrow> phoneAudioBuffer \<Rightarrow> phoneAudioBuffer" where
  "MergeSequencerStats st b = b\<lparr>b_stats := (b_stats b)\<lparr>
     PacketsDuplicateLate := PacketsDuplicateLate (b_stats b) + PacketsDuplicateLate st,
     PacketsReordered := PacketsReordered (b_stats b) + PacketsReordered st,
     SequenceGaps := SequenceGaps (b_stats b) + SequenceGaps st,
     TimelineResets := TimelineResets (b_stats b) + TimelineResets st,
     SSRCChanges := SSRCChanges (b_stats b) + SSRCChanges st\<rparr>\<rparr>"

definition ObserveRTPJitter :: "duration \<Rightarrow> phoneAudioBuffer \<Rightarrow> phoneAudioBuffer" where
  "ObserveRTPJitter d b =
     (let us = of_int (\<bar>d\<bar> div 1000) in
      if RTPJitterMaxUS (b_stats b) < us then b\<lparr>b_stats := (b_stats b)\<lparr>RTPJitterMaxUS := us\<rparr>\<rparr> else b)"

definition RecordBaichuanWrite :: "duration \<Rightarrow> phoneAudioBuffer \<Rightarrow> phoneAudioBuffer" where
  "RecordBaichuanWrite d b =
     (let us = of_int (max 0 d div 1000); st = b_stats b in
      b\<lparr>b_stats := st\<lparr>BaichuanBlocks := BaichuanBlocks st + 1, BaichuanWriteTotalUS := BaichuanWriteTotalUS st + us,
        BaichuanWriteMaxUS := max (BaichuanWriteMaxUS st) us\<rparr>\<rparr>)"

section \<open>The receive loop\<close>

text \<open>\<open>receivePhoneRTP\<close>: the state between two reads, and what a read timeout and a datagram do.  An
  address is an IP with a port; \<open>remote\<close> is the current RTP peer of the call, \<open>telephone_event\<close> the
  handler of DTMF packets (None for a nil handler), \<open>arrival\<close> and \<open>now\<close> the two readings of the clock.\<close>

record receiver =
  remoteIP :: string
  remote :: "(string \<times> nat) option"
  bridge :: phoneAudioBuffer
  sequencer :: rtpSequencer
  watchdog :: rtpWatchdog
  lastPacket :: time
  previousArrival :: time
  previousTimestamp :: u32
  previousSSRC :: u32

definition reorderFlushDelay :: duration where
  "reorderFlushDelay = 40000000"

definition push_frames :: "rtpSequencer \<times> sequencedPacket list \<Rightarrow> receiver \<Rightarrow> receiver" where
  "push_frames qf s = s\<lparr>sequencer := fst qf, bridge := fold buffer_push (snd qf) (bridge s)\<rparr>"

definition receive_timeout :: "time \<Rightarrow> receiver \<Rightarrow> watchdog_error + receiver" where
  "receive_timeout now s =
     (case watchdog_check (Some (watchdog s)) now of
        Some e \<Rightarrow> Inl e
      | None \<Rightarrow>
          Inr (if reorderFlushDelay \<le> now - lastPacket s then push_frames (FlushGap (sequencer s)) s else s))"

definition observe_arrival :: "packet \<Rightarrow> time \<Rightarrow> receiver \<Rightarrow> receiver" where
  "observe_arrival p arrival s =
     (let tsDelta = sint (Timestamp p - previousTimestamp s);
          expected = go_div (tsDelta * time_second) g711SampleRate
      in if previousArrival s \<noteq> 0 \<and> SSRC p = previousSSRC s \<and> 0 < tsDelta \<and> tsDelta \<le> g711SampleRate * 2
         then s\<lparr>bridge := ObserveRTPJitter (arrival - previousArrival s - expected) (bridge s)\<rparr> else s)"

definition receive_datagram ::
  "byte \<Rightarrow> (packet \<Rightarrow> bool) option \<Rightarrow> string \<times> nat \<Rightarrow> byte list \<Rightarrow> time \<Rightarrow> time \<Rightarrow> receiver \<Rightarrow> receiver" where
  "receive_datagram codecPT telephone_event a data arrival now s =
     (if fst a \<noteq> remoteIP s then s
      else case Parse data of
        Inl _ \<Rightarrow> s
      | Inr p \<Rightarrow>
          if Payload p = [] then s
          else if (case (telephone_event, remote s) of
                     (Some h, Some cur) \<Rightarrow> snd a = snd cur \<and> h p | _ \<Rightarrow> False) then s
          else if PayloadType p \<noteq> codecPT then s
          else
            let s = observe_arrival p arrival s;
                s = s\<lparr>previousArrival := arrival, previousTimestamp := Timestamp p, previousSSRC := SSRC p\<rparr>;
                s = (case remote s of
                       None \<Rightarrow> s\<lparr>remote := Some a\<rparr>
                     | Some cur \<Rightarrow> if snd a \<noteq> snd cur then s\<lparr>remote := Some a\<rparr> else s);
                s = s\<lparr>lastPacket := now, watchdog := (watchdog s)\<lparr>last_mark := now\<rparr>\<rparr>
            in push_frames (sequencer_push p (sequencer s)) s)"

text \<open>The pacing of the writer: the next send time after a block was written at \<open>now\<close>.\<close>

definition blockDuration :: "int \<Rightarrow> int \<Rightarrow> duration" where
  "blockDuration blockSamples outputRate = go_div (time_second * blockSamples) outputRate"

definition next_send :: "duration \<Rightarrow> time \<Rightarrow> time \<Rightarrow> time" where
  "next_send dur nextSend now = (if nextSend + dur \<le> now then now + dur else nextSend + dur)"

section \<open>The FIFO keeps the newest samples\<close>

lemma fifo_push_spec:
  assumes "length (fifo_buf f) \<le> fifo_max f" "0 < fifo_max f"
  shows "fst (fifo_push xs f) = f\<lparr>fifo_buf := lastn (fifo_max f) (fifo_buf f @ xs)\<rparr>"
    and "snd (fifo_push xs f) = length (fifo_buf f) + length xs - fifo_max f"
  using assms by (auto simp: fifo_push_def lastn_def Let_def)

lemma fifo_pop_suffix: "suffix (fifo_buf (fst (fifo_pop n f))) (fifo_buf f) \<and> fifo_max (fst (fifo_pop n f)) = fifo_max f"
  by (auto simp: fifo_pop_def Let_def suffix_drop)

lemma suffix_lastn: "suffix (lastn n xs) xs"
  by (simp add: lastn_def suffix_drop)

section \<open>The resampler against its reference\<close>

text \<open>The reference: the value at tick \<open>t\<close> (in units of one \<open>rate * 8000\<close>-th of a second) on the line between the
  two neighbouring input samples, and all output ticks before the last input sample.\<close>

definition interpolate :: "int \<Rightarrow> sample list \<Rightarrow> nat \<Rightarrow> sample" where
  "interpolate rate xs t =
     (let j = t div nat rate; num = int (t mod nat rate)
      in xs ! j + go_div ((xs ! (j + 1) - xs ! j) * num) rate)"

definition resample_ref :: "int \<Rightarrow> sample list \<Rightarrow> sample list" where
  "resample_ref rate xs =
     (if rate = 8000 then xs
      else map (\<lambda>k. interpolate rate xs (k * 8000))
        [0..<nat ((int (length xs - 1) * rate + 7999) div 8000)])"

definition ticks_before :: "int \<Rightarrow> sample list \<Rightarrow> nat" where
  "ticks_before rate xs = nat ((int (length xs - 1) * rate + 7999) div 8000)"

lemma ticks_before_bounds:
  assumes "0 \<le> rate"
  shows "int (length xs - 1) * rate \<le> 8000 * int (ticks_before rate xs)"
    and "8000 * int (ticks_before rate xs) < int (length xs - 1) * rate + 8000"
proof -
  have "0 \<le> int (length xs - 1) * rate" using assms by simp
  then show "int (length xs - 1) * rate \<le> 8000 * int (ticks_before rate xs)"
    and "8000 * int (ticks_before rate xs) < int (length xs - 1) * rate + 8000"
    unfolding ticks_before_def by linarith+
qed

lemma clamped_value:
  assumes "is_int16 p" "is_int16 c" "0 \<le> num" "num \<le> rate" "0 < rate"
  shows "int16 (clamp16 (p + go_div ((c - p) * num) rate)) = p + go_div ((c - p) * num) rate"
proof -
  let ?g = "go_div ((c - p) * num) rate"
  have "is_int16 (p + ?g)"
  proof (cases "p \<le> c")
    case True
    have "(c - p) * num \<le> (c - p) * rate" using True assms by (intro mult_left_mono) auto
    then have "0 \<le> ?g" "?g \<le> c - p"
      using True assms zdiv_mono1 [of "(c - p) * num" "(c - p) * rate" rate] by (auto simp: pos_imp_zdiv_nonneg_iff)
    then show ?thesis using assms(1,2) unfolding is_int16_def by linarith
  next
    case False
    have eq: "- ((c - p) * num) = (p - c) * num" by (simp add: algebra_simps)
    have "(p - c) * num \<le> (p - c) * rate" "0 \<le> (p - c) * num"
      using False assms by (auto intro: mult_left_mono)
    then have b: "0 \<le> (p - c) * num div rate" "(p - c) * num div rate \<le> p - c"
      using assms zdiv_mono1 [of "(p - c) * num" "(p - c) * rate" rate] by (auto simp: pos_imp_zdiv_nonneg_iff)
    have "- (p - c) \<le> ?g \<and> ?g \<le> 0"
      using b False assms by (auto simp: go_div_def eq zero_le_mult_iff)
    then show ?thesis using assms(1,2) unfolding is_int16_def by linarith
  qed
  then show ?thesis by (simp add: int16_id clamp16_def is_int16_def)
qed

lemma emit_ticks_spec:
  assumes "is_int16 p" "is_int16 cur" "E = S + rate" "0 < rate" "S \<le> 8000 * int k"
  shows "\<exists>k'. k \<le> k' \<and> E \<le> 8000 * int k' \<and> (k' = k \<or> 8000 * int k' < E + 8000)
    \<and> emit_ticks rate p cur S E (8000 * int k) =
        (map (\<lambda>j. p + go_div ((cur - p) * (8000 * int j - S)) rate) [k..<k'], 8000 * int k')"
  using assms(5)
proof (induction "nat (E - 8000 * int k)" arbitrary: k rule: less_induct)
  case less
  show ?case
  proof (cases "8000 * int k < E")
    case True
    have next_tick: "8000 * int k + 8000 = 8000 * int (Suc k)" by simp
    obtain k' where k': "Suc k \<le> k'" "E \<le> 8000 * int k'" "k' = Suc k \<or> 8000 * int k' < E + 8000"
      "emit_ticks rate p cur S E (8000 * int (Suc k)) =
        (map (\<lambda>j. p + go_div ((cur - p) * (8000 * int j - S)) rate) [Suc k..<k'], 8000 * int k')"
      using less(1) [of "Suc k"] True less(2) by fastforce
    have "int16 (clamp16 (p + go_div ((cur - p) * (8000 * int k - S)) rate)) = p + go_div ((cur - p) * (8000 * int k - S)) rate"
      using True less(2) assms by (intro clamped_value) auto
    then have "emit_ticks rate p cur S E (8000 * int k) =
        (map (\<lambda>j. p + go_div ((cur - p) * (8000 * int j - S)) rate) [k..<k'], 8000 * int k')"
      using True less(2) k'(1) by (subst emit_ticks.simps)
        (simp add: g711SampleRate_def next_tick k'(4) [simplified] upt_conv_Cons Let_def)
    then show ?thesis using k' True by (intro exI [of _ k']) auto
  next
    case False
    then show ?thesis by (intro exI [of _ k]) (simp add: emit_ticks.simps)
  qed
qed

text \<open>The state of the resampler after the samples \<open>xs\<close>.\<close>

definition tracks :: "int \<Rightarrow> linearResampler \<Rightarrow> sample list \<Rightarrow> bool" where
  "tracks rate r xs \<longleftrightarrow> outRate r = rate \<and>
     (rate \<noteq> 8000 \<longrightarrow>
       (if xs = [] then \<not> havePrev r
        else havePrev r \<and> prev r = last xs \<and> sourceIndex r = int (length xs - 1)
          \<and> nextOutTick r = 8000 * int (ticks_before rate xs)))"

lemma resample_ref_ticks:
  "rate \<noteq> 8000 \<Longrightarrow> resample_ref rate xs = map (\<lambda>k. interpolate rate xs (k * 8000)) [0..<ticks_before rate xs]"
  by (simp add: resample_ref_def ticks_before_def)

lemma interpolate_at:
  assumes "0 < rate" "int j * rate \<le> int t" "int t < (int j + 1) * rate"
  shows "interpolate rate xs t = xs ! j + go_div ((xs ! (j + 1) - xs ! j) * (int t - int j * rate)) rate"
proof -
  obtain n where n: "rate = int n" "0 < n" using assms(1) by (metis zero_less_imp_eq_int)
  have lo: "j * n \<le> t" using assms(2) unfolding n by (metis of_nat_le_iff of_nat_mult)
  have hi: "t < (j + 1) * n" using assms(3) unfolding n by (metis of_nat_1 of_nat_add of_nat_less_iff of_nat_mult)
  have "t div n = j" using lo hi by (metis Suc_eq_plus1 div_nat_eqI mult.commute)
  moreover from this have "int (t mod n) = int t - int j * int n"
    using div_mult_mod_eq [of t n] by (metis add_diff_cancel_left' of_nat_add of_nat_mult)
  ultimately show ?thesis by (simp add: interpolate_def n Let_def)
qed

lemma resample_step_spec:
  assumes t: "tracks rate r xs" and rate: "0 < rate" "rate \<noteq> 8000" and i16: "\<forall>x \<in> set (xs @ [cur]). is_int16 x"
    and step: "resample_step r cur = (r', out)"
  shows "tracks rate r' (xs @ [cur]) \<and> resample_ref rate (xs @ [cur]) = resample_ref rate xs @ out"
proof (cases "xs = []")
  case True
  then show ?thesis
    using assms by (auto simp: tracks_def resample_step_def resample_ref_ticks ticks_before_def)
next
  case False
  define n where "n = length xs - 1"
  let ?k = "ticks_before rate xs" and ?S = "int n * rate" and ?E = "(int n + 1) * rate"
  have len: "length xs = n + 1" using False by (simp add: n_def)
  have st: "havePrev r" "prev r = xs ! n" "sourceIndex r = int n" "nextOutTick r = 8000 * int ?k" "outRate r = rate"
    using t False rate by (auto simp: tracks_def n_def last_conv_nth)
  have b: "?S \<le> 8000 * int ?k" using ticks_before_bounds [of rate xs] rate by (simp add: n_def)
  have "is_int16 (xs ! n)" "is_int16 cur" using i16 len by auto
  then obtain k' where k': "?k \<le> k'" "?E \<le> 8000 * int k'" "k' = ?k \<or> 8000 * int k' < ?E + 8000"
    "emit_ticks rate (xs ! n) cur ?S ?E (8000 * int ?k) =
      (map (\<lambda>j. xs ! n + go_div ((cur - xs ! n) * (8000 * int j - ?S)) rate) [?k..<k'], 8000 * int k')"
    using emit_ticks_spec [OF _ _ _ rate(1) b, of "xs ! n" cur ?E] by (auto simp: algebra_simps)
  have bk: "8000 * int ?k < ?S + 8000" using ticks_before_bounds [of rate xs] rate by (simp add: n_def)
  have "int (length (xs @ [cur]) - 1) = int n + 1" by (simp add: len)
  then have nk: "ticks_before rate (xs @ [cur]) = k'"
    using ticks_before_bounds [of rate "xs @ [cur]"] rate k'(1-3) bk by (auto simp: algebra_simps)
  have r': "r' = r\<lparr>sourceIndex := int n + 1, nextOutTick := 8000 * int k', prev := cur\<rparr>"
    and out: "out = map (\<lambda>j. xs ! n + go_div ((cur - xs ! n) * (8000 * int j - ?S)) rate) [?k..<k']"
    using step by (auto simp: resample_step_def st k'(4) Let_def)
  have old: "interpolate rate (xs @ [cur]) (j * 8000) = interpolate rate xs (j * 8000)" if "j < ?k" for j
  proof -
    obtain m where m: "rate = int m" "0 < m" using rate(1) by (metis zero_less_imp_eq_int)
    have "8000 * int j < ?S" using that bk by linarith
    then have "j * 8000 < n * m" unfolding m by (metis mult.commute of_nat_less_iff of_nat_mult of_nat_numeral)
    then have "j * 8000 div m < n" using m by (simp add: div_less_iff_less_mult)
    then show ?thesis by (simp add: interpolate_def Let_def m nth_append len)
  qed
  have new: "interpolate rate (xs @ [cur]) (j * 8000) = xs ! n + go_div ((cur - xs ! n) * (8000 * int j - ?S)) rate"
    if "?k \<le> j" "j < k'" for j
    using interpolate_at [OF rate(1), of n "j * 8000" "xs @ [cur]"] that k'(3) b
    by (simp add: nth_append len mult.commute)
  have "[0..<k'] = [0..<?k] @ [?k..<k']" using upt_add_eq_append [of 0 ?k "k' - ?k"] k'(1) by simp
  then have "resample_ref rate (xs @ [cur]) = resample_ref rate xs @ out"
    unfolding resample_ref_ticks [OF rate(2)] nk out using old new by simp
  then show ?thesis by (simp add: tracks_def r' st nk len)
qed

lemma resample_loop_spec:
  assumes "tracks rate r xs" "0 < rate" "rate \<noteq> 8000" "\<forall>x \<in> set (xs @ ys). is_int16 x"
    and "resample_loop r ys = (r', out)"
  shows "tracks rate r' (xs @ ys) \<and> resample_ref rate (xs @ ys) = resample_ref rate xs @ out"
  using assms
proof (induction ys arbitrary: r xs out)
  case (Cons y ys)
  obtain r1 o1 where s: "resample_step r y = (r1, o1)" by fastforce
  obtain o2 where l: "resample_loop r1 ys = (r', o2)" "out = o1 @ o2"
    using Cons.prems(5) by (auto simp: s split: prod.splits)
  have "tracks rate r1 (xs @ [y]) \<and> resample_ref rate (xs @ [y]) = resample_ref rate xs @ o1"
    using Cons.prems by (intro resample_step_spec [OF _ _ _ _ s]) auto
  then show ?case using Cons.IH [of r1 "xs @ [y]" o2] Cons.prems l by simp
qed simp

lemma resampler_push_spec:
  assumes "tracks rate r xs" "0 < rate" "\<forall>x \<in> set (xs @ ys). is_int16 x"
    and "resampler_push r ys = (r', out)"
  shows "tracks rate r' (xs @ ys) \<and> resample_ref rate (xs @ ys) = resample_ref rate xs @ out"
proof (cases "ys = [] \<or> rate = 8000")
  case True
  then show ?thesis using assms
    by (auto simp: resampler_push_def tracks_def resample_ref_def g711SampleRate_def split: if_splits)
next
  case False
  then have "resample_loop r ys = (r', out)" using assms by (auto simp: resampler_push_def tracks_def g711SampleRate_def)
  then show ?thesis using resample_loop_spec assms False by blast
qed

lemma tracks_new: "newLinearResampler rate = Inr r \<Longrightarrow> tracks rate r [] \<and> 0 < rate"
  by (auto simp: newLinearResampler_def tracks_def g711SampleRate_def split: if_splits)

lemma tracks_reset: "tracks rate r xs \<Longrightarrow> tracks rate (resampler_reset r) []"
  by (auto simp: tracks_def resampler_reset_def)

lemma resample_ref_Nil [simp]: "resample_ref rate [] = []"
  by (simp add: resample_ref_def)

lemma resampler_run_spec:
  assumes "tracks rate r xs" "0 < rate" "\<forall>x \<in> set (xs @ concat chunks). is_int16 x"
    and "run_pushes resampler_push r chunks = (r', out)"
  shows "tracks rate r' (xs @ concat chunks) \<and> resample_ref rate (xs @ concat chunks) = resample_ref rate xs @ out"
  using assms
proof (induction chunks arbitrary: r xs out)
  case (Cons c chunks)
  obtain r1 o1 where s: "resampler_push r c = (r1, o1)" by fastforce
  obtain o2 where l: "run_pushes resampler_push r1 chunks = (r', o2)" "out = o1 @ o2"
    using Cons.prems(4) by (auto simp: s split: prod.splits)
  have "tracks rate r1 (xs @ c) \<and> resample_ref rate (xs @ c) = resample_ref rate xs @ o1"
    using Cons.prems by (intro resampler_push_spec [OF _ _ _ s]) auto
  then show ?case using Cons.IH [of r1 "xs @ c" o2] Cons.prems l by simp
qed simp

text \<open> The streaming resampler computes linear interpolation, whatever packets the audio comes in: from a
  fresh resampler of any rate the constructor accepts, the samples put out for a sequence of chunks are exactly
  the interpolation of the whole input at every output tick before its last sample (the input itself at 8 kHz),
  with no clamping, drift or seam at a packet boundary.\<close>

lemma resampler_is_interpolation:
  assumes "newLinearResampler rate = Inr r" "\<forall>x \<in> set (concat chunks). is_int16 x"
  shows "snd (run_pushes resampler_push r chunks) = resample_ref rate (concat chunks)"
proof -
  obtain r' out where run: "run_pushes resampler_push r chunks = (r', out)" by fastforce
  then show ?thesis using resampler_run_spec [of rate r "[]" chunks r' out] tracks_new [OF assms(1)] assms(2) by simp
qed

section \<open>The buffer on the RTP timeline\<close>

lemma decoded_payload:
  assumes "codec \<in> {PCMA, PCMU}"
  shows "length (DecodePayload p codec) = length p" and "\<forall>x \<in> set (DecodePayload p codec). is_int16 x"
  using assms decode_is_int16 by (auto simp: DecodePayload_def codec_names)

definition buffer_inv :: "int \<Rightarrow> nat \<Rightarrow> phoneAudioBuffer \<Rightarrow> bool" where
  "buffer_inv rate m b \<longleftrightarrow>
     codecName b \<in> {PCMA, PCMU} \<and> 0 < rate \<and> 0 < m \<and> fifo_max (fifo b) = m
     \<and> tracks rate (resampler b) (pcm8 b) \<and> (\<forall>x \<in> set (pcm8 b). is_int16 x)
     \<and> suffix (fifo_buf (fifo b)) (resample_ref rate (pcm8 b)) \<and> length (fifo_buf (fifo b)) \<le> m
     \<and> (if haveTimeline b then nextTimestamp b = base8 b + of_nat (length (pcm8 b)) else pcm8 b = [])"

text \<open>The same without the timeline, which is restored at the end of a push.\<close>

definition audio_inv :: "int \<Rightarrow> nat \<Rightarrow> phoneAudioBuffer \<Rightarrow> bool" where
  "audio_inv rate m b \<longleftrightarrow>
     codecName b \<in> {PCMA, PCMU} \<and> 0 < rate \<and> 0 < m \<and> fifo_max (fifo b) = m
     \<and> tracks rate (resampler b) (pcm8 b) \<and> (\<forall>x \<in> set (pcm8 b). is_int16 x)
     \<and> suffix (fifo_buf (fifo b)) (resample_ref rate (pcm8 b)) \<and> length (fifo_buf (fifo b)) \<le> m"

lemma buffer_inv_audio:
  "buffer_inv rate m b \<longleftrightarrow> audio_inv rate m b
     \<and> (if haveTimeline b then nextTimestamp b = base8 b + of_nat (length (pcm8 b)) else pcm8 b = [])"
  by (simp add: buffer_inv_def audio_inv_def)

lemma push8_simps [simp]:
  "pcm8 (pushPCM8Locked pcm b) = pcm8 b @ pcm" "codecName (pushPCM8Locked pcm b) = codecName b"
  "haveTimeline (pushPCM8Locked pcm b) = haveTimeline b" "nextTimestamp (pushPCM8Locked pcm b) = nextTimestamp b"
  "base8 (pushPCM8Locked pcm b) = base8 b"
  "resampler (pushPCM8Locked pcm b) = fst (resampler_push (resampler b) pcm)"
  "fifo (pushPCM8Locked pcm b) = fst (fifo_push (snd (resampler_push (resampler b) pcm)) (fifo b))"
  by (auto simp: pushPCM8Locked_def Let_def split: prod.splits)

lemma push8_inv:
  assumes "audio_inv rate m b" "\<forall>x \<in> set pcm. is_int16 x"
  shows "audio_inv rate m (pushPCM8Locked pcm b)"
proof -
  obtain r out where r: "resampler_push (resampler b) pcm = (r, out)" by fastforce
  have t: "tracks rate r (pcm8 b @ pcm) \<and> resample_ref rate (pcm8 b @ pcm) = resample_ref rate (pcm8 b) @ out"
    using assms by (intro resampler_push_spec [OF _ _ _ r]) (auto simp: audio_inv_def)
  obtain pre where pre: "resample_ref rate (pcm8 b) = pre @ fifo_buf (fifo b)"
    using assms(1) by (auto simp: audio_inv_def suffix_def)
  have "suffix (lastn m (fifo_buf (fifo b) @ out)) (fifo_buf (fifo b) @ out)" by (rule suffix_lastn)
  then have "suffix (lastn m (fifo_buf (fifo b) @ out)) (resample_ref rate (pcm8 b @ pcm))"
    using t pre by (simp add: suffix_order.trans [OF _ suffixI])
  moreover have "fst (fifo_push out (fifo b)) = (fifo b)\<lparr>fifo_buf := lastn m (fifo_buf (fifo b) @ out)\<rparr>"
    using fifo_push_spec(1) [of "fifo b" out] assms(1) by (auto simp: audio_inv_def)
  ultimately show ?thesis using assms t by (auto simp: audio_inv_def r)
qed

lemma reset_inv: "audio_inv rate m b \<Longrightarrow> audio_inv rate m (count_reset (resetLocked b))"
  by (auto simp: audio_inv_def count_reset_def resetLocked_def fifo_reset_def intro: tracks_reset)

lemma audio_inv_frame [simp]:
  "audio_inv rate m (b\<lparr>b_stats := st\<rparr>) = audio_inv rate m b" "audio_inv rate m (b\<lparr>base8 := t\<rparr>) = audio_inv rate m b"
  "audio_inv rate m (b\<lparr>haveTimeline := h\<rparr>) = audio_inv rate m b" "audio_inv rate m (b\<lparr>nextTimestamp := n\<rparr>) = audio_inv rate m b"
  "audio_inv rate m (b\<lparr>receivedAudio := x\<rparr>) = audio_inv rate m b"
  by (simp_all add: audio_inv_def)

text \<open>Accepting a payload that starts where the timeline stands, or on a fresh timeline.\<close>

lemma accept_spec:
  assumes inv: "audio_inv rate m b" and p: "payload \<noteq> []"
    and at: "if haveTimeline b then ts = base8 b + of_nat (length (pcm8 b)) else pcm8 b = []"
  shows "buffer_inv rate m (accept_payload ts payload b)"
    and "pcm8 (accept_payload ts payload b) = pcm8 b @ DecodePayload payload (codecName b)"
    and "haveTimeline (accept_payload ts payload b)"
proof -
  have c: "codecName b \<in> {PCMA, PCMU}" using inv by (simp add: audio_inv_def)
  note d = decoded_payload [OF c, of payload]
  have ne: "DecodePayload payload (codecName b) \<noteq> []" using d(1) p by auto
  then have b': "accept_payload ts payload b =
      (pushPCM8Locked (DecodePayload payload (codecName b)) (b\<lparr>base8 := (if haveTimeline b then base8 b else ts)\<rparr>))
      \<lparr>haveTimeline := True, nextTimestamp := ts + of_nat (length payload), receivedAudio := True,
        b_stats := (b_stats (pushPCM8Locked (DecodePayload payload (codecName b)) (b\<lparr>base8 := (if haveTimeline b then base8 b else ts)\<rparr>)))
          \<lparr>PacketsAccepted := PacketsAccepted (b_stats (pushPCM8Locked (DecodePayload payload (codecName b)) (b\<lparr>base8 := (if haveTimeline b then base8 b else ts)\<rparr>))) + 1\<rparr>\<rparr>"
    by (simp only: accept_payload_def Let_def if_False)
  show "pcm8 (accept_payload ts payload b) = pcm8 b @ DecodePayload payload (codecName b)"
    "haveTimeline (accept_payload ts payload b)" by (simp_all add: b')
  have "audio_inv rate m (pushPCM8Locked (DecodePayload payload (codecName b)) (b\<lparr>base8 := (if haveTimeline b then base8 b else ts)\<rparr>))"
    using inv d(2) by (intro push8_inv) simp_all
  then show "buffer_inv rate m (accept_payload ts payload b)"
    using at d(1) unfolding buffer_inv_audio b' by (auto simp: algebra_simps split: if_splits)
qed

text \<open>What the packet of a frame adds to a running timeline: silence for a gap of at most 200 ms, nothing for what
  has been played, else all of it.\<close>

definition placed :: "phoneAudioBuffer \<Rightarrow> packet \<Rightarrow> sample list" where
  "placed b p =
     (let delta = sint (Timestamp p - nextTimestamp b) in
      if 0 \<le> delta then replicate (nat delta) 0 @ DecodePayload (Payload p) (codecName b)
      else DecodePayload (drop (nat (- delta)) (Payload p)) (codecName b))"

lemma nat_sint_word:
  assumes "0 \<le> sint (w :: u32)"
  shows "of_nat (nat (sint w)) = w" "of_int (sint w) = w"
  using assms by (simp_all add: of_nat_nat)

lemma sint_neg_word: "sint (w :: u32) < 0 \<Longrightarrow> of_nat (nat (- sint w)) = - w"
  by (simp add: of_nat_nat)

lemma frame_spec:
  assumes inv: "buffer_inv rate m b" and pay: "Payload p \<noteq> []"
  shows "buffer_inv rate m (buffer_push \<lparr>seq_packet = p, reset = False\<rparr> b)"
    and "haveTimeline b \<Longrightarrow> sint (Timestamp p - nextTimestamp b) \<le> 1600 \<Longrightarrow>
      pcm8 (buffer_push \<lparr>seq_packet = p, reset = False\<rparr> b) = pcm8 b @ placed b p"
proof -
  let ?ts = "Timestamp p" and ?pay = "Payload p" and ?b' = "buffer_push \<lparr>seq_packet = p, reset = False\<rparr> b"
  let ?delta = "sint (?ts - nextTimestamp b)"
  have a: "audio_inv rate m b" using inv by (simp add: buffer_inv_audio)
  have goal: "buffer_inv rate m ?b' \<and> (haveTimeline b \<longrightarrow> ?delta \<le> 1600 \<longrightarrow> pcm8 ?b' = pcm8 b @ placed b p)"
  proof (cases "haveTimeline b")
    case False
    then have "?b' = accept_payload ?ts ?pay b" using pay by (simp add: buffer_push_def Let_def)
    then show ?thesis using accept_spec(1) [OF a pay] inv False by (simp add: buffer_inv_audio)
  next
    case True
    then have next_ts: "nextTimestamp b = base8 b + of_nat (length (pcm8 b))" using inv by (simp add: buffer_inv_audio)
    consider "?delta = 0" | "0 < ?delta" "?delta \<le> 1600" | "1600 < ?delta" | "?delta < 0" by linarith
    then show ?thesis
    proof cases
      case 1
      then have "?ts = nextTimestamp b" using nat_sint_word(2) [of "?ts - nextTimestamp b"] by simp
      then have "?b' = accept_payload ?ts ?pay b" "?ts = base8 b + of_nat (length (pcm8 b))"
        using pay True next_ts by (simp_all add: buffer_push_def Let_def maxInputGapSamples_def)
      then show ?thesis using accept_spec(1,2) [OF a pay, of ?ts] True 1 by (simp add: placed_def)
    next
      case 2
      define c where "c = (pushPCM8Locked (replicate (nat ?delta) 0) b)"
      define c' where "c' = c\<lparr>b_stats := (b_stats c)\<lparr>SilenceInsertedInput := SilenceInsertedInput (b_stats c) + of_int ?delta\<rparr>\<rparr>"
      have b': "?b' = accept_payload ?ts ?pay c'"
        using 2 pay True by (simp add: buffer_push_def Let_def maxInputGapSamples_def c'_def c_def)
      have "audio_inv rate m c'" using push8_inv [OF a] by (simp add: c'_def c_def)
      moreover have "haveTimeline c'" "pcm8 c' = pcm8 b @ replicate (nat ?delta) 0" "base8 c' = base8 b" "codecName c' = codecName b"
        using True by (simp_all add: c'_def c_def)
      moreover have "?ts = base8 b + of_nat (length (pcm8 b @ replicate (nat ?delta) 0))"
        using nat_sint_word(1) [of "?ts - nextTimestamp b"] 2 next_ts by (simp add: algebra_simps)
      ultimately show ?thesis using accept_spec(1,2) [of rate m c' ?pay ?ts] pay 2 True by (simp add: b' placed_def)
    next
      case 3
      then have "?b' = accept_payload ?ts ?pay (count_reset (resetLocked b))"
        using pay True by (simp add: buffer_push_def Let_def maxInputGapSamples_def)
      then show ?thesis
        using accept_spec(1) [OF reset_inv [OF a] pay] 3 by (simp add: count_reset_def resetLocked_def)
    next
      case 4
      let ?o = "nat (- ?delta)"
      show ?thesis
      proof (cases "length ?pay \<le> ?o")
        case True
        then have "?b' = b\<lparr>b_stats := (b_stats b)\<lparr>PacketsDuplicateLate := PacketsDuplicateLate (b_stats b) + 1\<rparr>\<rparr>"
          using 4 pay \<open>haveTimeline b\<close> by (simp add: buffer_push_def Let_def maxInputGapSamples_def)
        moreover have "placed b p = []" using True 4 by (simp add: placed_def DecodePayload_def)
        ultimately show ?thesis using inv by (simp add: buffer_inv_audio)
      next
        case False
        then have b': "?b' = accept_payload (?ts + of_nat ?o) (drop ?o ?pay) b" "drop ?o ?pay \<noteq> []"
          using 4 pay \<open>haveTimeline b\<close> by (simp_all add: buffer_push_def Let_def maxInputGapSamples_def)
        have "?ts + of_nat ?o = base8 b + of_nat (length (pcm8 b))"
          using sint_neg_word [OF 4] next_ts by simp
        then show ?thesis using accept_spec(1,2) [OF a b'(2)] 4 \<open>haveTimeline b\<close> by (simp add: b'(1) placed_def)
      qed
    qed
  qed
  then show "buffer_inv rate m ?b'"
    "haveTimeline b \<Longrightarrow> sint (Timestamp p - nextTimestamp b) \<le> 1600 \<Longrightarrow> pcm8 ?b' = pcm8 b @ placed b p"
    by blast+
qed

lemma buffer_push_reset:
  "buffer_push \<lparr>seq_packet = p, reset = True\<rparr> b
     = buffer_push \<lparr>seq_packet = p, reset = False\<rparr> (count_reset (resetLocked b))"
  by (simp add: buffer_push_def Let_def)

lemma buffer_push_inv: "buffer_inv rate m b \<Longrightarrow> buffer_inv rate m (buffer_push f b)"
proof -
  have "buffer_inv rate m (buffer_push \<lparr>seq_packet = p, reset = False\<rparr> b)" if "buffer_inv rate m b" for p b
    using frame_spec(1) [OF that] that by (cases "Payload p = []") (auto simp: buffer_push_def)
  moreover assume "buffer_inv rate m b"
  moreover from this have "buffer_inv rate m (count_reset (resetLocked b))"
    using reset_inv by (simp add: buffer_inv_audio count_reset_def resetLocked_def)
  ultimately show ?thesis by (cases f; cases "reset f") (simp_all add: buffer_push_reset)
qed

lemma buffer_read_inv: "buffer_inv rate m b \<Longrightarrow> buffer_inv rate m (buffer_read n b)"
  using fifo_pop_suffix [of n "fifo b"]
  by (auto simp: buffer_inv_def buffer_read_def dest: suffix_length_le intro: suffix_order.trans)

datatype buffer_event = Frame sequencedPacket | Read int

fun apply_event :: "buffer_event \<Rightarrow> phoneAudioBuffer \<Rightarrow> phoneAudioBuffer" where
  "apply_event (Frame f) b = buffer_push f b"
| "apply_event (Read n) b = buffer_read n b"

lemma buffer_run_inv: "buffer_inv rate m b \<Longrightarrow> buffer_inv rate m (fold apply_event evs b)"
proof (induction evs arbitrary: b)
  case (Cons e evs)
  have "buffer_inv rate m (apply_event e b)"
    using Cons.prems by (cases e) (auto intro: buffer_push_inv buffer_read_inv)
  then show ?case using Cons.IH by simp
qed simp

lemma buffer_new_inv:
  "newPhoneAudioBuffer codec rate n = Inr b \<Longrightarrow> buffer_inv rate (nat (max 1 (n * 4))) b"
  using tracks_new
  by (auto simp: newPhoneAudioBuffer_def buffer_inv_def newSampleFIFO_def max_def split: if_splits sum.splits)

text \<open>C36.  The phone audio stays on the RTP timeline and its latency stays bounded.  After any frames of the
  sequencer and any reads of the playout, in any order: the FIFO holds at most four camera blocks, and what it
  holds is the newest part of the resampled audio since the last timeline reset; that audio has exactly one 8 kHz
  sample per tick of RTP time since its first packet; and the next packet lands at its own RTP time: a gap of up
  to 200 ms is filled with silence, samples already played are cut off, a larger gap starts over.\<close>

theorem phone_audio_on_timeline:
  assumes "newPhoneAudioBuffer codec rate n = Inr b0" "b = fold apply_event evs b0"
  shows "int (length (fifo_buf (fifo b))) \<le> max 1 (n * 4)
    \<and> suffix (fifo_buf (fifo b)) (resample_ref rate (pcm8 b))
    \<and> (haveTimeline b \<longrightarrow> nextTimestamp b = base8 b + of_nat (length (pcm8 b)))
    \<and> (haveTimeline b \<and> Payload p \<noteq> [] \<and> sint (Timestamp p - nextTimestamp b) \<le> 1600 \<longrightarrow>
         pcm8 (buffer_push \<lparr>seq_packet = p, reset = False\<rparr> b) = pcm8 b @ placed b p)
    \<and> (haveTimeline b \<and> Payload p \<noteq> [] \<and> 1600 < sint (Timestamp p - nextTimestamp b) \<longrightarrow>
         pcm8 (buffer_push \<lparr>seq_packet = p, reset = False\<rparr> b) = DecodePayload (Payload p) (codecName b))"
proof -
  note inv = buffer_run_inv [OF buffer_new_inv [OF assms(1)], of evs, folded assms(2)]
  have "pcm8 (buffer_push \<lparr>seq_packet = p, reset = False\<rparr> b) = DecodePayload (Payload p) (codecName b)"
    if "haveTimeline b" "Payload p \<noteq> []" "1600 < sint (Timestamp p - nextTimestamp b)"
  proof -
    have "audio_inv rate (nat (max 1 (n * 4))) (count_reset (resetLocked b))"
      using inv by (simp add: buffer_inv_audio reset_inv)
    then show ?thesis
      using accept_spec(2) [of rate _ "count_reset (resetLocked b)" "Payload p" "Timestamp p"] that
      by (simp add: buffer_push_def Let_def maxInputGapSamples_def count_reset_def resetLocked_def)
  qed
  then show ?thesis
    using inv frame_spec(2) [OF inv, of p] by (auto simp: buffer_inv_def)
qed

definition speech_packet :: "u32 \<Rightarrow> byte list \<Rightarrow> packet" where
  "speech_packet ts pay = \<lparr>PayloadType = 8, Marker = False, Sequence = 1, Timestamp = ts, SSRC = 7, Payload = pay\<rparr>"

definition fresh_buffer :: phoneAudioBuffer where
  "fresh_buffer = \<lparr>codecName = PCMA, resampler = \<lparr>outRate = 8000, havePrev = False, prev = 0, sourceIndex = 0, nextOutTick = 0\<rparr>,
     fifo = \<lparr>fifo_buf = [], fifo_max = 8\<rparr>, elastic = [], b_stats = stats_zero, haveTimeline = False, nextTimestamp = 0,
     receivedAudio = False, pcm8 = [], base8 = 0\<rparr>"

theorem phone_audio_on_timeline_witness:
  "suffix (fifo_buf (fifo (fold apply_event [Frame \<lparr>seq_packet = speech_packet 5 [0xD5, 0x55], reset = True\<rparr>, Read 1] fresh_buffer)))
     (resample_ref 8000 (pcm8 (fold apply_event [Frame \<lparr>seq_packet = speech_packet 5 [0xD5, 0x55], reset = True\<rparr>, Read 1] fresh_buffer)))"
proof -
  have "newPhoneAudioBuffer PCMA 8000 2 = Inr fresh_buffer"
    by (simp add: newPhoneAudioBuffer_def newLinearResampler_def newSampleFIFO_def fresh_buffer_def g711SampleRate_def)
  from phone_audio_on_timeline [OF this refl] show ?thesis by blast
qed

section \<open>The order of the sequencer\<close>

lemma ahead_of_nat: "n < 32768 \<Longrightarrow> ahead e (e + of_nat n) = int n"
  by (simp add: ahead_def signed_of_nat signed_take_bit_int_eq_self)

lemma ahead_split:
  assumes "0 \<le> ahead e s"
  shows "s = e + of_nat (nat (ahead e s))" and "nat (ahead e s) < 32768"
proof -
  have "of_nat (nat (sint (s - e))) = (of_int (sint (s - e)) :: u16)"
    using assms by (simp add: ahead_def of_nat_nat)
  then show "s = e + of_nat (nat (ahead e s))" by (simp add: ahead_def)
  have "sint (s - e) < 2 ^ 15" using sint_lt [of "s - e"] by simp
  then show "nat (ahead e s) < 32768" by (simp add: ahead_def)
qed

text \<open>The pending packets are keyed by their sequence number, of the current source, and at most \<open>b\<close> ahead.\<close>

definition pending_ok :: "int \<Rightarrow> rtpSequencer \<Rightarrow> bool" where
  "pending_ok b q \<longleftrightarrow> (\<forall>s p. pending q s = Some p \<longrightarrow> Sequence p = s \<and> SSRC p = q_ssrc q
     \<and> 0 \<le> ahead (expected q) s \<and> ahead (expected q) s \<le> b)"

lemma drain_spec:
  assumes "pending_ok b q" "drain rf q = (q', out)"
  shows "expected q' = expected q + of_nat (length out) \<and> pending q' (expected q') = None \<and> pending_ok b q'
    \<and> (\<forall>k < length out. pending q (expected q + of_nat k) = Some (seq_packet (out ! k))
         \<and> reset (out ! k) = (rf \<and> k = 0))
    \<and> pending q' \<subseteq>\<^sub>m pending q \<and> q_ssrc q' = q_ssrc q \<and> window q' = window q \<and> q_initialized q' = q_initialized q
    \<and> (pending q (expected q) \<noteq> None \<longrightarrow> out \<noteq> [])
    \<and> card (dom (pending q')) + length out = card (dom (pending q))"
  using assms
proof (induction rf q arbitrary: q' out rule: drain.induct)
  case (1 rf q)
  show ?case
  proof (cases "pending q (expected q)")
    case None
    then show ?thesis using 1(2,3) by (subst (asm) drain.simps) auto
  next
    case (Some p)
    let ?q1 = "q\<lparr>pending := (pending q)(expected q := None), expected := expected q + 1\<rparr>"
    obtain out1 where d: "drain False ?q1 = (q', out1)" and out: "out = \<lparr>seq_packet = p, reset = rf\<rparr> # out1"
      using 1(3) Some by (subst (asm) drain.simps) (auto split: prod.splits)
    have ok: "pending_ok b ?q1"
      unfolding pending_ok_def
    proof (intro allI impI)
      fix s p'
      assume s: "pending ?q1 s = Some p'"
      then have a: "Sequence p' = s" "SSRC p' = q_ssrc q" "0 \<le> ahead (expected q) s" "ahead (expected q) s \<le> b" "s \<noteq> expected q"
        using 1(2) by (auto simp: pending_ok_def split: if_splits)
      obtain n where n: "s = expected q + of_nat n" "n < 32768" "ahead (expected q) s = int n"
        using ahead_split [OF a(3)] a(3) by (metis int_nat_eq)
      have "n = 0 \<Longrightarrow> s = expected q" using n(1) by simp
      then have "n \<noteq> 0" using a(5) by blast
      then obtain l where l: "n = Suc l" by (cases n) auto
      then have s': "s = expected ?q1 + of_nat l" using n(1) by simp
      have "ahead (expected ?q1) s = int l" unfolding s' by (rule ahead_of_nat) (use n(2) l in simp)
      then show "Sequence p' = s \<and> SSRC p' = q_ssrc ?q1 \<and> 0 \<le> ahead (expected ?q1) s \<and> ahead (expected ?q1) s \<le> b"
        using a n(3) l by simp
    qed
    note ih = 1(1) [OF Some ok d]
    have "0 < card (dom (pending q))" using Some by (auto simp: card_gt_0_iff)
    then have card: "card (dom (pending ?q1)) + 1 = card (dom (pending q))" using Some by (simp add: domI)
    have sub: "pending q' \<subseteq>\<^sub>m pending q" using ih by (auto simp: map_le_def split: if_splits)
    have "pending q (expected q + of_nat k) = Some (seq_packet (out ! k)) \<and> reset (out ! k) = (rf \<and> k = 0)"
      if "k < length out" for k
    proof (cases k)
      case 0
      then show ?thesis using Some out by simp
    next
      case (Suc j)
      then have "pending ?q1 (expected q + 1 + of_nat j) = Some (seq_packet (out1 ! j)) \<and> \<not> reset (out1 ! j)"
        using ih that out by auto
      then show ?thesis using Suc out by (auto simp: add.assoc split: if_splits)
    qed
    moreover have "card (dom (pending q')) + length out = card (dom (pending q))"
    proof -
      have "card (dom (pending q')) + length out1 = card (dom (pending ?q1))" using ih by blast
      then show ?thesis using card unfolding out list.size by linarith
    qed
    moreover have "expected q' = expected q + of_nat (length out)" using ih by (simp add: out add.assoc)
    moreover have "pending q' (expected q') = None" "pending_ok b q'" using ih by blast+
    moreover have "q_ssrc q' = q_ssrc q" "window q' = window q" "q_initialized q' = q_initialized q"
      using ih by simp_all
    ultimately show ?thesis using sub out by blast
  qed
qed

text \<open>The order of the frames: a frame starts a new timeline, or it follows the one before it, from the same
  source, by at most \<open>8 * w + 1\<close> sequence numbers.\<close>

definition follows :: "int \<Rightarrow> packet \<Rightarrow> packet \<Rightarrow> bool" where
  "follows w l p \<longleftrightarrow> SSRC p = SSRC l \<and> 1 \<le> ahead (Sequence l) (Sequence p) \<and> ahead (Sequence l) (Sequence p) \<le> 8 * w + 1"

fun chain :: "int \<Rightarrow> packet option \<Rightarrow> sequencedPacket list \<Rightarrow> bool" where
  "chain w lo [] = True"
| "chain w lo (f # fs) \<longleftrightarrow>
     (reset f \<or> (case lo of None \<Rightarrow> False | Some l \<Rightarrow> follows w l (seq_packet f))) \<and> chain w (Some (seq_packet f)) fs"

definition last_of :: "packet option \<Rightarrow> sequencedPacket list \<Rightarrow> packet option" where
  "last_of lo fs = (if fs = [] then lo else Some (seq_packet (last fs)))"

lemma chain_append: "chain w lo (fs @ gs) \<longleftrightarrow> chain w lo fs \<and> chain w (last_of lo fs) gs"
  by (induction fs arbitrary: lo) (auto simp: last_of_def)

lemma last_of_append: "last_of lo (fs @ gs) = last_of (last_of lo fs) gs"
  by (simp add: last_of_def)

lemma chain_consecutive:
  assumes "0 \<le> w" "\<forall>k < length fs. Sequence (seq_packet (fs ! k)) = Sequence l + 1 + of_nat k \<and> SSRC (seq_packet (fs ! k)) = SSRC l"
  shows "chain w (Some l) fs"
  using assms(2)
proof (induction fs arbitrary: l)
  case (Cons f fs)
  have f: "Sequence (seq_packet f) = Sequence l + 1" "SSRC (seq_packet f) = SSRC l" using Cons.prems by force+
  then have "follows w l (seq_packet f)"
    using assms(1) ahead_of_nat [of 1 "Sequence l"] by (simp add: follows_def)
  moreover have "\<forall>k < length fs. Sequence (seq_packet (fs ! k)) = Sequence (seq_packet f) + 1 + of_nat k
      \<and> SSRC (seq_packet (fs ! k)) = SSRC (seq_packet f)"
    using Cons.prems f by (auto simp: add.assoc dest: spec [of _ "Suc _"])
  ultimately show ?case using Cons.IH by simp
qed simp

text \<open>Before a flush the reordering window may be full.\<close>

definition seq_pre :: "int \<Rightarrow> rtpSequencer \<Rightarrow> packet option \<Rightarrow> bool" where
  "seq_pre w q lo \<longleftrightarrow> window q = w \<and> pending_ok (8 * w) q \<and> pending q (expected q) = None
     \<and> int (card (dom (pending q))) \<le> w
     \<and> (case lo of None \<Rightarrow> \<not> q_initialized q \<and> (\<forall>s. pending q s = None)
        | Some l \<Rightarrow> q_initialized q \<and> expected q = Sequence l + 1 \<and> q_ssrc q = SSRC l)"

definition seq_inv :: "int \<Rightarrow> rtpSequencer \<Rightarrow> packet option \<Rightarrow> bool" where
  "seq_inv w q lo \<longleftrightarrow> window q = w \<and> pending_ok (8 * w) q \<and> pending q (expected q) = None
     \<and> int (card (dom (pending q))) < w
     \<and> (case lo of None \<Rightarrow> \<not> q_initialized q \<and> (\<forall>s. pending q s = None)
        | Some l \<Rightarrow> q_initialized q \<and> expected q = Sequence l + 1 \<and> q_ssrc q = SSRC l)"

text \<open>What one operation may do: keep the invariant with the last frame put out, and continue the chain with
  pending packets or the one that came in.\<close>

definition seq_ok :: "int \<Rightarrow> packet option \<Rightarrow> packet set \<Rightarrow> rtpSequencer \<times> sequencedPacket list \<Rightarrow> bool" where
  "seq_ok w lo ps r \<longleftrightarrow> (case r of (q', out) \<Rightarrow>
     seq_inv w q' (last_of lo out) \<and> chain w lo out \<and> ran (pending q') \<union> seq_packet ` set out \<subseteq> ps)"

lemma drain_chain:
  assumes ok: "pending_ok (8 * w) q" and p: "pending q (expected q) = Some p" and w: "0 \<le> w"
    and room: "int (card (dom (pending q))) \<le> w" "window q = w" "q_initialized q"
    and head: "rf \<or> (\<exists>l. lo = Some l \<and> follows w l p)"
  shows "seq_ok w lo (ran (pending q)) (drain rf q)"
proof -
  obtain q' out where d: "drain rf q = (q', out)" by fastforce
  note sp = drain_spec [OF ok d]
  then obtain f fs where out: "out = f # fs" using p by (cases out) auto
  have el: "pending q (expected q + of_nat k) = Some (seq_packet (out ! k))" "reset (out ! k) = (rf \<and> k = 0)"
    if "k < length out" for k using sp that by blast+
  have sq: "Sequence (seq_packet (out ! k)) = expected q + of_nat k \<and> SSRC (seq_packet (out ! k)) = q_ssrc q"
    if "k < length out" for k using el(1) [OF that] ok by (auto simp: pending_ok_def)
  have f: "seq_packet f = p" "reset f = rf" using el [of 0] p out by simp_all
  have p': "Sequence p = expected q" "SSRC p = q_ssrc q" using ok p by (auto simp: pending_ok_def)
  have "Sequence (seq_packet (fs ! k)) = Sequence p + 1 + of_nat k \<and> SSRC (seq_packet (fs ! k)) = SSRC p"
    if "k < length fs" for k
    using sq [of "Suc k"] that out p' by (simp add: add.assoc)
  then have "chain w (Some p) fs" using w chain_consecutive by blast
  then have chain: "chain w lo out" using head f by (auto simp: out split: option.splits)
  have "last out = out ! length fs" by (simp add: out last_conv_nth)
  then have last: "Sequence (seq_packet (last out)) + 1 = expected q'" "SSRC (seq_packet (last out)) = q_ssrc q'"
    using sp sq [of "length fs"] by (simp_all add: out add.assoc add.commute)
  have "int (card (dom (pending q'))) < w" using sp room(1) out by auto
  then have "seq_inv w q' (last_of lo out)"
    using sp last room by (auto simp: seq_inv_def last_of_def out)
  moreover have "ran (pending q') \<subseteq> ran (pending q)" using sp by (fastforce simp: ran_def map_le_def dom_def)
  moreover have "seq_packet ` set out \<subseteq> ran (pending q)"
    using el(1) by (auto simp: in_set_conv_nth) (metis ranI)
  ultimately show ?thesis using chain by (simp add: seq_ok_def d)
qed

lemma ahead_self [simp]: "ahead e e = 0"
  by (simp add: ahead_def)

lemma reset_chain:
  assumes "1 \<le> window q" "window q = w"
  shows "seq_ok w lo {p} (resetAt p changed q)"
proof -
  define q1 where "q1 = (let q = q\<lparr>pending := (\<lambda>_. None), q_ssrc := SSRC p, expected := Sequence p, q_initialized := True\<rparr>;
      q = (if changed then q\<lparr>q_stats := (q_stats q)\<lparr>SSRCChanges := SSRCChanges (q_stats q) + 1\<rparr>\<rparr> else q)
    in q\<lparr>pending := (pending q)(Sequence p \<mapsto> p)\<rparr>)"
  have f: "pending q1 = [Sequence p \<mapsto> p]" "expected q1 = Sequence p" "q_ssrc q1 = SSRC p" "q_initialized q1" "window q1 = w"
    using assms by (simp_all add: q1_def Let_def)
  have "seq_ok w lo (ran (pending q1)) (drain True q1)"
    using f assms by (intro drain_chain [of w q1 p]) (auto simp: pending_ok_def split: if_splits)
  moreover have "resetAt p changed q = drain True q1" by (simp add: resetAt_def q1_def Let_def)
  ultimately show ?thesis by (simp add: f)
qed

lemma best_ahead_spec:
  assumes "pending_ok b q" "pending q s = Some p"
  shows "\<exists>d. best_ahead q = Some d \<and> d < 32768 \<and> int d \<le> b \<and> pending q (expected q + of_nat d) \<noteq> None
    \<and> (\<forall>s'. pending q s' \<noteq> None \<longrightarrow> int d \<le> ahead (expected q) s')"
proof -
  have a: "s' = expected q + of_nat (nat (ahead (expected q) s'))" "nat (ahead (expected q) s') < 32768"
    "0 \<le> ahead (expected q) s'" "ahead (expected q) s' \<le> b"
    if "pending q s' \<noteq> None" for s'
    using assms(1) that ahead_split [of "expected q" s'] by (auto simp: pending_ok_def)
  have "best_ahead q \<noteq> None"
    using a [of s] assms(2) by (auto simp: best_ahead_def find_None_iff intro!: bexI [of _ "nat (ahead (expected q) s)"])
  then obtain d where d: "best_ahead q = Some d" by auto
  then obtain i where "i < 32768" "d = [0..<32768] ! i" "pending q (expected q + of_nat d) \<noteq> None"
    "\<forall>j < i. pending q (expected q + of_nat ([0..<32768] ! j)) = None"
    by (auto simp: best_ahead_def find_Some_iff)
  then have i: "d < 32768" "pending q (expected q + of_nat d) \<noteq> None" "\<forall>j < d. pending q (expected q + of_nat j) = None"
    by auto
  have "int d \<le> ahead (expected q) s'" if "pending q s' \<noteq> None" for s'
    using a [OF that] i(3) that by (metis linorder_not_less nat_less_iff)
  moreover have "int d \<le> b" using a(4) [OF i(2)] ahead_of_nat [OF i(1)] by simp
  ultimately show ?thesis using d i by auto
qed

lemma flush_chain:
  assumes inv: "seq_pre w q lo" and w: "1 \<le> w" "w \<le> 4095"
  shows "seq_ok w lo (ran (pending q)) (FlushGap q)"
proof (cases "\<not> q_initialized q \<or> (\<forall>s. pending q s = None)")
  case True
  then have "pending q = (\<lambda>_. None)" using inv by (auto simp: seq_pre_def split: option.splits)
  then show ?thesis using inv w True by (auto simp: FlushGap_def seq_ok_def last_of_def seq_pre_def seq_inv_def)
next
  case False
  then obtain s p where sp: "pending q s = Some p" by auto
  have ok: "pending_ok (8 * w) q" and none: "pending q (expected q) = None" using inv by (simp_all add: seq_pre_def)
  obtain l where l: "lo = Some l" "expected q = Sequence l + 1" "q_ssrc q = SSRC l"
    using inv False by (auto simp: seq_pre_def split: option.splits)
  obtain d where d: "best_ahead q = Some d" "d < 32768" "int d \<le> 8 * w" "pending q (expected q + of_nat d) \<noteq> None"
    "\<forall>s'. pending q s' \<noteq> None \<longrightarrow> int d \<le> ahead (expected q) s'"
    using best_ahead_spec [OF ok sp] by blast
  have kept: "(\<lambda>s. if ahead (expected q) s < 0 then None else pending q s) = pending q"
    using ok by (auto simp: pending_ok_def fun_eq_iff not_le [symmetric] split: if_splits) (metis linorder_not_less not_None_eq)
  have best: "expected q + of_nat d \<noteq> expected q" using d(4) none by metis
  define q1 where "q1 = q\<lparr>expected := expected q + of_nat d,
    q_stats := (q_stats q)\<lparr>SequenceGaps := SequenceGaps (q_stats q) + 1\<rparr>\<rparr>"
  have fg: "FlushGap q = drain False q1"
    unfolding FlushGap_def Let_def kept if_not_P [OF False] d(1) using best by (simp add: q1_def)
  obtain p' where p': "pending q1 (expected q1) = Some p'" using d(4) by (auto simp: q1_def)
  have ok1: "pending_ok (8 * w) q1"
    unfolding pending_ok_def
  proof (intro allI impI)
    fix s x
    assume "pending q1 s = Some x"
    then have s: "pending q s = Some x" by (simp add: q1_def)
    then have a: "Sequence x = s" "SSRC x = q_ssrc q" "0 \<le> ahead (expected q) s" "ahead (expected q) s \<le> 8 * w"
      "int d \<le> ahead (expected q) s"
      using ok d(5) by (auto simp: pending_ok_def)
    define n where "n = nat (ahead (expected q) s) - d"
    have "s = expected q + of_nat (d + n)" "d + n < 32768"
      using ahead_split [OF a(3)] a(5) by (simp_all add: n_def)
    then have "ahead (expected q1) s = int n" using ahead_of_nat [of n "expected q1"] by (simp add: q1_def add.assoc)
    then show "Sequence x = s \<and> SSRC x = q_ssrc q1 \<and> 0 \<le> ahead (expected q1) s \<and> ahead (expected q1) s \<le> 8 * w"
      using a by (simp add: q1_def n_def)
  qed
  have "Sequence p' = Sequence l + of_nat (d + 1)" "SSRC p' = SSRC l"
    using ok1 p' l by (auto simp: pending_ok_def q1_def)
  moreover have "d + 1 < 32768" using d(3) w by simp
  ultimately have "follows w l p'" using ahead_of_nat [of "d + 1" "Sequence l"] d(3) by (simp add: follows_def)
  then have "seq_ok w lo (ran (pending q1)) (drain False q1)"
    using inv w l ok1 p' False by (intro drain_chain [of w q1 p']) (auto simp: seq_pre_def q1_def)
  then show ?thesis by (simp add: fg q1_def)
qed

lemma seq_ok_mono: "seq_ok w lo ps r \<Longrightarrow> ps \<subseteq> ps' \<Longrightarrow> seq_ok w lo ps' r"
  by (auto simp: seq_ok_def)

lemma seq_inv_stats [simp]: "seq_inv w (q\<lparr>q_stats := st\<rparr>) lo = seq_inv w q lo"
  by (simp add: seq_inv_def pending_ok_def split: option.split)

lemma push_chain:
  assumes inv: "seq_inv w q lo" and w: "1 \<le> w" "w \<le> 4095"
  shows "seq_ok w lo (insert p (ran (pending q))) (sequencer_push p q)"
proof -
  have win: "window q = w" and ok: "pending_ok (8 * w) q" using inv by (simp_all add: seq_inv_def)
  have rs: "seq_ok w lo (insert p (ran (pending q))) (resetAt p c (q\<lparr>q_stats := st\<rparr>))" for c st
    using reset_chain [of "q\<lparr>q_stats := st\<rparr>" w lo p c] win w by (auto intro: seq_ok_mono)
  have rs0: "seq_ok w lo (insert p (ran (pending q))) (resetAt p c q)" for c
    using reset_chain [of q w lo p c] win w by (auto intro: seq_ok_mono)
  have late: "seq_ok w lo (insert p (ran (pending q))) (count_late q, [])"
    using inv by (auto simp: seq_ok_def count_late_def last_of_def)
  let ?diff = "sint (Sequence p - expected q)"
  show ?thesis
  proof (cases "q_initialized q \<and> SSRC p = q_ssrc q \<and> pending q (Sequence p) = None \<and> 0 \<le> ?diff \<and> ?diff \<le> 8 * w")
    case False
    have i16: "int16 (window q * 8) = 8 * w" using win w by (simp add: int16_def)
    show ?thesis
      using False rs rs0 late unfolding sequencer_push_def Let_def i16 by auto
  next
    case True
    define st where "st = (if 0 < ?diff then (q_stats q)\<lparr>PacketsReordered := PacketsReordered (q_stats q) + 1\<rparr> else q_stats q)"
    define q1 where "q1 = q\<lparr>q_stats := st, pending := (pending q)(Sequence p \<mapsto> p)\<rparr>"
    have i16: "int16 (window q * 8) = 8 * w" using win w by (simp add: int16_def)
    have push: "sequencer_push p q = (if ?diff = 0 then drain False q1
        else if w \<le> int (card (dom (pending q1))) then FlushGap q1 else (q1, []))"
      using True unfolding sequencer_push_def Let_def i16 by (simp add: q1_def st_def win)
    obtain l where l: "lo = Some l" "expected q = Sequence l + 1" "q_ssrc q = SSRC l"
      using inv True by (auto simp: seq_inv_def split: option.splits)
    have ok1: "pending_ok (8 * w) q1" using ok True by (auto simp: pending_ok_def q1_def ahead_def)
    have card: "card (dom (pending q1)) = card (dom (pending q)) + 1" using True by (simp add: q1_def domIff)
    have ran: "ran (pending q1) \<subseteq> insert p (ran (pending q))" by (auto simp: q1_def ran_def)
    have f1: "expected q1 = expected q" "window q1 = w" "q_initialized q1" "q_ssrc q1 = q_ssrc q"
      using True win by (simp_all add: q1_def)
    consider "?diff = 0" | "0 < ?diff" using True by linarith
    then show ?thesis
    proof cases
      case 1
      then have sp: "Sequence p = expected q" using ahead_split(1) [of "expected q" "Sequence p"] by (simp add: ahead_def)
      have "follows w l p" using chain_consecutive [of w "[\<lparr>seq_packet = p, reset = False\<rparr>]" l] sp l True w by simp
      then have "seq_ok w lo (ran (pending q1)) (drain False q1)"
        using ok1 f1 w sp l card inv by (intro drain_chain [of w q1 p]) (auto simp: seq_inv_def q1_def)
      then show ?thesis using push 1 ran seq_ok_mono by simp
    next
      case 2
      have ne: "pending q1 (expected q1) = None"
        using inv 2 by (auto simp: q1_def seq_inv_def)
      show ?thesis
      proof (cases "w \<le> int (card (dom (pending q1)))")
        case False
        then have "seq_inv w q1 lo" using inv ok1 ne f1 l by (simp add: seq_inv_def)
        then show ?thesis using push 2 False ran by (simp add: seq_ok_def last_of_def)
      next
        case True
        have "seq_pre w q1 lo" using inv ok1 ne f1 l card by (simp add: seq_pre_def seq_inv_def)
        then have "seq_ok w lo (ran (pending q1)) (FlushGap q1)" using w by (rule flush_chain)
        then show ?thesis using push 2 True ran seq_ok_mono by simp
      qed
    qed
  qed
qed

datatype seq_event = Arrive packet | Flush

fun seq_event_step :: "seq_event \<Rightarrow> rtpSequencer \<Rightarrow> rtpSequencer \<times> sequencedPacket list" where
  "seq_event_step (Arrive p) q = sequencer_push p q"
| "seq_event_step Flush q = FlushGap q"

fun seq_run :: "rtpSequencer \<Rightarrow> seq_event list \<Rightarrow> rtpSequencer \<times> sequencedPacket list" where
  "seq_run q [] = (q, [])"
| "seq_run q (e # es) =
     (case seq_event_step e q of (q', out) \<Rightarrow> (case seq_run q' es of (q'', out') \<Rightarrow> (q'', out @ out')))"

definition arrived :: "seq_event list \<Rightarrow> packet set" where
  "arrived es = {p. Arrive p \<in> set es}"

lemma seq_inv_pre: "seq_inv w q lo \<Longrightarrow> seq_pre w q lo"
  by (auto simp: seq_inv_def seq_pre_def)

lemma seq_run_ok:
  assumes "seq_inv w q lo" "1 \<le> w" "w \<le> 4095" "seq_run q es = (q', out)"
  shows "seq_inv w q' (last_of lo out) \<and> chain w lo out \<and> seq_packet ` set out \<subseteq> ran (pending q) \<union> arrived es"
  using assms
proof (induction es arbitrary: q lo out)
  case Nil
  then show ?case by (simp add: last_of_def)
next
  case (Cons e es)
  obtain q1 o1 where s: "seq_event_step e q = (q1, o1)" by fastforce
  obtain o2 where r: "seq_run q1 es = (q', o2)" "out = o1 @ o2"
    using Cons.prems(4) by (auto simp: s split: prod.splits)
  have ok: "seq_ok w lo (ran (pending q) \<union> arrived [e]) (q1, o1)"
  proof (cases e)
    case (Arrive p)
    then show ?thesis using push_chain [OF Cons.prems(1-3), of p] s by (simp add: arrived_def)
  next
    case Flush
    then show ?thesis using flush_chain [OF seq_inv_pre [OF Cons.prems(1)] Cons.prems(2,3)] s by (simp add: arrived_def)
  qed
  then have "seq_inv w q' (last_of (last_of lo o1) o2) \<and> chain w (last_of lo o1) o2
      \<and> seq_packet ` set o2 \<subseteq> ran (pending q1) \<union> arrived es"
    using Cons.prems r by (intro Cons.IH) (simp_all add: seq_ok_def)
  then show ?case using ok by (auto simp: r(2) chain_append last_of_append seq_ok_def arrived_def)
qed

text \<open>C35.  The sequencer puts the packets of a stream in order.  Whatever order packets arrive in, with losses,
  duplicates, late packets, jumps and changes of source, and whenever gaps are flushed: every frame it hands on
  is a packet that arrived; a frame either starts a new timeline (the first always does) or comes from the same
  source as the one before with a strictly later sequence number, at most \<open>8 * w + 1\<close> further on; and fewer than
  \<open>w\<close> packets are ever held back.\<close>

theorem sequencer_orders_packets:
  assumes "1 \<le> w" "w \<le> 4095" "seq_run (newRTPSequencer w) es = (q, out)"
  shows "chain w None out \<and> seq_packet ` set out \<subseteq> arrived es \<and> int (card (dom (pending q))) < w"
proof -
  have "seq_inv w (newRTPSequencer w) None"
    using assms(1) by (simp add: seq_inv_def newRTPSequencer_def pending_ok_def)
  from seq_run_ok [OF this assms] show ?thesis
    by (auto simp: newRTPSequencer_def seq_inv_def)
qed

theorem sequencer_orders_packets_witness:
  "chain 3 None (snd (seq_run (newRTPSequencer 3) [Arrive (speech_packet 5 [1]), Flush]))"
proof -
  obtain q out where r: "seq_run (newRTPSequencer 3) [Arrive (speech_packet 5 [1]), Flush] = (q, out)" by fastforce
  then have "chain 3 None out" using sequencer_orders_packets [OF _ _ r] by simp
  then show ?thesis unfolding r by simp
qed

end
