(* ===== verification/BaichuanXml.thy ===== *)
theory BaichuanXml
  imports GoStrings BaichuanMessage
begin

text \<open>
  The XML documents of the Baichuan protocol: \<^verbatim>\<open>internal/baichuan/xml.go\<close> and the document types of
  \<^verbatim>\<open>internal/baichuan/talk.go\<close>.  Printing is the part of \<^verbatim>\<open>encoding/xml\<close> that the gateway uses: elements,
  attributes and escaped character data, without indentation, in the order of the fields of the Go
  structs.  Reading XML is a parameter wherever it is used.  Strings are ASCII without control
  characters other than tab, line feed and carriage return.
\<close>

section \<open>Printing\<close>

datatype xml =
    Chars string
  | Elem string "(string \<times> string) list" "xml list"

definition escape_char :: "char \<Rightarrow> string" where
  "escape_char c =
     (if c = CHR 0x22 then ''&#34;'' else if c = CHR 0x27 then ''&#39;'' else if c = CHR ''&'' then ''&amp;''
      else if c = CHR ''<'' then ''&lt;'' else if c = CHR ''>'' then ''&gt;'' else if c = CHR 0x09 then ''&#x9;''
      else if c = CHR 0x0A then ''&#xA;'' else if c = CHR 0x0D then ''&#xD;'' else [c])"

definition escape_text :: "string \<Rightarrow> string" where
  "escape_text s = concat (map escape_char s)"

definition print_attr :: "string \<times> string \<Rightarrow> string" where
  "print_attr a = '' '' @ fst a @ ''='' @ [CHR 0x22] @ escape_text (snd a) @ [CHR 0x22]"

fun print_xml :: "xml \<Rightarrow> string" where
  "print_xml (Chars s) = escape_text s"
| "print_xml (Elem tag attrs children) =
     ''<'' @ tag @ concat (map print_attr attrs) @ ''>'' @ concat (map print_xml children) @ ''</'' @ tag @ ''>''"

definition xml_header :: string where
  "xml_header = ''<?xml version='' @ [CHR 0x22] @ ''1.0'' @ [CHR 0x22] @ '' encoding='' @ [CHR 0x22] @ ''UTF-8''
     @ [CHR 0x22] @ ''?>'' @ [LF]"

definition marshalXMLDocument :: "xml \<Rightarrow> byte list" where
  "marshalXMLDocument v = string_bytes (xml_header @ print_xml v)"

definition leaf :: "string \<Rightarrow> string \<Rightarrow> xml" where
  "leaf tag s = Elem tag [] [Chars s]"

definition number_leaf :: "string \<Rightarrow> nat \<Rightarrow> xml" where
  "number_leaf tag n = leaf tag (show_nat n)"

definition version_attr :: "string \<Rightarrow> (string \<times> string) list" where
  "version_attr v = [(''version'', v)]"

section \<open>The documents of the client\<close>

definition buildLoginXML :: "string \<Rightarrow> string \<Rightarrow> byte list" where
  "buildLoginXML userHash passwordHash =
     marshalXMLDocument (Elem ''body'' []
       [Elem ''LoginUser'' (version_attr ''1.1'')
          [leaf ''userName'' userHash, leaf ''password'' passwordHash, number_leaf ''userVer'' 1],
        Elem ''LoginNet'' (version_attr ''1.1'') [leaf ''type'' ''LAN'', number_leaf ''udpPort'' 0]])"

definition buildPreviewXML :: "byte \<Rightarrow> u32 \<Rightarrow> string \<Rightarrow> byte list" where
  "buildPreviewXML channel handle stream =
     marshalXMLDocument (Elem ''body'' []
       [Elem ''Preview'' (version_attr ''1.1'')
          [number_leaf ''channelId'' (unat channel), number_leaf ''handle'' (unat handle), leaf ''streamType'' stream]])"

definition buildStopPreviewXML :: "byte \<Rightarrow> u32 \<Rightarrow> byte list" where
  "buildStopPreviewXML channel handle =
     marshalXMLDocument (Elem ''body'' []
       [Elem ''Preview'' (version_attr ''1.1'')
          [number_leaf ''channelId'' (unat channel), number_leaf ''handle'' (unat handle)]])"

text \<open>\<open>unmarshal_body\<close> is the decoder: \<open>None\<close> when it fails, else the nonce of the \<open>Encryption\<close> element if
  there is one.\<close>

definition parseNonce :: "(string \<Rightarrow> string option option) \<Rightarrow> string \<Rightarrow> string option" where
  "parseNonce unmarshal_body xmlText =
     (case unmarshal_body xmlText of
        None \<Rightarrow> None
      | Some None \<Rightarrow> None
      | Some (Some nonce) \<Rightarrow> if nonce = [] then None else Some nonce)"

section \<open>The documents of a talk session\<close>

record TalkAudioConfig =
  Priority :: "u32 option"
  AudioType :: string
  SampleRate :: u16
  SamplePrecision :: u16
  LengthPerEncode :: u16
  SoundTrack :: string

record TalkConfig =
  TC_Version :: string
  TC_ChannelID :: byte
  Duplex :: string
  AudioStreamMode :: string
  AudioConfig :: TalkAudioConfig

record TalkAbility =
  TA_Version :: string
  DuplexList :: "string list"
  AudioStreamModeList :: "string list"
  AudioConfigList :: "TalkAudioConfig list"

definition audio_config_xml :: "TalkAudioConfig \<Rightarrow> xml" where
  "audio_config_xml a =
     Elem ''audioConfig'' []
       ((case Priority a of None \<Rightarrow> [] | Some p \<Rightarrow> [number_leaf ''priority'' (unat p)])
        @ [leaf ''audioType'' (AudioType a), number_leaf ''sampleRate'' (unat (SampleRate a)),
           number_leaf ''samplePrecision'' (unat (SamplePrecision a)),
           number_leaf ''lengthPerEncoder'' (unat (LengthPerEncode a)), leaf ''soundTrack'' (SoundTrack a)])"

definition talkConfigBody :: "TalkConfig \<Rightarrow> xml" where
  "talkConfigBody t =
     Elem ''body'' []
       [Elem ''TalkConfig'' (version_attr (TC_Version t))
          [number_leaf ''channelId'' (unat (TC_ChannelID t)), leaf ''duplex'' (Duplex t),
           leaf ''audioStreamMode'' (AudioStreamMode t), audio_config_xml (AudioConfig t)]]"

definition buildTalkExtension :: "byte \<Rightarrow> bool \<Rightarrow> byte list" where
  "buildTalkExtension channel binaryData =
     marshalXMLDocument (Elem ''Extension'' (version_attr ''1.1'')
       (number_leaf ''channelId'' (unat channel) # (if binaryData then [number_leaf ''binaryData'' 1] else [])))"

end
