(* ===== verification/BaichuanClient.thy ===== *)
theory BaichuanClient
  imports BaichuanXml BaichuanMedia
begin

text \<open>
  The connection of the Baichuan client (\<^verbatim>\<open>internal/baichuan/client.go\<close>): request numbers and the table of
  requests waiting for a response, the fan-out of asynchronous messages to subscribers, the shutdown, the
  login and the preview goroutine that parses the media stream.  The goroutines are the steps of a
  transition system; a Go channel with a buffer is a bounded list.  An operation that sends a request
  takes as argument \<open>env\<close> what the rest of the system does while it waits: how the connection changes and
  which branch of its \<open>select\<close> wakes it up.
\<close>

section \<open>State\<close>

record pendingKey =
  key_msgID :: u32
  key_msgNum :: u16

datatype conn_error =
    Read_failed message_error
  | Write_failed
  | Subscriber_overflow u32
  | Media_failed media_error
  | Canceled
  | Context_done
  | Status_error u16
  | Parse_nonce

record waiter =
  w_key :: pendingKey
  w_buf :: "Message option"
  w_result :: "(conn_error + Message) option"

text \<open>\<open>taken\<close> (what the subscriber has received) and \<open>since\<close> (the length of the log when it subscribed) are
  not in the code.\<close>

record subscription =
  sub_msgID :: u32
  sub_cap :: nat
  reliable :: bool
  sub_buf :: "Message list"
  subscribed :: bool
  taken :: "Message list"
  since :: nat

text \<open>\<open>log\<close>, the messages the read loop has dispatched, is not in the code.\<close>

record conn = bc_state +
  loggedIn :: bool
  keepAlive :: bool
  msgNum :: u16
  pending :: "pendingKey \<Rightarrow> nat option"
  waiters :: "nat \<Rightarrow> waiter"
  next_waiter :: nat
  subs :: "nat \<Rightarrow> subscription"
  next_sub :: nat
  closed :: bool
  closeErr :: "conn_error option"
  loop_ended :: bool
  log :: "Message list"

definition msg_key :: "Message \<Rightarrow> pendingKey" where
  "msg_key m = \<lparr>key_msgID = MsgID (Msg_Header m), key_msgNum = MsgNum (Msg_Header m)\<rparr>"

section \<open>Shutdown\<close>

definition closeState_set :: "conn_error \<Rightarrow> conn_error option \<Rightarrow> conn_error option" where
  "closeState_set e old = (if old = None then Some e else old)"

definition shutdown :: "conn_error \<Rightarrow> conn \<Rightarrow> conn" where
  "shutdown e c = (if closed c then c else c\<lparr>closeErr := closeState_set e (closeErr c), closed := True\<rparr>)"

section \<open>Requests\<close>

definition reserveMessageNumber :: "conn \<Rightarrow> u16 \<times> conn" where
  "reserveMessageNumber c = (msgNum c, c\<lparr>msgNum := msgNum c + 1\<rparr>)"

text \<open>\<open>roundTripRequest\<close> in its three parts: it registers, it gets its result, and the deferred function deletes
  its key.\<close>

definition begin_request :: "u32 \<Rightarrow> conn \<Rightarrow> nat \<times> conn" where
  "begin_request msgID c =
     (let (n, c) = reserveMessageNumber c; w = next_waiter c; k = \<lparr>key_msgID = msgID, key_msgNum = n\<rparr>
      in (w, c\<lparr>pending := (pending c)(k \<mapsto> w), next_waiter := w + 1,
               waiters := (waiters c)(w := \<lparr>w_key = k, w_buf = None, w_result = None\<rparr>)\<rparr>))"

definition end_request :: "nat \<Rightarrow> conn_error + Message \<Rightarrow> conn \<Rightarrow> conn" where
  "end_request w r c =
     c\<lparr>waiters := (waiters c)(w := (waiters c w)\<lparr>w_result := Some r\<rparr>),
       pending := (pending c)(w_key (waiters c w) := None)\<rparr>"

text \<open>The \<open>select\<close>: a response that has arrived is preferred to the end of the connection or of the context.\<close>

definition wait_closed :: "nat \<Rightarrow> conn \<Rightarrow> conn_error + Message" where
  "wait_closed w c =
     (case w_buf (waiters c w) of
        Some m \<Rightarrow> Inr m
      | None \<Rightarrow> (case closeErr c of Some e \<Rightarrow> Inl e | None \<Rightarrow> Inl Canceled))"

definition wait_ctx :: "nat \<Rightarrow> conn \<Rightarrow> conn_error + Message" where
  "wait_ctx w c = (case w_buf (waiters c w) of Some m \<Rightarrow> Inr m | None \<Rightarrow> Inl Context_done)"

definition sendRequest_result :: "conn_error + Message \<Rightarrow> conn_error + Message" where
  "sendRequest_result r =
     (case r of
        Inl e \<Rightarrow> Inl e
      | Inr m \<Rightarrow> (case msg_success m of Some code \<Rightarrow> Inl (Status_error code) | None \<Rightarrow> Inr m))"

section \<open>The read loop\<close>

definition deliver_response :: "Message \<Rightarrow> conn \<Rightarrow> conn" where
  "deliver_response m c =
     (case pending c (msg_key m) of
        None \<Rightarrow> c
      | Some w \<Rightarrow>
          if w_buf (waiters c w) = None
          then c\<lparr>waiters := (waiters c)(w := (waiters c w)\<lparr>w_buf := Some m\<rparr>)\<rparr> else c)"

text \<open>The fan-out in some order of the subscribers; it ends the loop when a reliable one is full.\<close>

fun fan_out :: "Message \<Rightarrow> nat list \<Rightarrow> conn \<Rightarrow> conn" where
  "fan_out m [] c = c"
| "fan_out m (s # ss) c =
     (let sub = subs c s in
      if length (sub_buf sub) < sub_cap sub
      then fan_out m ss (c\<lparr>subs := (subs c)(s := sub\<lparr>sub_buf := sub_buf sub @ [m]\<rparr>)\<rparr>)
      else if reliable sub
      then (shutdown (Subscriber_overflow (MsgID (Msg_Header m))) c)\<lparr>loop_ended := True\<rparr>
      else fan_out m ss c)"

definition listens :: "conn \<Rightarrow> u32 \<Rightarrow> nat \<Rightarrow> bool" where
  "listens c msgID s \<longleftrightarrow> s < next_sub c \<and> subscribed (subs c s) \<and> sub_msgID (subs c s) = msgID"

definition dispatch :: "Message \<Rightarrow> nat list \<Rightarrow> conn \<Rightarrow> conn" where
  "dispatch m order c = fan_out m order (deliver_response m (c\<lparr>log := log c @ [m]\<rparr>))"

definition read_failed :: "message_error \<Rightarrow> conn \<Rightarrow> conn" where
  "read_failed e c = (shutdown (Read_failed e) c)\<lparr>loop_ended := True\<rparr>"

section \<open>Subscriptions\<close>

definition subscribe :: "u32 \<Rightarrow> int \<Rightarrow> bool \<Rightarrow> conn \<Rightarrow> nat \<times> conn" where
  "subscribe msgID buffer rel c =
     (let s = next_sub c
      in (s, c\<lparr>next_sub := s + 1,
               subs := (subs c)(s := \<lparr>sub_msgID = msgID, sub_cap = nat (if buffer < 1 then 1 else buffer),
                 reliable = rel, sub_buf = [], subscribed = True, taken = [], since = length (log c)\<rparr>)\<rparr>))"

definition unsubscribe :: "nat \<Rightarrow> conn \<Rightarrow> conn" where
  "unsubscribe s c = c\<lparr>subs := (subs c)(s := (subs c s)\<lparr>subscribed := False\<rparr>)\<rparr>"

definition take_message :: "nat \<Rightarrow> conn \<Rightarrow> conn" where
  "take_message s c =
     (case sub_buf (subs c s) of
        [] \<Rightarrow> c
      | m # ms \<Rightarrow> c\<lparr>subs := (subs c)(s := (subs c s)\<lparr>sub_buf := ms, taken := taken (subs c s) @ [m]\<rparr>)\<rparr>)"

section \<open>Sending a request and waiting for its response\<close>

text \<open>The branch of the \<open>select\<close> of \<open>roundTripRequest\<close> that is taken, or the failure of the write before it.\<close>

datatype wake = Write_error | Response Message | Conn_closed | Ctx_done

type_synonym env = "nat \<Rightarrow> request \<Rightarrow> conn \<Rightarrow> conn \<times> wake"

definition roundTripRequest :: "env \<Rightarrow> request \<Rightarrow> conn \<Rightarrow> conn \<times> (conn_error + Message)" where
  "roundTripRequest env req c =
     (let (w, c) = begin_request (Rq_MsgID req) c;
          (c, wake) = env w (req\<lparr>Rq_MsgNum := key_msgNum (w_key (waiters c w))\<rparr>) c;
          r = (case wake of
                 Write_error \<Rightarrow> Inl Write_failed
               | Response m \<Rightarrow> Inr m
               | Conn_closed \<Rightarrow> wait_closed w c
               | Ctx_done \<Rightarrow> wait_ctx w c)
      in (end_request w r c, r))"

definition sendRequest :: "env \<Rightarrow> request \<Rightarrow> conn \<Rightarrow> conn \<times> (conn_error + Message)" where
  "sendRequest env req c = (case roundTripRequest env req c of (c, r) \<Rightarrow> (c, sendRequest_result r))"

definition sendNoReply :: "request \<Rightarrow> conn \<Rightarrow> request \<times> conn" where
  "sendNoReply req c = (let (n, c) = reserveMessageNumber c in (req\<lparr>Rq_MsgNum := n\<rparr>, c))"

definition writeRequest :: "(byte list \<Rightarrow> byte list \<Rightarrow> byte list) \<Rightarrow> conn \<Rightarrow> request \<Rightarrow> byte list" where
  "writeRequest aes c req = encodeRequest aes (bc_state.truncate c) req"

text \<open>A request with the zero value in every field but the message id and the class.\<close>

definition new_request :: "u32 \<Rightarrow> u16 \<Rightarrow> request" where
  "new_request msgID cls = \<lparr>Rq_MsgID = msgID, Rq_ChannelID = 0, Rq_StreamType = 0, Rq_Class = cls, Rq_MsgNum = 0,
     Rq_Extension = [], Rq_Body = [], Rq_Binary = False, Rq_ForceBC = False\<rparr>"

definition keep_alive_tick :: "conn \<Rightarrow> request \<times> conn" where
  "keep_alive_tick c = sendNoReply (new_request 93 classModernWithOffset) c"

section \<open>Login\<close>

definition Login ::
  "env \<Rightarrow> (byte list \<Rightarrow> byte list) \<Rightarrow> (string \<Rightarrow> string option option) \<Rightarrow> string \<Rightarrow> string \<Rightarrow> conn
   \<Rightarrow> conn \<times> conn_error option" where
  "Login env md5 unmarshal_body user password c =
     (if loggedIn c then (c, None)
      else
        case sendRequest env ((new_request msgIDLogin classLegacy)\<lparr>Rq_ForceBC := True\<rparr>) c of
          (c, Inl e) \<Rightarrow> (c, Some e)
        | (c, Inr nonceResp) \<Rightarrow>
            (case parseNonce unmarshal_body (XML nonceResp) of
               None \<Rightarrow> (c, Some Parse_nonce)
             | Some nonce \<Rightarrow>
                 let c = c\<lparr>bc_aesKey := DeriveAESKey md5 nonce password, bc_hasAESKey := True\<rparr>;
                     body = buildLoginXML (MD5Modern md5 (user @ nonce)) (MD5Modern md5 (password @ nonce))
                 in case sendRequest env ((new_request msgIDLogin classModernWithOffset)\<lparr>Rq_Body := body, Rq_ForceBC := True\<rparr>) c of
                      (c, Inl e) \<Rightarrow> (c, Some e)
                    | (c, Inr _) \<Rightarrow>
                        ((if bc_hasAESKey c then c\<lparr>bc_mode := EncryptionAES\<rparr> else c)\<lparr>loggedIn := True, keepAlive := True\<rparr>, None)))"

section \<open>Previews\<close>

definition StreamMain :: string where "StreamMain = ''mainStream''"
definition StreamSub :: string where "StreamSub = ''subStream''"
definition StreamExtern :: string where "StreamExtern = ''externStream''"

definition ParseStream :: "string \<Rightarrow> string option" where
  "ParseStream v =
     (let v = to_lower (trim_space v) in
      if v \<in> {''main'', ''mainstream''} then Some StreamMain
      else if v \<in> {''sub'', ''substream''} then Some StreamSub
      else if v \<in> {''extern'', ''externstream''} then Some StreamExtern
      else None)"

definition ShortName :: "string \<Rightarrow> string" where
  "ShortName s =
     (if s = StreamMain then ''main'' else if s = StreamSub then ''sub'' else if s = StreamExtern then ''extern'' else s)"

definition streamParams :: "string \<Rightarrow> byte \<times> u32" where
  "streamParams stream = (if stream = StreamSub then (1, 256) else if stream = StreamExtern then (2, 1024) else (0, 0))"

text \<open>The preview goroutine with its parser; \<open>pv_out\<close> is what it has sent to the channel of packets.\<close>

record preview =
  pv_sub :: nat
  pv_streamType :: byte
  pv_parser :: MediaParser
  pv_out :: "MediaPacket list"
  pv_ended :: bool

definition msgIDVideo :: u32 where "msgIDVideo = 3"
definition msgIDVideoStop :: u32 where "msgIDVideoStop = 4"

definition startPreview ::
  "env \<Rightarrow> (byte list \<Rightarrow> byte list) \<Rightarrow> (string \<Rightarrow> string option option) \<Rightarrow> string \<Rightarrow> string \<Rightarrow> byte \<Rightarrow> string \<Rightarrow> bool
   \<Rightarrow> conn \<Rightarrow> conn \<times> (conn_error + preview)" where
  "startPreview env md5 unmarshal_body user password channel stream audioOnly c =
     (case Login env md5 unmarshal_body user password c of
        (c, Some e) \<Rightarrow> (c, Inl e)
      | (c, None) \<Rightarrow>
          let (streamType, handle) = streamParams stream;
              body = buildPreviewXML channel handle stream;
              (sub, c) = subscribe msgIDVideo 256 True c
          in case sendRequest env ((new_request msgIDVideo classModernWithOffset)
                 \<lparr>Rq_ChannelID := channel, Rq_StreamType := streamType, Rq_Body := body\<rparr>) c of
               (c, Inl e) \<Rightarrow> (unsubscribe sub c, Inl e)
             | (c, Inr _) \<Rightarrow>
                 (c, Inr \<lparr>pv_sub = sub, pv_streamType = streamType, pv_parser = \<lparr>buf = [], AudioOnly = audioOnly\<rparr>,
                          pv_out = [], pv_ended = False\<rparr>))"

definition StopPreview ::
  "env \<Rightarrow> (byte list \<Rightarrow> byte list) \<Rightarrow> (string \<Rightarrow> string option option) \<Rightarrow> string \<Rightarrow> string \<Rightarrow> byte \<Rightarrow> string
   \<Rightarrow> conn \<Rightarrow> conn \<times> conn_error option" where
  "StopPreview env md5 unmarshal_body user password channel stream c =
     (case Login env md5 unmarshal_body user password c of
        (c, Some e) \<Rightarrow> (c, Some e)
      | (c, None) \<Rightarrow>
          let (streamType, handle) = streamParams stream
          in case sendRequest env ((new_request msgIDVideoStop classModernWithOffset)
                 \<lparr>Rq_ChannelID := channel, Rq_StreamType := streamType, Rq_Body := buildStopPreviewXML channel handle\<rparr>) c of
               (c, Inl e) \<Rightarrow> (c, case e of Status_error code \<Rightarrow> Some e | _ \<Rightarrow> None)
             | (c, Inr resp) \<Rightarrow> (c, map_option Status_error (msg_success resp)))"

text \<open>The end of the goroutine, and one message: \<open>n\<close> packets are sent before the connection or the reader is
  closed.\<close>

definition preview_end :: "preview \<times> conn \<Rightarrow> preview \<times> conn" where
  "preview_end = (\<lambda>(p, c). (p\<lparr>pv_ended := True\<rparr>, unsubscribe (pv_sub p) c))"

definition preview_wants :: "byte \<Rightarrow> Message \<Rightarrow> bool" where
  "preview_wants streamType m \<longleftrightarrow> Binary m \<and> Msg_Payload m \<noteq> [] \<and> StreamType (Msg_Header m) = streamType"

definition preview_next :: "nat \<Rightarrow> preview \<times> conn \<Rightarrow> preview \<times> conn" where
  "preview_next n = (\<lambda>(p, c).
     case sub_buf (subs c (pv_sub p)) of
       [] \<Rightarrow> (p, c)
     | m # _ \<Rightarrow>
         let c = take_message (pv_sub p) c in
         if \<not> preview_wants (pv_streamType p) m then (p, c)
         else case Append (pv_parser p) (Msg_Payload m) of
           (parser, _, Some e) \<Rightarrow> preview_end (p\<lparr>pv_parser := parser\<rparr>, shutdown (Media_failed e) c)
         | (parser, parsed, None) \<Rightarrow>
             let p = p\<lparr>pv_parser := parser, pv_out := pv_out p @ take n parsed\<rparr>
             in if n < length parsed then preview_end (p, c) else (p, c))"

section \<open>The connection as a system of steps\<close>

inductive conn_step :: "conn \<Rightarrow> conn \<Rightarrow> bool" where
  request: "conn_step c (snd (begin_request msgID c))"
| write_failed: "w < next_waiter c \<Longrightarrow> w_result (waiters c w) = None \<Longrightarrow> conn_step c (end_request w (Inl Write_failed) c)"
| response: "w < next_waiter c \<Longrightarrow> w_result (waiters c w) = None \<Longrightarrow> w_buf (waiters c w) = Some m
    \<Longrightarrow> conn_step c (end_request w (Inr m) c)"
| conn_closed: "w < next_waiter c \<Longrightarrow> w_result (waiters c w) = None \<Longrightarrow> closed c
    \<Longrightarrow> conn_step c (end_request w (wait_closed w c) c)"
| ctx_done: "w < next_waiter c \<Longrightarrow> w_result (waiters c w) = None \<Longrightarrow> conn_step c (end_request w (wait_ctx w c) c)"
| message: "\<not> loop_ended c \<Longrightarrow> distinct order \<Longrightarrow> set order = {s. listens c (MsgID (Msg_Header m)) s}
    \<Longrightarrow> conn_step c (dispatch m order c)"
| read_error: "\<not> loop_ended c \<Longrightarrow> conn_step c (read_failed e c)"
| subscribe: "conn_step c (snd (subscribe msgID buffer rel c))"
| unsubscribe: "s < next_sub c \<Longrightarrow> conn_step c (unsubscribe s c)"
| take: "s < next_sub c \<Longrightarrow> conn_step c (take_message s c)"
| no_reply: "conn_step c (snd (reserveMessageNumber c))"
| shutdown: "conn_step c (shutdown e c)"

definition conn_init :: "conn \<Rightarrow> bool" where
  "conn_init c \<longleftrightarrow> pending c = (\<lambda>_. None) \<and> next_waiter c = 0 \<and> next_sub c = 0 \<and> \<not> closed c \<and> closeErr c = None
     \<and> \<not> loop_ended c \<and> log c = []"

inductive conn_reachable :: "conn \<Rightarrow> bool" where
  init: "conn_init c \<Longrightarrow> conn_reachable c"
| step: "conn_reachable c \<Longrightarrow> conn_step c c' \<Longrightarrow> conn_reachable c'"

section \<open>Responses\<close>

definition waiter_inv :: "conn \<Rightarrow> bool" where
  "waiter_inv c \<longleftrightarrow>
     (\<forall>w < next_waiter c. \<forall>m. w_buf (waiters c w) = Some m \<or> w_result (waiters c w) = Some (Inr m)
        \<longrightarrow> msg_key m = w_key (waiters c w) \<and> m \<in> set (log c))
     \<and> (\<forall>k w. pending c k = Some w \<longrightarrow> w < next_waiter c \<and> w_key (waiters c w) = k)"

lemma waiter_inv_frame:
  assumes "waiter_inv c" "waiters c' = waiters c" "next_waiter c' = next_waiter c" "pending c' = pending c"
    "set (log c) \<subseteq> set (log c')"
  shows "waiter_inv c'"
  using assms unfolding waiter_inv_def by auto

lemma shutdown_fields [simp]:
  "waiters (shutdown e c) = waiters c" "next_waiter (shutdown e c) = next_waiter c" "pending (shutdown e c) = pending c"
  "log (shutdown e c) = log c" "subs (shutdown e c) = subs c" "next_sub (shutdown e c) = next_sub c"
  "closed (shutdown e c)" "loop_ended (shutdown e c) = loop_ended c"
  by (simp_all add: shutdown_def)

lemma fan_out_fields [simp]:
  "waiters (fan_out m order c) = waiters c" "next_waiter (fan_out m order c) = next_waiter c"
  "pending (fan_out m order c) = pending c" "log (fan_out m order c) = log c" "next_sub (fan_out m order c) = next_sub c"
  by (induction m order c rule: fan_out.induct) (simp_all add: Let_def)

lemma deliver_fields [simp]:
  "subs (deliver_response m c) = subs c" "next_sub (deliver_response m c) = next_sub c" "log (deliver_response m c) = log c"
  "closed (deliver_response m c) = closed c" "loop_ended (deliver_response m c) = loop_ended c"
  by (simp_all add: deliver_response_def split: option.split)

lemma deliver_waiters: "waiter_inv c \<Longrightarrow> m \<in> set (log c) \<Longrightarrow> waiter_inv (deliver_response m c)"
  by (auto simp: waiter_inv_def deliver_response_def split: option.split; metis)

lemma end_request_waiters:
  assumes "waiter_inv c" "w < next_waiter c" "\<And>m. r = Inr m \<Longrightarrow> w_buf (waiters c w) = Some m"
  shows "waiter_inv (end_request w r c)"
  using assms by (auto simp: waiter_inv_def end_request_def)

lemma waiter_step: "conn_step c c' \<Longrightarrow> waiter_inv c \<Longrightarrow> waiter_inv c'"
proof (induction rule: conn_step.induct)
  case (request c msgID)
  then show ?case
    by (auto simp: waiter_inv_def begin_request_def reserveMessageNumber_def Let_def less_Suc_eq)
next
  case (message c order m)
  then have "waiter_inv (c\<lparr>log := log c @ [m]\<rparr>)" by (intro waiter_inv_frame [OF message.prems]) auto
  then have "waiter_inv (deliver_response m (c\<lparr>log := log c @ [m]\<rparr>))" by (rule deliver_waiters) simp
  then show ?case by (rule waiter_inv_frame) (auto simp: dispatch_def)
qed (auto intro: end_request_waiters waiter_inv_frame simp: wait_closed_def wait_ctx_def read_failed_def
    subscribe_def unsubscribe_def take_message_def reserveMessageNumber_def Let_def split: option.splits list.splits)

lemma reachable_waiters: "conn_reachable c \<Longrightarrow> waiter_inv c"
proof (induction rule: conn_reachable.induct)
  case (init c)
  then show ?case by (simp add: conn_init_def waiter_inv_def)
qed (rule waiter_step)

section \<open>Subscribers\<close>

definition heard :: "conn \<Rightarrow> nat \<Rightarrow> Message list" where
  "heard c s = filter (\<lambda>m. MsgID (Msg_Header m) = sub_msgID (subs c s)) (drop (since (subs c s)) (log c))"

definition sub_ok :: "conn \<Rightarrow> nat \<Rightarrow> bool" where
  "sub_ok c s \<longleftrightarrow> length (sub_buf (subs c s)) \<le> sub_cap (subs c s) \<and> since (subs c s) \<le> length (log c)
     \<and> (reliable (subs c s) \<longrightarrow> prefix (taken (subs c s) @ sub_buf (subs c s)) (heard c s)
          \<and> (subscribed (subs c s) \<and> \<not> loop_ended c \<longrightarrow> taken (subs c s) @ sub_buf (subs c s) = heard c s))"

definition sub_inv :: "conn \<Rightarrow> bool" where
  "sub_inv c \<longleftrightarrow> (\<forall>s < next_sub c. sub_ok c s) \<and> (loop_ended c \<longrightarrow> closed c)"

lemma sub_inv_frame:
  assumes "sub_inv c" "subs c' = subs c" "next_sub c' = next_sub c" "log c' = log c" "loop_ended c' = loop_ended c"
    "closed c \<longrightarrow> closed c'"
  shows "sub_inv c'"
  using assms by (simp add: sub_inv_def sub_ok_def heard_def)

definition got :: "Message \<Rightarrow> subscription \<Rightarrow> subscription" where
  "got m sub = sub\<lparr>sub_buf := sub_buf sub @ [m]\<rparr>"

lemma fan_out_step:
  "length (sub_buf (subs c s)) < sub_cap (subs c s)
     \<Longrightarrow> fan_out m (s # ss) c = fan_out m ss (c\<lparr>subs := (subs c)(s := got m (subs c s))\<rparr>)"
  "\<not> length (sub_buf (subs c s)) < sub_cap (subs c s) \<Longrightarrow> reliable (subs c s)
     \<Longrightarrow> fan_out m (s # ss) c = (shutdown (Subscriber_overflow (MsgID (Msg_Header m))) c)\<lparr>loop_ended := True\<rparr>"
  "\<not> length (sub_buf (subs c s)) < sub_cap (subs c s) \<Longrightarrow> \<not> reliable (subs c s)
     \<Longrightarrow> fan_out m (s # ss) c = fan_out m ss c"
  by (simp_all add: Let_def got_def)

declare fan_out.simps(2) [simp del]

lemma fan_out_cases:
  obtains (room) "length (sub_buf (subs c s)) < sub_cap (subs c s)"
    "fan_out m (s # ss) c = fan_out m ss (c\<lparr>subs := (subs c)(s := got m (subs c s))\<rparr>)"
  | (overflow) "reliable (subs c s)"
    "fan_out m (s # ss) c = (shutdown (Subscriber_overflow (MsgID (Msg_Header m))) c)\<lparr>loop_ended := True\<rparr>"
  | (dropped) "\<not> reliable (subs c s)" "fan_out m (s # ss) c = fan_out m ss c"
  using fan_out_step by blast

lemma fan_out_other: "s \<notin> set order \<Longrightarrow> subs (fan_out m order c) s = subs c s"
proof (induction order arbitrary: c)
  case (Cons t ts)
  then show ?case by (cases rule: fan_out_cases [of c t m ts]) simp_all
qed simp

lemma fan_out_flags:
  "(closed c \<longrightarrow> closed (fan_out m order c)) \<and> (loop_ended c \<longrightarrow> loop_ended (fan_out m order c))
   \<and> (loop_ended (fan_out m order c) \<longrightarrow> loop_ended c \<or> closed (fan_out m order c))"
proof (induction order arbitrary: c)
  case (Cons t ts)
  then show ?case by (cases rule: fan_out_cases [of c t m ts]) (fastforce+)
qed simp

lemma fan_out_sub:
  assumes "distinct order" "s \<in> set order"
  shows "(subs (fan_out m order c) s = subs c s \<and> (reliable (subs c s) \<longrightarrow> loop_ended (fan_out m order c)))
    \<or> (subs (fan_out m order c) s = got m (subs c s) \<and> length (sub_buf (subs c s)) < sub_cap (subs c s))"
  using assms
proof (induction order arbitrary: c)
  case (Cons t ts)
  show ?case
  proof (cases "t = s")
    case True
    then have "s \<notin> set ts" using Cons.prems by auto
    then show ?thesis unfolding True
      by (cases rule: fan_out_cases [of c s m ts]) (simp_all add: fan_out_other)
  next
    case False
    then have s: "distinct ts" "s \<in> set ts" using Cons.prems by auto
    show ?thesis using False Cons.IH [OF s, of c] Cons.IH [OF s, of "c\<lparr>subs := (subs c)(t := got m (subs c t))\<rparr>"]
      by (cases rule: fan_out_cases [of c t m ts]) simp_all
  qed
qed simp

lemma got_fields [simp]:
  "sub_buf (got m sub) = sub_buf sub @ [m]" "sub_cap (got m sub) = sub_cap sub" "since (got m sub) = since sub"
  "taken (got m sub) = taken sub" "reliable (got m sub) = reliable sub" "sub_msgID (got m sub) = sub_msgID sub"
  "subscribed (got m sub) = subscribed sub"
  by (simp_all add: got_def)

lemma dispatch_subs:
  assumes inv: "sub_inv c" and run: "\<not> loop_ended c" and order: "distinct order" "set order = {s. listens c (MsgID (Msg_Header m)) s}"
  shows "sub_inv (dispatch m order c)"
proof -
  let ?d = "deliver_response m (c\<lparr>log := log c @ [m]\<rparr>)" and ?c' = "dispatch m order c"
  have c': "?c' = fan_out m order ?d" by (simp add: dispatch_def)
  have "sub_ok ?c' s" if s: "s < next_sub c" for s
  proof -
    have ok: "sub_ok c s" using inv s by (simp add: sub_inv_def)
    have heard: "heard ?c' s = heard c s @ (if MsgID (Msg_Header m) = sub_msgID (subs c s) then [m] else [])"
      if "sub_msgID (subs ?c' s) = sub_msgID (subs c s)" "since (subs ?c' s) = since (subs c s)"
      using that ok by (simp add: heard_def c' sub_ok_def)
    show ?thesis
    proof (cases "s \<in> set order")
      case True
      then have id: "MsgID (Msg_Header m) = sub_msgID (subs c s)" and live: "subscribed (subs c s)"
        using order(2) by (auto simp: listens_def)
      from fan_out_sub [OF order(1) True, of m ?d] show ?thesis
      proof
        assume "subs (fan_out m order ?d) s = subs ?d s \<and> (reliable (subs ?d s) \<longrightarrow> loop_ended (fan_out m order ?d))"
        then show ?thesis using ok heard id by (auto simp: sub_ok_def c' intro: prefix_order.trans)
      next
        assume "subs (fan_out m order ?d) s = got m (subs ?d s) \<and> length (sub_buf (subs ?d s)) < sub_cap (subs ?d s)"
        then show ?thesis using ok heard id live run by (auto simp: sub_ok_def c')
      qed
    next
      case False
      then have "subs ?c' s = subs c s" by (simp add: c' fan_out_other)
      moreover from this have "MsgID (Msg_Header m) = sub_msgID (subs c s) \<Longrightarrow> \<not> subscribed (subs c s)"
        using False s order(2) by (auto simp: listens_def)
      ultimately show ?thesis using ok heard run by (auto simp: sub_ok_def c' intro: prefix_order.trans)
    qed
  qed
  moreover have "loop_ended ?c' \<longrightarrow> closed ?c'" using fan_out_flags [of ?d m order] run by (auto simp: c')
  ultimately show ?thesis by (simp add: sub_inv_def c')
qed


lemma sub_inv_update:
  assumes "sub_inv c" "s < next_sub c \<Longrightarrow> sub_ok (c\<lparr>subs := (subs c)(s := t)\<rparr>) s"
  shows "sub_inv (c\<lparr>subs := (subs c)(s := t)\<rparr>)"
  using assms by (auto simp: sub_inv_def sub_ok_def heard_def)

lemma take_subs: "sub_inv c \<Longrightarrow> sub_inv (take_message s c)"
  by (cases "sub_buf (subs c s)")
     (auto simp: take_message_def sub_inv_def sub_ok_def heard_def intro!: sub_inv_update)

lemma unsubscribe_subs: "sub_inv c \<Longrightarrow> sub_inv (unsubscribe s c)"
  unfolding unsubscribe_def by (rule sub_inv_update) (auto simp: sub_inv_def sub_ok_def heard_def)

lemma subscribe_subs: "sub_inv c \<Longrightarrow> sub_inv (snd (subscribe msgID buffer rel c))"
  by (auto simp: subscribe_def Let_def sub_inv_def sub_ok_def heard_def less_Suc_eq)

lemma sub_step: "conn_step c c' \<Longrightarrow> sub_inv c \<Longrightarrow> sub_inv c'"
proof (induction rule: conn_step.induct)
  case (message c order m)
  then show ?case by (intro dispatch_subs) auto
next
  case (read_error c e)
  then show ?case by (simp add: sub_inv_def sub_ok_def heard_def read_failed_def)
next
  case (take s c)
  then show ?case by (intro take_subs)
next
  case (unsubscribe s c)
  then show ?case by (intro unsubscribe_subs)
next
  case (subscribe c msgID buffer rel)
  then show ?case by (intro subscribe_subs)
qed (auto intro: sub_inv_frame simp: begin_request_def end_request_def reserveMessageNumber_def Let_def)

lemma reachable_subs: "conn_reachable c \<Longrightarrow> sub_inv c"
proof (induction rule: conn_reachable.induct)
  case (init c)
  then show ?case by (simp add: conn_init_def sub_inv_def)
qed (rule sub_step)

section \<open>Previews as runs of the connection\<close>

text \<open>A preview runs beside everything else that happens on the connection; its channel is its own, so no other
  step takes from it.\<close>

inductive preview_run :: "byte \<Rightarrow> bool \<Rightarrow> preview \<times> conn \<Rightarrow> bool" for st audioOnly where
  start: "conn_reachable c \<Longrightarrow> s < next_sub c \<Longrightarrow> reliable (subs c s) \<Longrightarrow> taken (subs c s) = []
    \<Longrightarrow> preview_run st audioOnly (\<lparr>pv_sub = s, pv_streamType = st, pv_parser = \<lparr>buf = [], AudioOnly = audioOnly\<rparr>,
          pv_out = [], pv_ended = False\<rparr>, c)"
| other: "preview_run st audioOnly (p, c) \<Longrightarrow> conn_step c c' \<Longrightarrow> taken (subs c' (pv_sub p)) = taken (subs c (pv_sub p))
    \<Longrightarrow> preview_run st audioOnly (p, c')"
| receive: "preview_run st audioOnly (p, c) \<Longrightarrow> \<not> pv_ended p \<Longrightarrow> preview_run st audioOnly (preview_next n (p, c))"
| stop: "preview_run st audioOnly (p, c) \<Longrightarrow> \<not> pv_ended p \<Longrightarrow> preview_run st audioOnly (preview_end (p, c))"

definition payloads :: "byte \<Rightarrow> Message list \<Rightarrow> byte list list" where
  "payloads st ms = map Msg_Payload (filter (preview_wants st) ms)"

definition packets_of :: "bool \<Rightarrow> byte list \<Rightarrow> MediaPacket list" where
  "packets_of audioOnly b = fst (snd (append_loop audioOnly b))"

lemma packets_of_append: "\<exists>more. packets_of a (b @ x) = packets_of a b @ more"
proof -
  obtain r out e where l: "append_loop a b = (r, out, e)" by (cases "append_loop a b")
  show ?thesis using append_loop_append [OF l, of x] l
    by (auto simp: packets_of_def split: option.splits prod.splits)
qed

lemma packets_of_prefix: "prefix b b' \<Longrightarrow> prefix (packets_of a b) (packets_of a b')"
  using packets_of_append by (fastforce simp: prefix_def)

lemma append_all_snoc:
  "append_all p cs = (p', out, None)
   \<Longrightarrow> append_all p (cs @ [c]) = (case Append p' c of (q, out', e) \<Rightarrow> (q, out @ out', e))"
  by (induction cs arbitrary: p out) (auto split: prod.splits option.splits)

lemma append_all_packets:
  assumes "append_all \<lparr>buf = [], AudioOnly = a\<rparr> cs = (p', out, e)"
  shows "packets_of a (concat cs) = out"
proof -
  have "append_loop a [] = ([], [], None)" by (simp add: append_loop.simps parseMediaPacket_def)
  then show ?thesis using append_all_concat [OF _ assms] by (auto simp: packets_of_def split: prod.splits)
qed

text \<open>The invariant of a preview: its output is that of the parser on the payloads it has taken, cut short only when
  it has ended.\<close>

definition preview_inv :: "byte \<Rightarrow> bool \<Rightarrow> preview \<times> conn \<Rightarrow> bool" where
  "preview_inv st a = (\<lambda>(p, c).
     conn_reachable c \<and> pv_sub p < next_sub c \<and> reliable (subs c (pv_sub p)) \<and> pv_streamType p = st
     \<and> prefix (pv_out p) (packets_of a (concat (payloads st (taken (subs c (pv_sub p))))))
     \<and> (\<not> pv_ended p \<longrightarrow>
          append_all \<lparr>buf = [], AudioOnly = a\<rparr> (payloads st (taken (subs c (pv_sub p)))) = (pv_parser p, pv_out p, None)))"

lemma fan_out_reliable: "reliable (subs (fan_out m order c) s) = reliable (subs c s)"
proof (induction order arbitrary: c)
  case (Cons t ts)
  then show ?case by (cases rule: fan_out_cases [of c t m ts]) simp_all
qed simp

lemma conn_step_subs:
  "conn_step c c' \<Longrightarrow> next_sub c \<le> next_sub c' \<and> (s < next_sub c \<longrightarrow> reliable (subs c' s) = reliable (subs c s))"
proof (induction rule: conn_step.induct)
  case (message c order m)
  then show ?case by (simp add: dispatch_def fan_out_reliable)
qed (auto simp: begin_request_def end_request_def read_failed_def subscribe_def unsubscribe_def take_message_def
    reserveMessageNumber_def Let_def split: list.split)

lemma preview_end_inv: "preview_inv st a (p, c) \<Longrightarrow> preview_inv st a (preview_end (p, c))"
  by (auto simp: preview_inv_def preview_end_def unsubscribe_def intro: conn_reachable.step
      conn_step.unsubscribe [unfolded unsubscribe_def])

lemma shutdown_inv: "preview_inv st a (p, c) \<Longrightarrow> preview_inv st a (p, shutdown e c)"
  by (auto simp: preview_inv_def intro: conn_reachable.step conn_step.shutdown)

lemma payloads_snoc:
  "payloads st (ms @ [m]) = payloads st ms @ (if preview_wants st m then [Msg_Payload m] else [])"
  by (simp add: payloads_def)

lemma preview_next_inv:
  assumes "preview_inv st a (p, c)" "\<not> pv_ended p"
  shows "preview_inv st a (preview_next n (p, c))"
proof (cases "sub_buf (subs c (pv_sub p))")
  case Nil
  then show ?thesis using assms by (simp add: preview_next_def)
next
  case (Cons m ms)
  let ?c = "take_message (pv_sub p) c" and ?t = "taken (subs c (pv_sub p))"
  have "conn_step c ?c" using assms by (intro conn_step.take) (simp add: preview_inv_def)
  moreover have "conn_reachable c" using assms by (simp add: preview_inv_def)
  ultimately have "conn_reachable ?c" using conn_reachable.step by blast
  moreover have "pv_sub p < next_sub ?c" "reliable (subs ?c (pv_sub p))" "taken (subs ?c (pv_sub p)) = ?t @ [m]"
    "pv_streamType p = st"
    using assms Cons by (simp_all add: preview_inv_def take_message_def)
  ultimately have c: "conn_reachable ?c" "pv_sub p < next_sub ?c" "reliable (subs ?c (pv_sub p))"
    "taken (subs ?c (pv_sub p)) = ?t @ [m]" "pv_streamType p = st" by blast+
  have run: "append_all \<lparr>buf = [], AudioOnly = a\<rparr> (payloads st ?t) = (pv_parser p, pv_out p, None)"
    using assms by (simp add: preview_inv_def)
  show ?thesis
  proof (cases "preview_wants st m")
    case False
    then show ?thesis using Cons c run append_all_packets [OF run]
      by (simp add: preview_next_def preview_inv_def payloads_snoc)
  next
    case True
    obtain q out e where ap: "Append (pv_parser p) (Msg_Payload m) = (q, out, e)"
      by (cases "Append (pv_parser p) (Msg_Payload m)")
    have run': "append_all \<lparr>buf = [], AudioOnly = a\<rparr> (payloads st (?t @ [m])) = (q, pv_out p @ out, e)"
      using append_all_snoc [OF run, of "Msg_Payload m"] ap True by (simp add: payloads_snoc)
    note packets = append_all_packets [OF run']
    show ?thesis
    proof (cases e)
      case (Some err)
      have "preview_inv st a (preview_end (p\<lparr>pv_parser := q, pv_ended := True\<rparr>, shutdown (Media_failed err) ?c))"
        by (intro preview_end_inv shutdown_inv) (simp add: preview_inv_def c packets)
      then show ?thesis using Cons True ap Some c(5) by (simp add: preview_next_def preview_end_def)
    next
      case None
      let ?p = "p\<lparr>pv_parser := q, pv_out := pv_out p @ take n out\<rparr>"
      have "preview_inv st a (preview_end (?p\<lparr>pv_ended := True\<rparr>, ?c))"
        by (intro preview_end_inv) (simp add: preview_inv_def c packets take_is_prefix)
      moreover have "preview_inv st a (?p, ?c)" if "\<not> n < length out"
        using that run' None by (simp add: preview_inv_def c packets)
      ultimately show ?thesis using Cons True ap None c(5) by (simp add: preview_next_def preview_end_def Let_def)
    qed
  qed
qed

lemma preview_run_inv: "preview_run st a pc \<Longrightarrow> preview_inv st a pc"
proof (induction rule: preview_run.induct)
  case (start c s)
  then show ?case by (simp add: preview_inv_def payloads_def)
next
  case (other p c c')
  then show ?case using conn_step_subs [OF other.hyps(2), of "pv_sub p"] conn_reachable.step
    by (auto simp: preview_inv_def)
next
  case (receive p c n)
  then show ?case using preview_next_inv by blast
next
  case (stop p c)
  then show ?case using preview_end_inv by blast
qed

lemma payloads_prefix: "prefix ms ms' \<Longrightarrow> prefix (concat (payloads st ms)) (concat (payloads st ms'))"
  by (auto simp: prefix_def payloads_def)

section \<open>A run with one request and one subscriber\<close>

definition idle_conn :: conn where
  "idle_conn = \<lparr>bc_mode = EncryptionNone, bc_aesKey = replicate 16 0, bc_hasAESKey = False, bc_binaryMsgNums = {},
     loggedIn = False, keepAlive = False, msgNum = 0, pending = (\<lambda>_. None),
     waiters = (\<lambda>_. \<lparr>w_key = \<lparr>key_msgID = 0, key_msgNum = 0\<rparr>, w_buf = None, w_result = None\<rparr>), next_waiter = 0,
     subs = (\<lambda>_. \<lparr>sub_msgID = 0, sub_cap = 1, reliable = False, sub_buf = [], subscribed = False, taken = [], since = 0\<rparr>),
     next_sub = 0, closed = False, closeErr = None, loop_ended = False, log = []\<rparr>"

definition preview_reply :: Message where
  "preview_reply = \<lparr>Msg_Header = \<lparr>MsgID = 3, BodyLen = 0, ChannelID = 0, StreamType = 0, MsgNum = 0,
     ResponseCode = 200, Class = 0x6414, PayloadOffset = 0\<rparr>,
     Msg_Extension = [], Msg_Payload = sample_block, XML = [], Binary = True, ExtensionMeta = None\<rparr>"

definition preview_state :: conn where
  "preview_state = dispatch preview_reply [0] (snd (begin_request 3 (snd (subscribe 3 1 True idle_conn))))"

lemma preview_state_reachable: "conn_reachable preview_state"
proof -
  have "conn_reachable idle_conn" by (intro conn_reachable.init) (simp add: conn_init_def idle_conn_def)
  then have "conn_reachable (snd (subscribe 3 1 True idle_conn))" by (rule conn_reachable.step) (rule conn_step.subscribe)
  then have "conn_reachable (snd (begin_request 3 (snd (subscribe 3 1 True idle_conn))))"
    by (rule conn_reachable.step) (rule conn_step.request)
  moreover have "conn_step (snd (begin_request 3 (snd (subscribe 3 1 True idle_conn)))) preview_state"
    unfolding preview_state_def
    by (intro conn_step.message)
       (auto simp: idle_conn_def subscribe_def begin_request_def reserveMessageNumber_def listens_def preview_reply_def
          Let_def)
  ultimately show ?thesis by (rule conn_reachable.step)
qed

lemma preview_state_fields:
  "next_waiter preview_state = 1" "w_buf (waiters preview_state 0) = Some preview_reply"
  "w_key (waiters preview_state 0) = \<lparr>key_msgID = 3, key_msgNum = 0\<rparr>"
  "next_sub preview_state = 1" "subscribed (subs preview_state 0)" "\<not> loop_ended preview_state" "reliable (subs preview_state 0)" "sub_buf (subs preview_state 0) = [preview_reply]"
  "taken (subs preview_state 0) = []"
  by (simp_all add: preview_state_def dispatch_def deliver_response_def msg_key_def preview_reply_def fan_out_step
      got_def begin_request_def subscribe_def reserveMessageNumber_def idle_conn_def Let_def)

section \<open>Properties\<close>

text \<open>Whatever a request receives is its own response: in every state the connection can reach, a message that is
  buffered for a request or that the request returned is one the read loop did read from the connection, and
  it carries the message id and the message number that the request reserved.\<close>

lemma response_matches_request:
  "conn_reachable c \<Longrightarrow> w < next_waiter c
   \<Longrightarrow> w_buf (waiters c w) = Some m \<or> w_result (waiters c w) = Some (Inr m)
   \<Longrightarrow> msg_key m = w_key (waiters c w) \<and> m \<in> set (log c)"
  using reachable_waiters unfolding waiter_inv_def by blast

text \<open>C29. A reliable subscription has no gap: what the subscriber has taken, with what is still in its channel, is a
  prefix of the messages with its id that were read since it subscribed, and all of them while it is subscribed
  and the read loop runs; the channel never holds more than its capacity, and a read loop that has ended has
  closed the connection.\<close>

theorem reliable_stream_has_no_gap:
  "conn_reachable c \<Longrightarrow> s < next_sub c \<Longrightarrow> reliable (subs c s)
   \<Longrightarrow> prefix (taken (subs c s) @ sub_buf (subs c s)) (heard c s)
     \<and> (subscribed (subs c s) \<and> \<not> loop_ended c \<longrightarrow> taken (subs c s) @ sub_buf (subs c s) = heard c s)
     \<and> length (sub_buf (subs c s)) \<le> sub_cap (subs c s) \<and> (loop_ended c \<longrightarrow> closed c)"
  using reachable_subs by (auto simp: sub_inv_def sub_ok_def)

theorem reliable_stream_has_no_gap_witness: "prefix [preview_reply] (heard preview_state 0)"
  using reliable_stream_has_no_gap [OF preview_state_reachable, of 0] by (simp add: preview_state_fields)

text \<open>C24. A preview publishes the stream: whatever else happens on the connection, the packets it has published are a
  prefix of the packets of the media stream, which is the concatenation of the payloads of the preview's binary
  messages that were read since it subscribed, however the camera cut it into messages; while the preview, its
  subscription and the read loop are alive and nothing is queued, they are all of them.\<close>

theorem preview_publishes_the_stream:
  "preview_run st audioOnly (p, c)
   \<Longrightarrow> prefix (pv_out p) (packets_of audioOnly (concat (payloads st (heard c (pv_sub p)))))
     \<and> (\<not> pv_ended p \<and> subscribed (subs c (pv_sub p)) \<and> \<not> loop_ended c \<and> sub_buf (subs c (pv_sub p)) = []
        \<longrightarrow> pv_out p = packets_of audioOnly (concat (payloads st (heard c (pv_sub p)))))"
proof -
  assume "preview_run st audioOnly (p, c)"
  then have inv: "preview_inv st audioOnly (p, c)" by (rule preview_run_inv)
  then have sub: "sub_ok c (pv_sub p)" "reliable (subs c (pv_sub p))"
    using reachable_subs by (auto simp: preview_inv_def sub_inv_def)
  then have "prefix (taken (subs c (pv_sub p))) (heard c (pv_sub p))"
    by (auto simp: sub_ok_def intro: append_prefixD)
  then have "prefix (pv_out p) (packets_of audioOnly (concat (payloads st (heard c (pv_sub p)))))"
    using inv packets_of_prefix [OF payloads_prefix] by (auto simp: preview_inv_def intro: prefix_order.trans)
  moreover have "pv_out p = packets_of audioOnly (concat (payloads st (taken (subs c (pv_sub p)))))" if "\<not> pv_ended p"
    using inv that append_all_packets by (fastforce simp: preview_inv_def)
  ultimately show ?thesis using sub by (auto simp: sub_ok_def)
qed

lemma append_sample_block:
  "Append \<lparr>buf = [], AudioOnly = True\<rparr> sample_block
     = (\<lparr>buf = [], AudioOnly = True\<rparr>, [(media_packet MediaPacketADPCM)\<lparr>Data := [1, 2, 3, 4, 5]\<rparr>], None)"
  using parse_serialized [of "[1, 2, 3, 4, 5]" 9 "[]" False]
  by (simp add: Append_def sample_block_def append_loop.simps parseMediaPacket_def [of "[]"] media_packet_def)

theorem preview_publishes_the_stream_witness:
  "packets_of True (concat (payloads 0 (heard (take_message 0 preview_state) 0)))
     = [(media_packet MediaPacketADPCM)\<lparr>Data := [1, 2, 3, 4, 5]\<rparr>]"
proof -
  let ?p = "\<lparr>pv_sub = 0, pv_streamType = 0, pv_parser = \<lparr>buf = [], AudioOnly = True\<rparr>, pv_out = [], pv_ended = False\<rparr>"
  have "preview_run 0 True (?p, preview_state)"
    by (rule preview_run.start [OF preview_state_reachable]) (simp_all add: preview_state_fields)
  then have "preview_run 0 True (preview_next 1 (?p, preview_state))" by (rule preview_run.receive) simp
  moreover have "sample_block \<noteq> []" by (simp add: sample_block_def serializeTalkADPCMBlock_def Let_def le32_def)
  then have "preview_wants 0 preview_reply" by (simp add: preview_wants_def preview_reply_def)
  then have "preview_next 1 (?p, preview_state) =
    (?p\<lparr>pv_out := [(media_packet MediaPacketADPCM)\<lparr>Data := [1, 2, 3, 4, 5]\<rparr>]\<rparr>, take_message 0 preview_state)"
    using append_sample_block by (simp add: preview_next_def preview_state_fields preview_reply_def)
  ultimately show ?thesis
    using preview_publishes_the_stream [of 0 True "?p\<lparr>pv_out := [(media_packet MediaPacketADPCM)\<lparr>Data := [1, 2, 3, 4, 5]\<rparr>]\<rparr>"
        "take_message 0 preview_state"]
    by (simp add: take_message_def preview_state_fields)
qed

end
