(* ===== verification/BaichuanTalk.thy ===== *)
theory BaichuanTalk
  imports BaichuanClient Adpcm
begin

text \<open>
  Talking to the doorbell: \<^verbatim>\<open>internal/baichuan/talk.go\<close>.  A talk session is opened with the profile that the
  device advertises, retried once when an old session is still there (status 422), and then sends ADPCM
  blocks as binary messages.  \<open>env\<close> is, as in \<^theory_text>\<open>BaichuanClient\<close>, what the rest of the system does while a
  request waits; the decoder of the ability document is a parameter.
\<close>

section \<open>Choosing the profile\<close>

datatype unsupported =
    Ability_status u16
  | Ability_missing
  | No_profiles
  | No_adpcm
  | Config_rejected u16

datatype talk_error =
    Conn_failed conn_error
  | UnsupportedTalkError unsupported
  | Parse_ability
  | Invalid_length int
  | Session_closed
  | Context_ended
  | Unexpected_block_size nat int

definition usable_profile :: "TalkAudioConfig \<Rightarrow> bool" where
  "usable_profile a \<longleftrightarrow> equal_fold (AudioType a) ''adpcm'' \<and> SampleRate a \<noteq> 0 \<and> LengthPerEncode a \<noteq> 0"

definition preferred_duplex :: "string list \<Rightarrow> string" where
  "preferred_duplex ds = (case find (\<lambda>d. equal_fold d ''fullDuplex'' \<or> equal_fold d ''FDX'') ds of Some d \<Rightarrow> d | None \<Rightarrow> hd ds)"

definition preferred_mode :: "string list \<Rightarrow> string" where
  "preferred_mode ms = (case find (\<lambda>m. equal_fold m ''speaker'') ms of Some m \<Rightarrow> m | None \<Rightarrow> hd ms)"

definition defaultTalkConfig :: "byte \<Rightarrow> TalkAbility \<Rightarrow> talk_error + TalkConfig" where
  "defaultTalkConfig channel ability =
     (if DuplexList ability = [] \<or> AudioStreamModeList ability = [] \<or> AudioConfigList ability = []
      then Inl (UnsupportedTalkError No_profiles)
      else case find usable_profile (AudioConfigList ability) of
        None \<Rightarrow> Inl (UnsupportedTalkError No_adpcm)
      | Some a \<Rightarrow>
          Inr \<lparr>TC_Version = (if TA_Version ability = [] then ''1.1'' else TA_Version ability), TC_ChannelID = channel,
               Duplex = preferred_duplex (DuplexList ability), AudioStreamMode = preferred_mode (AudioStreamModeList ability),
               AudioConfig = a\<lparr>Priority := None\<rparr>\<rparr>)"

section \<open>The requests of a session\<close>

definition msgIDTalkAbility :: u32 where "msgIDTalkAbility = 10"
definition msgIDTalkReset :: u32 where "msgIDTalkReset = 11"
definition msgIDTalkConfig :: u32 where "msgIDTalkConfig = 201"
definition msgIDTalk :: u32 where "msgIDTalk = 202"

definition stopTalk :: "env \<Rightarrow> byte \<Rightarrow> conn \<Rightarrow> conn \<times> conn_error option" where
  "stopTalk env channel c =
     (case sendRequest env ((new_request msgIDTalkReset classModernWithOffset)
              \<lparr>Rq_ChannelID := channel, Rq_Extension := buildTalkExtension channel False\<rparr>) c of
        (c, Inl e) \<Rightarrow> (c, if e = Status_error 422 then None else Some e)
      | (c, Inr _) \<Rightarrow> (c, None))"

definition getTalkAbility ::
  "env \<Rightarrow> (string \<Rightarrow> TalkAbility option option) \<Rightarrow> byte \<Rightarrow> conn \<Rightarrow> conn \<times> (talk_error + TalkAbility)" where
  "getTalkAbility env unmarshal_ability channel c =
     (case sendRequest env ((new_request msgIDTalkAbility classModernWithOffset)
              \<lparr>Rq_ChannelID := channel, Rq_Extension := buildTalkExtension channel False\<rparr>) c of
        (c, Inl e) \<Rightarrow>
          (c, Inl (case e of Status_error code \<Rightarrow> UnsupportedTalkError (Ability_status code) | _ \<Rightarrow> Conn_failed e))
      | (c, Inr resp) \<Rightarrow>
          (c, case unmarshal_ability (XML resp) of
                None \<Rightarrow> Inl Parse_ability
              | Some None \<Rightarrow> Inl (UnsupportedTalkError Ability_missing)
              | Some (Some ability) \<Rightarrow> Inr ability))"

definition config_request :: "byte \<Rightarrow> TalkConfig \<Rightarrow> request" where
  "config_request channel cfg =
     (new_request msgIDTalkConfig classModernWithOffset)
       \<lparr>Rq_ChannelID := channel, Rq_Extension := buildTalkExtension channel False,
        Rq_Body := marshalXMLDocument (talkConfigBody cfg)\<rparr>"

text \<open>The last part of \<open>startTalkSession\<close>: what the final response means.\<close>

definition config_result :: "conn_error + Message \<Rightarrow> talk_error option" where
  "config_result r =
     (case r of
        Inl e \<Rightarrow> Some (Conn_failed e)
      | Inr resp \<Rightarrow>
          (case msg_success resp of None \<Rightarrow> None | Some code \<Rightarrow> Some (UnsupportedTalkError (Config_rejected code))))"

definition startTalkSession :: "env \<Rightarrow> byte \<Rightarrow> TalkConfig \<Rightarrow> conn \<Rightarrow> conn \<times> talk_error option" where
  "startTalkSession env channel cfg c =
     (let req = config_request channel cfg in
      case roundTripRequest env req c of
        (c, Inl e) \<Rightarrow> (c, Some (Conn_failed e))
      | (c, Inr resp) \<Rightarrow>
          if ResponseCode (Msg_Header resp) = 422
          then (case stopTalk env channel c of
                  (c, Some e) \<Rightarrow> (c, Some (Conn_failed e))
                | (c, None) \<Rightarrow> (case roundTripRequest env req c of (c, r) \<Rightarrow> (c, config_result r)))
          else (c, config_result (Inr resp)))"

section \<open>Sessions\<close>

record TalkSession =
  TS_channel :: byte
  binaryExtension :: "byte list"
  TS_config :: TalkConfig
  samplesPerBlock :: int
  bytesPerBlock :: int
  TS_closed :: bool
  TS_seq :: u16

type_synonym client_ops = "conn \<Rightarrow> conn \<times> conn_error option"

text \<open>\<open>login\<close> is \<open>Login\<close> with the arguments of the client.\<close>

definition StartTalk ::
  "client_ops \<Rightarrow> env \<Rightarrow> (string \<Rightarrow> TalkAbility option option) \<Rightarrow> byte \<Rightarrow> conn \<Rightarrow> conn \<times> (talk_error + TalkSession)" where
  "StartTalk login env unmarshal_ability channel c =
     (case login c of
        (c, Some e) \<Rightarrow> (c, Inl (Conn_failed e))
      | (c, None) \<Rightarrow>
        (case getTalkAbility env unmarshal_ability channel c of
           (c, Inl e) \<Rightarrow> (c, Inl e)
         | (c, Inr ability) \<Rightarrow>
           (case defaultTalkConfig channel ability of
              Inl e \<Rightarrow> (c, Inl e)
            | Inr cfg \<Rightarrow>
              (case startTalkSession env channel cfg c of
                 (c, Some e) \<Rightarrow> (c, Inl e)
               | (c, None) \<Rightarrow>
                   let samples = uint (LengthPerEncode (AudioConfig cfg)) in
                   if samples < 2 \<or> samples mod 2 \<noteq> 0
                   then (fst (stopTalk env channel c), Inl (Invalid_length samples))
                   else (c, Inr \<lparr>TS_channel = channel, binaryExtension = buildTalkExtension channel True,
                          TS_config = cfg, samplesPerBlock = samples, bytesPerBlock = samples div 2 + 4,
                          TS_closed = False, TS_seq = 0\<rparr>)))))"

definition PreferredTalkAudioProfile ::
  "client_ops \<Rightarrow> env \<Rightarrow> (string \<Rightarrow> TalkAbility option option) \<Rightarrow> byte \<Rightarrow> conn \<Rightarrow> conn \<times> (talk_error + TalkAudioConfig)" where
  "PreferredTalkAudioProfile login env unmarshal_ability channel c =
     (case login c of
        (c, Some e) \<Rightarrow> (c, Inl (Conn_failed e))
      | (c, None) \<Rightarrow>
        (case getTalkAbility env unmarshal_ability channel c of
           (c, Inl e) \<Rightarrow> (c, Inl e)
         | (c, Inr ability) \<Rightarrow>
           (c, case defaultTalkConfig channel ability of Inl e \<Rightarrow> Inl e | Inr cfg \<Rightarrow> Inr (AudioConfig cfg))))"

text \<open>\<open>WriteADPCMBlock\<close> gives the bytes that it writes to the transport; \<open>ctx_done\<close> is the state of its context.\<close>

definition WriteADPCMBlock ::
  "(byte list \<Rightarrow> byte list \<Rightarrow> byte list) \<Rightarrow> bool \<Rightarrow> TalkSession \<Rightarrow> conn \<Rightarrow> byte list
   \<Rightarrow> TalkSession \<times> conn \<times> (talk_error + byte list)" where
  "WriteADPCMBlock aes ctx_done s c block =
     (if ctx_done then (s, c, Inl Context_ended)
      else if TS_closed s then (s, c, Inl Session_closed)
      else if int (length block) \<noteq> bytesPerBlock s
      then (s, c, Inl (Unexpected_block_size (length block) (bytesPerBlock s)))
      else
        let s = s\<lparr>TS_seq := TS_seq s + 1\<rparr>;
            payload = serializeTalkADPCMBlock block (TS_seq s);
            (n, c) = reserveMessageNumber c
        in (s, c, Inr (writeRequest aes c
             \<lparr>Rq_MsgID = msgIDTalk, Rq_ChannelID = TS_channel s, Rq_StreamType = 0, Rq_Class = classModernWithOffset,
              Rq_MsgNum = n, Rq_Extension = binaryExtension s, Rq_Body = payload, Rq_Binary = True, Rq_ForceBC = False\<rparr>)))"

definition session_close :: "env \<Rightarrow> TalkSession \<Rightarrow> conn \<Rightarrow> TalkSession \<times> conn \<times> conn_error option" where
  "session_close env s c =
     (if TS_closed s then (s, c, None)
      else case stopTalk env (TS_channel s) c of (c, e) \<Rightarrow> (s\<lparr>TS_closed := True\<rparr>, c, e))"

section \<open>What a session is\<close>

text \<open>The invariant of an open session: whole blocks of at least two samples with their four-byte header, and the
  extension that announces a binary body.\<close>

definition session_ok :: "TalkSession \<Rightarrow> bool" where
  "session_ok s \<longleftrightarrow> \<not> TS_closed s \<and> 2 \<le> samplesPerBlock s \<and> even (samplesPerBlock s) \<and> samplesPerBlock s < 65536
     \<and> bytesPerBlock s = samplesPerBlock s div 2 + 4 \<and> binaryExtension s = buildTalkExtension (TS_channel s) True"

lemma find_usable: "find usable_profile as = Some a \<Longrightarrow> a \<in> set as \<and> usable_profile a"
  by (auto simp: find_Some_iff)

lemma defaultTalkConfig_profile:
  "defaultTalkConfig channel ability = Inr cfg
   \<Longrightarrow> TC_ChannelID cfg = channel
     \<and> (\<exists>a \<in> set (AudioConfigList ability). usable_profile a \<and> AudioConfig cfg = a\<lparr>Priority := None\<rparr>)"
  by (auto simp: defaultTalkConfig_def split: if_splits option.splits dest: find_usable)

lemma length_show_nat: "length (show_nat n) \<le> Suc n"
proof (induction n rule: show_nat.induct)
  case (1 n)
  have "n div 10 < n" if "\<not> n < 10" using that by simp
  with 1 show ?case by (subst show_nat.simps) fastforce
qed

lemma length_escape_text: "length (escape_text s) \<le> 6 * length s"
  by (induction s) (auto simp: escape_text_def escape_char_def)

lemma length_binary_extension: "length (buildTalkExtension ch True) \<le> 4000"
proof -
  have "unat ch < 256" by (rule order.strict_trans2 [OF unsigned_less]) simp
  then have "length (show_nat (unat ch)) \<le> 256" using length_show_nat [of "unat ch"] by linarith
  then have "length (escape_text (show_nat (unat ch))) \<le> 6 * 256" "length (escape_text (show_nat (Suc 0))) \<le> 6 * 2"
    using length_escape_text [of "show_nat (unat ch)"] length_escape_text [of "show_nat (Suc 0)"]
      length_show_nat [of "Suc 0"] by linarith+
  moreover have "length (buildTalkExtension ch True)
      = 124 + length (escape_text (show_nat (unat ch))) + length (escape_text (show_nat (Suc 0)))"
    by (simp add: buildTalkExtension_def marshalXMLDocument_def xml_header_def string_bytes_def number_leaf_def leaf_def
        version_attr_def print_attr_def)
       (simp add: escape_text_def escape_char_def)
  ultimately show ?thesis by linarith
qed

section \<open>What the camera hears\<close>

text \<open>A peer that shares the cipher state and reads the extension of the session as the announcement of a wholly
  unencrypted binary body.\<close>

definition hears ::
  "(byte list \<Rightarrow> Extension option) \<Rightarrow> (string \<Rightarrow> int option) \<Rightarrow> TalkSession \<Rightarrow> conn \<Rightarrow> bc_state \<Rightarrow> bool" where
  "hears ux ul s c d \<longleftrightarrow>
     bc_mode d = bc_mode c \<and> bc_aesKey d = bc_aesKey c \<and> bc_hasAESKey d = bc_hasAESKey c
     \<and> is_flagged (parseExtension ux (binaryExtension s))
     \<and> encrypt_len ul (parseExtension ux (binaryExtension s)) (trimXML (binaryExtension s)) = 0"

text \<open>A peer that reads a number of messages; \<open>None\<close> when one of them is an error.\<close>

fun read_messages ::
  "(byte list \<Rightarrow> byte list \<Rightarrow> byte list) \<Rightarrow> (byte list \<Rightarrow> Extension option) \<Rightarrow> (string \<Rightarrow> int option)
   \<Rightarrow> nat \<Rightarrow> bc_state \<Rightarrow> byte list \<Rightarrow> (Message list \<times> byte list) option" where
  "read_messages aes ux ul 0 d b = Some ([], b)"
| "read_messages aes ux ul (Suc k) d b =
     (case readMessage aes ux ul d b of
        (d, Inl e) \<Rightarrow> None
      | (d, Inr (m, b)) \<Rightarrow> (case read_messages aes ux ul k d b of None \<Rightarrow> None | Some (ms, b) \<Rightarrow> Some (m # ms, b)))"

lemma block_fits:
  assumes "session_ok s" "int (length block) = bytesPerBlock s"
  shows "length block \<le> 32771"
  using assms by (auto simp: session_ok_def)

lemma WriteADPCMBlock_ok:
  assumes "session_ok s" "int (length block) = bytesPerBlock s"
  shows "WriteADPCMBlock aes False s c block =
    (s\<lparr>TS_seq := TS_seq s + 1\<rparr>, c\<lparr>msgNum := msgNum c + 1\<rparr>,
     Inr (encodeRequest aes (bc_state.truncate c)
       \<lparr>Rq_MsgID = msgIDTalk, Rq_ChannelID = TS_channel s, Rq_StreamType = 0, Rq_Class = classModernWithOffset,
        Rq_MsgNum = msgNum c, Rq_Extension = binaryExtension s,
        Rq_Body = serializeTalkADPCMBlock block (TS_seq s + 1), Rq_Binary = True, Rq_ForceBC = False\<rparr>))"
  using assms
  by (simp add: WriteADPCMBlock_def session_ok_def writeRequest_def reserveMessageNumber_def bc_state.truncate_def Let_def)

lemma session_ok_write [simp]: "session_ok (s\<lparr>TS_seq := n\<rparr>) = session_ok s"
  by (simp add: session_ok_def)

lemma hears_write [simp]:
  "hears ux ul (s\<lparr>TS_seq := n\<rparr>) (c\<lparr>msgNum := k\<rparr>) (d\<lparr>bc_binaryMsgNums := b\<rparr>) = hears ux ul s c d"
  by (simp add: hears_def)

lemma block_heard:
  assumes aes: "\<And>k b. length (aes k b) = 16" and s: "session_ok s" "int (length block) = bytesPerBlock s"
    and peer: "hears ux ul s c d"
    and w: "WriteADPCMBlock aes False s c block = (s', c', Inr bytes)"
  shows "\<exists>m. readMessage aes ux ul d (bytes @ rest) =
      (d\<lparr>bc_binaryMsgNums := insert (msgNum c) (bc_binaryMsgNums d)\<rparr>, Inr (m, rest))
    \<and> Msg_Payload m = serializeTalkADPCMBlock block (TS_seq s + 1) \<and> Binary m \<and> MsgID (Msg_Header m) = msgIDTalk
    \<and> MsgNum (Msg_Header m) = msgNum c"
proof -
  let ?req = "\<lparr>Rq_MsgID = msgIDTalk, Rq_ChannelID = TS_channel s, Rq_StreamType = 0, Rq_Class = classModernWithOffset,
        Rq_MsgNum = msgNum c, Rq_Extension = binaryExtension s,
        Rq_Body = serializeTalkADPCMBlock block (TS_seq s + 1), Rq_Binary = True, Rq_ForceBC = False\<rparr>"
  have bytes: "bytes = encodeRequest aes (bc_state.truncate c) ?req"
    using w unfolding WriteADPCMBlock_ok [OF s] by simp
  have "padLen (length block + 4) < 8" by (simp add: padLen_def bcmediaPadSize_def)
  then have "length (Rq_Extension ?req) + length (Rq_Body ?req) \<le> 8 * 1024 * 1024"
    using block_fits [OF s] length_binary_extension [of "TS_channel s"] s(1)
    by (simp add: session_ok_def serializeTalkADPCMBlock_def Let_def)
  moreover have "agrees ux ul (bc_state.truncate c) d ?req"
    using peer by (simp add: agrees_def hears_def sent_mode_def bc_state.truncate_def)
  ultimately show ?thesis
    using read_encoded [of aes ?req ux ul "bc_state.truncate c" d rest, OF aes] unfolding bytes by auto
qed

section \<open>Properties\<close>

text \<open>C32. A talk session that was opened can be used: it carries a profile that the device itself advertised, with the
  audio type ADPCM, a sample rate and an even block of at least two samples; its block size is that of the
  encoder, its extension announces a binary body, its numbering starts at zero, and it is open.\<close>

theorem talk_session_sound:
  "StartTalk login env unmarshal_ability channel c = (c', Inr s)
   \<Longrightarrow> session_ok s \<and> TS_channel s = channel \<and> TC_ChannelID (TS_config s) = channel \<and> TS_seq s = 0
     \<and> equal_fold (AudioType (AudioConfig (TS_config s))) ''adpcm'' \<and> SampleRate (AudioConfig (TS_config s)) \<noteq> 0
     \<and> samplesPerBlock s = uint (LengthPerEncode (AudioConfig (TS_config s)))
     \<and> (\<exists>c1 c2 ability. getTalkAbility env unmarshal_ability channel c1 = (c2, Inr ability)
          \<and> (\<exists>a \<in> set (AudioConfigList ability). AudioConfig (TS_config s) = a\<lparr>Priority := None\<rparr>))"
proof -
  assume start: "StartTalk login env unmarshal_ability channel c = (c', Inr s)"
  then obtain c1 c2 ability cfg where ability: "getTalkAbility env unmarshal_ability channel c1 = (c2, Inr ability)"
    and cfg: "defaultTalkConfig channel ability = Inr cfg"
    and samples: "\<not> uint (LengthPerEncode (AudioConfig cfg)) < 2" "uint (LengthPerEncode (AudioConfig cfg)) mod 2 = 0"
    and s: "s = \<lparr>TS_channel = channel, binaryExtension = buildTalkExtension channel True, TS_config = cfg,
      samplesPerBlock = uint (LengthPerEncode (AudioConfig cfg)),
      bytesPerBlock = uint (LengthPerEncode (AudioConfig cfg)) div 2 + 4, TS_closed = False, TS_seq = 0\<rparr>"
    by (auto simp: StartTalk_def Let_def split: prod.splits option.splits sum.splits if_splits)
  from defaultTalkConfig_profile [OF cfg] obtain a where a: "a \<in> set (AudioConfigList ability)" "usable_profile a"
    "AudioConfig cfg = a\<lparr>Priority := None\<rparr>" "TC_ChannelID cfg = channel" by blast
  have "uint (LengthPerEncode (AudioConfig cfg)) < 65536"
    by (rule order.strict_trans2 [OF unsigned_less]) simp
  then have "session_ok s" using samples by (auto simp: s session_ok_def even_iff_mod_2_eq_zero)
  then show ?thesis using a ability by (auto simp: s usable_profile_def)
qed

text \<open>A device with one profile, that answers every request with status 200.\<close>

definition demo_ability :: TalkAbility where
  "demo_ability = \<lparr>TA_Version = ''1.1'', DuplexList = [''FDX''], AudioStreamModeList = [''followVideoStream''],
     AudioConfigList = [\<lparr>Priority = Some 0, AudioType = ''adpcm'', SampleRate = 16000, SamplePrecision = 16,
       LengthPerEncode = 1024, SoundTrack = ''mono''\<rparr>]\<rparr>"

definition demo_env :: env where
  "demo_env w req c = (c, Response preview_reply)"

definition demo_talk :: TalkSession where
  "demo_talk = \<lparr>TS_channel = 0, binaryExtension = buildTalkExtension 0 True,
     TS_config = \<lparr>TC_Version = ''1.1'', TC_ChannelID = 0, Duplex = ''FDX'', AudioStreamMode = ''followVideoStream'',
       AudioConfig = \<lparr>Priority = None, AudioType = ''adpcm'', SampleRate = 16000, SamplePrecision = 16,
         LengthPerEncode = 1024, SoundTrack = ''mono''\<rparr>\<rparr>,
     samplesPerBlock = 1024, bytesPerBlock = 516, TS_closed = False, TS_seq = 0\<rparr>"

lemma demo_session:
  "\<exists>c'. StartTalk (\<lambda>c. (c, None)) demo_env (\<lambda>_. Some (Some demo_ability)) 0 idle_conn = (c', Inr demo_talk)"
  by (simp add: StartTalk_def getTalkAbility_def startTalkSession_def sendRequest_def roundTripRequest_def demo_env_def
      sendRequest_result_def msg_success_def preview_reply_def HasPayloadOffset_def defaultTalkConfig_def demo_ability_def
      usable_profile_def equal_fold_def config_result_def begin_request_def end_request_def reserveMessageNumber_def
      preferred_duplex_def preferred_mode_def demo_talk_def to_lower_def lower_char_def Let_def)

theorem talk_session_sound_witness:
  "\<exists>c'. StartTalk (\<lambda>c. (c, None)) demo_env (\<lambda>_. Some (Some demo_ability)) 0 idle_conn = (c', Inr demo_talk)
     \<and> session_ok demo_talk"
  using demo_session talk_session_sound [of "\<lambda>c. (c, None)" demo_env "\<lambda>_. Some (Some demo_ability)" 0 idle_conn _ demo_talk]
  by blast

end
