(* ===== verification/TalkbackTransport.thy ===== *)
theory TalkbackTransport
  imports BaichuanTalk Packetizer MediaTiming G711
begin

text \<open>
  The two talkback transports of \<^verbatim>\<open>internal/media/talkback.go\<close>: the RTSP backchannel, which transcodes and
  re-chunks the phone's RTP payloads, and the Baichuan talk session, which plays the connection tone as
  ADPCM blocks.  Times and durations are integers of nanoseconds; the readings of the clock, the branches of
  the \<open>select\<close> of a timed wait and the results of the RTSP writer are parameters.
\<close>

section \<open>Playing PCM in timed blocks\<close>

datatype tone_error =
    Invalid_tone_profile
  | Invalid_block_profile
  | Encode_failed adpcm_error
  | Write_tone talk_error
  | Tone_canceled
  | Talkback_lost conn_error
  | Talkback_closed

datatype deadline_wake = Timer | Ctx_canceled | Peer_done

definition waitTalkDeadline :: "duration \<Rightarrow> deadline_wake \<Rightarrow> conn_error option \<Rightarrow> tone_error option" where
  "waitTalkDeadline delay wake peerErr =
     (if delay \<le> 0 then None
      else case wake of
        Ctx_canceled \<Rightarrow> Some Tone_canceled
      | Peer_done \<Rightarrow> (case peerErr of Some e \<Rightarrow> Some (Talkback_lost e) | None \<Rightarrow> Some Talkback_closed)
      | Timer \<Rightarrow> None)"

text \<open>The block at an offset, filled up with silence.\<close>

definition block_at :: "nat \<Rightarrow> sample list \<Rightarrow> nat \<Rightarrow> sample list" where
  "block_at n pcm offset = (let chunk = take n (drop offset pcm) in chunk @ replicate (n - length chunk) 0)"

text \<open>The loop over the blocks, with the number of blocks left; \<open>wait k\<close> is the wait for the k-th deadline.\<close>

fun play_blocks ::
  "(nat \<Rightarrow> 's \<Rightarrow> sample list \<Rightarrow> 's \<times> tone_error option) \<Rightarrow> (nat \<Rightarrow> tone_error option) \<Rightarrow> nat \<Rightarrow> sample list
   \<Rightarrow> nat \<Rightarrow> nat \<Rightarrow> 's \<Rightarrow> 's \<times> tone_error option" where
  "play_blocks write wait n pcm i 0 s = (s, wait i)"
| "play_blocks write wait n pcm i (Suc left) s =
     (case (if 0 < i then wait i else None) of
        Some e \<Rightarrow> (s, Some e)
      | None \<Rightarrow>
          (case write i s (block_at n pcm (i * n)) of
             (s, Some e) \<Rightarrow> (s, Some e)
           | (s, None) \<Rightarrow> play_blocks write wait n pcm (i + 1) left s))"

definition playPCMBlocks ::
  "(nat \<Rightarrow> 's \<Rightarrow> sample list \<Rightarrow> 's \<times> tone_error option) \<Rightarrow> (nat \<Rightarrow> time) \<Rightarrow> (nat \<Rightarrow> deadline_wake)
   \<Rightarrow> (nat \<Rightarrow> conn_error option) \<Rightarrow> sample list \<Rightarrow> int \<Rightarrow> duration \<Rightarrow> 's \<Rightarrow> 's \<times> tone_error option" where
  "playPCMBlocks write now wake peerErr pcm blockSamples blockDuration s =
     (if pcm = [] then (s, None)
      else if blockSamples \<le> 0 \<or> blockDuration \<le> 0 then (s, Some Invalid_block_profile)
      else
        let n = nat blockSamples;
            blocks = (length pcm + n - 1) div n;
            wait = (\<lambda>k. waitTalkDeadline (now 0 + int k * blockDuration - now k) (wake k) (peerErr k))
        in play_blocks write wait n pcm 0 blocks s)"

section \<open>The Baichuan transport\<close>

datatype profile_error = Unsupported_codec | Unsupported_precision | Unsupported_profile | Unsafe_duration

definition profile_duration :: "int \<Rightarrow> int \<Rightarrow> duration" where
  "profile_duration samples rate = go_div (time_second * samples) rate"

definition validateBaichuanTalkProfile :: "string \<Rightarrow> int \<Rightarrow> int \<Rightarrow> int \<Rightarrow> profile_error option" where
  "validateBaichuanTalkProfile audioType precision rate samples =
     (if \<not> equal_fold audioType ''adpcm'' then Some Unsupported_codec
      else if precision \<noteq> 0 \<and> precision \<noteq> 16 then Some Unsupported_precision
      else if rate < 8000 \<or> rate > 48000 \<or> samples < 2 \<or> samples mod 2 \<noteq> 0 then Some Unsupported_profile
      else if profile_duration samples rate < 5000000 \<or> profile_duration samples rate > 500000000 then Some Unsafe_duration
      else None)"

definition session_profile :: "TalkSession \<Rightarrow> profile_error option" where
  "session_profile s =
     (let a = AudioConfig (TS_config s)
      in validateBaichuanTalkProfile (AudioType a) (uint (SamplePrecision a)) (uint (SampleRate a)) (samplesPerBlock s))"

datatype open_error = Start_failed talk_error | Profile_refused profile_error

text \<open>\<open>openBaichuanTalkback\<close> after the dial: \<open>start\<close> is \<open>StartTalk\<close> with the arguments of the client.  Closing the
  client on every failure is the shutdown.\<close>

definition openBaichuanTalkback ::
  "(conn \<Rightarrow> conn \<times> (talk_error + TalkSession)) \<Rightarrow> env \<Rightarrow> conn \<Rightarrow> conn \<times> (open_error + TalkSession)" where
  "openBaichuanTalkback start env c =
     (case start c of
        (c, Inl e) \<Rightarrow> (shutdown Canceled c, Inl (Start_failed e))
      | (c, Inr s) \<Rightarrow>
          (case session_profile s of
             Some e \<Rightarrow> (case session_close env s c of (_, c, _) \<Rightarrow> (shutdown Canceled c, Inl (Profile_refused e)))
           | None \<Rightarrow> (c, Inr s)))"

text \<open>The errors \<open>Close\<close> joins.\<close>

definition talkback_close :: "env \<Rightarrow> TalkSession \<Rightarrow> conn \<Rightarrow> TalkSession \<times> conn \<times> conn_error list" where
  "talkback_close env s c =
     (case session_close env s c of
        (s, c, e) \<Rightarrow> (s, shutdown Canceled c, case e of Some e \<Rightarrow> if e = Canceled then [] else [e] | None \<Rightarrow> []))"

text \<open>The state of \<open>PlayPCM\<close>: session, connection, encoder and the bytes written to the camera.\<close>

type_synonym tone_state = "TalkSession \<times> conn \<times> adpcm \<times> byte list"

definition write_tone ::
  "(byte list \<Rightarrow> byte list \<Rightarrow> byte list) \<Rightarrow> (nat \<Rightarrow> bool) \<Rightarrow> nat \<Rightarrow> tone_state \<Rightarrow> sample list \<Rightarrow> tone_state \<times> tone_error option" where
  "write_tone aes ctx_done i = (\<lambda>(s, c, e, out) block.
     case EncodeBlock e block of
       Inl err \<Rightarrow> ((s, c, e, out), Some (Encode_failed err))
     | Inr (e, encoded) \<Rightarrow>
         (case WriteADPCMBlock aes (ctx_done i) s c encoded of
            (s, c, Inl err) \<Rightarrow> ((s, c, e, out), Some (Write_tone err))
          | (s, c, Inr bytes) \<Rightarrow> ((s, c, e, out @ bytes), None)))"

definition PlayPCM ::
  "(byte list \<Rightarrow> byte list \<Rightarrow> byte list) \<Rightarrow> (nat \<Rightarrow> bool) \<Rightarrow> (nat \<Rightarrow> time) \<Rightarrow> (nat \<Rightarrow> deadline_wake) \<Rightarrow> (nat \<Rightarrow> conn_error option)
   \<Rightarrow> sample list \<Rightarrow> TalkSession \<Rightarrow> conn \<Rightarrow> tone_state \<times> tone_error option" where
  "PlayPCM aes ctx_done now wake peerErr pcm s c =
     (let rate = uint (SampleRate (AudioConfig (TS_config s))); n = samplesPerBlock s in
      if rate \<le> 0 \<or> n < 2 \<or> n mod 2 \<noteq> 0 then ((s, c, adpcm_zero, []), Some Invalid_tone_profile)
      else playPCMBlocks (write_tone aes ctx_done) now wake peerErr pcm n (profile_duration n rate) (s, c, adpcm_zero, []))"

section \<open>The RTSP transport\<close>

text \<open>\<open>accepted\<close>, the converted payloads that were accepted, and \<open>written\<close>, the chunks that the RTSP client took, are
  not in the code.\<close>

record rtsp_relay =
  rl_remoteIP :: string
  rl_remote :: "(string \<times> nat) option"
  rl_chunker :: "byte list"
  rl_watchdog :: rtpWatchdog
  accepted :: "byte list"
  written :: "byte list list"

text \<open>The loop over the chunks ends at the first error of the writer.\<close>

fun write_chunks :: "(byte list \<Rightarrow> 'e option) \<Rightarrow> byte list list \<Rightarrow> rtsp_relay \<Rightarrow> rtsp_relay \<times> 'e option" where
  "write_chunks write [] s = (s, None)"
| "write_chunks write (c # cs) s =
     (case write c of Some e \<Rightarrow> (s, Some e) | None \<Rightarrow> write_chunks write cs (s\<lparr>written := written s @ [c]\<rparr>))"

definition relay_accept :: "string \<times> nat \<Rightarrow> time \<Rightarrow> rtsp_relay \<Rightarrow> rtsp_relay" where
  "relay_accept a now s =
     (let s = s\<lparr>rl_watchdog := (rl_watchdog s)\<lparr>last_mark := now\<rparr>\<rparr>
      in case rl_remote s of
           None \<Rightarrow> s\<lparr>rl_remote := Some a\<rparr>
         | Some cur \<Rightarrow> if snd a \<noteq> snd cur then s\<lparr>rl_remote := Some a\<rparr> else s)"

text \<open>One datagram: the negotiated codec of the call, its telephone-event handler, the codec of the backchannel.\<close>

definition rtsp_datagram ::
  "string \<times> byte \<Rightarrow> (packet \<Rightarrow> bool) option \<Rightarrow> string \<Rightarrow> (byte list \<Rightarrow> 'e option) \<Rightarrow> string \<times> nat \<Rightarrow> byte list \<Rightarrow> time
   \<Rightarrow> rtsp_relay \<Rightarrow> rtsp_relay \<times> 'e option" where
  "rtsp_datagram codec telephone_event bcCodec write a data now s =
     (if fst a \<noteq> rl_remoteIP s then (s, None)
      else case Parse data of
        Inl _ \<Rightarrow> (s, None)
      | Inr p \<Rightarrow>
          if Payload p = [] then (s, None)
          else if (case (telephone_event, rl_remote s) of
                     (Some h, Some cur) \<Rightarrow> snd a = snd cur \<and> h p | _ \<Rightarrow> False) then (s, None)
          else if PayloadType p \<noteq> snd codec then (s, None)
          else
            let s = relay_accept a now s;
                payload = (if fst codec \<noteq> bcCodec then ConvertPayload (Payload p) (fst codec) bcCodec else Payload p);
                (buf, chunks) = chunker_push (rl_chunker s) payload
            in write_chunks write chunks (s\<lparr>rl_chunker := buf, accepted := accepted s @ payload\<rparr>))"

fun rtsp_relay_run ::
  "string \<times> byte \<Rightarrow> (packet \<Rightarrow> bool) option \<Rightarrow> string \<Rightarrow> (byte list \<Rightarrow> 'e option)
   \<Rightarrow> ((string \<times> nat) \<times> byte list \<times> time) list \<Rightarrow> rtsp_relay \<Rightarrow> rtsp_relay \<times> 'e option" where
  "rtsp_relay_run codec te bcCodec write [] s = (s, None)"
| "rtsp_relay_run codec te bcCodec write ((a, data, now) # ds) s =
     (case rtsp_datagram codec te bcCodec write a data now s of
        (s, Some e) \<Rightarrow> (s, Some e)
      | (s, None) \<Rightarrow> rtsp_relay_run codec te bcCodec write ds s)"

text \<open>The RTSP \<open>PlayPCM\<close>: blocks of 160 samples, encoded with the law of the backchannel.\<close>

definition rtsp_PlayPCM ::
  "(byte list \<Rightarrow> tone_error option) \<Rightarrow> (nat \<Rightarrow> time) \<Rightarrow> (nat \<Rightarrow> deadline_wake) \<Rightarrow> (nat \<Rightarrow> conn_error option)
   \<Rightarrow> string \<Rightarrow> sample list \<Rightarrow> byte list list \<times> tone_error option" where
  "rtsp_PlayPCM write now wake peerErr bcCodec pcm =
     (let name = to_lower (trim_space bcCodec) in
      if name \<noteq> PCMA \<and> name \<noteq> PCMU then ([], Some Invalid_tone_profile)
      else playPCMBlocks (\<lambda>_ out block.
             let payload = EncodePCM block name in
             case write payload of Some e \<Rightarrow> (out, Some e) | None \<Rightarrow> (out @ [payload], None))
           now wake peerErr pcm 160 20000000 [])"

section \<open>The blocks of a tone\<close>

lemma length_block_at [simp]: "length (block_at n pcm off) = n"
  by (simp add: block_at_def Let_def min_def)

lemma block_at_padded:
  "off + n \<le> length pcm + k \<Longrightarrow> block_at n pcm off = take n (drop off (pcm @ replicate k 0))"
  by (cases "off \<le> length pcm") (auto simp: block_at_def Let_def min_def)

lemma blocks_concat:
  "j * n \<le> length pcm + k
   \<Longrightarrow> concat (map (\<lambda>i. block_at n pcm (i * n)) [0..<j]) = take (j * n) (pcm @ replicate k 0)"
proof (induction j)
  case (Suc j)
  then have "block_at n pcm (j * n) = take n (drop (j * n) (pcm @ replicate k 0))"
    by (intro block_at_padded) (simp add: add.commute)
  moreover have "take (Suc j * n) (pcm @ replicate k 0)
      = take (j * n) (pcm @ replicate k 0) @ take n (drop (j * n) (pcm @ replicate k 0))"
    by (simp only: mult_Suc add.commute [of n] take_add)
  ultimately show ?case using Suc by simp
qed simp

text \<open>The number of blocks covers the tone with less than a block to spare.\<close>

lemma ceiling_blocks:
  fixes n len :: nat
  assumes "0 < n"
  shows "len \<le> (len + n - 1) div n * n" "(len + n - 1) div n * n < len + n"
proof -
  have "(len + n - 1) div n * n + (len + n - 1) mod n = len + n - 1" by simp
  moreover have "(len + n - 1) mod n < n" using assms by simp
  ultimately show "len \<le> (len + n - 1) div n * n" "(len + n - 1) div n * n < len + n" using assms by linarith+
qed

definition padded :: "nat \<Rightarrow> sample list \<Rightarrow> sample list" where
  "padded n pcm = pcm @ replicate ((length pcm + n - 1) div n * n - length pcm) 0"

lemma tone_concat:
  assumes "0 < n"
  shows "concat (map (\<lambda>i. block_at n pcm (i * n)) [0..<(length pcm + n - 1) div n]) = padded n pcm"
proof -
  let ?j = "(length pcm + n - 1) div n" and ?k = "(length pcm + n - 1) div n * n - length pcm"
  have le: "length pcm \<le> ?j * n" by (rule ceiling_blocks [OF assms])
  have "concat (map (\<lambda>i. block_at n pcm (i * n)) [0..<?j]) = take (?j * n) (pcm @ replicate ?k 0)"
    using le by (intro blocks_concat) linarith
  moreover have "length (pcm @ replicate ?k 0) = ?j * n" using le by simp
  ultimately show ?thesis unfolding padded_def by (metis order_refl take_all)
qed

section \<open>A tone on its way to the camera\<close>

text \<open>What is written for a list of blocks, and what a peer reads of it.\<close>

lemma blocks_heard:
  assumes aes: "\<And>k b. length (aes k b) = 16" and ctx: "\<And>i. \<not> ctx_done i" and wait: "\<And>i. wait i = None"
  shows "session_ok s \<Longrightarrow> samplesPerBlock s = int n \<Longrightarrow> hears ux ul s c d \<Longrightarrow> adpcm_inv e
    \<Longrightarrow> blocks = map (\<lambda>i. block_at n pcm (i * n)) [i..<i + left]
    \<Longrightarrow> \<exists>s' c' bytes ms seqs.
       play_blocks (write_tone aes ctx_done) wait n pcm i left (s, c, e, out)
         = ((s', c', fst (scan encode_block e blocks), out @ bytes), None)
     \<and> read_messages aes ux ul left d (bytes @ rest) = Some (ms, rest)
     \<and> length seqs = left
     \<and> map Msg_Payload ms = map (\<lambda>(b, q). serializeTalkADPCMBlock b q) (zip (snd (scan encode_block e blocks)) seqs)"
proof (induction left arbitrary: i s c d e out blocks)
  case 0
  then show ?case using wait by (auto intro: exI [of _ "[]"])
next
  case (Suc left)
  let ?pcm = "block_at n pcm (i * n)"
  obtain e1 b where enc: "encode_block e ?pcm = (e1, b)" by (cases "encode_block e ?pcm")
  have n: "even n" "2 \<le> n" using Suc.prems(1,2) by (auto simp: session_ok_def)
  then have pcm: "?pcm \<noteq> []" "even (length ?pcm)" by (auto simp flip: length_greater_0_conv)
  have E: "EncodeBlock e ?pcm = Inr (e1, b)" using encode_block_Inr [of ?pcm e] enc pcm by simp
  have e1: "adpcm_inv e1" using encode_block_inv [OF Suc.prems(4), of ?pcm] enc by simp
  have "length b = 4 + n div 2" using Decode_EncodeBlock [OF Suc.prems(4) E pcm(1)] by simp
  then have len: "int (length b) = bytesPerBlock s"
    using Suc.prems(1,2) n by (simp add: session_ok_def zdiv_int)
  obtain s1 c1 bytes1 where w: "WriteADPCMBlock aes False s c b = (s1, c1, Inr bytes1)"
    using WriteADPCMBlock_ok [OF Suc.prems(1) len] by simp
  have step: "session_ok s1" "samplesPerBlock s1 = int n" "hears ux ul s1 c1 (d\<lparr>bc_binaryMsgNums := x\<rparr>)" for x
    using w Suc.prems(1-3) unfolding WriteADPCMBlock_ok [OF Suc.prems(1) len] by auto
  let ?bs = "map (\<lambda>i. block_at n pcm (i * n)) [i + 1..<i + 1 + left]"
  have blocks: "blocks = ?pcm # ?bs" unfolding Suc.prems(5) by (simp add: upt_conv_Cons del: upt_Suc)
  let ?d = "d\<lparr>bc_binaryMsgNums := insert (msgNum c) (bc_binaryMsgNums d)\<rparr>"
  from Suc.IH [OF step(1,2) step(3) e1 refl, of "i + 1" "out @ bytes1"] obtain s' c' bytes ms seqs where
    IH: "play_blocks (write_tone aes ctx_done) wait n pcm (i + 1) left (s1, c1, e1, out @ bytes1)
         = ((s', c', fst (scan encode_block e1 ?bs), (out @ bytes1) @ bytes), None)"
      "read_messages aes ux ul left ?d (bytes @ rest) = Some (ms, rest)" "length seqs = left"
      "map Msg_Payload ms = map (\<lambda>(b, q). serializeTalkADPCMBlock b q) (zip (snd (scan encode_block e1 ?bs)) seqs)"
    by blast
  obtain m where m: "readMessage aes ux ul d (bytes1 @ bytes @ rest) = (?d, Inr (m, bytes @ rest))"
      "Msg_Payload m = serializeTalkADPCMBlock b (TS_seq s + 1)"
    using block_heard [OF aes Suc.prems(1) len Suc.prems(3) w, of "bytes @ rest"] by blast
  have wt: "write_tone aes ctx_done i (s, c, e, out) ?pcm = ((s1, c1, e1, out @ bytes1), None)"
    using E w ctx by (simp add: write_tone_def)
  have sc: "scan encode_block e blocks = (fst (scan encode_block e1 ?bs), b # snd (scan encode_block e1 ?bs))"
    by (simp add: blocks enc case_prod_unfold Let_def del: upt_Suc)
  have "(if 0 < i then wait i else None) = None" using wait by simp
  then have "play_blocks (write_tone aes ctx_done) wait n pcm i (Suc left) (s, c, e, out)
      = ((s', c', fst (scan encode_block e blocks), out @ (bytes1 @ bytes)), None)"
    using IH(1) by (simp add: wt sc)
  moreover have "read_messages aes ux ul (Suc left) d ((bytes1 @ bytes) @ rest) = Some (m # ms, rest)"
    using m(1) IH(2) by simp
  moreover have "map Msg_Payload (m # ms)
      = map (\<lambda>(b, q). serializeTalkADPCMBlock b q) (zip (snd (scan encode_block e blocks)) ((TS_seq s + 1) # seqs))"
    using m(2) IH(4) by (simp add: sc)
  ultimately show ?case using IH(3) by (metis length_Cons)
qed

section \<open>The relay conserves bytes\<close>

definition relay_inv :: "rtsp_relay \<Rightarrow> bool" where
  "relay_inv s \<longleftrightarrow> concat (written s) @ rl_chunker s = accepted s \<and> length (rl_chunker s) < 160
     \<and> (\<forall>c \<in> set (written s). length c = 160)"

text \<open>After an error of the writer the rest of the chunks is lost, the order is not.\<close>

definition relay_cut :: "rtsp_relay \<Rightarrow> bool" where
  "relay_cut s \<longleftrightarrow> prefix (concat (written s)) (accepted s) \<and> length (rl_chunker s) < 160
     \<and> (\<forall>c \<in> set (written s). length c = 160)"

lemma write_chunks_result:
  "write_chunks write cs s = (s', e)
   \<Longrightarrow> \<exists>k. s' = s\<lparr>written := written s @ take k cs\<rparr> \<and> (e = None \<longrightarrow> k = length cs)"
proof (induction cs arbitrary: s)
  case (Cons c cs)
  show ?case
  proof (cases "write c")
    case None
    then obtain k where "s' = s\<lparr>written := (written s @ [c]) @ take k cs\<rparr>" "e = None \<longrightarrow> k = length cs"
      using Cons.IH [of "s\<lparr>written := written s @ [c]\<rparr>"] Cons.prems by auto
    then show ?thesis by (intro exI [of _ "Suc k"]) simp
  next
    case (Some err)
    then show ?thesis using Cons.prems by (auto intro!: exI [of _ 0])
  qed
qed simp

lemma relay_write:
  assumes "relay_inv s" "chunker_push (rl_chunker s) payload = (b, chunks)"
    "write_chunks write chunks (s\<lparr>rl_chunker := b, accepted := accepted s @ payload\<rparr>) = (s', e)"
  shows "relay_cut s' \<and> (e = None \<longrightarrow> relay_inv s')"
proof -
  obtain k where s': "s' = s\<lparr>rl_chunker := b, accepted := accepted s @ payload, written := written s @ take k chunks\<rparr>"
      and k: "e = None \<longrightarrow> k = length chunks"
    using write_chunks_result [OF assms(3)] by auto
  have all: "concat chunks @ b = rl_chunker s @ payload" "length b < 160" "\<forall>c \<in> set chunks. length c = 160"
    using chunker.conserve [OF TrueI assms(2)] chunker.rest_small [OF _ assms(2)] chunker.frame_size [OF assms(2)] assms(1)
    by (auto simp: relay_inv_def g711SamplesPerPacket_def)
  have "accepted s @ payload = concat (written s) @ concat chunks @ b"
    using assms(1) all(1) by (simp add: relay_inv_def)
  moreover have "concat chunks = concat (take k chunks) @ concat (drop k chunks)"
    by (metis append_take_drop_id concat_append)
  ultimately have whole: "accepted s @ payload = (concat (written s) @ concat (take k chunks)) @ concat (drop k chunks) @ b"
    by simp
  have sizes: "\<forall>c \<in> set (written s @ take k chunks). length c = 160"
    using assms(1) all(3) set_take_subset [of k chunks] unfolding relay_inv_def by (auto simp only: set_append)
  have "relay_cut s'" unfolding relay_cut_def s' using sizes all(2) whole by (simp add: prefixI)
  moreover have "relay_inv s'" if "k = length chunks"
    using sizes all(2) whole that by (simp add: relay_inv_def s')
  ultimately show ?thesis using k by blast
qed

lemma relay_inv_cut: "relay_inv s \<Longrightarrow> relay_cut s"
  by (simp add: relay_inv_def relay_cut_def) (metis prefixI)

lemma relay_accept_fields [simp]:
  "written (relay_accept a now s) = written s" "rl_chunker (relay_accept a now s) = rl_chunker s"
  "accepted (relay_accept a now s) = accepted s"
  by (simp_all add: relay_accept_def Let_def split: option.split)

lemma relay_accept_inv [simp]: "relay_inv (relay_accept a now s) = relay_inv s"
  by (simp add: relay_inv_def)

lemma rtsp_datagram_cases:
  assumes "rtsp_datagram codec te bcCodec write a data now s = (s', e)"
  obtains (skip) "s' = s" "e = None"
  | (audio) b chunks payload t where "t = relay_accept a now s" "chunker_push (rl_chunker t) payload = (b, chunks)"
    "write_chunks write chunks (t\<lparr>rl_chunker := b, accepted := accepted t @ payload\<rparr>) = (s', e)"
  using assms by (auto simp: rtsp_datagram_def Let_def simp del: relay_accept_fields split: if_splits sum.splits prod.splits)

lemma rtsp_datagram_inv:
  assumes "relay_inv s" "rtsp_datagram codec te bcCodec write a data now s = (s', e)"
  shows "relay_cut s' \<and> (e = None \<longrightarrow> relay_inv s')"
  using assms(2)
proof (cases rule: rtsp_datagram_cases)
  case skip
  then show ?thesis using assms(1) by (simp add: relay_inv_cut)
next
  case (audio b chunks payload t)
  then show ?thesis using relay_write [of t payload b chunks "write" s' e] assms(1) by simp
qed

lemma rtsp_run_inv:
  "relay_inv s \<Longrightarrow> rtsp_relay_run codec te bcCodec write ds s = (s', e) \<Longrightarrow> relay_cut s' \<and> (e = None \<longrightarrow> relay_inv s')"
proof (induction ds arbitrary: s)
  case (Cons d ds)
  obtain a data now where d: "d = (a, data, now)" by (cases d)
  obtain s1 e1 where r: "rtsp_datagram codec te bcCodec write a data now s = (s1, e1)"
    by (cases "rtsp_datagram codec te bcCodec write a data now s")
  show ?case using Cons.IH [of s1] Cons.prems rtsp_datagram_inv [OF Cons.prems(1) r]
    by (cases e1) (auto simp: d r)
qed (simp add: relay_inv_cut)

section \<open>Properties\<close>

text \<open>C23. The connection tone reaches the camera: playing samples over an open talk session, with every deadline kept,
  succeeds, and a peer with the same cipher state that reads the written bytes gets one binary message per block;
  their payloads are a bcmedia stream of ADPCM packets without a rest, and the packets decode, from any
  decoder state, to what the encoder predicted for the samples followed by silence up to a whole block.\<close>

theorem tone_reaches_the_camera:
  assumes "\<And>k b. length (aes k b) = 16" and "session_ok s" and "session_profile s = None" and "hears ux ul s c d"
    and "pcm \<noteq> []" and "\<And>i. \<not> ctx_done i" and "\<And>i. wake i = Timer" and "n = nat (samplesPerBlock s)"
  shows "\<exists>s' c' e' bytes ms packets.
      PlayPCM aes ctx_done now wake peerErr pcm s c = ((s', c', e', bytes), None)
    \<and> read_messages aes ux ul ((length pcm + n - 1) div n) d (bytes @ rest) = Some (ms, rest)
    \<and> Append \<lparr>buf = [], AudioOnly = a\<rparr> (concat (map Msg_Payload ms)) = (\<lparr>buf = [], AudioOnly = a\<rparr>, packets, None)
    \<and> concat (snd (scan Decode d0 (map Data packets))) = snd (encoderTrack adpcm_zero (padded n pcm))"
proof -
  let ?k = "(length pcm + n - 1) div n" and ?r = "uint (SampleRate (AudioConfig (TS_config s)))"
  let ?wait = "\<lambda>k. waitTalkDeadline (now 0 + int k * profile_duration (samplesPerBlock s) ?r - now k) (wake k) (peerErr k)"
  let ?blocks = "map (\<lambda>i. block_at n pcm (i * n)) [0..<0 + ?k]"
  have n: "samplesPerBlock s = int n" "2 \<le> n" using assms(2,8) by (auto simp: session_ok_def)
  then have "even n" using assms(2) by (simp add: session_ok_def)
  then have n2: "even n" "int n mod 2 = 0" by simp_all
  have profile: "0 < profile_duration (samplesPerBlock s) ?r" "0 < ?r"
    using assms(3) by (auto simp: session_profile_def validateBaichuanTalkProfile_def Let_def split: if_splits)
  have wait: "?wait i = None" for i using assms(7) by (simp add: waitTalkDeadline_def)
  obtain s' c' bytes ms seqs where
    play: "play_blocks (write_tone aes ctx_done) ?wait n pcm 0 ?k (s, c, adpcm_zero, [])
         = ((s', c', fst (scan encode_block adpcm_zero ?blocks), [] @ bytes), None)"
      "read_messages aes ux ul ?k d (bytes @ rest) = Some (ms, rest)" "length seqs = ?k"
      "map Msg_Payload ms = map (\<lambda>(b, q). serializeTalkADPCMBlock b q) (zip (snd (scan encode_block adpcm_zero ?blocks)) seqs)"
    using blocks_heard [where aes = aes and ctx_done = ctx_done and wait = ?wait and pcm = pcm and i = 0 and left = ?k
        and out = "[]" and rest = rest, OF assms(1,6) wait assms(2) n(1) assms(4) adpcm_inv_zero refl] by blast
  have "PlayPCM aes ctx_done now wake peerErr pcm s c = ((s', c', fst (scan encode_block adpcm_zero ?blocks), bytes), None)"
    using play(1) profile n n2(2) assms(5) by (simp add: PlayPCM_def playPCMBlocks_def Let_def)
  moreover have "concat (snd (scan Decode d0 (snd (scan encode_block adpcm_zero ?blocks)))) = snd (encoderTrack adpcm_zero (padded n pcm))"
  proof -
    have "\<forall>b \<in> set ?blocks. b \<noteq> [] \<and> even (length b)" using n(2) n2(1) by (auto simp flip: length_greater_0_conv)
    then show ?thesis using adpcm_stream.stream_decodes [OF adpcm_inv_zero] tone_concat [of n pcm] n(2) by simp
  qed
  moreover obtain packets where "Append \<lparr>buf = [], AudioOnly = a\<rparr> (concat (map Msg_Payload ms)) = (\<lparr>buf = [], AudioOnly = a\<rparr>, packets, None)"
      "map Data packets = snd (scan encode_block adpcm_zero ?blocks)"
  proof -
    let ?bs = "snd (scan encode_block adpcm_zero ?blocks)"
    have len: "\<forall>b \<in> set ?bs. length b \<le> 65531"
    proof (rule scan_all)
      show "\<forall>x \<in> set ?blocks. length x = n" by simp
      show "length (snd (encode_block e x)) \<le> 65531" if "length x = n" for e x
      proof -
        have "n < 65536" using n(1) assms(2) by (simp add: session_ok_def)
        then show ?thesis using length_encode_block [of e x] that by linarith
      qed
    qed
    then have "\<forall>(b, q) \<in> set (zip ?bs seqs). length b \<le> 65531" by (auto dest: set_zip_leftD)
    from append_loop_blocks [OF this]
    have "append_loop a (concat (map Msg_Payload ms)) = ([], map (\<lambda>(b, q). (media_packet MediaPacketADPCM)\<lparr>Data := b\<rparr>) (zip ?bs seqs), None)"
      unfolding play(4) .
    then have run: "Append \<lparr>buf = [], AudioOnly = a\<rparr> (concat (map Msg_Payload ms))
        = (\<lparr>buf = [], AudioOnly = a\<rparr>, map (\<lambda>(b, q). (media_packet MediaPacketADPCM)\<lparr>Data := b\<rparr>) (zip ?bs seqs), None)"
      by (simp add: Append_def)
    have "map Data (map (\<lambda>(b, q). (media_packet MediaPacketADPCM)\<lparr>Data := b\<rparr>) z) = map fst z" for z :: "(byte list \<times> u16) list"
      by (induction z) (auto simp: media_packet_def)
    moreover have "map fst (zip ?bs seqs) = ?bs" using play(3) by (intro map_fst_zip) simp
    ultimately show ?thesis by (intro that [OF run]) metis
  qed
  ultimately show ?thesis using play(2) by metis
qed

lemma demo_talk_fits:
  "session_ok demo_talk" "session_profile demo_talk = None"
  "hears (\<lambda>_. Some \<lparr>BinaryData = Some 1, ExtChannelID = Some 0, EncryptLen = None\<rparr>) (\<lambda>_. None) demo_talk idle_conn
     (bc_state.truncate idle_conn)"
proof -
  show "session_ok demo_talk" by (simp add: session_ok_def demo_talk_def)
  show "session_profile demo_talk = None"
    by (simp add: session_profile_def validateBaichuanTalkProfile_def demo_talk_def equal_fold_def profile_duration_def
        go_div_def time_second_def Let_def)
  have "buildTalkExtension 0 True \<noteq> []"
    by (simp add: buildTalkExtension_def marshalXMLDocument_def xml_header_def string_bytes_def)
  then show "hears (\<lambda>_. Some \<lparr>BinaryData = Some 1, ExtChannelID = Some 0, EncryptLen = None\<rparr>) (\<lambda>_. None) demo_talk idle_conn
     (bc_state.truncate idle_conn)"
    by (simp add: hears_def demo_talk_def bc_state.truncate_def parseExtension_def is_flagged_def encrypt_len_def
        parseEncryptLen_def split: option.split)
qed

theorem tone_reaches_the_camera_witness:
  "\<exists>s' c' e' bytes. PlayPCM toy_block (\<lambda>_. False) (\<lambda>_. 0) (\<lambda>_. Timer) (\<lambda>_. None) [100, -100, 7] demo_talk idle_conn
     = ((s', c', e', bytes), None)"
proof -
  obtain s' c' e' bytes where
    "PlayPCM toy_block (\<lambda>_. False) (\<lambda>_. 0) (\<lambda>_. Timer) (\<lambda>_. None) [100, -100, 7] demo_talk idle_conn = ((s', c', e', bytes), None)"
    using tone_reaches_the_camera [where aes = toy_block and s = demo_talk and c = idle_conn and pcm = "[100, -100, 7]" and n = 1024
      and ctx_done = "\<lambda>_. False" and wake = "\<lambda>_. Timer" and now = "\<lambda>_. 0" and peerErr = "\<lambda>_. None" and rest = "[]"
      and a = True and ?d0.0 = adpcm_zero, OF length_toy_block demo_talk_fits] by (auto simp: demo_talk_def)
  then show ?thesis by blast
qed

text \<open>The RTSP backchannel loses nothing of the call's audio: over any sequence of datagrams, whatever their sources
  and contents, the chunks written to the camera have 160 bytes each and are, in order, the transcoded payloads of
  the accepted packets but for less than one chunk that is still held back; when the writer fails, what was
  written is a prefix of them.\<close>

lemma rtsp_relay_conserves:
  "rl_chunker s = [] \<Longrightarrow> accepted s = [] \<Longrightarrow> written s = [] \<Longrightarrow> rtsp_relay_run codec te bcCodec write ds s = (s', e)
   \<Longrightarrow> prefix (concat (written s')) (accepted s') \<and> (\<forall>c \<in> set (written s'). length c = 160)
     \<and> length (rl_chunker s') < 160 \<and> (e = None \<longrightarrow> concat (written s') @ rl_chunker s' = accepted s')"
proof -
  assume s: "rl_chunker s = []" "accepted s = []" "written s = []" and run: "rtsp_relay_run codec te bcCodec write ds s = (s', e)"
  have "relay_inv s" using s by (simp add: relay_inv_def)
  from rtsp_run_inv [OF this run] show ?thesis by (auto simp: relay_cut_def relay_inv_def)
qed

definition idle_relay :: rtsp_relay where
  "idle_relay = \<lparr>rl_remoteIP = ''10.0.0.2'', rl_remote = None, rl_chunker = [], rl_watchdog = newRTPWatchdog 0 0,
     accepted = [], written = []\<rparr>"

end
