(* ===== verification/Digest.thy ===== *)
theory Digest
  imports GoStrings "HOL-Library.AList"
begin

text \<open>
  HTTP digest authentication as SIP and RTSP use it: \<^verbatim>\<open>internal/digest/digest.go\<close>.  The hash functions
  and the random bytes of the client nonce are parameters.  A Go map is an association list without
  duplicate keys; the order in which the code ranges over it is a parameter too.
\<close>

section \<open>Challenges\<close>

record Challenge =
  Scheme :: string
  Realm :: string
  Nonce :: string
  Opaque :: string
  Algorithm :: string
  AlgorithmExplicit :: bool
  QOP :: string
  Stale :: bool

datatype digest_error =
    Invalid_challenge
  | Unsupported_challenge
  | Unsupported_algorithm string
  | Unsupported_qop

definition normalizeAlgorithm :: "string \<Rightarrow> string" where
  "normalizeAlgorithm algorithm =
     (let algorithm = trim_space algorithm in
      if algorithm = [] \<or> equal_fold algorithm ''MD5'' then ''MD5''
      else if equal_fold algorithm ''SHA-256'' then ''SHA-256''
      else algorithm)"

definition supportedAlgorithm :: "string \<Rightarrow> bool" where
  "supportedAlgorithm algorithm \<longleftrightarrow> normalizeAlgorithm algorithm \<in> {''MD5'', ''SHA-256''}"

section \<open>The parameter scanner\<close>

record param_scan =
  sc_key :: string
  sc_val :: string
  inQuote :: bool
  escaped :: bool
  readingValue :: bool
  sc_out :: "(string \<times> string) list"

definition scan_start :: "(string \<times> string) list \<Rightarrow> param_scan" where
  "scan_start out = \<lparr>sc_key = [], sc_val = [], inQuote = False, escaped = False, readingValue = False, sc_out = out\<rparr>"

definition scan_flush :: "param_scan \<Rightarrow> param_scan" where
  "scan_flush s =
     (let k = trim_space (sc_key s);
          v = trim_chars [CHR 0x22] (trim_space (sc_val s))
      in s\<lparr>sc_out := (if k \<noteq> [] then AList.update k v (sc_out s) else sc_out s),
           sc_key := [], sc_val := [], readingValue := False\<rparr>)"

definition scan_write :: "char \<Rightarrow> param_scan \<Rightarrow> param_scan" where
  "scan_write r s = (if readingValue s then s\<lparr>sc_val := sc_val s @ [r]\<rparr> else s\<lparr>sc_key := sc_key s @ [r]\<rparr>)"

definition scan_char :: "param_scan \<Rightarrow> char \<Rightarrow> param_scan" where
  "scan_char s r =
     (if escaped s then (scan_write r s)\<lparr>escaped := False\<rparr>
      else if r = CHR 0x5C \<and> inQuote s then s\<lparr>escaped := True\<rparr>
      else if r = CHR 0x22
      then (let s = s\<lparr>inQuote := \<not> inQuote s\<rparr> in if readingValue s then s\<lparr>sc_val := sc_val s @ [r]\<rparr> else s)
      else if \<not> inQuote s \<and> r = CHR ''='' \<and> \<not> readingValue s then s\<lparr>readingValue := True\<rparr>
      else if \<not> inQuote s \<and> r = CHR '','' then scan_flush s
      else scan_write r s)"

definition parseParams :: "string \<Rightarrow> (string \<times> string) list" where
  "parseParams s = sc_out (scan_flush (foldl scan_char (scan_start []) s))"

section \<open>Reading a challenge\<close>

definition challenge_param :: "Challenge \<times> bool \<Rightarrow> string \<times> string \<Rightarrow> Challenge \<times> bool" where
  "challenge_param = (\<lambda>(c, qopPresent) (k, v).
     let k = to_lower k in
     if k = ''realm'' then (c\<lparr>Realm := v\<rparr>, qopPresent)
     else if k = ''nonce'' then (c\<lparr>Nonce := v\<rparr>, qopPresent)
     else if k = ''opaque'' then (c\<lparr>Opaque := v\<rparr>, qopPresent)
     else if k = ''algorithm'' then (c\<lparr>Algorithm := v, AlgorithmExplicit := True\<rparr>, qopPresent)
     else if k = ''qop''
     then (if \<exists>q \<in> set (split_str '','' v). equal_fold (trim_space q) ''auth'' then c\<lparr>QOP := ''auth''\<rparr> else c, True)
     else if k = ''stale'' then (c\<lparr>Stale := equal_fold v ''true''\<rparr>, qopPresent)
     else (c, qopPresent))"

definition Parse_challenge ::
  "((string \<times> string) list \<Rightarrow> (string \<times> string) list) \<Rightarrow> string \<Rightarrow> digest_error + Challenge" where
  "Parse_challenge order header =
     (case split2 '' '' (trim_space header) of
        [scheme, rest] \<Rightarrow>
          (let (c, qopPresent) = foldl challenge_param
                 (\<lparr>Scheme = to_lower scheme, Realm = [], Nonce = [], Opaque = [], Algorithm = ''MD5'',
                   AlgorithmExplicit = False, QOP = [], Stale = False\<rparr>, False) (order (parseParams rest))
           in if Scheme c \<noteq> ''digest'' \<or> Realm c = [] \<or> Nonce c = [] then Inl Unsupported_challenge
              else if \<not> supportedAlgorithm (Algorithm c) then Inl (Unsupported_algorithm (Algorithm c))
              else if qopPresent \<and> QOP c = [] then Inl Unsupported_qop
              else Inr c)
      | _ \<Rightarrow> Inl Invalid_challenge)"

section \<open>Answering a challenge\<close>

definition hex_lower :: string where
  "hex_lower = ''0123456789abcdef''"

text \<open>\<open>hex.EncodeToString\<close>; \<open>%08x\<close> prints the four bytes of a 32-bit word, the highest first.\<close>

definition hex_encode :: "byte list \<Rightarrow> string" where
  "hex_encode b = concat (map (\<lambda>x. [hex_lower ! (unat x div 16), hex_lower ! (unat x mod 16)]) b)"

record hashes =
  md5_sum :: "byte list \<Rightarrow> byte list"
  sha256_sum :: "byte list \<Rightarrow> byte list"

definition hashHex :: "hashes \<Rightarrow> string \<Rightarrow> string \<Rightarrow> string" where
  "hashHex h algorithm s =
     (if normalizeAlgorithm algorithm = ''SHA-256'' then hex_encode (sha256_sum h (string_bytes s))
      else hex_encode (md5_sum h (string_bytes s)))"

text \<open>\<open>random\<close> is what the random source gives: \<open>None\<close> when it fails.\<close>

definition randomHex :: "byte list option \<Rightarrow> nat \<Rightarrow> string" where
  "randomHex random n = (case random of None \<Rightarrow> take (n * 2) hex_lower | Some b \<Rightarrow> hex_encode (take n b))"

definition escape_quotes :: "string \<Rightarrow> string" where
  "escape_quotes s = replace_all (replace_all s [CHR 0x5C] [CHR 0x5C, CHR 0x5C]) [CHR 0x22] [CHR 0x5C, CHR 0x22]"

definition quoted_param :: "string \<Rightarrow> string \<Rightarrow> string" where
  "quoted_param k v = k @ ''='' @ [CHR 0x22] @ v @ [CHR 0x22]"

definition Authorization ::
  "hashes \<Rightarrow> byte list option \<Rightarrow> Challenge \<Rightarrow> string \<Rightarrow> string \<Rightarrow> string \<Rightarrow> string \<Rightarrow> u32 \<Rightarrow> string" where
  "Authorization h random c username password verb uri nc =
     (let algorithm = normalizeAlgorithm (Algorithm c);
          ha1 = hashHex h algorithm (username @ '':'' @ Realm c @ '':'' @ password);
          ha2 = hashHex h algorithm (verb @ '':'' @ uri);
          parts = [quoted_param ''username'' (escape_quotes username), quoted_param ''realm'' (escape_quotes (Realm c)),
                   quoted_param ''nonce'' (escape_quotes (Nonce c)), quoted_param ''uri'' (escape_quotes uri)];
          parts = parts @
            (if QOP c = ''auth''
             then let cnonce = randomHex random 8;
                      ncString = hex_encode (be32 nc);
                      response = hashHex h algorithm
                        (ha1 @ '':'' @ Nonce c @ '':'' @ ncString @ '':'' @ cnonce @ '':auth:'' @ ha2)
                  in [quoted_param ''response'' response, ''qop=auth'', ''nc='' @ ncString, quoted_param ''cnonce'' cnonce]
             else [quoted_param ''response'' (hashHex h algorithm (ha1 @ '':'' @ Nonce c @ '':'' @ ha2))]);
          parts = parts @ (if AlgorithmExplicit c \<or> \<not> equal_fold algorithm ''MD5'' then [''algorithm='' @ algorithm] else []);
          parts = parts @ (if Opaque c \<noteq> [] then [quoted_param ''opaque'' (escape_quotes (Opaque c))] else [])
      in ''Digest '' @ join '', '' parts)"

section \<open>Scanning what was printed\<close>

definition escape_quote :: "char \<Rightarrow> string" where
  "escape_quote c = (if c = CHR 0x5C then [CHR 0x5C, CHR 0x5C] else if c = CHR 0x22 then [CHR 0x5C, CHR 0x22] else [c])"

lemma escape_quotes_chars: "escape_quotes s = concat (map escape_quote s)"
  unfolding escape_quotes_def replace_all_char by (induction s) (auto simp: escape_quote_def)

text \<open>A parameter as text: a quoted value is escaped, a bare one is not.\<close>

type_synonym param = "string \<times> string \<times> bool"

fun param_text :: "param \<Rightarrow> string" where
  "param_text (k, v, True) = quoted_param k (escape_quotes v)"
| "param_text (k, v, False) = k @ ''='' @ v"

definition plain :: "string \<Rightarrow> bool" where
  "plain s \<longleftrightarrow> (\<forall>c \<in> set s. c \<noteq> CHR 0x22 \<and> c \<noteq> CHR '','' \<and> c \<noteq> CHR ''='')"

text \<open>A quoted value must not begin or end with a quotation mark, because those are trimmed.\<close>

definition unquoted_ends :: "string \<Rightarrow> bool" where
  "unquoted_ends v \<longleftrightarrow> v = [] \<or> (hd v \<noteq> CHR 0x22 \<and> last v \<noteq> CHR 0x22)"

fun good_param :: "param \<Rightarrow> bool" where
  "good_param (k, v, q) \<longleftrightarrow> k \<noteq> [] \<and> trimmed k \<and> plain k \<and> (if q then unquoted_ends v else trimmed v \<and> plain v)"

lemma scan_plain:
  "plain s \<Longrightarrow> \<not> inQuote st \<Longrightarrow> \<not> escaped st \<Longrightarrow>
   foldl scan_char st s = (if readingValue st then st\<lparr>sc_val := sc_val st @ s\<rparr> else st\<lparr>sc_key := sc_key st @ s\<rparr>)"
  by (induction s arbitrary: st) (auto simp: plain_def scan_char_def scan_write_def)

lemma scan_escaped:
  "inQuote st \<Longrightarrow> readingValue st \<Longrightarrow> \<not> escaped st \<Longrightarrow>
   foldl scan_char st (concat (map escape_quote v)) = st\<lparr>sc_val := sc_val st @ v\<rparr>"
proof (induction v arbitrary: st)
  case (Cons c v)
  have "foldl scan_char st (escape_quote c) = st\<lparr>sc_val := sc_val st @ [c]\<rparr>"
    using Cons.prems by (simp add: escape_quote_def scan_char_def scan_write_def)
  with Cons show ?case by simp
qed simp

definition raw_value :: "param \<Rightarrow> string" where
  "raw_value = (\<lambda>(k, v, q). if q then [CHR 0x22] @ v @ [CHR 0x22] else v)"

lemma scan_param:
  assumes "good_param (k, v, q)" "plain sp"
  shows "foldl scan_char (scan_start out) (sp @ param_text (k, v, q)) =
    (scan_start out)\<lparr>sc_key := sp @ k, sc_val := raw_value (k, v, q), readingValue := True\<rparr>"
proof -
  have "plain (sp @ k)" using assms by (auto simp: plain_def)
  note key = scan_plain [OF this, of "scan_start out"]
  show ?thesis
  proof (cases q)
    case True
    have "sp @ param_text (k, v, q) = (sp @ k) @ ''='' @ [CHR 0x22] @ concat (map escape_quote v) @ [CHR 0x22]"
      using True by (simp add: quoted_param_def escape_quotes_chars)
    moreover have "foldl scan_char ((scan_start out)\<lparr>sc_key := sp @ k\<rparr>) (''='' @ [CHR 0x22])
        = (scan_start out)\<lparr>sc_key := sp @ k, sc_val := [CHR 0x22], inQuote := True, readingValue := True\<rparr>"
      by (simp add: scan_start_def scan_char_def)
    ultimately show ?thesis using key True
      by (simp only: foldl_append) (simp add: scan_start_def scan_escaped raw_value_def scan_char_def)
  next
    case False
    then have "plain v" using assms by simp
    from scan_plain [OF this, of "(scan_start out)\<lparr>sc_key := sp @ k, readingValue := True\<rparr>"]
    show ?thesis using key False
      by (simp add: scan_start_def scan_char_def raw_value_def flip: foldl_append append_assoc) (simp add: scan_char_def)
  qed
qed

lemma trim_raw:
  assumes "good_param (k, v, q)"
  shows "trim_chars [CHR 0x22] (trim_space (raw_value (k, v, q))) = v"
proof (cases q)
  case True
  have "trim_space ([CHR 0x22] @ v @ [CHR 0x22]) = [CHR 0x22] @ v @ [CHR 0x22]"
    by (rule trim_space_trimmed) (simp add: trimmed_def is_space_def)
  moreover have "trim_chars [CHR 0x22] ([CHR 0x22] @ v @ [CHR 0x22]) = v"
  proof (cases "v = []")
    case False
    then have ends: "hd v \<noteq> CHR 0x22" "last v \<noteq> CHR 0x22" using assms True by (auto simp: unquoted_ends_def)
    then have "dropWhile (\<lambda>c. c \<in> set [CHR 0x22]) ([CHR 0x22] @ v @ [CHR 0x22]) = v @ [CHR 0x22]"
      "dropWhile (\<lambda>c. c \<in> set [CHR 0x22]) (rev (v @ [CHR 0x22])) = rev v"
      using False ends by (cases v; simp) (use False ends in \<open>cases v rule: rev_cases; simp\<close>)
    then show ?thesis unfolding trim_chars_def by (simp only: rev_rev_ident)
  qed (simp add: trim_chars_def)
  ultimately show ?thesis using True by (simp only: raw_value_def split_conv if_True)
next
  case False
  have "dropWhile (\<lambda>c. c = CHR 0x22) w = w" if "set w \<subseteq> set v" for w
    using assms False that by (cases w) (auto simp: plain_def)
  then show ?thesis using assms False by (simp add: raw_value_def trim_chars_def trim_space_trimmed)
qed

lemma trim_key:
  assumes "good_param (k, v, q)" "sp = [] \<or> sp = '' ''"
  shows "trim_space (sp @ k) = k"
proof -
  have k: "trim_space k = k" using assms(1) by (simp add: trim_space_trimmed)
  have "trim_left ('' '' @ k) = trim_left k" by (simp add: trim_left_def is_space_def)
  then have "trim_space ('' '' @ k) = trim_space k" by (simp only: trim_space_def)
  then show ?thesis using k assms(2) by auto
qed

lemma scan_param_flush:
  assumes "good_param (k, v, q)" "sp = [] \<or> sp = '' ''"
  shows "scan_flush (foldl scan_char (scan_start out) (sp @ param_text (k, v, q))) = scan_start (AList.update k v out)"
proof -
  have "plain sp" using assms(2) by (auto simp: plain_def)
  from scan_param [OF assms(1) this] show ?thesis
    using trim_raw [OF assms(1)] trim_key [OF assms] assms(1)
    by (simp add: scan_flush_def Let_def scan_start_def)
qed

lemma scan_params:
  "ps \<noteq> [] \<Longrightarrow> \<forall>p \<in> set ps. good_param p \<Longrightarrow> sp = [] \<or> sp = '' '' \<Longrightarrow>
   scan_flush (foldl scan_char (scan_start out) (sp @ join '', '' (map param_text ps)))
     = scan_start (foldl (\<lambda>out (k, v, q). AList.update k v out) out ps)"
proof (induction ps arbitrary: sp out)
  case (Cons p ps)
  obtain k v q where p: "p = (k, v, q)" by (cases p)
  have good: "good_param (k, v, q)" using Cons.prems(2) p by simp
  note one = scan_param_flush [OF good Cons.prems(3), of out]
  show ?case
  proof (cases ps)
    case Nil
    then show ?thesis using one p by simp
  next
    case (Cons p2 ps2)
    let ?st = "foldl scan_char (scan_start out) (sp @ param_text (k, v, q))"
    have "plain sp" using \<open>sp = [] \<or> sp = '' ''\<close> by (auto simp: plain_def)
    then have "\<not> inQuote ?st \<and> \<not> escaped ?st" using scan_param [OF good, of sp out] by (simp add: scan_start_def)
    then have comma: "scan_char ?st CHR '','' = scan_flush ?st" by (simp add: scan_char_def)
    have "sp @ join '', '' (map param_text (p # ps)) = (sp @ param_text (k, v, q)) @ [CHR '',''] @ ('' '' @ join '', '' (map param_text ps))"
      using Cons p by simp
    moreover have "foldl scan_char s (a @ [c] @ b) = foldl scan_char (scan_char (foldl scan_char s a) c) b" for s a b c
      by simp
    ultimately have "foldl scan_char (scan_start out) (sp @ join '', '' (map param_text (p # ps)))
      = foldl scan_char (scan_flush ?st) ('' '' @ join '', '' (map param_text ps))"
      by (metis comma)
    also have "\<dots> = foldl scan_char (scan_start (AList.update k v out)) ('' '' @ join '', '' (map param_text ps))"
      by (simp only: one)
    finally show ?thesis using Cons.IH [of "'' ''" "AList.update k v out"] Cons.prems(2) Cons p by simp
  qed
qed simp

lemma update_new: "k \<notin> fst ` set out \<Longrightarrow> AList.update k v out = out @ [(k, v)]"
  by (induction out) auto

lemma updates_distinct:
  "distinct (map fst out @ map fst ps)
   \<Longrightarrow> foldl (\<lambda>out (k, v, q). AList.update k v out) out ps = out @ map (\<lambda>(k, v, q). (k, v)) ps"
proof (induction ps arbitrary: out)
  case (Cons p ps)
  obtain k v q where p: "p = (k, v, q)" by (cases p)
  have "k \<notin> fst ` set out" using Cons.prems p by auto
  then show ?case using Cons.IH [of "out @ [(k, v)]"] Cons.prems by (simp add: p update_new)
qed simp

lemma parse_printed_params:
  assumes "ps \<noteq> []" "\<forall>p \<in> set ps. good_param p" "distinct (map fst ps)"
  shows "parseParams (join '', '' (map param_text ps)) = map (\<lambda>(k, v, q). (k, v)) ps"
  using scan_params [OF assms(1,2), of "[]" "[]"] updates_distinct [of "[]" ps] assms(3)
  by (simp add: parseParams_def scan_start_def)

section \<open>What the server reads\<close>

text \<open>The response of RFC 7616, with and without a quality of protection.\<close>

definition rfc_response :: "hashes \<Rightarrow> Challenge \<Rightarrow> string \<Rightarrow> string \<Rightarrow> string \<Rightarrow> string \<Rightarrow> string \<Rightarrow> string \<Rightarrow> string" where
  "rfc_response h c username password verb uri nc cnonce =
     (let H = hashHex h (Algorithm c); a1 = username @ '':'' @ Realm c @ '':'' @ password; a2 = verb @ '':'' @ uri
      in if QOP c = ''auth'' then H (join '':'' [H a1, Nonce c, nc, cnonce, ''auth'', H a2])
         else H (join '':'' [H a1, Nonce c, H a2]))"

definition auth_params :: "hashes \<Rightarrow> byte list option \<Rightarrow> Challenge \<Rightarrow> string \<Rightarrow> string \<Rightarrow> string \<Rightarrow> string \<Rightarrow> u32 \<Rightarrow> param list" where
  "auth_params h random c username password verb uri nc =
     (let cnonce = randomHex random 8; ncString = hex_encode (be32 nc) in
      [(''username'', username, True), (''realm'', Realm c, True), (''nonce'', Nonce c, True), (''uri'', uri, True),
       (''response'', rfc_response h c username password verb uri ncString cnonce, True)]
      @ (if QOP c = ''auth'' then [(''qop'', ''auth'', False), (''nc'', ncString, False), (''cnonce'', cnonce, True)] else [])
      @ (if AlgorithmExplicit c \<or> normalizeAlgorithm (Algorithm c) \<noteq> ''MD5''
         then [(''algorithm'', normalizeAlgorithm (Algorithm c), False)] else [])
      @ (if Opaque c \<noteq> [] then [(''opaque'', Opaque c, True)] else []))"

lemma hex_chars: "c \<in> set (hex_encode b) \<Longrightarrow> c \<in> set hex_lower"
proof -
  assume "c \<in> set (hex_encode b)"
  then obtain x :: byte where c: "c = hex_lower ! (unat x div 16) \<or> c = hex_lower ! (unat x mod 16)"
    unfolding hex_encode_def by fastforce
  have "unat (x :: byte) < 256" by (rule order.strict_trans2 [OF unsigned_less]) simp
  then have "unat x div 16 < length hex_lower" "unat x mod 16 < length hex_lower" by (auto simp: hex_lower_def)
  then show ?thesis using c nth_mem by metis
qed

lemma hex_good: "plain (hex_encode b)" "trimmed (hex_encode b)" "unquoted_ends (hex_encode b)"
proof -
  have h: "\<forall>c \<in> set (hex_encode b). c \<in> set hex_lower" using hex_chars by blast
  show "plain (hex_encode b)" using h by (fastforce simp: plain_def hex_lower_def)
  have ends: "hd (hex_encode b) \<in> set hex_lower" "last (hex_encode b) \<in> set hex_lower" if "hex_encode b \<noteq> []"
    using h that by simp_all
  have space: "\<forall>c \<in> set hex_lower. \<not> is_space c" by (simp add: hex_lower_def is_space_def)
  show "trimmed (hex_encode b)" using ends space by (auto simp: trimmed_def)
  have quote: "CHR 0x22 \<notin> set hex_lower" by (simp add: hex_lower_def)
  show "unquoted_ends (hex_encode b)" using ends quote by (auto simp: unquoted_ends_def)
qed

lemma randomHex_good: "unquoted_ends (randomHex random 8)"
  by (cases random) (simp_all add: randomHex_def hex_good, simp add: unquoted_ends_def hex_lower_def)

lemma hashHex_good: "unquoted_ends (hashHex h a s)"
  by (simp add: hashHex_def hex_good)

lemma escape_none: "\<forall>c \<in> set s. c \<noteq> CHR 0x5C \<and> c \<noteq> CHR 0x22 \<Longrightarrow> escape_quotes s = s"
  unfolding escape_quotes_chars by (induction s) (auto simp: escape_quote_def)

lemma escape_hex: "escape_quotes (hex_encode b) = hex_encode b"
  using hex_chars by (intro escape_none) (fastforce simp: hex_lower_def)

lemma escape_hashHex: "escape_quotes (hashHex h a s) = hashHex h a s"
  by (simp add: hashHex_def escape_hex)

lemma escape_randomHex: "escape_quotes (randomHex random 8) = randomHex random 8"
  by (cases random) (simp_all add: randomHex_def escape_hex, simp add: escape_none hex_lower_def)

lemma normalize_idem: "supportedAlgorithm a \<Longrightarrow> normalizeAlgorithm (normalizeAlgorithm a) = normalizeAlgorithm a"
  by (auto simp: supportedAlgorithm_def) (simp_all add: normalizeAlgorithm_def trim_space_def trim_left_def is_space_def
      equal_fold_def to_lower_def lower_char_def)

lemma equal_fold_MD5:
  "supportedAlgorithm a \<Longrightarrow> equal_fold (normalizeAlgorithm a) ''MD5'' \<longleftrightarrow> normalizeAlgorithm a = ''MD5''"
  by (auto simp: supportedAlgorithm_def) (simp_all add: equal_fold_def to_lower_def lower_char_def)

lemma Authorization_text:
  assumes "supportedAlgorithm (Algorithm c)"
  shows "Authorization h random c username password verb uri nc =
    ''Digest '' @ join '', '' (map param_text (auth_params h random c username password verb uri nc))"
proof -
  have hash: "hashHex h (normalizeAlgorithm (Algorithm c)) = hashHex h (Algorithm c)"
    using normalize_idem [OF assms] by (simp add: hashHex_def fun_eq_iff)
  show ?thesis
    unfolding Authorization_def auth_params_def rfc_response_def Let_def hash equal_fold_MD5 [OF assms]
    by (rule arg_cong [where f = "\<lambda>ps. ''Digest '' @ join '', '' ps"])
       (simp add: escape_hashHex escape_randomHex)
qed

lemma auth_params_good:
  assumes "supportedAlgorithm (Algorithm c)" "\<forall>v \<in> {username, Realm c, Nonce c, uri, Opaque c}. unquoted_ends v"
  shows "\<forall>p \<in> set (auth_params h random c username password verb uri nc). good_param p"
proof -
  have key: "trimmed ''username'' \<and> plain ''username''" "trimmed ''realm'' \<and> plain ''realm''" "trimmed ''nonce'' \<and> plain ''nonce''"
    "trimmed ''uri'' \<and> plain ''uri''" "trimmed ''response'' \<and> plain ''response''" "trimmed ''qop'' \<and> plain ''qop''"
    "trimmed ''nc'' \<and> plain ''nc''" "trimmed ''cnonce'' \<and> plain ''cnonce''" "trimmed ''algorithm'' \<and> plain ''algorithm''"
    "trimmed ''opaque'' \<and> plain ''opaque''" "trimmed ''auth'' \<and> plain ''auth''"
    by (simp_all add: trimmed_def plain_def is_space_def)
  have alg: "trimmed (normalizeAlgorithm (Algorithm c)) \<and> plain (normalizeAlgorithm (Algorithm c))"
    using assms(1) unfolding supportedAlgorithm_def
    by (elim insertE) (simp_all add: trimmed_def plain_def is_space_def)
  have "unquoted_ends (rfc_response h c username password verb uri x y)" for x y
    by (simp add: rfc_response_def hashHex_good Let_def)
  then show ?thesis using assms(2) key alg hex_good randomHex_good
    by (auto simp: auth_params_def Let_def)
qed

section \<open>Properties\<close>

text \<open>C21. What the gateway answers to a digest challenge is what the server has to check: the parameters of the
  \<open>Authorization\<close> header, read back, are the user name, the realm, nonce and opaque value of the challenge and the
  request URI, whatever characters they contain except a quotation mark at an end; the response is that of
  RFC 7616 for the password, the method and the URI, and the counter and client nonce it was computed with
  are sent along when the challenge offered the quality of protection \<open>auth\<close>.\<close>

theorem authorization_reads_back:
  assumes "supportedAlgorithm (Algorithm c)" "\<forall>v \<in> {username, Realm c, Nonce c, uri, Opaque c}. unquoted_ends v"
  shows "\<exists>text. Authorization h random c username password verb uri nc = ''Digest '' @ text \<and>
    parseParams text =
      [(''username'', username), (''realm'', Realm c), (''nonce'', Nonce c), (''uri'', uri),
       (''response'', rfc_response h c username password verb uri (hex_encode (be32 nc)) (randomHex random 8))]
      @ (if QOP c = ''auth''
         then [(''qop'', ''auth''), (''nc'', hex_encode (be32 nc)), (''cnonce'', randomHex random 8)] else [])
      @ (if AlgorithmExplicit c \<or> normalizeAlgorithm (Algorithm c) \<noteq> ''MD5''
         then [(''algorithm'', normalizeAlgorithm (Algorithm c))] else [])
      @ (if Opaque c \<noteq> [] then [(''opaque'', Opaque c)] else [])"
proof -
  let ?ps = "auth_params h random c username password verb uri nc"
  have "?ps \<noteq> []" "distinct (map fst ?ps)" by (auto simp: auth_params_def Let_def)
  then have read: "parseParams (join '', '' (map param_text ?ps)) = map (\<lambda>(k, v, q). (k, v)) ?ps"
    using auth_params_good [OF assms] by (intro parse_printed_params)
  show ?thesis unfolding Authorization_text [OF assms(1)]
    by (rule exI [of _ "join '', '' (map param_text ?ps)"], rule conjI [OF refl], unfold read)
       (simp add: auth_params_def Let_def)
qed

definition fritz_challenge :: Challenge where
  "fritz_challenge = \<lparr>Scheme = ''digest'', Realm = ''fritz.box'', Nonce = ''abc'', Opaque = [], Algorithm = ''MD5'',
     AlgorithmExplicit = False, QOP = ''auth'', Stale = False\<rparr>"

theorem authorization_reads_back_witness:
  "\<exists>text. Authorization \<lparr>md5_sum = (\<lambda>b. take 16 (b @ replicate 16 0)), sha256_sum = (\<lambda>b. b)\<rparr> None fritz_challenge
      (''a'' @ [CHR 0x22] @ ''b'') ''pw'' ''REGISTER'' ''sip:fritz.box'' 1 = ''Digest '' @ text
    \<and> (''username'', ''a'' @ [CHR 0x22] @ ''b'') \<in> set (parseParams text)"
proof -
  have "supportedAlgorithm (Algorithm fritz_challenge)"
    by (simp add: supportedAlgorithm_def normalizeAlgorithm_def fritz_challenge_def trim_space_def trim_left_def is_space_def equal_fold_def)
  moreover have "\<forall>v \<in> {''a'' @ [CHR 0x22] @ ''b'', Realm fritz_challenge, Nonce fritz_challenge, ''sip:fritz.box'', Opaque fritz_challenge}.
      unquoted_ends v"
    by (simp add: unquoted_ends_def fritz_challenge_def)
  ultimately show ?thesis
    using authorization_reads_back [of fritz_challenge "''a'' @ [CHR 0x22] @ ''b''" "''sip:fritz.box''"
        "\<lparr>md5_sum = (\<lambda>b. take 16 (b @ replicate 16 0)), sha256_sum = (\<lambda>b. b)\<rparr>" None "''pw''" "''REGISTER''" 1]
    by fastforce
qed

end
