(* ===== verification/SipTransaction.thy ===== *)
theory SipTransaction
  imports SipClient Digest
begin

text \<open>
  The client transactions of \<^verbatim>\<open>internal/sip/client.go\<close>: the loop of \<open>transact\<close> with its timers, its
  retransmissions and the cancellation of an INVITE, the hand-over of an INVITE that is given up, the
  registration and the loop that renews it, and the destination of a URI.  The loop of \<open>transact\<close> is a
  machine over the events of its \<open>select\<close>; whether a write succeeds is part of the event.
\<close>

section \<open>The loop of a transaction\<close>

definition second :: int where "second = 1000000000"

datatype txn_output = Sent_request | Sent_cancel

datatype txn_result =
    Final Message
  | Request_failed
  | Cancel_failed
  | Cancellation_timed_out
  | Transaction_timed_out
  | Context_error
  | Transport_closed

text \<open>\<open>tx_live\<close>: the transaction is in the table of the client.  \<open>tx_queue\<close>: the channel, with room for eight
  responses.  \<open>outs\<close>: the datagrams written so far.  \<open>tombstone\<close>: what is left of an INVITE given up.\<close>

record transaction =
  tx_invite :: bool
  tx_uri :: string
  tx_branch :: string
  tx_cseq :: nat
  tx_headers :: "string list"
  tx_live :: bool
  tx_queue :: "Message list"
  timerOn :: bool
  interval :: int
  ctxArmed :: bool
  cancelRequested :: bool
  cancelSent :: bool
  receivedResponse :: bool
  outs :: "txn_output list"
  tombstone :: "canceledInvite option"
  tx_result :: "txn_result option"

datatype txn_event = Arrive Message | Receive | Retransmit | Deadline | Ctx_done | Client_done

definition txn_end :: "txn_result \<Rightarrow> transaction \<Rightarrow> transaction" where
  "txn_end r t = t\<lparr>tx_result := Some r, tx_live := False\<rparr>"

definition send_cancel :: "bool \<Rightarrow> transaction \<Rightarrow> transaction" where
  "send_cancel ok t =
     (if ok then t\<lparr>outs := outs t @ [Sent_cancel], cancelSent := True\<rparr> else txn_end Cancel_failed t)"

definition txn_receive :: "bool \<Rightarrow> transaction \<Rightarrow> transaction" where
  "txn_receive ok t =
     (case tx_queue t of
        [] \<Rightarrow> t
      | m # ms \<Rightarrow>
          let t = t\<lparr>tx_queue := ms, receivedResponse := True\<rparr> in
          if StatusCode m < 200
          then (let t = t\<lparr>timerOn := timerOn t \<and> \<not> tx_invite t\<rparr>
                in if cancelRequested t \<and> \<not> cancelSent t then send_cancel ok t else t)
          else txn_end (Final m) t)"

definition txn_retransmit :: "bool \<Rightarrow> transaction \<Rightarrow> transaction" where
  "txn_retransmit ok t =
     (if \<not> timerOn t then t
      else if ok
      then t\<lparr>outs := outs t @ [Sent_request], interval := (if interval t < 4 * second then 2 * interval t else interval t)\<rparr>
      else txn_end Request_failed t)"

text \<open>The responses still in the channel when an INVITE is given up: the first final one, and whether a
  provisional one came before.\<close>

fun transition_loop :: "Message list \<Rightarrow> bool \<Rightarrow> Message option \<times> bool" where
  "transition_loop [] provisional = (None, provisional)"
| "transition_loop (m # ms) provisional =
     (if 200 \<le> StatusCode m then (Some m, provisional) else transition_loop ms True)"

definition transitionCanceledInvite :: "bool \<Rightarrow> transaction \<Rightarrow> transaction \<times> Message option" where
  "transitionCanceledInvite ok t =
     (case newCanceledInvite (tx_uri t) (tx_branch t) (tx_cseq t) (tx_headers t) (cancelSent t) of
        None \<Rightarrow> (t\<lparr>tx_live := False\<rparr>, None)
      | Some v \<Rightarrow>
          (case transition_loop (tx_queue t) False of
             (Some m, _) \<Rightarrow> (t\<lparr>tx_live := False\<rparr>, Some m)
           | (None, provisional) \<Rightarrow>
               let t' = t\<lparr>tx_live := False, tx_queue := [],
                          tombstone := Some (if provisional then v\<lparr>ci_cancelSent := True\<rparr> else v)\<rparr>
               in (if provisional \<and> \<not> cancelSent t \<and> ok then t'\<lparr>outs := outs t' @ [Sent_cancel]\<rparr> else t', None)))"

definition txn_deadline :: "bool \<Rightarrow> transaction \<Rightarrow> transaction" where
  "txn_deadline ok t =
     (if cancelRequested t
      then (if tx_invite t
            then (case transitionCanceledInvite ok t of
                    (t, Some m) \<Rightarrow> txn_end (Final m) t
                  | (t, None) \<Rightarrow> txn_end Cancellation_timed_out t)
            else txn_end Cancellation_timed_out t)
      else txn_end Transaction_timed_out t)"

definition txn_ctx_done :: "bool \<Rightarrow> transaction \<Rightarrow> transaction" where
  "txn_ctx_done ok t =
     (if \<not> ctxArmed t then t
      else if \<not> tx_invite t then txn_end Context_error t
      else
        let t = t\<lparr>cancelRequested := True, ctxArmed := False\<rparr>
        in if receivedResponse t \<and> \<not> cancelSent t then send_cancel ok t else t)"

definition txn_step :: "transaction \<Rightarrow> txn_event \<times> bool \<Rightarrow> transaction" where
  "txn_step t e =
     (if tx_result t \<noteq> None then t
      else case fst e of
        Arrive m \<Rightarrow> if tx_live t \<and> length (tx_queue t) < 8 then t\<lparr>tx_queue := tx_queue t @ [m]\<rparr> else t
      | Receive \<Rightarrow> txn_receive (snd e) t
      | Retransmit \<Rightarrow> txn_retransmit (snd e) t
      | Deadline \<Rightarrow> txn_deadline (snd e) t
      | Ctx_done \<Rightarrow> txn_ctx_done (snd e) t
      | Client_done \<Rightarrow> txn_end Transport_closed t)"



section \<open>What is sent\<close>





















lemma step_invite [simp]: "tx_invite (txn_step t e) = tx_invite t"
  by (simp add: txn_step_def txn_receive_def txn_retransmit_def txn_deadline_def txn_ctx_done_def send_cancel_def txn_end_def
      transitionCanceledInvite_def Let_def split: txn_event.split list.split option.split prod.split)


section \<open>The destination of a URI\<close>

datatype destination_error = Sips_unsupported | Empty_destination | Unresolved

definition before_char :: "char \<Rightarrow> string \<Rightarrow> string" where
  "before_char c s = takeWhile (\<lambda>x. x \<noteq> c) s"

text \<open>\<open>split_host_port\<close> is \<open>net.SplitHostPort\<close>, the port still as text; \<open>resolve\<close> is the name service.\<close>

definition destination_host :: "(string \<Rightarrow> (string \<times> string) option) \<Rightarrow> int \<Rightarrow> string \<Rightarrow> destination_error + string \<times> int" where
  "destination_host split_host_port registrarPort uri =
     (let u = trim_space (extractURI uri) in
      if prefix ''sips:'' (to_lower u) then Inl Sips_unsupported
      else
        let u = (if prefix ''sip:'' (to_lower u) then drop 4 u else u);
            u = before_char (CHR '';'') (before_char (CHR ''?'') u);
            u = trim_space (case cut_last (CHR ''@'') u of Some (_, b) \<Rightarrow> b | None \<Rightarrow> u);
            with_port = (\<lambda>h p. (h, if snd (atoi p) then fst (atoi p) else registrarPort))
        in if u = [] then Inl Empty_destination
           else if hd u = CHR ''[''
           then (case split_host_port u of
                   Some (h, p) \<Rightarrow> Inr (with_port h p)
                 | None \<Rightarrow> Inr (trim_chars ''[]'' u, registrarPort))
           else if length (filter (\<lambda>c. c = CHR '':'') u) = 1
           then (case split_host_port u of Some (h, p) \<Rightarrow> Inr (with_port h p) | None \<Rightarrow> Inr (u, registrarPort))
           else Inr (u, registrarPort))"

definition destinationForURI ::
  "(string \<Rightarrow> (string \<times> string) option) \<Rightarrow> (string \<times> int \<Rightarrow> addr option) \<Rightarrow> int \<Rightarrow> string \<Rightarrow> destination_error + addr" where
  "destinationForURI split_host_port resolve registrarPort uri =
     (case destination_host split_host_port registrarPort uri of
        Inl e \<Rightarrow> Inl e
      | Inr hp \<Rightarrow> (case resolve hp of Some a \<Rightarrow> Inr a | None \<Rightarrow> Inl Unresolved))"

section \<open>Registration\<close>

record registration_config =
  rg_identity :: sip_identity
  rg_registrar :: string
  rg_registrarPort :: nat
  rg_password :: string
  rg_callID :: string

text \<open>The state: the CSeq counter, the number of random values drawn, and the world the transactions act on.\<close>

record 's registration =
  registerCSeq :: u32
  drawn :: nat
  world :: 's

datatype register_error =
    Transaction_failed txn_result
  | Bad_challenge digest_error
  | Register_status int string

text \<open>\<open>tx\<close> runs a transaction; \<open>fresh\<close>, \<open>random\<close> and \<open>hash\<close> supply tags, client nonces and the hashes; \<open>order\<close> is
  the order of a map iteration.\<close>

record 's register_env =
  tx :: "string \<Rightarrow> u32 \<Rightarrow> string \<Rightarrow> string list \<Rightarrow> 's \<Rightarrow> 's \<times> (txn_result + Message)"
  fresh :: "nat \<Rightarrow> string"
  random :: "nat \<Rightarrow> byte list option"
  hash :: hashes
  order :: "(string \<times> string) list \<Rightarrow> (string \<times> string) list"

definition next_cseq :: "'s registration \<Rightarrow> u32 \<times> 's registration" where
  "next_cseq st = (registerCSeq st + 1, st\<lparr>registerCSeq := registerCSeq st + 1\<rparr>)"

definition register_headers ::
  "registration_config \<Rightarrow> int \<Rightarrow> string \<Rightarrow> u32 \<Rightarrow> string \<Rightarrow> string list" where
  "register_headers cfg expires branch cseq tag =
     (let i = rg_identity cfg; fromURI = ''sip:'' @ Username i @ ''@'' @ rg_registrar cfg
      in baseHeaders i ''REGISTER'' branch (unat cseq) (rg_callID cfg) fromURI fromURI tag []
         @ [''Contact: <sip:'' @ Username i @ ''@'' @ localIP i @ '':'' @ show_nat (LocalPort i)
              @ '';transport=udp>;expires='' @ show_nat (nat expires),
            ''Expires: '' @ show_nat (nat expires)])"

text \<open>The request, and a second one with credentials when the first is challenged.\<close>

definition register_once ::
  "'s register_env \<Rightarrow> registration_config \<Rightarrow> int \<Rightarrow> 's registration \<Rightarrow> 's registration \<times> (register_error + Message)" where
  "register_once env cfg expires st =
     (let (cseq, st) = next_cseq st;
          uri = ''sip:'' @ rg_registrar cfg @ '':'' @ show_nat (rg_registrarPort cfg);
          tag = fresh env (drawn st); branch = ''z9hG4bK-'' @ fresh env (drawn st + 1);
          st = st\<lparr>drawn := drawn st + 2\<rparr>;
          (w, r) = tx env branch cseq uri (register_headers cfg expires branch cseq tag) (world st);
          st = st\<lparr>world := w\<rparr>
      in case r of
           Inl e \<Rightarrow> (st, Inl (Transaction_failed e))
         | Inr res \<Rightarrow>
             if StatusCode res = 401 \<or> StatusCode res = 407
             then
               let name = (if StatusCode res = 407 then ''proxy-authenticate'' else ''www-authenticate'');
                   authName = (if StatusCode res = 407 then ''Proxy-Authorization'' else ''Authorization'')
               in case Parse_challenge (order env) (Header res name) of
                    Inl e \<Rightarrow> (st, Inl (Bad_challenge e))
                  | Inr challenge \<Rightarrow>
                      let (cseq, st) = next_cseq st;
                          branch = ''z9hG4bK-'' @ fresh env (drawn st);
                          auth = Authorization (hash env) (random env (drawn st + 1)) challenge
                            (Username (rg_identity cfg)) (rg_password cfg) ''REGISTER'' uri 1;
                          st = st\<lparr>drawn := drawn st + 2\<rparr>;
                          (w, r) = tx env branch cseq uri
                            (register_headers cfg expires branch cseq tag @ [authName @ '': '' @ auth]) (world st);
                          st = st\<lparr>world := w\<rparr>
                      in (st, case r of Inl e \<Rightarrow> Inl (Transaction_failed e) | Inr res \<Rightarrow> Inr res)
             else (st, Inr res))"

definition min_expires :: "Message \<Rightarrow> int option" where
  "min_expires res =
     (let (n, ok) = atoi (trim_space (Header res ''min-expires'')) in if ok then Some n else None)"

definition granted_expires :: "Message \<Rightarrow> int \<Rightarrow> int" where
  "granted_expires res expires =
     (let (v, ok) = atoi (trim_space (Header res ''expires'')); (w, ok') = atoi (param (Header res ''contact'') ''expires'')
      in if ok \<and> 0 \<le> v then v else if ok' \<and> 0 \<le> w then w else expires)"

lemma atoi_bound: "atoi s = (n, True) \<Longrightarrow> n < 2 ^ 63"
  by (auto simp: atoi_def Let_def split: if_splits)

lemma min_expires_bound: "min_expires res = Some n \<Longrightarrow> n < 2 ^ 63"
  by (auto simp: min_expires_def split: prod.splits if_splits dest: atoi_bound)

text \<open>A response 423 asks for a longer interval; the recursion ends because the interval grows below \<open>2 ^ 63\<close>.\<close>

function register ::
  "'s register_env \<Rightarrow> registration_config \<Rightarrow> int \<Rightarrow> 's registration \<Rightarrow> 's registration \<times> (register_error + int)" where
  "register env cfg expires st =
     (case register_once env cfg expires st of
        (st, Inl e) \<Rightarrow> (st, Inl e)
      | (st, Inr res) \<Rightarrow>
          (case (if StatusCode res = 423 \<and> 0 < expires then min_expires res else None) of
             Some n \<Rightarrow> if expires < n then register env cfg n st else (st, Inl (Register_status (StatusCode res) (Reason res)))
           | None \<Rightarrow>
               if StatusCode res < 200 \<or> 300 \<le> StatusCode res
               then (st, Inl (Register_status (StatusCode res) (Reason res)))
               else (st, Inr (granted_expires res expires))))"
  by pat_completeness auto
termination
  by (relation "measure (\<lambda>(_, _, expires, _). nat (2 ^ 63 - expires))") (auto dest: min_expires_bound split: if_splits)

declare register.simps [simp del]

section \<open>The registration loop\<close>

definition int64 :: "int \<Rightarrow> int" where
  "int64 x = (x + 2 ^ 63) mod 2 ^ 64 - 2 ^ 63"

text \<open>\<open>time.Duration(granted) * time.Second * 4 / 5\<close> in 64-bit arithmetic, at least a second.\<close>

definition refresh_after :: "int \<Rightarrow> int" where
  "refresh_after granted = max second (go_div (int64 (int64 (granted * second) * 4)) 5)"

text \<open>One round: whether the client counts as registered, the wait, and the next back-off.\<close>

definition registration_round :: "register_error + int \<Rightarrow> int \<Rightarrow> bool \<times> int \<times> int" where
  "registration_round r backoff =
     (case r of
        Inl _ \<Rightarrow> (False, backoff, if backoff < 30 * second then min (30 * second) (backoff * 2) else backoff)
      | Inr granted \<Rightarrow> (True, refresh_after (if granted \<le> 0 then 300 else granted), second))"

text \<open>The rounds of \<open>StartRegistration\<close> until the context ends.\<close>

fun registration_rounds :: "int \<Rightarrow> (register_error + int) list \<Rightarrow> (bool \<times> int) list" where
  "registration_rounds backoff [] = []"
| "registration_rounds backoff (r # rs) =
     (case registration_round r backoff of (up, wait, next) \<Rightarrow> (up, wait) # registration_rounds next rs)"

definition StartRegistration :: "(register_error + int) list \<Rightarrow> (bool \<times> int) list" where
  "StartRegistration rs = registration_rounds second rs"

lemma refresh_exact:
  assumes "0 < g" "g \<le> 2000000000"
  shows "refresh_after g = max second (g * 800000000)"
proof -
  have "int64 (g * second) = g * second" "int64 (g * second * 4) = g * second * 4"
    using assms by (simp_all add: int64_def second_def)
  moreover have "go_div (g * second * 4) 5 = g * 800000000"
    using assms by (simp add: go_div_def second_def)
  ultimately show ?thesis by (simp add: refresh_after_def)
qed

lemma refresh_min: "second \<le> refresh_after g"
  by (simp add: refresh_after_def)

lemma refresh_overflow: "refresh_after 4294967295 = second"
  by (simp add: refresh_after_def int64_def second_def go_div_def)

lemma round_facts:
  assumes "registration_round r b = (up, w, b')" "second \<le> b" "b \<le> 30 * second"
  shows "second \<le> w" "second \<le> b'" "b' \<le> 30 * second" "r = Inl e \<Longrightarrow> w \<le> 30 * second \<and> \<not> up"
    "r = Inr g \<Longrightarrow> up" "r = Inr g \<Longrightarrow> 2 \<le> g \<Longrightarrow> g \<le> 2000000000 \<Longrightarrow> w < g * second"
  using assms refresh_min by (auto simp: registration_round_def second_def refresh_exact split: sum.splits)

lemma rounds_facts:
  "i < length rs \<Longrightarrow> second \<le> b \<Longrightarrow> b \<le> 30 * second \<Longrightarrow> registration_rounds b rs ! i = (up, w) \<Longrightarrow>
   second \<le> w \<and> (\<forall>e. rs ! i = Inl e \<longrightarrow> w \<le> 30 * second \<and> \<not> up)
   \<and> (\<forall>g. rs ! i = Inr g \<longrightarrow> up \<and> (2 \<le> g \<and> g \<le> 2000000000 \<longrightarrow> w < g * second))"
proof (induction rs arbitrary: b i)
  case (Cons r rs)
  obtain up1 w1 b1 where r: "registration_round r b = (up1, w1, b1)" by (cases "registration_round r b")
  note facts = round_facts [OF r Cons.prems(2,3)]
  show ?case
  proof (cases i)
    case 0
    then show ?thesis using Cons.prems(4) facts(1,4-6) by (simp add: r)
  next
    case (Suc j)
    then show ?thesis using Cons.IH [of j b1] Cons.prems facts(2,3) by (simp add: r)
  qed
qed simp

section \<open>What a registration is granted\<close>

lemma granted_nonneg: "0 \<le> expires \<Longrightarrow> 0 \<le> granted_expires res expires"
  by (auto simp: granted_expires_def Let_def split: prod.splits)

lemma register_granted_from:
  "register env cfg expires st = (st', Inr g) \<Longrightarrow> 0 \<le> expires \<Longrightarrow>
   \<exists>st1 e res. register_once env cfg e st1 = (st', Inr res) \<and> expires \<le> e \<and> 200 \<le> StatusCode res \<and> StatusCode res < 300
     \<and> g = granted_expires res e \<and> 0 \<le> g"
proof (induction env cfg expires st rule: register.induct)
  case (1 env cfg expires st)
  obtain st1 r where once: "register_once env cfg expires st = (st1, r)" by fastforce
  show ?case
  proof (cases r)
    case (Inl e)
    then show ?thesis using 1(2) once by (simp add: register.simps [of env cfg expires])
  next
    case (Inr res)
    let ?m = "if StatusCode res = 423 \<and> 0 < expires then min_expires res else None"
    show ?thesis
    proof (cases ?m)
      case None
      then show ?thesis using 1(2,3) once Inr granted_nonneg
        by (fastforce simp: register.simps [of env cfg expires] split: if_splits)
    next
      case (Some n)
      then have "expires < n" "register env cfg n st1 = (st', Inr g)"
        using 1(2) once Inr by (auto simp: register.simps [of env cfg expires] split: if_splits)
      moreover from this obtain st2 e res2 where "register_once env cfg e st2 = (st', Inr res2)" "n \<le> e" "200 \<le> StatusCode res2"
          "StatusCode res2 < 300" "g = granted_expires res2 e" "0 \<le> g"
        using 1(1) [OF once [symmetric] Inr Some] 1(3) by auto
      ultimately show ?thesis by (metis less_le_not_le order_trans)
    qed
  qed
qed

section \<open>Properties\<close>


definition ringing_response :: Message where
  "ringing_response = \<lparr>IsResponse = True, StatusCode = 180, Reason = ''Ringing'', Method = [], URI = [], Headers = (\<lambda>_. []),
     Body = [], Raw = []\<rparr>"


text \<open>The registration loop paces itself: after whatever sequence of results, it waits at least a second before the
  next attempt, at most thirty seconds after a failure, and after a success that grants between 2 and two
  thousand million seconds it renews the registration before that time is over; the client counts as
  registered exactly after a success.\<close>

lemma registration_pacing:
  "i < length rs \<Longrightarrow> StartRegistration rs ! i = (up, w) \<Longrightarrow>
   second \<le> w \<and> (\<forall>e. rs ! i = Inl e \<longrightarrow> w \<le> 30 * second \<and> \<not> up)
   \<and> (\<forall>g. rs ! i = Inr g \<longrightarrow> up \<and> (2 \<le> g \<and> g \<le> 2000000000 \<longrightarrow> w < g * second))"
  unfolding StartRegistration_def by (rule rounds_facts) (simp_all add: second_def)

text \<open>A registration succeeds only with a final 2xx response to a REGISTER for the requested or a longer interval, and
  the interval it reports is the one that response grants, never negative.\<close>

lemma register_granted:
  "register env cfg expires st = (st', Inr g) \<Longrightarrow> 0 \<le> expires \<Longrightarrow>
   \<exists>st1 e res. register_once env cfg e st1 = (st', Inr res) \<and> expires \<le> e \<and> 200 \<le> StatusCode res \<and> StatusCode res < 300
     \<and> g = granted_expires res e \<and> 0 \<le> g"
  by (rule register_granted_from)

definition ok_env :: "unit register_env" where
  "ok_env = \<lparr>tx = (\<lambda>_ _ _ _ w. (w, Inr (ringing_response\<lparr>StatusCode := 200\<rparr>))), fresh = (\<lambda>_. ''x''), random = (\<lambda>_. None),
     hash = \<lparr>md5_sum = id, sha256_sum = id\<rparr>, order = id\<rparr>"

definition ok_config :: registration_config where
  "ok_config = \<lparr>rg_identity = \<lparr>localIP = ''10.0.0.2'', LocalPort = 5070, Username = ''door'', DisplayName = ''Door''\<rparr>,
     rg_registrar = ''fritz.box'', rg_registrarPort = 5060, rg_password = ''pw'', rg_callID = ''c1''\<rparr>"

end
