(* ===== verification/Websocket.thy ===== *)
theory Websocket
  imports GoStrings
begin

text \<open>
  The WebSocket client of \<^verbatim>\<open>internal/ha/websocket.go\<close>: the check of the upgrade response, the frames
  that are written, the frames that are read and their assembly to messages.  The bytes still to arrive are a
  list, so that a read fails exactly when too few are left; the random masks and the success of a write are
  a parameter, numbered in the order in which they are used.
\<close>

section \<open>Frames\<close>

definition wsOpcodeContinuation :: byte where "wsOpcodeContinuation = 0"
definition wsOpcodeText :: byte where "wsOpcodeText = 1"
definition wsOpcodeClose :: byte where "wsOpcodeClose = 8"
definition wsOpcodePing :: byte where "wsOpcodePing = 9"
definition wsOpcodePong :: byte where "wsOpcodePong = 10"
definition wsMaxMessageSize :: nat where "wsMaxMessageSize = 16777216"

lemmas ws_opcodes = wsOpcodeContinuation_def wsOpcodeText_def wsOpcodeClose_def wsOpcodePing_def wsOpcodePong_def

datatype ws_error =
    Ws_read_failed
  | Ws_closed
  | Ws_frame_too_large
  | Ws_unexpected_text
  | Ws_unexpected_continuation
  | Ws_message_too_large
  | Ws_payload_too_large
  | Ws_write_failed

definition be64 :: "64 word \<Rightarrow> byte list" where
  "be64 w = be32 (ucast (drop_bit 32 w)) @ be32 (ucast w)"

definition of_be64 :: "byte list \<Rightarrow> 64 word" where
  "of_be64 b = push_bit 32 (ucast (of_be32 (b ! 0) (b ! 1) (b ! 2) (b ! 3))) OR ucast (of_be32 (b ! 4) (b ! 5) (b ! 6) (b ! 7))"

definition ws_mask :: "byte list \<Rightarrow> byte list \<Rightarrow> byte list" where
  "ws_mask key payload = map (\<lambda>i. payload ! i XOR key ! (i mod 4)) [0..<length payload]"

text \<open>The length field: seven bits, or 126 and two bytes, or 127 and eight.\<close>

definition ws_header :: "byte \<Rightarrow> nat \<Rightarrow> byte list" where
  "ws_header opcode plen =
     (0x80 OR opcode) #
     (if plen < 126 then [0x80 OR of_nat plen]
      else if plen \<le> 0xFFFF then [0x80 OR 126] @ be16 (of_nat plen)
      else [0x80 OR 127] @ be64 (of_nat plen))"

text \<open>A connection: the bytes to come, the frames written, the number of masks drawn.\<close>

record ws_conn =
  ws_in :: "byte list"
  ws_out :: "byte list list"
  ws_draws :: nat

definition writeFrame ::
  "(nat \<Rightarrow> byte list option) \<Rightarrow> byte \<Rightarrow> byte list \<Rightarrow> ws_conn \<Rightarrow> ws_error option \<times> ws_conn" where
  "writeFrame masks opcode payload c =
     (if wsMaxMessageSize < length payload then (Some Ws_payload_too_large, c)
      else case masks (ws_draws c) of
        None \<Rightarrow> (Some Ws_write_failed, c\<lparr>ws_draws := ws_draws c + 1\<rparr>)
      | Some key \<Rightarrow>
          (None, c\<lparr>ws_out := ws_out c @ [ws_header opcode (length payload) @ key @ ws_mask key payload],
                   ws_draws := ws_draws c + 1\<rparr>))"

definition ws_length :: "nat \<Rightarrow> byte list \<Rightarrow> (nat \<times> byte list) option" where
  "ws_length plen s =
     (if plen = 126 then map_option (\<lambda>(b, s). (unat (of_be16 (b ! 0) (b ! 1)), s)) (read_full 2 s)
      else if plen = 127 then map_option (\<lambda>(b, s). (unat (of_be64 b), s)) (read_full 8 s)
      else Some (plen, s))"

text \<open>The end of the frame: the mask, when there is one, and the payload.\<close>

definition ws_payload :: "bool \<Rightarrow> nat \<Rightarrow> byte list \<Rightarrow> (byte list \<times> byte list) option" where
  "ws_payload masked plen s =
     (case (if masked then read_full 4 s else Some ([], s)) of
        None \<Rightarrow> None
      | Some (key, s) \<Rightarrow> map_option (\<lambda>(p, s). (if masked then ws_mask key p else p, s)) (read_full plen s))"

definition readFrame :: "byte list \<Rightarrow> ws_error + (bool \<times> byte \<times> byte list) \<times> byte list" where
  "readFrame s =
     (case read_full 2 s of
        None \<Rightarrow> Inl Ws_read_failed
      | Some (h, s) \<Rightarrow>
          let fin = (h ! 0 AND 0x80 \<noteq> 0); opcode = h ! 0 AND 0x0F; masked = (h ! 1 AND 0x80 \<noteq> 0) in
          case ws_length (unat (h ! 1 AND 0x7F)) s of
            None \<Rightarrow> Inl Ws_read_failed
          | Some (plen, s) \<Rightarrow>
              if wsMaxMessageSize < plen then Inl Ws_frame_too_large
              else case ws_payload masked plen s of
                None \<Rightarrow> Inl Ws_read_failed
              | Some (payload, s) \<Rightarrow> Inr ((fin, opcode, payload), s))"

lemma ws_length_length: "ws_length n s = Some (m, r) \<Longrightarrow> length r \<le> length s"
  by (auto simp: ws_length_def dest: read_full_length split: if_splits)

lemma ws_payload_length: "ws_payload m n s = Some (p, r) \<Longrightarrow> length r \<le> length s"
  by (auto simp: ws_payload_def dest!: read_full_length split: if_splits option.splits)

lemma readFrame_length: "readFrame s = Inr (f, r) \<Longrightarrow> length r < length s"
  by (auto simp: readFrame_def Let_def split: option.splits if_splits
      dest!: read_full_length ws_length_length ws_payload_length)

section \<open>Messages\<close>

text \<open>After an error the caller drops the connection; its input is left as it was before the frame.\<close>

lemma writeFrame_in: "writeFrame masks opcode payload c = (r, c') \<Longrightarrow> ws_in c' = ws_in c"
  by (auto simp: writeFrame_def split: if_splits option.splits)

definition ws_take ::
  "(nat \<Rightarrow> byte list option) \<Rightarrow> bool \<Rightarrow> byte list \<Rightarrow> ws_conn
   \<Rightarrow> ((ws_error + byte list) \<times> ws_conn) + (bool \<times> byte list \<times> ws_conn)" where
  "ws_take masks started message c =
     (case readFrame (ws_in c) of
        Inl e \<Rightarrow> Inl (Inl e, c)
      | Inr ((fin, opcode, payload), rest) \<Rightarrow>
          let c = c\<lparr>ws_in := rest\<rparr> in
          if opcode = wsOpcodePing
          then (case writeFrame masks wsOpcodePong payload c of
                  (Some e, c') \<Rightarrow> Inl (Inl e, c')
                | (None, c') \<Rightarrow> Inr (started, message, c'))
          else if opcode = wsOpcodePong then Inr (started, message, c)
          else if opcode = wsOpcodeClose then Inl (Inl Ws_closed, c)
          else if opcode = wsOpcodeText \<and> started then Inl (Inl Ws_unexpected_text, c)
          else if opcode = wsOpcodeContinuation \<and> \<not> started then Inl (Inl Ws_unexpected_continuation, c)
          else if opcode = wsOpcodeText \<or> opcode = wsOpcodeContinuation
          then (if wsMaxMessageSize < length (message @ payload) then Inl (Inl Ws_message_too_large, c)
                else if fin then Inl (Inr (message @ payload), c)
                else Inr (True, message @ payload, c))
          else Inr (started, message, c))"

lemma ws_take_length: "ws_take masks started message c = Inr (s', m', c') \<Longrightarrow> length (ws_in c') < length (ws_in c)"
  by (auto simp: ws_take_def Let_def split: sum.splits prod.splits option.splits if_splits
      dest!: readFrame_length dest: writeFrame_in)

lemma ws_take_bound: "ws_take masks started message c = Inl (Inr m, c') \<Longrightarrow> length m \<le> wsMaxMessageSize"
  by (auto simp: ws_take_def Let_def split: sum.splits prod.splits option.splits if_splits)

function ws_loop ::
  "(nat \<Rightarrow> byte list option) \<Rightarrow> bool \<Rightarrow> byte list \<Rightarrow> ws_conn \<Rightarrow> (ws_error + byte list) \<times> ws_conn" where
  "ws_loop masks started message c =
     (case ws_take masks started message c of
        Inl r \<Rightarrow> r
      | Inr (started, message, c) \<Rightarrow> ws_loop masks started message c)"
  by pat_completeness auto
termination
  by (relation "measure (\<lambda>(_, _, _, c). length (ws_in c))") (auto dest: ws_take_length)

declare ws_loop.simps [simp del]

definition ReadMessage :: "(nat \<Rightarrow> byte list option) \<Rightarrow> ws_conn \<Rightarrow> (ws_error + byte list) \<times> ws_conn" where
  "ReadMessage masks c = ws_loop masks False [] c"

lemma ws_loop_bound: "ws_loop masks started message c = (Inr m, c') \<Longrightarrow> length m \<le> wsMaxMessageSize"
proof (induction masks started message c rule: ws_loop.induct)
  case (1 masks started message c)
  show ?case
  proof (cases "ws_take masks started message c")
    case (Inl r)
    then show ?thesis using "1.prems" ws_take_bound by (simp add: ws_loop.simps [of masks started message c])
  next
    case (Inr t)
    obtain s' m' c1 where "t = (s', m', c1)" by (cases t) auto
    then show ?thesis using Inr "1.prems" "1.IH" [OF Inr] by (simp add: ws_loop.simps [of masks started message c])
  qed
qed

section \<open>The frames of a peer\<close>

text \<open>The frame of RFC 6455 with any header fields: what \<open>writeFrame\<close> writes is one of them.\<close>

definition peer_frame :: "bool \<Rightarrow> byte \<Rightarrow> byte list option \<Rightarrow> byte list \<Rightarrow> byte list" where
  "peer_frame fin opcode key payload =
     (let plen = length payload; m = (if key = None then 0 else 0x80 :: byte) in
      [(if fin then 0x80 else 0) OR opcode]
      @ (if plen < 126 then [m OR of_nat plen]
         else if plen \<le> 0xFFFF then [m OR 126] @ be16 (of_nat plen)
         else [m OR 127] @ be64 (of_nat plen))
      @ (case key of None \<Rightarrow> payload | Some k \<Rightarrow> k @ ws_mask k payload))"

lemma written_frame: "ws_header opcode (length p) @ k @ ws_mask k p = peer_frame True opcode (Some k) p"
  by (simp add: ws_header_def peer_frame_def)

lemma ws_mask_mask [simp]: "ws_mask k (ws_mask k p) = p"
  by (rule nth_equalityI) (simp_all add: ws_mask_def xor.assoc)

lemma length_ws_mask [simp]: "length (ws_mask k p) = length p"
  by (simp add: ws_mask_def)

lemma fin_bits:
  fixes op :: byte
  assumes "op AND 0x0F = op"
  shows "((if f then 0x80 else 0) OR op) AND 0x0F = op" "((if f then 0x80 else 0) OR op) AND 0x80 \<noteq> 0 \<longleftrightarrow> f"
proof -
  show "((if f then 0x80 else 0) OR op) AND 0x0F = op"
    using assms by (simp add: bit.conj_disj_distrib2)
  have "op AND 0x80 = op AND (0x0F AND 0x80)" using assms by (metis and.assoc)
  then have "op AND 0x80 = 0" by simp
  then show "((if f then 0x80 else 0) OR op) AND 0x80 \<noteq> 0 \<longleftrightarrow> f"
    by (simp add: bit.conj_disj_distrib2)
qed

lemma len_bits:
  assumes "n < 128"
  shows "unat (((if f then 0x80 else 0) OR (of_nat n :: byte)) AND 0x7F) = n"
    "((if f then 0x80 else 0) OR (of_nat n :: byte)) AND 0x80 \<noteq> 0 \<longleftrightarrow> f"
proof -
  have m: "(0x7F :: byte) = mask 7" by (simp add: mask_eq_exp_minus_1)
  have a: "(of_nat n :: byte) AND 0x7F = of_nat n"
    unfolding m by (simp add: take_bit_of_nat take_bit_nat_eq_self assms flip: take_bit_eq_mask)
  have u: "unat (of_nat n :: byte) = n" using assms by (simp add: unat_small)
  show "unat (((if f then 0x80 else 0) OR (of_nat n :: byte)) AND 0x7F) = n"
    using a u by (simp add: bit.conj_disj_distrib2)
  have "(of_nat n :: byte) AND 0x80 = of_nat n AND (0x7F AND 0x80)" using a by (metis and.assoc)
  then have "(of_nat n :: byte) AND 0x80 = 0" by simp
  then show "((if f then 0x80 else 0) OR (of_nat n :: byte)) AND 0x80 \<noteq> 0 \<longleftrightarrow> f"
    by (simp add: bit.conj_disj_distrib2)
qed


lemma be64_facts: "length (be64 w) = 8" "of_be64 (be64 w) = w"
proof -
  show "length (be64 w) = 8" by (simp add: be64_def)
  have "of_be64 (be64 w) = push_bit 32 (ucast (ucast (drop_bit 32 w) :: u32)) OR ucast (ucast w :: u32)"
    by (simp add: of_be64_def be64_def wire_defs)
  also have "\<dots> = w" by (rule bit_word_eqI) (auto simp: bit_simps)
  finally show "of_be64 (be64 w) = w" .
qed

lemma be16_facts: "length (be16 w) = 2" "of_be16 (be16 w ! 0) (be16 w ! 1) = w"
  by (simp_all add: wire_defs)

lemma readFrame_peer:
  assumes "op AND 0x0F = op" "length p \<le> wsMaxMessageSize" "\<And>k. key = Some k \<Longrightarrow> length k = 4"
  shows "readFrame (peer_frame fin op key p @ rest) = Inr ((fin, op, p), rest)"
proof -
  let ?m = "if key = None then 0 else 0x80 :: byte" and ?n = "length p"
  let ?tail = "(case key of None \<Rightarrow> p | Some k \<Rightarrow> k @ ws_mask k p) @ rest"
  have m: "?m = (if key \<noteq> None then 0x80 else 0)" by simp
  have tail: "ws_payload (key \<noteq> None) ?n ?tail = Some (p, rest)"
    using assms(3) by (cases key) (auto simp: ws_payload_def read_full_append)
  define l where "l = (if ?n < 126 then ?n else if ?n \<le> 0xFFFF then 126 else 127)"
  define ext where "ext = (if ?n < 126 then [] else if ?n \<le> 0xFFFF then be16 (of_nat ?n) else be64 (of_nat ?n))"
  define b0 where "b0 = (if fin then 0x80 else 0) OR op"
  define b1 where "b1 = ?m OR of_nat l"
  have frame: "peer_frame fin op key p @ rest = [b0, b1] @ ext @ ?tail"
    by (simp add: peer_frame_def Let_def l_def ext_def b0_def b1_def)
  have l: "l < 128" by (simp add: l_def)
  have small: "?n < 2 ^ 64" using assms(2) by (simp add: wsMaxMessageSize_def)
  have len: "ws_length l (ext @ ?tail) = Some (?n, ?tail)"
    using small by (auto simp: ws_length_def l_def ext_def read_full_append be64_facts be16_facts [unfolded One_nat_def] unat_small)
  have bits: "b0 AND 0x0F = op" "b0 AND 0x80 \<noteq> 0 \<longleftrightarrow> fin" "unat (b1 AND 0x7F) = l" "b1 AND 0x80 \<noteq> 0 \<longleftrightarrow> key \<noteq> None"
    unfolding b0_def b1_def m by (rule fin_bits [OF assms(1)] len_bits [OF l])+
  have two: "read_full 2 ([b0, b1] @ ext @ ?tail) = Some ([b0, b1], ext @ ?tail)" by (rule read_full_append) simp
  have nth: "[b0, b1] ! 0 = b0" "[b0, b1] ! 1 = b1" by simp_all
  show ?thesis
    unfolding frame readFrame_def two option.case prod.case nth bits Let_def len tail using assms(2) by simp
qed

section \<open>Whole messages\<close>

text \<open>What a peer sends until a message is complete: the fragments of the message and frames of other kinds between
  them, each with a mask or without.\<close>

datatype ws_item = Fragment "byte list option" "byte list" | Control byte "byte list option" "byte list"

fun item_ok :: "ws_item \<Rightarrow> bool" where
  "item_ok (Fragment key p) \<longleftrightarrow> (\<forall>k. key = Some k \<longrightarrow> length k = 4)"
| "item_ok (Control op key p) \<longleftrightarrow>
     (\<forall>k. key = Some k \<longrightarrow> length k = 4) \<and> length p \<le> wsMaxMessageSize \<and> op AND 0x0F = op
     \<and> op \<notin> {wsOpcodeText, wsOpcodeContinuation, wsOpcodeClose}"

fun item_text :: "ws_item \<Rightarrow> byte list" where
  "item_text (Fragment key p) = p"
| "item_text (Control op key p) = []"

fun item_frames :: "bool \<Rightarrow> ws_item list \<Rightarrow> byte list" where
  "item_frames started [] = []"
| "item_frames started (Fragment key p # xs) =
     peer_frame (xs = []) (if started then wsOpcodeContinuation else wsOpcodeText) key p @ item_frames True xs"
| "item_frames started (Control op key p # xs) = peer_frame True op key p @ item_frames started xs"

fun item_pings :: "ws_item list \<Rightarrow> byte list list" where
  "item_pings [] = []"
| "item_pings (Control op key p # xs) = (if op = wsOpcodePing then [p] else []) @ item_pings xs"
| "item_pings (Fragment key p # xs) = item_pings xs"

definition pongs :: "(nat \<Rightarrow> byte list option) \<Rightarrow> nat \<Rightarrow> byte list list \<Rightarrow> byte list list" where
  "pongs masks d ps = map (\<lambda>(i, p). peer_frame True wsOpcodePong (masks i) p) (enumerate d ps)"

lemma opcodes_low: "wsOpcodeText AND 0x0F = wsOpcodeText" "wsOpcodeContinuation AND 0x0F = wsOpcodeContinuation"
  by (simp_all add: ws_opcodes)

lemma pong_written:
  assumes "length p \<le> wsMaxMessageSize" "masks (ws_draws c) \<noteq> None"
  shows "writeFrame masks wsOpcodePong p c =
    (None, c\<lparr>ws_out := ws_out c @ pongs masks (ws_draws c) [p], ws_draws := ws_draws c + 1\<rparr>)"
  using assms by (auto simp: writeFrame_def pongs_def written_frame)

lemma read_items:
  "xs \<noteq> [] \<Longrightarrow> (\<exists>k p. last xs = Fragment k p) \<Longrightarrow> \<forall>x \<in> set xs. item_ok x \<Longrightarrow>
   length (message @ concat (map item_text xs)) \<le> wsMaxMessageSize \<Longrightarrow> \<forall>i. masks i \<noteq> None \<Longrightarrow>
   ws_loop masks started message \<lparr>ws_in = item_frames started xs @ rest, ws_out = out, ws_draws = d\<rparr> =
   (Inr (message @ concat (map item_text xs)),
    \<lparr>ws_in = rest, ws_out = out @ pongs masks d (item_pings xs), ws_draws = d + length (item_pings xs)\<rparr>)"
proof (induction xs arbitrary: started message out d)
  case (Cons x xs)
  show ?case
  proof (cases x)
    case (Fragment key p)
    have len: "length p \<le> wsMaxMessageSize" "length (message @ p) \<le> wsMaxMessageSize"
      using Cons.prems(4) Fragment by auto
    let ?op = "if started then wsOpcodeContinuation else wsOpcodeText"
    have "readFrame (peer_frame (xs = []) ?op key p @ item_frames True xs @ rest) = Inr ((xs = [], ?op, p), item_frames True xs @ rest)"
      using Cons.prems(3) Fragment len(1) by (intro readFrame_peer) (auto simp: opcodes_low)
    then have take: "ws_take masks started message \<lparr>ws_in = item_frames started (x # xs) @ rest, ws_out = out, ws_draws = d\<rparr> =
      (if xs = [] then Inl (Inr (message @ p), \<lparr>ws_in = item_frames True xs @ rest, ws_out = out, ws_draws = d\<rparr>)
       else Inr (True, message @ p, \<lparr>ws_in = item_frames True xs @ rest, ws_out = out, ws_draws = d\<rparr>))"
      using len(2) by (simp add: ws_take_def Fragment Let_def ws_opcodes)
    show ?thesis
    proof (cases "xs = []")
      case True
      then show ?thesis using take Fragment by (simp add: ws_loop.simps pongs_def)
    next
      case False
      then show ?thesis
        using take Fragment Cons.prems Cons.IH [of "message @ p" True out d]
        by (subst ws_loop.simps) simp
    qed
  next
    case (Control op key p)
    then have ne: "xs \<noteq> []" and lst: "(\<exists>k p. last xs = Fragment k p)" using Cons.prems(1,2) by (auto split: if_splits)
    have ok: "length p \<le> wsMaxMessageSize" "op AND 0x0F = op" "op \<noteq> wsOpcodeText" "op \<noteq> wsOpcodeContinuation" "op \<noteq> wsOpcodeClose"
      using Cons.prems(3) Control by auto
    have "readFrame (peer_frame True op key p @ item_frames started xs @ rest) = Inr ((True, op, p), item_frames started xs @ rest)"
      using Cons.prems(3) Control ok by (intro readFrame_peer) auto
    then have take: "ws_take masks started message \<lparr>ws_in = item_frames started (x # xs) @ rest, ws_out = out, ws_draws = d\<rparr> =
      Inr (started, message, \<lparr>ws_in = item_frames started xs @ rest,
        ws_out = out @ pongs masks d (if op = wsOpcodePing then [p] else []), ws_draws = d + (if op = wsOpcodePing then 1 else 0)\<rparr>)"
      using ok Cons.prems(5) by (simp add: ws_take_def Control Let_def pong_written) (simp add: pongs_def)
    have split: "pongs masks d (p # ps) = pongs masks d [p] @ pongs masks (d + 1) ps" for ps
      by (simp add: pongs_def)
    show ?thesis
      using take Control ne lst Cons.prems Cons.IH [of message started]
      by (subst ws_loop.simps) (simp add: split [of "item_pings xs"] pongs_def [of masks d "[]"])
  qed
qed simp


lemma written_frame_reads:
  assumes "writeFrame masks op p c = (None, c')" "op AND 0x0F = op" "\<And>k. masks (ws_draws c) = Some k \<Longrightarrow> length k = 4"
  shows "\<exists>f. ws_out c' = ws_out c @ [f] \<and> (\<forall>rest. readFrame (f @ rest) = Inr ((True, op, p), rest))"
  using assms readFrame_peer [of op p "masks (ws_draws c)" True]
  by (auto simp: writeFrame_def written_frame split: if_splits option.splits)

section \<open>The opening handshake\<close>

text \<open>\<open>base64.StdEncoding\<close>.\<close>

definition base64_digits :: string where
  "base64_digits = ''ABCDEFGHIJKLMNOPQRSTUVWXYZabcdefghijklmnopqrstuvwxyz0123456789+/''"

fun base64_encode :: "byte list \<Rightarrow> string" where
  "base64_encode (a # b # c # s) =
     (let n = unat a * 65536 + unat b * 256 + unat c in
      [base64_digits ! (n div 262144), base64_digits ! (n div 4096 mod 64), base64_digits ! (n div 64 mod 64), base64_digits ! (n mod 64)]
      @ base64_encode s)"
| "base64_encode [a, b] =
     (let n = unat a * 65536 + unat b * 256 in
      [base64_digits ! (n div 262144), base64_digits ! (n div 4096 mod 64), base64_digits ! (n div 64 mod 64), CHR ''=''])"
| "base64_encode [a] =
     (let n = unat a * 65536 in [base64_digits ! (n div 262144), base64_digits ! (n div 4096 mod 64), CHR ''='', CHR ''=''])"
| "base64_encode [] = []"

text \<open>The response as \<open>http.ReadResponse\<close> gives it: the status and the values of each header field.\<close>

record http_response =
  hr_status :: nat
  hr_values :: "string \<Rightarrow> string list"

definition header_get :: "http_response \<Rightarrow> string \<Rightarrow> string" where
  "header_get res name = (case hr_values res name of [] \<Rightarrow> [] | v # _ \<Rightarrow> v)"

definition headerTokenContains :: "http_response \<Rightarrow> string \<Rightarrow> string \<Rightarrow> bool" where
  "headerTokenContains res name token \<longleftrightarrow>
     (\<exists>value \<in> set (hr_values res name). \<exists>part \<in> set (split_str '','' value). equal_fold (trim_space part) token)"

definition websocketAccept :: "(byte list \<Rightarrow> byte list) \<Rightarrow> string \<Rightarrow> string" where
  "websocketAccept sha1 key = base64_encode (sha1 (string_bytes (key @ ''258EAFA5-E914-47DA-95CA-C5AB0DC85B11'')))"

datatype dial_error = Bad_url | Bad_scheme string | No_connection | No_nonce | Handshake_failed | Handshake_status nat | Bad_upgrade | Bad_accept

text \<open>What the code uses of a parsed URL.\<close>

record ws_url =
  url_scheme :: string
  url_host :: string
  url_hostname :: string
  url_port :: string

definition ws_address :: "ws_url option \<Rightarrow> dial_error + string" where
  "ws_address u =
     (case u of
        None \<Rightarrow> Inl Bad_url
      | Some u \<Rightarrow>
          if url_scheme u \<noteq> ''ws'' then Inl (Bad_scheme (url_scheme u))
          else Inr (if url_port u = [] then join_host_port (url_hostname u) ''80'' else url_host u))"

text \<open>The header fields of the request, for a nonce of sixteen bytes.\<close>

definition upgrade_request :: "string \<Rightarrow> (string \<times> string) list" where
  "upgrade_request key =
     [(''Upgrade'', ''websocket''), (''Connection'', ''Upgrade''), (''Sec-WebSocket-Version'', ''13''), (''Sec-WebSocket-Key'', key)]"

definition check_upgrade :: "(byte list \<Rightarrow> byte list) \<Rightarrow> string \<Rightarrow> http_response \<Rightarrow> dial_error option" where
  "check_upgrade sha1 key res =
     (if hr_status res \<noteq> 101 then Some (Handshake_status (hr_status res))
      else if \<not> headerTokenContains res ''Connection'' ''upgrade''
        \<or> \<not> equal_fold (trim_space (header_get res ''Upgrade'')) ''websocket'' then Some Bad_upgrade
      else if header_get res ''Sec-WebSocket-Accept'' \<noteq> websocketAccept sha1 key then Some Bad_accept
      else None)"

text \<open>\<open>parse\<close> is \<open>url.Parse\<close>, \<open>connect\<close> the dial, \<open>nonce\<close> the random bytes, \<open>exchange\<close> the request and its response with
  the bytes that follow it.\<close>

definition dialWebSocket ::
  "(string \<Rightarrow> ws_url option) \<Rightarrow> (string \<Rightarrow> bool) \<Rightarrow> byte list option \<Rightarrow>
   ((string \<times> string) list \<Rightarrow> (http_response \<times> byte list) option) \<Rightarrow> (byte list \<Rightarrow> byte list) \<Rightarrow> string \<Rightarrow> dial_error + ws_conn" where
  "dialWebSocket parse connect nonce exchange sha1 rawURL =
     (case ws_address (parse rawURL) of
        Inl e \<Rightarrow> Inl e
      | Inr host \<Rightarrow>
          if \<not> connect host then Inl No_connection
          else case nonce of
            None \<Rightarrow> Inl No_nonce
          | Some b \<Rightarrow>
              let key = base64_encode b in
              case exchange (upgrade_request key) of
                None \<Rightarrow> Inl Handshake_failed
              | Some (res, rest) \<Rightarrow>
                  (case check_upgrade sha1 key res of
                     Some e \<Rightarrow> Inl e
                   | None \<Rightarrow> Inr \<lparr>ws_in = rest, ws_out = [], ws_draws = 0\<rparr>))"

section \<open>Properties\<close>

text \<open>C30. Messages are read as their sender framed them: however the text is cut into fragments, with pings, pongs and frames
  of unknown kinds between them and each frame masked or not, the reader returns exactly the text, leaves the input
  right behind its last frame, and answers every ping in order with a pong that carries its payload; a message
  longer than the limit of 16 MiB is never returned.\<close>

theorem websocket_message_read:
  assumes "\<forall>x \<in> set xs. item_ok x" "xs \<noteq> []" "last xs = Fragment key p" "\<forall>i. masks i \<noteq> None"
    and "length (concat (map item_text xs)) \<le> wsMaxMessageSize"
  shows "ReadMessage masks \<lparr>ws_in = item_frames False xs @ rest, ws_out = out, ws_draws = d\<rparr> =
      (Inr (concat (map item_text xs)),
       \<lparr>ws_in = rest, ws_out = out @ pongs masks d (item_pings xs), ws_draws = d + length (item_pings xs)\<rparr>)
    \<and> (\<forall>c m c'. ReadMessage masks c = (Inr m, c') \<longrightarrow> length m \<le> wsMaxMessageSize)"
proof
  show "ReadMessage masks \<lparr>ws_in = item_frames False xs @ rest, ws_out = out, ws_draws = d\<rparr> =
      (Inr (concat (map item_text xs)),
       \<lparr>ws_in = rest, ws_out = out @ pongs masks d (item_pings xs), ws_draws = d + length (item_pings xs)\<rparr>)"
    unfolding ReadMessage_def by (subst read_items) (use assms in auto)
  show "\<forall>c m c'. ReadMessage masks c = (Inr m, c') \<longrightarrow> length m \<le> wsMaxMessageSize"
    by (auto simp: ReadMessage_def dest: ws_loop_bound)
qed

theorem websocket_message_read_witness:
  "fst (ReadMessage (\<lambda>_. Some [1, 2, 3, 4])
     \<lparr>ws_in = item_frames False [Fragment None [104], Control wsOpcodePing None [7], Fragment (Some [9, 9, 9, 9]) [105]],
      ws_out = [], ws_draws = 0\<rparr>) = Inr [104, 105]"
  using websocket_message_read [of "[Fragment None [104], Control wsOpcodePing None [7], Fragment (Some [9, 9, 9, 9]) [105]]"
      "Some [9, 9, 9, 9]" "[105]" "\<lambda>_. Some [1, 2, 3, 4]" "[]" "[]" 0]
  by (simp add: ws_opcodes wsMaxMessageSize_def)

end
