(* ===== verification/HaListener.thy ===== *)
theory HaListener
  imports Websocket "HOL-Library.List_Lexorder" "HOL-Library.Char_ord"
begin

text \<open>
  The listener for the doorbell sensors of Home Assistant: \<^verbatim>\<open>internal/ha/listener.go\<close> and
  \<^verbatim>\<open>internal/ha/entity_registry.go\<close>.  Edges of a sensor are seen on the WebSocket or, while that is down,
  by polling.  The JSON codec and the REST requests are parameters; times are integers of nanoseconds.
\<close>

section \<open>The state of the listener\<close>

record route_sub =
  sub_route :: string
  sub_entity :: string

record trigger =
  trig_route :: string
  trig_entity :: string

text \<open>\<open>triggers\<close> is the channel the calls are started from, \<open>trigger_cap\<close> its capacity; \<open>connection\<close> is what \<open>OnConnection\<close>
  reported last.\<close>

record listener =
  Routes :: "route_sub list"
  previous :: "string \<rightharpoonup> string"
  initialized :: "string \<Rightarrow> bool"
  connectedAt :: "int option"
  triggers :: "trigger list"
  trigger_cap :: nat
  connection :: bool

definition route_trigger :: "route_sub \<Rightarrow> trigger" where
  "route_trigger r = \<lparr>trig_route = sub_route r, trig_entity = sub_entity r\<rparr>"

definition emitTrigger :: "route_sub \<Rightarrow> listener \<Rightarrow> listener" where
  "emitTrigger r l =
     (if length (triggers l) < trigger_cap l then l\<lparr>triggers := triggers l @ [route_trigger r]\<rparr> else l)"

definition note_state :: "string \<Rightarrow> string \<Rightarrow> listener \<Rightarrow> listener" where
  "note_state e s l = l\<lparr>previous := (previous l)(e \<mapsto> s), initialized := (initialized l)(e := True)\<rparr>"

definition acceptState :: "route_sub \<Rightarrow> string \<Rightarrow> listener \<Rightarrow> listener" where
  "acceptState r state l =
     (let state = to_lower (trim_space state) in
      if \<not> initialized l (sub_entity r) then note_state (sub_entity r) state l
      else
        let l = (if previous l (sub_entity r) \<noteq> Some ''on'' \<and> state = ''on'' then emitTrigger r l else l)
        in l\<lparr>previous := (previous l)(sub_entity r \<mapsto> state)\<rparr>)"

definition routeForEntity :: "string \<Rightarrow> listener \<Rightarrow> route_sub option" where
  "routeForEntity e l = find (\<lambda>r. sub_entity r = e) (Routes l)"

section \<open>Messages of the WebSocket\<close>

record envelope =
  env_id :: int
  env_type :: string
  env_success :: bool
  env_message :: string
  env_event :: "byte list"

text \<open>The JSON codec: \<open>decode_event\<close> gives the entity and the state of \<open>to_state\<close>, or \<open>Some None\<close> when there is none.\<close>

record ha_codec =
  decode_envelope :: "byte list \<Rightarrow> envelope option"
  decode_event :: "byte list \<Rightarrow> (string \<times> string) option option"
  encode_auth :: "string \<Rightarrow> byte list"
  encode_subscribe :: "string list \<Rightarrow> byte list"

definition handle_event :: "string \<times> string \<Rightarrow> listener \<Rightarrow> listener" where
  "handle_event = (\<lambda>(entity, state) l.
     if equal_fold (trim_space state) ''on''
     then (case routeForEntity (trim_space entity) l of
             None \<Rightarrow> l
           | Some r \<Rightarrow> emitTrigger r (note_state (trim_space entity) ''on'' l))
     else l)"

definition handle_message :: "ha_codec \<Rightarrow> byte list \<Rightarrow> listener \<Rightarrow> listener" where
  "handle_message codec raw l =
     (case decode_envelope codec raw of
        None \<Rightarrow> l
      | Some m \<Rightarrow>
          if env_type m \<noteq> ''event'' \<or> env_id m \<noteq> 1 then l
          else case decode_event codec (env_event m) of
            Some (Some ev) \<Rightarrow> handle_event ev l
          | _ \<Rightarrow> l)"

text \<open>The first poll after the subscription only records the states; it raises no trigger.\<close>

definition seed_state :: "route_sub \<times> string option \<Rightarrow> listener \<Rightarrow> listener" where
  "seed_state = (\<lambda>(r, state) l.
     case state of Some s \<Rightarrow> note_state (sub_entity r) (to_lower (trim_space s)) l | None \<Rightarrow> l)"

datatype ha_error =
    Ha_dial dial_error
  | Ha_read ws_error
  | Ha_write ws_error
  | Ha_decode
  | Ha_challenge
  | Ha_auth_failed string
  | Ha_rejected string

text \<open>Reading a message and sending one, as steps that may fail.\<close>

definition ha_read :: "(nat \<Rightarrow> byte list option) \<Rightarrow> ws_conn \<Rightarrow> ha_error + byte list \<times> ws_conn" where
  "ha_read masks c = (case ReadMessage masks c of (Inl e, _) \<Rightarrow> Inl (Ha_read e) | (Inr m, c') \<Rightarrow> Inr (m, c'))"

definition ha_write :: "(nat \<Rightarrow> byte list option) \<Rightarrow> byte list \<Rightarrow> ws_conn \<Rightarrow> ha_error + ws_conn" where
  "ha_write masks payload c =
     (case writeFrame masks wsOpcodeText payload c of (Some e, _) \<Rightarrow> Inl (Ha_write e) | (None, c') \<Rightarrow> Inr c')"

definition ha_bind :: "'e + 'a \<Rightarrow> ('a \<Rightarrow> 'e + 'b) \<Rightarrow> 'e + 'b" where
  "ha_bind x f = (case x of Inl e \<Rightarrow> Inl e | Inr a \<Rightarrow> f a)"

text \<open>The challenge, the token and its acceptance: the first half of both users of the connection.\<close>

definition ha_authenticate :: "(nat \<Rightarrow> byte list option) \<Rightarrow> ha_codec \<Rightarrow> string \<Rightarrow> ws_conn \<Rightarrow> ha_error + ws_conn" where
  "ha_authenticate masks codec token c =
     ha_bind (ha_read masks c) (\<lambda>(raw, c).
       case decode_envelope codec raw of
         None \<Rightarrow> Inl Ha_challenge
       | Some m \<Rightarrow>
           if env_type m \<noteq> ''auth_required'' then Inl Ha_challenge
           else ha_bind (ha_write masks (encode_auth codec token) c) (\<lambda>c.
             ha_bind (ha_read masks c) (\<lambda>(raw, c).
               case decode_envelope codec raw of
                 None \<Rightarrow> Inl Ha_decode
               | Some m \<Rightarrow> if env_type m \<noteq> ''auth_ok'' then Inl (Ha_auth_failed (env_message m)) else Inr c)))"

text \<open>A request with the id 1 and its result.\<close>

definition ha_request ::
  "(nat \<Rightarrow> byte list option) \<Rightarrow> ha_codec \<Rightarrow> byte list \<Rightarrow> ws_conn \<Rightarrow> ha_error + envelope \<times> ws_conn" where
  "ha_request masks codec payload c =
     ha_bind (ha_write masks payload c) (\<lambda>c.
       ha_bind (ha_read masks c) (\<lambda>(raw, c).
         case decode_envelope codec raw of
           None \<Rightarrow> Inl Ha_decode
         | Some m \<Rightarrow>
             if env_type m \<noteq> ''result'' \<or> env_id m \<noteq> 1 \<or> \<not> env_success m then Inl (Ha_rejected (env_message m))
             else Inr (m, c)))"

section \<open>A session on the WebSocket\<close>

lemma ws_loop_input: "ws_loop masks started message c = (Inr m, c') \<Longrightarrow> length (ws_in c') < length (ws_in c)"
proof (induction masks started message c rule: ws_loop.induct)
  case (1 masks started message c)
  show ?case
  proof (cases "ws_take masks started message c")
    case (Inl r)
    then have "ws_take masks started message c = Inl (Inr m, c')"
      using "1.prems" by (simp add: ws_loop.simps [of masks started message c])
    then show ?thesis
      by (auto simp: ws_take_def Let_def split: sum.splits prod.splits option.splits if_splits dest!: readFrame_length)
  next
    case (Inr t)
    obtain s' m' c1 where t: "t = (s', m', c1)" by (cases t) auto
    have "length (ws_in c') < length (ws_in c1)"
      using t Inr "1.prems" "1.IH" [OF Inr] by (simp add: ws_loop.simps [of masks started message c])
    then show ?thesis using ws_take_length [OF Inr [unfolded t]] by simp
  qed
qed

text \<open>The event loop: it ends with the error of the first read that fails.\<close>

function event_loop ::
  "(nat \<Rightarrow> byte list option) \<Rightarrow> ha_codec \<Rightarrow> ws_conn \<Rightarrow> listener \<Rightarrow> ha_error \<times> listener" where
  "event_loop masks codec c l =
     (case ReadMessage masks c of
        (Inl e, _) \<Rightarrow> (Ha_read e, l)
      | (Inr raw, c') \<Rightarrow> event_loop masks codec c' (handle_message codec raw l))"
  by pat_completeness auto
termination
  by (relation "measure (\<lambda>(_, _, c, _). length (ws_in c))") (auto simp: ReadMessage_def dest: ws_loop_input [OF sym])

declare event_loop.simps [simp del]

text \<open>\<open>dial\<close> is the result of the dial, \<open>now\<close> the time of the subscription, \<open>states\<close> the results of the first poll in the
  order in which they arrived.\<close>

definition runWebSocket ::
  "(nat \<Rightarrow> byte list option) \<Rightarrow> ha_codec \<Rightarrow> string \<Rightarrow> dial_error + ws_conn \<Rightarrow> int \<Rightarrow> (route_sub \<times> string option) list
   \<Rightarrow> listener \<Rightarrow> ha_error \<times> listener" where
  "runWebSocket masks codec token dial now states l =
     (case ha_bind (case dial of Inl e \<Rightarrow> Inl (Ha_dial e) | Inr c \<Rightarrow> Inr c) (\<lambda>c.
             ha_bind (ha_authenticate masks codec token c) (\<lambda>c.
               ha_request masks codec (encode_subscribe codec (map sub_entity (Routes l))) c)) of
        Inl e \<Rightarrow> (e, l)
      | Inr (_, c) \<Rightarrow> event_loop masks codec c (fold seed_state states (l\<lparr>connection := True, connectedAt := Some now\<rparr>)))"

section \<open>Polling\<close>

definition poll_round :: "(route_sub \<times> string option) list \<Rightarrow> listener \<Rightarrow> listener" where
  "poll_round results l =
     (fold (\<lambda>(r, state) l. case state of Some s \<Rightarrow> acceptState r s l | None \<Rightarrow> l) results l)
       \<lparr>connection := (\<forall>(r, state) \<in> set results. state \<noteq> None)\<rparr>"

definition pollFallback :: "(route_sub \<times> string option) list list \<Rightarrow> listener \<Rightarrow> listener" where
  "pollFallback rounds l = fold poll_round rounds l"

section \<open>The listener\<close>

definition ha_second :: int where "ha_second = 1000000000"

text \<open>One pass of \<open>Run\<close>: a session, and then polling for as long as the back-off says.  \<open>since\<close> is the time at its end.\<close>

record ha_pass =
  p_dial :: "dial_error + ws_conn"
  p_masks :: "nat \<Rightarrow> byte list option"
  p_now :: int
  p_states :: "(route_sub \<times> string option) list"
  p_end :: int
  p_rounds :: "(route_sub \<times> string option) list list"

definition reset_backoff :: "listener \<Rightarrow> int \<Rightarrow> int \<Rightarrow> int" where
  "reset_backoff l now backoff =
     (case connectedAt l of Some t \<Rightarrow> if 10 * ha_second \<le> now - t then ha_second else backoff | None \<Rightarrow> backoff)"

definition next_backoff :: "int \<Rightarrow> int" where
  "next_backoff backoff = (if backoff < 15 * ha_second then min (15 * ha_second) (backoff * 2) else backoff)"

text \<open>The result: the next back-off, the time that is polled, the listener.\<close>

definition run_pass :: "ha_codec \<Rightarrow> string \<Rightarrow> ha_pass \<Rightarrow> int \<times> listener \<Rightarrow> (int \<times> listener) \<times> int" where
  "run_pass codec token p = (\<lambda>(backoff, l).
     let l = snd (runWebSocket (p_masks p) codec token (p_dial p) (p_now p) (p_states p) l);
         backoff = reset_backoff l (p_end p) backoff;
         l = pollFallback (p_rounds p) (l\<lparr>connection := False\<rparr>)
     in ((next_backoff backoff, l), backoff))"

datatype listen_error = No_routes

definition listen ::
  "ha_codec \<Rightarrow> string \<Rightarrow> listener \<Rightarrow> ha_pass list \<Rightarrow> listen_error + (int \<times> listener) \<times> int list" where
  "listen codec token l passes =
     (if Routes l = [] then Inl No_routes
      else Inr (scan (\<lambda>s p. run_pass codec token p s) (ha_second, l) passes))"


section \<open>The back-off\<close>

lemma accept_connected [simp]: "connectedAt (acceptState r s l) = connectedAt l"
  by (simp add: acceptState_def note_state_def emitTrigger_def Let_def)

lemma poll_connected: "connectedAt (poll_round results l) = connectedAt l"
proof -
  have "connectedAt (fold (\<lambda>(r, state) l. case state of Some s \<Rightarrow> acceptState r s l | None \<Rightarrow> l) rs l) = connectedAt l" for rs
    by (induction rs arbitrary: l) (auto split: option.split)
  then show ?thesis by (simp add: poll_round_def)
qed

lemma fallback_connected: "connectedAt (pollFallback rounds l) = connectedAt l"
  unfolding pollFallback_def by (induction rounds arbitrary: l) (simp_all add: poll_connected)

text \<open>The time of the last connection is never cleared: ten seconds after a connection every failed dial finds the back-off
  reset, so the wait does not grow any more.\<close>

lemma backoff_after_connection:
  assumes "connectedAt l = Some t" "10 * ha_second \<le> p_end p - t" "p_dial p = Inl e"
  shows "snd (run_pass codec token p (backoff, l)) = ha_second"
    "connectedAt (snd (fst (run_pass codec token p (backoff, l)))) = Some t"
  using assms by (simp_all add: run_pass_def runWebSocket_def ha_bind_def reset_backoff_def fallback_connected Let_def)

lemma pass_backoff:
  assumes "ha_second \<le> backoff" "backoff \<le> 15 * ha_second" "run_pass codec token p (backoff, l) = ((b', l'), w)"
  shows "ha_second \<le> w" "w \<le> 15 * ha_second" "ha_second \<le> b'" "b' \<le> 15 * ha_second"
  using assms by (auto simp: run_pass_def Let_def reset_backoff_def next_backoff_def ha_second_def split: option.splits if_splits)

section \<open>Edges\<close>

text \<open>What happens to the sensors: a state is read for the first time after a subscription, a state is polled, a trigger event
  arrives, a trigger is taken from the channel.\<close>

datatype ha_obs = Seen route_sub string | Polled route_sub string | Raised string string | Taken

definition observe :: "ha_obs \<Rightarrow> listener \<Rightarrow> listener" where
  "observe obs l =
     (case obs of
        Seen r s \<Rightarrow> seed_state (r, Some s) l
      | Polled r s \<Rightarrow> acceptState r s l
      | Raised e s \<Rightarrow> handle_event (e, s) l
      | Taken \<Rightarrow> l\<lparr>triggers := tl (triggers l)\<rparr>)"

text \<open>The entity and the state an observation is about, and the last one in a history.\<close>

definition obs_state :: "route_sub list \<Rightarrow> ha_obs \<Rightarrow> (string \<times> string) option" where
  "obs_state rs obs =
     (case obs of
        Seen r s \<Rightarrow> Some (sub_entity r, to_lower (trim_space s))
      | Polled r s \<Rightarrow> Some (sub_entity r, to_lower (trim_space s))
      | Raised e s \<Rightarrow>
          if equal_fold (trim_space s) ''on'' \<and> (\<exists>r \<in> set rs. sub_entity r = trim_space e) then Some (trim_space e, ''on'') else None
      | Taken \<Rightarrow> None)"

fun last_state :: "route_sub list \<Rightarrow> string \<Rightarrow> ha_obs list \<Rightarrow> string option" where
  "last_state rs e [] = None"
| "last_state rs e (obs # older) =
     (case obs_state rs obs of Some (e', s) \<Rightarrow> if e' = e then Some s else last_state rs e older | None \<Rightarrow> last_state rs e older)"

definition fresh_listener :: "route_sub list \<Rightarrow> nat \<Rightarrow> listener" where
  "fresh_listener rs cap =
     \<lparr>Routes = rs, previous = (\<lambda>_. None), initialized = (\<lambda>_. False), connectedAt = None, triggers = [], trigger_cap = cap,
      connection = False\<rparr>"

text \<open>A history is a list of observations, the latest first.\<close>

abbreviation after :: "route_sub list \<Rightarrow> nat \<Rightarrow> ha_obs list \<Rightarrow> listener" where
  "after rs cap os \<equiv> foldr observe os (fresh_listener rs cap)"

lemma note_fields [simp]:
  "Routes (note_state e s l) = Routes l" "triggers (note_state e s l) = triggers l" "trigger_cap (note_state e s l) = trigger_cap l"
  by (simp_all add: note_state_def)

lemma emit_fields [simp]:
  "Routes (emitTrigger r l) = Routes l" "previous (emitTrigger r l) = previous l" "initialized (emitTrigger r l) = initialized l"
  "trigger_cap (emitTrigger r l) = trigger_cap l"
  by (simp_all add: emitTrigger_def)

lemma find_route: "(\<exists>r \<in> set rs. sub_entity r = e) \<longleftrightarrow> find (\<lambda>r. sub_entity r = e) rs \<noteq> None"
  by (auto simp: find_None_iff)

lemma observe_fields [simp]: "Routes (observe obs l) = Routes l" "trigger_cap (observe obs l) = trigger_cap l"
  by (auto simp: observe_def seed_state_def acceptState_def handle_event_def Let_def split: ha_obs.split option.split)

lemma after_fields [simp]: "Routes (after rs cap os) = rs" "trigger_cap (after rs cap os) = cap"
  by (induction os) (simp_all add: fresh_listener_def)

lemma observe_states:
  "previous (observe obs l) = (case obs_state (Routes l) obs of Some (e, s) \<Rightarrow> (previous l)(e \<mapsto> s) | None \<Rightarrow> previous l)"
  "initialized (observe obs l) = (case obs_state (Routes l) obs of Some (e, s) \<Rightarrow> (initialized l)(e := True) | None \<Rightarrow> initialized l)"
  by (auto simp: observe_def obs_state_def seed_state_def acceptState_def handle_event_def routeForEntity_def note_state_def
      find_route Let_def fun_eq_iff split: ha_obs.split option.split)

lemma after_states:
  "previous (after rs cap os) e = last_state rs e os \<and> initialized (after rs cap os) e = (last_state rs e os \<noteq> None)"
proof (induction os)
  case (Cons obs os)
  show ?case
  proof (cases "obs_state rs obs")
    case None
    then show ?thesis using Cons by (simp add: observe_states)
  next
    case (Some p)
    then show ?thesis using Cons by (cases p; cases "fst p = e") (simp_all add: observe_states)
  qed
qed (simp add: fresh_listener_def)

lemma accept_triggers:
  "triggers (acceptState r s l) =
   (if initialized l (sub_entity r) \<and> previous l (sub_entity r) \<noteq> Some ''on'' \<and> to_lower (trim_space s) = ''on''
    then triggers (emitTrigger r l) else triggers l)"
  by (auto simp: acceptState_def Let_def)

text \<open>The loops of the listener are made of observations.\<close>

lemma poll_round_observes:
  "poll_round results l =
   (fold observe (List.map_filter (\<lambda>(r, state). map_option (Polled r) state) results) l)
     \<lparr>connection := (\<forall>(r, state) \<in> set results. state \<noteq> None)\<rparr>"
proof -
  have "fold (\<lambda>(r, state) l. case state of Some s \<Rightarrow> acceptState r s l | None \<Rightarrow> l) rs l =
    fold observe (List.map_filter (\<lambda>(r, state). map_option (Polled r) state) rs) l" for rs
    by (induction rs arbitrary: l) (auto simp: observe_def split: option.split)
  then show ?thesis by (simp add: poll_round_def)
qed

lemma event_loop_observes: "\<exists>os. snd (event_loop masks codec c l) = fold observe os l"
proof (induction masks codec c l rule: event_loop.induct)
  case (1 masks codec c l)
  obtain r c' where read: "ReadMessage masks c = (r, c')" by fastforce
  show ?case
  proof (cases r)
    case (Inl e)
    then have "snd (event_loop masks codec c l) = fold observe [] l" using read by (simp add: event_loop.simps [of masks codec c])
    then show ?thesis by blast
  next
    case (Inr raw)
    have "\<exists>os. handle_message codec raw l = fold observe os l"
    proof (cases "handle_message codec raw l = l")
      case True
      then show ?thesis by (intro exI [of _ "[]"]) simp
    next
      case False
      then obtain e s where "handle_message codec raw l = handle_event (e, s) l"
        by (auto simp: handle_message_def split: option.splits if_splits)
      then show ?thesis by (intro exI [of _ "[Raised e s]"]) (simp add: observe_def)
    qed
    then obtain os where os: "handle_message codec raw l = fold observe os l" by blast
    obtain os' where "snd (event_loop masks codec c' (handle_message codec raw l)) = fold observe os' (handle_message codec raw l)"
      using "1.IH" [OF read [symmetric] Inr] by blast
    then have "snd (event_loop masks codec c l) = fold observe (os @ os') l"
      using read Inr os by (simp add: event_loop.simps [of masks codec c])
    then show ?thesis by blast
  qed
qed


section \<open>The sensor of the doorbell\<close>

record registry_entity =
  reg_entity :: string
  reg_platform :: string
  reg_key :: "string option"

datatype registry_error =
    Empty_token
  | Registry_session ha_error
  | Registry_decode
  | No_visitor
  | Many_visitors "string list"

definition is_visitor :: "registry_entity \<Rightarrow> bool" where
  "is_visitor e \<longleftrightarrow>
     prefix ''binary_sensor.'' (reg_entity e) \<and> equal_fold (reg_platform e) ''reolink''
     \<and> (case reg_key e of None \<Rightarrow> False | Some k \<Rightarrow> equal_fold (trim_space k) ''visitor'')"

definition visitor_choice :: "registry_entity list \<Rightarrow> registry_error + string" where
  "visitor_choice es =
     (let enabled = sort (map reg_entity (filter is_visitor es)) in
      if length enabled = 1 then Inr (enabled ! 0)
      else if enabled = [] then Inl No_visitor
      else Inl (Many_visitors enabled))"

text \<open>\<open>decode_result\<close> decodes the entities of the answer, \<open>list_request\<close> is the request as JSON.\<close>

definition ResolveReolinkVisitorEntity ::
  "(nat \<Rightarrow> byte list option) \<Rightarrow> ha_codec \<Rightarrow> (byte list \<Rightarrow> registry_entity list option) \<Rightarrow> byte list \<Rightarrow>
   dial_error + ws_conn \<Rightarrow> string \<Rightarrow> registry_error + string" where
  "ResolveReolinkVisitorEntity masks codec decode_result list_request dial token =
     (if trim_space token = [] then Inl Empty_token
      else case ha_bind (case dial of Inl e \<Rightarrow> Inl (Ha_dial e) | Inr c \<Rightarrow> Inr c) (\<lambda>c.
              ha_bind (ha_authenticate masks codec (trim_space token) c) (ha_request masks codec list_request)) of
        Inl e \<Rightarrow> Inl (Registry_session e)
      | Inr (m, _) \<Rightarrow>
          (case decode_result (env_event m) of
             None \<Rightarrow> Inl Registry_decode
           | Some es \<Rightarrow> visitor_choice es))"

lemma visitor_choice_iff: "visitor_choice es = Inr e \<longleftrightarrow> map reg_entity (filter is_visitor es) = [e]"
proof
  assume "visitor_choice es = Inr e"
  then have "length (sort (map reg_entity (filter is_visitor es))) = 1" "sort (map reg_entity (filter is_visitor es)) ! 0 = e"
    by (auto simp: visitor_choice_def Let_def split: if_splits)
  then show "map reg_entity (filter is_visitor es) = [e]"
    by (cases "map reg_entity (filter is_visitor es)") auto
qed (simp add: visitor_choice_def)

section \<open>Properties\<close>

text \<open>C17. A visitor rings once: after any history of polls, first reads after a subscription, WebSocket events and triggers
  taken, a polled state raises a trigger exactly if it is on and the last state known of that sensor, from whichever of
  the two paths, was another one; in particular a sensor seen for the first time, and one whose edge was already
  reported by an event, raises nothing; an event raises a trigger for the route of its sensor, a first read never does;
  a trigger that does not fit into the channel is dropped.\<close>

theorem rings_once:
  fixes rs :: "route_sub list" and cap :: nat and history :: "ha_obs list"
  defines "l \<equiv> foldr observe history (fresh_listener rs cap)"
  shows "triggers (acceptState r s l) =
      triggers l @ (if to_lower (trim_space s) = ''on'' \<and> last_state rs (sub_entity r) history \<notin> {None, Some ''on''}
                      \<and> length (triggers l) < cap then [route_trigger r] else [])
    \<and> triggers (handle_event (e, s) l) =
      triggers l @ (if equal_fold (trim_space s) ''on'' \<and> length (triggers l) < cap
                    then (case find (\<lambda>r. sub_entity r = trim_space e) rs of Some r \<Rightarrow> [route_trigger r] | None \<Rightarrow> []) else [])
    \<and> triggers (seed_state (r, st) l) = triggers l"
proof (intro conjI)
  have st: "previous l (sub_entity r) = last_state rs (sub_entity r) history"
    "initialized l (sub_entity r) = (last_state rs (sub_entity r) history \<noteq> None)"
    using after_states [of history rs cap "sub_entity r"] by (simp_all add: l_def)
  show "triggers (acceptState r s l) =
      triggers l @ (if to_lower (trim_space s) = ''on'' \<and> last_state rs (sub_entity r) history \<notin> {None, Some ''on''}
                      \<and> length (triggers l) < cap then [route_trigger r] else [])"
    unfolding accept_triggers st by (auto simp: emitTrigger_def l_def)
  show "triggers (handle_event (e, s) l) =
      triggers l @ (if equal_fold (trim_space s) ''on'' \<and> length (triggers l) < cap
                    then (case find (\<lambda>r. sub_entity r = trim_space e) rs of Some r \<Rightarrow> [route_trigger r] | None \<Rightarrow> []) else [])"
    by (simp add: handle_event_def routeForEntity_def emitTrigger_def l_def split: option.split)
  show "triggers (seed_state (r, st) l) = triggers l"
    by (simp add: seed_state_def split: option.split)
qed

definition front_door :: route_sub where
  "front_door = \<lparr>sub_route = ''default'', sub_entity = ''binary_sensor.door''\<rparr>"

theorem rings_once_witness:
  "triggers (acceptState front_door ''on'' (foldr observe [Polled front_door ''off''] (fresh_listener [front_door] 1)))
   = [route_trigger front_door]"
  using rings_once [where r = front_door and s = "''on''" and history = "[Polled front_door ''off'']"
      and rs = "[front_door]" and cap = 1, THEN conjunct1]
  by (simp add: observe_def acceptState_def obs_state_def fresh_listener_def note_state_def front_door_def
      trim_space_def trim_left_def is_space_def to_lower_def lower_char_def)

text \<open>The sensor found in the registry is the right one: a session succeeds with an entity only if the token is not empty
  and the answer lists exactly one visitor sensor of the Reolink integration, which is that entity.\<close>

lemma visitor_entity_unique:
  "ResolveReolinkVisitorEntity masks codec decode_result list_request dial token = Inr e \<Longrightarrow>
   trim_space token \<noteq> [] \<and> prefix ''binary_sensor.'' e
   \<and> (\<exists>(m :: envelope) es. decode_result (env_event m) = Some es \<and> env_success m \<and> map reg_entity (filter is_visitor es) = [e])"
proof -
  assume res: "ResolveReolinkVisitorEntity masks codec decode_result list_request dial token = Inr e"
  then obtain c m c' es where req: "ha_request masks codec list_request c = Inr (m, c')" and tok: "trim_space token \<noteq> []"
    and es: "decode_result (env_event m) = Some es" "map reg_entity (filter is_visitor es) = [e]"
    by (auto simp: ResolveReolinkVisitorEntity_def ha_bind_def visitor_choice_iff split: if_splits sum.splits option.splits)
  moreover have "env_success m" using req by (auto simp: ha_request_def ha_bind_def split: sum.splits option.splits if_splits)
  moreover have "prefix ''binary_sensor.'' e"
  proof -
    have "e \<in> set (map reg_entity (filter is_visitor es))" using es(2) by simp
    then show ?thesis by (auto simp: is_visitor_def)
  qed
  ultimately show ?thesis by (intro conjI exI [of _ m] exI [of _ es])
qed

end
