(* ===== verification/Config.thy ===== *)
theory Config
  imports GoStrings
begin

text \<open>
  The configuration: \<^verbatim>\<open>internal/config/config.go\<close>.  Decoding the JSON file is a parameter of \<open>Load\<close>, and so is
  \<open>net.ParseIP\<close>; everything the gateway does with the decoded values, the migration of old options, the
  normalisation, the validation and the resolved routes, is defined here.  An error is a constructor that
  names the option it is about.
\<close>

section \<open>Options\<close>

definition DefaultAECInitialDelayMS :: int where "DefaultAECInitialDelayMS = 1450"
definition DefaultAECSearchWindowMS :: int where "DefaultAECSearchWindowMS = 300"
definition minimumAECSearchWindowMS :: int where "minimumAECSearchWindowMS = 50"
definition maximumAECSearchWindowMS :: int where "maximumAECSearchWindowMS = 1000"
definition MaxSupportedAECDelayMS :: int where "MaxSupportedAECDelayMS = 3000"
definition DefaultRTPInactivitySeconds :: int where "DefaultRTPInactivitySeconds = 15"
definition MaxParallelDestinations :: nat where "MaxParallelDestinations = 3"
definition MaxCallRoutes :: nat where "MaxCallRoutes = 32"

record MobileTarget =
  mt_ID :: string
  mt_Name :: string
  mt_Destination :: string

record CallRoute =
  cr_ID :: string
  cr_Name :: string
  cr_VisitorEntity :: string
  cr_DoorbellNumber :: string
  cr_Mobile1 :: string
  cr_Mobile2 :: string
  cr_Mobile3 :: string
  cr_Legacy1 :: string
  cr_Legacy2 :: string
  cr_Legacy3 :: string

definition mobile_fields :: "CallRoute \<Rightarrow> string list" where
  "mobile_fields r = [cr_Mobile1 r, cr_Mobile2 r, cr_Mobile3 r]"

definition MobileNumbers :: "CallRoute \<Rightarrow> string list" where
  "MobileNumbers r = filter (\<lambda>v. v \<noteq> []) (map trim_space (mobile_fields r))"

record ResolvedCallRoute =
  rr_ID :: string
  rr_Name :: string
  rr_VisitorEntity :: string
  rr_DoorbellNumber :: string
  rr_MobileTargets :: "MobileTarget list"

text \<open>The options in three groups: the ones that only old versions wrote, the ones of the form, and the values that are
  resolved at run time.\<close>

record LegacyOptions =
  VisitorEntity :: string
  SIPDestination :: string
  ParallelDestinations :: "string list"
  MobileTargets :: "MobileTarget list"

record Options = LegacyOptions +
  ReolinkHost :: string
  ReolinkRTSPPort :: int
  ReolinkStreamPath :: string
  ReolinkUsername :: string
  ReolinkPassword :: string
  ReolinkMode :: string
  BaichuanPort :: int
  NVRChannel :: int
  FritzFonLiveImageEnabled :: bool
  EchoCancellationEnabled :: bool
  EchoCancellationSearchWindowMS :: int
  WebRTCHighPassFilterEnabled :: bool
  WebRTCNoiseSuppressionEnabled :: bool
  SIPRegistrar :: string
  SIPRegistrarPort :: int
  SIPUsername :: string
  SIPPassword :: string
  SIPLocalPort :: int
  SIPDisplayName :: string
  SIPCodecPreference :: string
  DoorCallEnabled :: bool
  ParallelCallEnabled :: bool
  ParallelUsername :: string
  ParallelPassword :: string
  ParallelLocalPort :: int
  CallRoutes :: "CallRoute list"
  IncomingCallsEnabled :: bool
  IncomingAllowedCallers :: "string list"
  IncomingConnectionToneEnabled :: bool
  RTPInactivityTimeoutSeconds :: int
  RingTimeoutSeconds :: int
  MaxCallDurationSeconds :: int
  DebounceSeconds :: int
  LogLevel :: string
  DryRun :: bool

record Config = Options +
  StatusPort :: int
  ResolvedReolinkMode :: string
  AECInitialDelayMS :: int
  AECMinDelayMS :: int
  AECMaxDelayMS :: int
  FFmpegBinaryPath :: string

definition SetAECDelay :: "int \<Rightarrow> Config \<Rightarrow> Config" where
  "SetAECDelay delayMS c =
     (let delayMS = (if delayMS < 0 then 0 else delayMS);
          delayMS = (if MaxSupportedAECDelayMS < delayMS then MaxSupportedAECDelayMS else delayMS);
          window = EchoCancellationSearchWindowMS c;
          window = (if window \<le> 0 then DefaultAECSearchWindowMS else window);
          lo = delayMS - window;
          hi = delayMS + window
      in c\<lparr>AECInitialDelayMS := delayMS,
           AECMinDelayMS := (if lo < 0 then 0 else lo),
           AECMaxDelayMS := (if MaxSupportedAECDelayMS < hi then MaxSupportedAECDelayMS else hi)\<rparr>)"

definition default_route :: CallRoute where
  "default_route =
     \<lparr>cr_ID = ''default'', cr_Name = ''Standardroute'', cr_VisitorEntity = ''binary_sensor.reolink_video_doorbell_visitor'',
      cr_DoorbellNumber = ''11'', cr_Mobile1 = [], cr_Mobile2 = [], cr_Mobile3 = [],
      cr_Legacy1 = [], cr_Legacy2 = [], cr_Legacy3 = []\<rparr>"

definition Defaults :: Config where
  "Defaults = SetAECDelay DefaultAECInitialDelayMS
     \<lparr>VisitorEntity = [], SIPDestination = [], ParallelDestinations = [], MobileTargets = [],
      ReolinkHost = ''192.168.177.50'', ReolinkRTSPPort = 554, ReolinkStreamPath = ''/Preview_01_sub'',
      ReolinkUsername = ''admin'', ReolinkPassword = [], ReolinkMode = ''auto'', BaichuanPort = 9000, NVRChannel = 1,
      FritzFonLiveImageEnabled = True, EchoCancellationEnabled = True,
      EchoCancellationSearchWindowMS = DefaultAECSearchWindowMS,
      WebRTCHighPassFilterEnabled = True, WebRTCNoiseSuppressionEnabled = True,
      SIPRegistrar = ''192.168.177.9'', SIPRegistrarPort = 5060, SIPUsername = [], SIPPassword = [], SIPLocalPort = 5070,
      SIPDisplayName = ''Haust'' @ [CHR 0xC3, CHR 0xBC] @ ''r'', SIPCodecPreference = ''pcma'',
      DoorCallEnabled = True, ParallelCallEnabled = False, ParallelUsername = [], ParallelPassword = [],
      ParallelLocalPort = 5071, CallRoutes = [default_route], IncomingCallsEnabled = False,
      IncomingAllowedCallers = [''*''], IncomingConnectionToneEnabled = True,
      RTPInactivityTimeoutSeconds = DefaultRTPInactivitySeconds, RingTimeoutSeconds = 30, MaxCallDurationSeconds = 300,
      DebounceSeconds = 3, LogLevel = ''info'', DryRun = True,
      StatusPort = 18099, ResolvedReolinkMode = [], AECInitialDelayMS = 0, AECMinDelayMS = 0, AECMaxDelayMS = 0,
      FFmpegBinaryPath = []\<rparr>"

section \<open>Errors and checks of single values\<close>

datatype config_error =
    Required string
  | Out_of_range string
  | Not_allowed string
  | Has_line_break string
  | Too_long string
  | Not_a_host string
  | Not_a_path string
  | Same_port
  | No_account
  | Callers_missing
  | Caller_empty
  | Wildcard_not_alone
  | No_routes
  | Too_many_routes
  | Bad_route_id nat
  | Duplicate_route_id string
  | Bad_entity nat
  | Duplicate_entity string string
  | Duplicate_doorbell string string
  | Duplicate_mobile nat
  | Route_without_number nat
  | Route_without_path nat
  | No_door_route
  | No_mobile_route

definition check :: "bool \<Rightarrow> config_error \<Rightarrow> config_error list" where
  "check bad e = (if bad then [e] else [])"

definition contains_any :: "string \<Rightarrow> string \<Rightarrow> bool" where
  "contains_any s cs \<longleftrightarrow> (\<exists>c \<in> set s. c \<in> set cs)"

definition line_break :: "string \<Rightarrow> bool" where
  "line_break s = contains_any s [CR, LF]"

definition validateRoutingName :: "string \<Rightarrow> string \<Rightarrow> config_error option" where
  "validateRoutingName name v =
     (if v = [] then Some (Required name)
      else if 64 < length v then Some (Too_long name)
      else if line_break v then Some (Has_line_break name)
      else None)"

definition validateRoutingDestination :: "string \<Rightarrow> string \<Rightarrow> bool \<Rightarrow> config_error option" where
  "validateRoutingDestination name v optional =
     (if v = [] then (if optional then None else Some (Required name))
      else if 128 < length v then Some (Too_long name)
      else if line_break v then Some (Has_line_break name)
      else None)"

definition lower_letter :: "char \<Rightarrow> bool" where
  "lower_letter c \<longleftrightarrow> 97 \<le> (of_char c :: nat) \<and> (of_char c :: nat) \<le> 122"

definition id_char :: "char \<Rightarrow> bool" where
  "id_char c \<longleftrightarrow> lower_letter c \<or> is_digit c \<or> c = CHR ''_''"

definition validRoutingID :: "string \<Rightarrow> bool" where
  "validRoutingID v \<longleftrightarrow> v \<noteq> [] \<and> length v \<le> 64 \<and> lower_letter (hd v) \<and> list_all id_char (tl v)"

definition validBinarySensorEntityID :: "string \<Rightarrow> bool" where
  "validBinarySensorEntityID v \<longleftrightarrow>
     (let p = ''binary_sensor.'' in prefix p v \<and> length v \<noteq> length p \<and> list_all id_char (drop (length p) v))"

definition canonicalRoutingDestination :: "string \<Rightarrow> string" where
  "canonicalRoutingDestination v =
     filter (\<lambda>c. c \<notin> set ('' -./()'' @ [CHR 0x09])) (to_lower (trim_space v))"

text \<open>\<open>parse_ip\<close> is \<open>net.ParseIP\<close>: nothing for a string that is no address, else whether the address has a four-byte form.\<close>

definition validateHost :: "(string \<Rightarrow> bool option) \<Rightarrow> string \<Rightarrow> string \<Rightarrow> config_error option" where
  "validateHost parse_ip name value =
     (let v = trim_space value in
      if v = [] then Some (Required name)
      else if cut ''://'' v \<noteq> None \<or> contains_any v ''/?#'' then Some (Not_a_host name)
      else if contains_any v ('' '' @ [CHR 0x09, CR, LF]) then Some (Not_a_host name)
      else if parse_ip v = None \<and> CHR '':'' \<in> set v then Some (Not_a_host name)
      else None)"

definition errors :: "config_error option \<Rightarrow> config_error list" where
  "errors e = (case e of None \<Rightarrow> [] | Some e \<Rightarrow> [e])"


section \<open>Validating the routes\<close>

record route_scan =
  routeIDs :: "string set"
  entities :: "string \<rightharpoonup> string"
  doorbellNumbers :: "string \<rightharpoonup> string"
  doorRoutes :: nat
  mobileRoutes :: nat

definition route_label :: "nat \<Rightarrow> string" where
  "route_label i = ''call_routes['' @ show_nat i @ '']''"

text \<open>The mobile numbers of one route: the canonical forms seen so far and the errors.\<close>

definition mobile_step :: "nat \<Rightarrow> string set \<Rightarrow> nat \<times> string \<Rightarrow> string set \<times> config_error list" where
  "mobile_step i seen = (\<lambda>(n, destination).
     let destination = trim_space destination in
     if destination = [] then (seen, [])
     else case validateRoutingDestination (route_label i @ ''.mobile_number_'' @ show_nat (n + 1)) destination False of
       Some e \<Rightarrow> (seen, [e])
     | None \<Rightarrow>
         let canonical = canonicalRoutingDestination destination in
         if canonical \<in> seen then (seen, [Duplicate_mobile i]) else (insert canonical seen, []))"

definition route_step :: "Config \<Rightarrow> route_scan \<Rightarrow> nat \<times> CallRoute \<Rightarrow> route_scan \<times> config_error list" where
  "route_step c s = (\<lambda>(i, r).
     let rid = trim_space (cr_ID r); entity = trim_space (cr_VisitorEntity r); doorbell = trim_space (cr_DoorbellNumber r);
         numbers = MobileNumbers r; label = route_label i;
         e_id = (if \<not> validRoutingID rid then [Bad_route_id i]
                 else if rid \<in> routeIDs s then [Duplicate_route_id rid] else []);
         s1 = (if e_id = [] then s\<lparr>routeIDs := insert rid (routeIDs s)\<rparr> else s);
         e_name = errors (validateRoutingName (label @ ''.name'') (trim_space (cr_Name r)));
         e_entity = (if \<not> validBinarySensorEntityID entity then [Bad_entity i]
                     else case entities s entity of Some p \<Rightarrow> [Duplicate_entity p rid] | None \<Rightarrow> []);
         s2 = (if e_entity = [] then s1\<lparr>entities := (entities s)(entity \<mapsto> rid)\<rparr> else s1);
         canonical = canonicalRoutingDestination doorbell;
         e_door = (if doorbell = [] then []
                   else case validateRoutingDestination (label @ ''.doorbell_number'') doorbell True of
                     Some e \<Rightarrow> [e]
                   | None \<Rightarrow> (case doorbellNumbers s canonical of Some p \<Rightarrow> [Duplicate_doorbell p rid] | None \<Rightarrow> []));
         s3 = (if doorbell = [] then s2
               else s2\<lparr>doorRoutes := doorRoutes s + 1,
                       doorbellNumbers := (if e_door = [] then (doorbellNumbers s)(canonical \<mapsto> rid) else doorbellNumbers s)\<rparr>);
         s4 = (if numbers \<noteq> [] then s3\<lparr>mobileRoutes := mobileRoutes s + 1\<rparr> else s3);
         e_mobile = concat (snd (scan (mobile_step i) {} (enumerate 0 (mobile_fields r))))
     in (s4, e_id @ e_name @ e_entity @ e_door @ e_mobile
             @ check (doorbell = [] \<and> numbers = []) (Route_without_number i)
             @ check (\<not> DryRun c \<and> \<not> (DoorCallEnabled c \<and> doorbell \<noteq> []) \<and> \<not> (ParallelCallEnabled c \<and> numbers \<noteq> []))
                 (Route_without_path i)))"

definition scan_init :: route_scan where
  "scan_init = \<lparr>routeIDs = {}, entities = (\<lambda>_. None), doorbellNumbers = (\<lambda>_. None), doorRoutes = 0, mobileRoutes = 0\<rparr>"

definition validateRouting :: "Config \<Rightarrow> config_error list" where
  "validateRouting c =
     (if CallRoutes c = [] then [No_routes]
      else
        let (s, errs) = scan (route_step c) scan_init (enumerate 0 (CallRoutes c)) in
        check (MaxCallRoutes < length (CallRoutes c)) Too_many_routes
        @ concat errs
        @ check (DoorCallEnabled c \<and> doorRoutes s = 0) No_door_route
        @ check (ParallelCallEnabled c \<and> mobileRoutes s = 0) No_mobile_route)"

section \<open>Validating everything\<close>

definition port_error :: "string \<Rightarrow> int \<Rightarrow> config_error list" where
  "port_error name p = check (p < 1 \<or> 65535 < p) (Out_of_range name)"

definition range_error :: "string \<Rightarrow> int \<Rightarrow> int \<Rightarrow> int \<Rightarrow> config_error list" where
  "range_error name lo hi v = check (v < lo \<or> hi < v) (Out_of_range name)"

definition blank_error :: "string \<Rightarrow> string \<Rightarrow> config_error list" where
  "blank_error name v = check (trim_space v = []) (Required name)"

definition validate_camera :: "(string \<Rightarrow> bool option) \<Rightarrow> Config \<Rightarrow> config_error list" where
  "validate_camera parse_ip c =
     errors (validateHost parse_ip ''reolink_host'' (ReolinkHost c))
     @ port_error ''reolink_rtsp_port'' (ReolinkRTSPPort c)
     @ port_error ''baichuan_port'' (BaichuanPort c)
     @ range_error ''nvr_channel'' 0 255 (NVRChannel c)
     @ check (ReolinkMode c \<notin> {''auto'', ''nvr'', ''standalone''}) (Not_allowed ''reolink_mode'')
     @ range_error ''echo_cancellation_search_window_ms'' minimumAECSearchWindowMS maximumAECSearchWindowMS
         (EchoCancellationSearchWindowMS c)
     @ (if DryRun c then []
        else blank_error ''reolink_username'' (ReolinkUsername c) @ blank_error ''reolink_password'' (ReolinkPassword c))
     @ concat (map (\<lambda>(name, v). check (line_break v) (Has_line_break name))
         [(''reolink_stream_path'', ReolinkStreamPath c), (''reolink_username'', ReolinkUsername c),
          (''sip_username'', SIPUsername c), (''sip_display_name'', SIPDisplayName c), (''parallel_username'', ParallelUsername c)])"

definition validate_sip :: "(string \<Rightarrow> bool option) \<Rightarrow> Config \<Rightarrow> config_error list" where
  "validate_sip parse_ip c =
     (case validateHost parse_ip ''sip_registrar'' (SIPRegistrar c) of
        Some e \<Rightarrow> [e]
      | None \<Rightarrow> check (parse_ip (trim_space (SIPRegistrar c)) = Some False) (Not_allowed ''sip_registrar''))
     @ port_error ''sip_registrar_port'' (SIPRegistrarPort c)
     @ (if DoorCallEnabled c \<and> \<not> DryRun c
        then blank_error ''sip_username'' (SIPUsername c) @ blank_error ''sip_password'' (SIPPassword c) else [])
     @ port_error ''sip_local_port'' (SIPLocalPort c)
     @ check (SIPCodecPreference c \<notin> {''pcma'', ''pcmu'', ''auto''}) (Not_allowed ''sip_codec_preference'')
     @ port_error ''parallel_local_port'' (ParallelLocalPort c)
     @ (if ParallelCallEnabled c
        then check (DoorCallEnabled c \<and> ParallelLocalPort c = SIPLocalPort c) Same_port
          @ (if DryRun c then []
             else blank_error ''parallel_username'' (ParallelUsername c) @ blank_error ''parallel_password'' (ParallelPassword c))
        else [])
     @ check (\<not> DryRun c \<and> \<not> DoorCallEnabled c \<and> \<not> ParallelCallEnabled c) No_account"

definition caller_errors :: "string \<Rightarrow> config_error list" where
  "caller_errors caller =
     (let caller = trim_space caller in
      if caller = [] then [Caller_empty]
      else check (line_break caller) (Has_line_break ''incoming_allowed_callers'')
        @ check (128 < length caller) (Too_long ''incoming_allowed_callers''))"

definition validate_callers :: "Config \<Rightarrow> config_error list" where
  "validate_callers c =
     check (IncomingCallsEnabled c \<and> IncomingAllowedCallers c = []) Callers_missing
     @ concat (map caller_errors (IncomingAllowedCallers c))
     @ check ((\<exists>caller \<in> set (IncomingAllowedCallers c). trim_space caller = ''*'') \<and> 1 < length (IncomingAllowedCallers c))
         Wildcard_not_alone"

definition validate_rest :: "Config \<Rightarrow> config_error list" where
  "validate_rest c =
     range_error ''rtp_inactivity_timeout_seconds'' 5 120 (RTPInactivityTimeoutSeconds c)
     @ range_error ''ring_timeout_seconds'' 5 180 (RingTimeoutSeconds c)
     @ range_error ''max_call_duration_seconds'' 15 3600 (MaxCallDurationSeconds c)
     @ range_error ''debounce_seconds'' 0 60 (DebounceSeconds c)
     @ port_error ''status_port'' (StatusPort c)
     @ (if trim_space (ReolinkStreamPath c) = [] then [Required ''reolink_stream_path'']
        else check (\<not> prefix ''/'' (ReolinkStreamPath c) \<or> contains_any (ReolinkStreamPath c) ''?#'') (Not_a_path ''reolink_stream_path''))
     @ check (LogLevel c \<notin> {''debug'', ''info'', ''warn'', ''warning'', ''error''}) (Not_allowed ''log_level'')"

definition Validate :: "(string \<Rightarrow> bool option) \<Rightarrow> Config \<Rightarrow> config_error list" where
  "Validate parse_ip c =
     validate_camera parse_ip c @ validate_sip parse_ip c @ validateRouting c @ validate_callers c @ validate_rest c"

section \<open>Loading\<close>

definition normalizeListEntries :: "string list \<Rightarrow> string list" where
  "normalizeListEntries values =
     rev (foldl (\<lambda>result v. let v = trim_space v in if v = [] \<or> v \<in> set result then result else v # result) [] values)"

definition migrate_number :: "(string \<rightharpoonup> string) \<Rightarrow> string \<Rightarrow> string \<Rightarrow> string" where
  "migrate_number targets number ref =
     (if trim_space number \<noteq> [] \<or> trim_space ref = [] then number
      else case targets (trim_space ref) of
        Some destination \<Rightarrow> if destination \<noteq> [] then destination else trim_space ref
      | None \<Rightarrow> trim_space ref)"

definition migrate_route :: "(string \<rightharpoonup> string) \<Rightarrow> CallRoute \<Rightarrow> CallRoute" where
  "migrate_route targets r =
     r\<lparr>cr_Mobile1 := migrate_number targets (cr_Mobile1 r) (cr_Legacy1 r),
       cr_Mobile2 := migrate_number targets (cr_Mobile2 r) (cr_Legacy2 r),
       cr_Mobile3 := migrate_number targets (cr_Mobile3 r) (cr_Legacy3 r),
       cr_Legacy1 := [], cr_Legacy2 := [], cr_Legacy3 := []\<rparr>"

definition legacy_targets :: "MobileTarget list \<Rightarrow> string \<rightharpoonup> string" where
  "legacy_targets ts =
     foldl (\<lambda>m t. let i = trim_space (mt_ID t) in if i \<noteq> [] then m(i \<mapsto> trim_space (mt_Destination t)) else m) (\<lambda>_. None) ts"

text \<open>\<open>raw\<close> says which keys the file has.\<close>

definition legacy_route :: "(string \<Rightarrow> bool) \<Rightarrow> Config \<Rightarrow> CallRoute" where
  "legacy_route raw c =
     (let r = default_route;
          r = (if raw ''visitor_entity'' then r\<lparr>cr_VisitorEntity := trim_space (VisitorEntity c)\<rparr> else r);
          r = (if raw ''sip_destination'' then r\<lparr>cr_DoorbellNumber := trim_space (SIPDestination c)\<rparr> else r)
      in case take MaxParallelDestinations (ParallelDestinations c) of
           [] \<Rightarrow> r
         | [a] \<Rightarrow> r\<lparr>cr_Mobile1 := a\<rparr>
         | [a, b] \<Rightarrow> r\<lparr>cr_Mobile1 := a, cr_Mobile2 := b\<rparr>
         | a # b # d # _ \<Rightarrow> r\<lparr>cr_Mobile1 := a, cr_Mobile2 := b, cr_Mobile3 := d\<rparr>)"

definition migrateLegacyRouting :: "(string \<Rightarrow> bool) \<Rightarrow> Config \<Rightarrow> Config" where
  "migrateLegacyRouting raw c =
     (let routes = (if \<not> raw ''call_routes'' \<or> CallRoutes c = [] then [legacy_route raw c] else CallRoutes c)
      in c\<lparr>CallRoutes := map (migrate_route (legacy_targets (MobileTargets c))) routes,
           VisitorEntity := [], SIPDestination := [], ParallelDestinations := [], MobileTargets := []\<rparr>)"

definition normalize_route :: "CallRoute \<Rightarrow> CallRoute" where
  "normalize_route r =
     r\<lparr>cr_ID := trim_space (cr_ID r), cr_Name := trim_space (cr_Name r), cr_VisitorEntity := trim_space (cr_VisitorEntity r),
       cr_DoorbellNumber := trim_space (cr_DoorbellNumber r), cr_Mobile1 := trim_space (cr_Mobile1 r),
       cr_Mobile2 := trim_space (cr_Mobile2 r), cr_Mobile3 := trim_space (cr_Mobile3 r)\<rparr>"

definition normalizeRouting :: "Config \<Rightarrow> Config" where
  "normalizeRouting c = c\<lparr>CallRoutes := map normalize_route (CallRoutes c)\<rparr>"

text \<open>What decoding a file gives: the keys it has, the options on top of the defaults, and the two options that were renamed.\<close>

record decoded =
  d_raw :: "string \<Rightarrow> bool"
  d_config :: Config
  d_ConnectionMode :: "string option"
  d_BaichuanChannel :: "int option"

definition renamed_options :: "decoded \<Rightarrow> Config" where
  "renamed_options d =
     (let c = d_config d;
          c = (case d_ConnectionMode d of
                 None \<Rightarrow> c
               | Some m \<Rightarrow>
                   let m = to_lower (trim_space m) in
                   if \<not> d_raw d ''reolink_mode'' \<or> (ReolinkMode c = ''auto'' \<and> m \<noteq> ''auto'') then c\<lparr>ReolinkMode := m\<rparr> else c)
      in case d_BaichuanChannel d of
           None \<Rightarrow> c
         | Some n \<Rightarrow>
             if \<not> d_raw d ''nvr_channel'' \<or> (NVRChannel c = NVRChannel Defaults \<and> n \<noteq> NVRChannel Defaults)
             then c\<lparr>NVRChannel := n\<rparr> else c)"

definition normalize_options :: "Config \<Rightarrow> Config" where
  "normalize_options c =
     (let path = trim_space (ReolinkStreamPath c)
      in c\<lparr>ReolinkStreamPath := (if path \<noteq> [] \<and> \<not> prefix ''/'' path then ''/'' @ path else path),
           ReolinkMode := to_lower (trim_space (ReolinkMode c)),
           SIPCodecPreference := to_lower (trim_space (SIPCodecPreference c)),
           ParallelDestinations := normalizeListEntries (ParallelDestinations c)\<rparr>)"

definition finish_options :: "Config \<Rightarrow> Config" where
  "finish_options c =
     SetAECDelay DefaultAECInitialDelayMS
       (c\<lparr>IncomingAllowedCallers := normalizeListEntries (IncomingAllowedCallers c),
          LogLevel := to_lower (trim_space (LogLevel c)),
          StatusPort := 18099\<rparr>)"

datatype load_error = Read_config | Decode_config | Invalid_config "config_error list"

text \<open>The configuration is returned also when it is invalid.  The two decoders get the defaults to fill in.\<close>

definition loaded :: "decoded \<Rightarrow> Config" where
  "loaded d = finish_options (normalizeRouting (migrateLegacyRouting (d_raw d) (normalize_options (renamed_options d))))"

definition Load ::
  "(string \<Rightarrow> bool option) \<Rightarrow> (string \<Rightarrow> byte list option) \<Rightarrow> (Config \<Rightarrow> byte list \<Rightarrow> decoded option) \<Rightarrow> string
   \<Rightarrow> Config \<times> load_error option" where
  "Load parse_ip read_file decode path =
     (case read_file path of
        None \<Rightarrow> (Defaults, Some Read_config)
      | Some b \<Rightarrow>
          (case decode Defaults b of
             None \<Rightarrow> (Defaults, Some Decode_config)
           | Some d \<Rightarrow>
               let c = loaded d; es = Validate parse_ip c
               in (c, if es = [] then None else Some (Invalid_config es))))"


section \<open>What the rest of the gateway asks\<close>

definition mobile_target :: "nat \<Rightarrow> string \<Rightarrow> MobileTarget" where
  "mobile_target i destination =
     \<lparr>mt_ID = show_nat (i + 1), mt_Name = ''Mobilziel '' @ show_nat (i + 1), mt_Destination = destination\<rparr>"

definition resolve_route :: "CallRoute \<Rightarrow> ResolvedCallRoute" where
  "resolve_route r =
     \<lparr>rr_ID = trim_space (cr_ID r), rr_Name = trim_space (cr_Name r), rr_VisitorEntity = trim_space (cr_VisitorEntity r),
      rr_DoorbellNumber = trim_space (cr_DoorbellNumber r),
      rr_MobileTargets = map (\<lambda>(i, d). mobile_target i d) (enumerate 0 (MobileNumbers r))\<rparr>"

definition ResolvedCallRoutes :: "Config \<Rightarrow> ResolvedCallRoute list" where
  "ResolvedCallRoutes c = map resolve_route (CallRoutes c)"

definition FindCallRoute :: "Config \<Rightarrow> string \<Rightarrow> ResolvedCallRoute option" where
  "FindCallRoute c i = find (\<lambda>r. rr_ID r = trim_space i) (ResolvedCallRoutes c)"

definition MaxMobileTargetsPerRoute :: "Config \<Rightarrow> nat" where
  "MaxMobileTargetsPerRoute c = foldl (\<lambda>m r. max m (length (rr_MobileTargets r))) 0 (ResolvedCallRoutes c)"

definition EffectiveReolinkMode :: "Config \<Rightarrow> string" where
  "EffectiveReolinkMode c = (if ResolvedReolinkMode c \<noteq> [] then ResolvedReolinkMode c else ReolinkMode c)"

definition ReceiveMode :: "Config \<Rightarrow> string" where
  "ReceiveMode c = (if EffectiveReolinkMode c = ''nvr'' then ''baichuan'' else ''rtsp'')"

definition WithResolvedReolinkMode :: "string \<Rightarrow> Config \<Rightarrow> Config" where
  "WithResolvedReolinkMode m c = c\<lparr>ResolvedReolinkMode := to_lower (trim_space m)\<rparr>"

text \<open>The durations are in nanoseconds.\<close>

definition seconds :: "int \<Rightarrow> int" where "seconds n = n * 1000000000"

definition HAPollInterval :: "Config \<Rightarrow> int" where "HAPollInterval c = seconds 1"
definition RingTimeout :: "Config \<Rightarrow> int" where "RingTimeout c = seconds (RingTimeoutSeconds c)"
definition MaxCallDuration :: "Config \<Rightarrow> int" where "MaxCallDuration c = seconds (MaxCallDurationSeconds c)"
definition Debounce :: "Config \<Rightarrow> int" where "Debounce c = seconds (DebounceSeconds c)"
definition RTPInactivityTimeout :: "Config \<Rightarrow> int" where
  "RTPInactivityTimeout c = seconds (RTPInactivityTimeoutSeconds c)"

definition FFmpegPath :: "Config \<Rightarrow> string" where
  "FFmpegPath c = (let p = trim_space (FFmpegBinaryPath c) in if p \<noteq> [] then p else ''/usr/bin/ffmpeg'')"

definition DebugEnabled :: "Config \<Rightarrow> bool" where "DebugEnabled c \<longleftrightarrow> LogLevel c = ''debug''"

text \<open>The URL of the camera stream.\<close>

definition RTSPURL :: "Config \<Rightarrow> string" where
  "RTSPURL c = ''rtsp://'' @ join_host_port (ReolinkHost c) (show_int (ReolinkRTSPPort c)) @ ReolinkStreamPath c"

end
