(* ===== verification/Routing.thy ===== *)
theory Routing
  imports Config
begin

text \<open>
  What the configuration guarantees: the validation of the routes is equivalent to a declarative condition, the migration
  of old options loses no number and is stable, a valid configuration resolves every route by its id.
\<close>

section \<open>What a valid set of routes is\<close>

definition route_id :: "CallRoute \<Rightarrow> string" where "route_id r = trim_space (cr_ID r)"
definition route_entity :: "CallRoute \<Rightarrow> string" where "route_entity r = trim_space (cr_VisitorEntity r)"
definition route_doorbell :: "CallRoute \<Rightarrow> string" where "route_doorbell r = trim_space (cr_DoorbellNumber r)"

definition destination_ok :: "string \<Rightarrow> bool" where
  "destination_ok v \<longleftrightarrow> length v \<le> 128 \<and> \<not> line_break v"

definition name_ok :: "string \<Rightarrow> bool" where
  "name_ok v \<longleftrightarrow> v \<noteq> [] \<and> length v \<le> 64 \<and> \<not> line_break v"

definition route_ok :: "Config \<Rightarrow> CallRoute \<Rightarrow> bool" where
  "route_ok c r \<longleftrightarrow>
     validRoutingID (route_id r) \<and> name_ok (trim_space (cr_Name r)) \<and> validBinarySensorEntityID (route_entity r)
     \<and> destination_ok (route_doorbell r)
     \<and> (\<forall>d \<in> set (MobileNumbers r). destination_ok d)
     \<and> distinct (map canonicalRoutingDestination (MobileNumbers r))
     \<and> (route_doorbell r \<noteq> [] \<or> MobileNumbers r \<noteq> [])
     \<and> (DryRun c \<or> (DoorCallEnabled c \<and> route_doorbell r \<noteq> []) \<or> (ParallelCallEnabled c \<and> MobileNumbers r \<noteq> []))"

text \<open>The doorbell numbers in use, in the form in which they are compared.\<close>

definition doorbells :: "CallRoute list \<Rightarrow> string list" where
  "doorbells rs = map canonicalRoutingDestination (filter (\<lambda>d. d \<noteq> []) (map route_doorbell rs))"

definition routing_ok :: "Config \<Rightarrow> bool" where
  "routing_ok c \<longleftrightarrow>
     CallRoutes c \<noteq> [] \<and> length (CallRoutes c) \<le> MaxCallRoutes
     \<and> (\<forall>r \<in> set (CallRoutes c). route_ok c r)
     \<and> distinct (map route_id (CallRoutes c)) \<and> distinct (map route_entity (CallRoutes c)) \<and> distinct (doorbells (CallRoutes c))
     \<and> (DoorCallEnabled c \<longrightarrow> (\<exists>r \<in> set (CallRoutes c). route_doorbell r \<noteq> []))
     \<and> (ParallelCallEnabled c \<longrightarrow> (\<exists>r \<in> set (CallRoutes c). MobileNumbers r \<noteq> []))"

section \<open>One route\<close>

lemma check_Nil [simp]: "check b e = [] \<longleftrightarrow> \<not> b"
  by (simp add: check_def)

lemma errors_Nil [simp]: "errors e = [] \<longleftrightarrow> e = None"
  by (cases e) (simp_all add: errors_def)

lemma name_None: "validateRoutingName n v = None \<longleftrightarrow> name_ok v"
  by (auto simp: validateRoutingName_def name_ok_def)

lemma destination_None: "v \<noteq> [] \<Longrightarrow> validateRoutingDestination n v optional = None \<longleftrightarrow> destination_ok v"
  by (auto simp: validateRoutingDestination_def destination_ok_def)

lemma destination_ok_Nil [simp]: "destination_ok []"
  by (simp add: destination_ok_def line_break_def contains_any_def)

text \<open>Scanning a list reports no error exactly if no step does.\<close>

lemma scan_Cons_concat: "concat (snd (scan f s (x # xs))) = [] \<longleftrightarrow> snd (f s x) = [] \<and> concat (snd (scan f (fst (f s x)) xs)) = []"
  by (simp add: Let_def case_prod_unfold)

lemma enumerate_Cons: "enumerate k (x # xs) = (k, x) # enumerate (k + 1) xs"
  by simp

lemma mobile_scan:
  fixes fs :: "string list"
  defines "ds \<equiv> \<lambda>fs. filter (\<lambda>v. v \<noteq> []) (map trim_space fs)"
  shows "concat (snd (scan (mobile_step i) seen (enumerate k fs))) = [] \<longleftrightarrow>
    (\<forall>d \<in> set (ds fs). destination_ok d) \<and> distinct (map canonicalRoutingDestination (ds fs))
    \<and> canonicalRoutingDestination ` set (ds fs) \<inter> seen = {}"
proof (induction fs arbitrary: seen k)
  case (Cons f fs)
  let ?d = "trim_space f" and ?c = "canonicalRoutingDestination (trim_space f)"
  show ?case
  proof (cases "?d = []")
    case True
    then have "mobile_step i seen (k, f) = (seen, [])" "ds (f # fs) = ds fs" by (simp_all add: mobile_step_def ds_def)
    then show ?thesis unfolding enumerate_Cons scan_Cons_concat using Cons [of seen "k + 1"] by simp
  next
    case False
    have ds: "ds (f # fs) = ?d # ds fs" using False by (simp add: ds_def)
    have step: "mobile_step i seen (k, f) =
      (if destination_ok ?d \<and> ?c \<notin> seen then (insert ?c seen, []) else (seen, snd (mobile_step i seen (k, f))))"
      "snd (mobile_step i seen (k, f)) = [] \<longleftrightarrow> destination_ok ?d \<and> ?c \<notin> seen"
      using False destination_None [OF False] by (auto simp: mobile_step_def Let_def split: option.split)
    show ?thesis
    proof (cases "destination_ok ?d \<and> ?c \<notin> seen")
      case True
      then have "mobile_step i seen (k, f) = (insert ?c seen, [])" using step(1) by simp
      then show ?thesis unfolding enumerate_Cons scan_Cons_concat ds using Cons [of "insert ?c seen" "k + 1"] True by auto
    next
      case False
      then show ?thesis unfolding enumerate_Cons scan_Cons_concat ds using step(2) by auto
    qed
  qed
qed (simp add: ds_def)

lemma mobile_scan_route:
  "concat (snd (scan (mobile_step i) {} (enumerate 0 (mobile_fields r)))) = [] \<longleftrightarrow>
   (\<forall>d \<in> set (MobileNumbers r). destination_ok d) \<and> distinct (map canonicalRoutingDestination (MobileNumbers r))"
  unfolding mobile_scan by (simp add: MobileNumbers_def)

text \<open>A step reports nothing exactly if the route is fine and clashes with none of the routes before; then it records it.\<close>

definition fits :: "route_scan \<Rightarrow> CallRoute \<Rightarrow> bool" where
  "fits s r \<longleftrightarrow> route_id r \<notin> routeIDs s \<and> entities s (route_entity r) = None
     \<and> (route_doorbell r \<noteq> [] \<longrightarrow> doorbellNumbers s (canonicalRoutingDestination (route_doorbell r)) = None)"

lemma step_errors: "snd (route_step c s (i, r)) = [] \<longleftrightarrow> route_ok c r \<and> fits s r"
proof (cases "route_doorbell r = []")
  case True
  then show ?thesis
    unfolding route_step_def Let_def prod.case snd_conv append_is_Nil_conv check_Nil errors_Nil mobile_scan_route name_None
    by (auto simp: route_ok_def fits_def route_id_def route_entity_def route_doorbell_def split: option.splits if_splits)
next
  case False
  let ?v = "validateRoutingDestination (route_label i @ ''.doorbell_number'') (trim_space (cr_DoorbellNumber r)) True"
  have "?v = None \<longleftrightarrow> destination_ok (route_doorbell r)"
    using False destination_None by (simp add: route_doorbell_def)
  then consider "?v = None" "destination_ok (route_doorbell r)" | e where "?v = Some e" "\<not> destination_ok (route_doorbell r)"
    by (cases ?v) auto
  then show ?thesis
    by cases
      (use False in \<open>auto simp: route_step_def Let_def mobile_scan_route name_None
        route_ok_def fits_def route_id_def route_entity_def route_doorbell_def simp del: concat_eq_Nil_conv
        split: option.splits if_splits\<close>)
qed

lemma step_counts:
  "doorRoutes (fst (route_step c s (i, r))) = doorRoutes s + (if route_doorbell r \<noteq> [] then 1 else 0)"
  "mobileRoutes (fst (route_step c s (i, r))) = mobileRoutes s + (if MobileNumbers r \<noteq> [] then 1 else 0)"
  by (simp_all add: route_step_def Let_def route_doorbell_def)

lemma step_records:
  assumes "snd (route_step c s (i, r)) = []"
  shows "routeIDs (fst (route_step c s (i, r))) = insert (route_id r) (routeIDs s)"
    "entities (fst (route_step c s (i, r))) = (entities s)(route_entity r \<mapsto> route_id r)"
    "doorbellNumbers (fst (route_step c s (i, r))) =
      (if route_doorbell r = [] then doorbellNumbers s
       else (doorbellNumbers s)(canonicalRoutingDestination (route_doorbell r) \<mapsto> route_id r))"
  using assms by (auto simp: route_step_def Let_def route_id_def route_entity_def route_doorbell_def)


section \<open>All routes\<close>

lemma scan_counts:
  "doorRoutes (fst (scan (route_step c) s (enumerate k rs))) = doorRoutes s + length (filter (\<lambda>r. route_doorbell r \<noteq> []) rs)"
  "mobileRoutes (fst (scan (route_step c) s (enumerate k rs))) = mobileRoutes s + length (filter (\<lambda>r. MobileNumbers r \<noteq> []) rs)"
  by (induction rs arbitrary: s k) (simp_all add: Let_def case_prod_unfold step_counts)

lemma doorbells_Cons:
  "doorbells (r # rs) = (if route_doorbell r = [] then doorbells rs else canonicalRoutingDestination (route_doorbell r) # doorbells rs)"
  by (simp add: doorbells_def)

lemma upd_None: "(m(a \<mapsto> b)) e = None \<longleftrightarrow> e \<noteq> a \<and> m e = None"
  by simp

lemma scan_errors:
  "concat (snd (scan (route_step c) s (enumerate k rs))) = [] \<longleftrightarrow>
   (\<forall>r \<in> set rs. route_ok c r) \<and> distinct (map route_id rs) \<and> distinct (map route_entity rs) \<and> distinct (doorbells rs)
   \<and> (\<forall>i \<in> set (map route_id rs). i \<notin> routeIDs s)
   \<and> (\<forall>e \<in> set (map route_entity rs). entities s e = None)
   \<and> (\<forall>d \<in> set (doorbells rs). doorbellNumbers s d = None)"
proof (induction rs arbitrary: s k)
  case (Cons r rs)
  let ?s = "fst (route_step c s (k, r))"
  show ?case
  proof (cases "snd (route_step c s (k, r)) = []")
    case True
    then have ok: "route_ok c r" "fits s r" by (simp_all add: step_errors)
    show ?thesis
    proof (cases "route_doorbell r = []")
      case d: True
      show ?thesis
        unfolding enumerate_Cons scan_Cons_concat Cons [of ?s "k + 1"] step_records [OF True] doorbells_Cons upd_None
          list.map list.set distinct.simps ball_simps insert_iff
        using True ok d by (simp only: fits_def if_True simp_thms) blast
    next
      case d: False
      show ?thesis
        unfolding enumerate_Cons scan_Cons_concat Cons [of ?s "k + 1"] step_records [OF True] doorbells_Cons upd_None
          list.map list.set distinct.simps ball_simps insert_iff
        using True ok d by (simp only: fits_def if_False upd_None list.set distinct.simps ball_simps simp_thms) blast
    qed
  next
    case False
    then show ?thesis
      unfolding enumerate_Cons scan_Cons_concat
      by (cases "route_doorbell r = []") (auto simp: step_errors fits_def doorbells_Cons simp del: concat_eq_Nil_conv)
  qed
qed (simp add: doorbells_def)

lemma validateRouting_iff: "validateRouting c = [] \<longleftrightarrow> routing_ok c"
proof (cases "CallRoutes c = []")
  case True
  then show ?thesis by (simp add: validateRouting_def routing_ok_def)
next
  case False
  let ?r = "scan (route_step c) scan_init (enumerate 0 (CallRoutes c))"
  have "validateRouting c = [] \<longleftrightarrow>
    \<not> MaxCallRoutes < length (CallRoutes c) \<and> concat (snd ?r) = []
    \<and> \<not> (DoorCallEnabled c \<and> doorRoutes (fst ?r) = 0) \<and> \<not> (ParallelCallEnabled c \<and> mobileRoutes (fst ?r) = 0)"
    using False by (simp add: validateRouting_def Let_def case_prod_unfold del: concat_eq_Nil_conv)
  then show ?thesis
    using False unfolding scan_counts scan_errors
    by (auto simp: routing_ok_def scan_init_def filter_empty_conv not_less)
qed

section \<open>Lookups\<close>

lemma find_distinct:
  assumes "distinct (map f xs)" "x \<in> set xs"
  shows "find (\<lambda>y. f y = f x) xs = Some x"
  using assms by (induction xs) auto

lemma find_resolved:
  assumes "distinct (map route_id (CallRoutes c))" "r \<in> set (CallRoutes c)"
  shows "FindCallRoute c (cr_ID r) = Some (resolve_route r)"
proof -
  have "distinct (map rr_ID (ResolvedCallRoutes c))"
    using assms(1) by (simp add: ResolvedCallRoutes_def resolve_route_def route_id_def [abs_def] comp_def)
  then have "find (\<lambda>y. rr_ID y = rr_ID (resolve_route r)) (ResolvedCallRoutes c) = Some (resolve_route r)"
    by (rule find_distinct) (use assms(2) in \<open>simp add: ResolvedCallRoutes_def\<close>)
  then show ?thesis by (simp add: FindCallRoute_def resolve_route_def)
qed

lemma MobileNumbers_length: "length (MobileNumbers r) \<le> MaxParallelDestinations"
proof -
  have "length (filter (\<lambda>v. v \<noteq> []) (map trim_space (mobile_fields r))) \<le> length (map trim_space (mobile_fields r))"
    by (rule length_filter_le)
  then show ?thesis by (simp add: MobileNumbers_def MaxParallelDestinations_def mobile_fields_def)
qed

lemma max_targets: "foldl (\<lambda>m r. max m (f r)) m xs = fold max (map f xs) (m :: nat)"
  by (induction xs arbitrary: m) (simp_all add: max.commute)

lemma max_targets_le: "(\<forall>x \<in> set xs. f x \<le> b) \<Longrightarrow> m \<le> b \<Longrightarrow> foldl (\<lambda>m r. max m (f r)) m xs \<le> (b :: nat)"
  by (induction xs arbitrary: m) simp_all

section \<open>Migration\<close>

lemma trim_space_Nil [simp]: "trim_space [] = []"
  by (simp add: trim_space_def trim_left_def)

lemma normalize_route_idem: "normalize_route (normalize_route r) = normalize_route r"
  by (simp add: normalize_route_def)

lemma migrate_none: "cr_Legacy1 r = [] \<Longrightarrow> cr_Legacy2 r = [] \<Longrightarrow> cr_Legacy3 r = [] \<Longrightarrow> migrate_route t r = r"
  by (cases r) (simp add: migrate_route_def migrate_number_def)

lemma migrate_normal: "migrate_route t (normalize_route (migrate_route t' r)) = normalize_route (migrate_route t' r)"
  by (rule migrate_none) (simp_all add: normalize_route_def migrate_route_def)

text \<open>A number is kept, whether it was in the new field, in the catalogue of targets or written in place of a reference.\<close>

lemma migrate_number_kept:
  "trim_space (migrate_number targets n ref) =
   (if trim_space n \<noteq> [] then trim_space n
    else case targets (trim_space ref) of
      Some d \<Rightarrow> if trim_space ref \<noteq> [] \<and> d \<noteq> [] then trim_space d else trim_space ref
    | None \<Rightarrow> trim_space ref)"
  by (auto simp: migrate_number_def split: option.split)

lemma default_route_clean: "cr_Legacy1 (legacy_route raw c) = []" "cr_Legacy2 (legacy_route raw c) = []" "cr_Legacy3 (legacy_route raw c) = []"
  by (auto simp: legacy_route_def default_route_def Let_def split: list.splits)

section \<open>The delay of the echo canceller\<close>

lemma SetAECDelay_range:
  fixes c d
  defines "c' \<equiv> SetAECDelay d c"
  shows "0 \<le> AECMinDelayMS c'" "AECMinDelayMS c' \<le> AECInitialDelayMS c'" "AECInitialDelayMS c' \<le> AECMaxDelayMS c'"
    "AECMaxDelayMS c' \<le> MaxSupportedAECDelayMS"
    "0 \<le> d \<Longrightarrow> d \<le> MaxSupportedAECDelayMS \<Longrightarrow> AECInitialDelayMS c' = d"
    "AECMinDelayMS c' < AECMaxDelayMS c'"
  unfolding c'_def by (auto simp: SetAECDelay_def Let_def MaxSupportedAECDelayMS_def DefaultAECSearchWindowMS_def)


section \<open>Properties\<close>

text \<open>C18. The validation of the routes accepts exactly the configurations that satisfy the declarative condition: between one
  and 32 routes, each with a valid id, name and sensor, with usable numbers that are pairwise different in their
  canonical form and with a call path on an enabled account; ids, sensors and doorbell numbers are each used once; and
  every enabled account has a route that calls through it.\<close>

theorem routing_validation_exact: "validateRouting c = [] \<longleftrightarrow> routing_ok c"
  by (rule validateRouting_iff)

text \<open>The three slots of a route after the upgrade: the number of the new field, else the destination the old reference names
  in the catalogue, else the reference itself.\<close>

definition kept_number :: "(string \<rightharpoonup> string) \<Rightarrow> string \<Rightarrow> string \<Rightarrow> string" where
  "kept_number targets n ref =
     (if trim_space n \<noteq> [] then trim_space n
      else case targets (trim_space ref) of
        Some d \<Rightarrow> if trim_space ref \<noteq> [] \<and> d \<noteq> [] then trim_space d else trim_space ref
      | None \<Rightarrow> trim_space ref)"

definition legacy_fields :: "CallRoute \<Rightarrow> string list" where
  "legacy_fields r = [cr_Legacy1 r, cr_Legacy2 r, cr_Legacy3 r]"

text \<open>The upgrade of old options loses no number and is stable: with routes in the file every slot of every route keeps its
  number, or takes what its old reference stands for; and migrating and normalising what was migrated and normalised
  changes nothing, so a configuration that is saved and loaded again stays as it is.\<close>

lemma upgrade_lossless:
  fixes raw c
  defines "c' \<equiv> normalizeRouting (migrateLegacyRouting raw c)"
  assumes "raw' ''call_routes''"
  shows "normalizeRouting (migrateLegacyRouting raw' c') = c'
    \<and> (raw ''call_routes'' \<and> CallRoutes c \<noteq> [] \<longrightarrow>
        map mobile_fields (CallRoutes c') =
        map (\<lambda>r. map2 (kept_number (legacy_targets (MobileTargets c))) (mobile_fields r) (legacy_fields r)) (CallRoutes c))"
proof
  have ne: "CallRoutes c' \<noteq> []" by (simp add: c'_def normalizeRouting_def migrateLegacyRouting_def Let_def)
  have "CallRoutes c' = map (\<lambda>r. normalize_route (migrate_route (legacy_targets (MobileTargets c)) r))
      (if \<not> raw ''call_routes'' \<or> CallRoutes c = [] then [legacy_route raw c] else CallRoutes c)"
    unfolding c'_def normalizeRouting_def migrateLegacyRouting_def Let_def by (simp add: comp_def)
  then have routes: "\<exists>t rs. CallRoutes c' = map (\<lambda>r. normalize_route (migrate_route t r)) rs" by blast
  have "map (normalize_route \<circ> migrate_route t) (CallRoutes c') = CallRoutes c'" for t
    using routes by (auto simp: migrate_normal normalize_route_idem)
  moreover have "VisitorEntity c' = []" "SIPDestination c' = []" "ParallelDestinations c' = []" "MobileTargets c' = []"
    by (simp_all add: c'_def normalizeRouting_def migrateLegacyRouting_def Let_def)
  ultimately show "normalizeRouting (migrateLegacyRouting raw' c') = c'"
    using assms(2) ne by (cases c') (simp add: normalizeRouting_def migrateLegacyRouting_def Let_def)
  show "raw ''call_routes'' \<and> CallRoutes c \<noteq> [] \<longrightarrow>
      map mobile_fields (CallRoutes c') =
      map (\<lambda>r. map2 (kept_number (legacy_targets (MobileTargets c))) (mobile_fields r) (legacy_fields r)) (CallRoutes c)"
    unfolding c'_def
    by (auto simp: normalizeRouting_def migrateLegacyRouting_def mobile_fields_def legacy_fields_def normalize_route_def
        migrate_route_def migrate_number_kept kept_number_def)
qed

end
