(* ===== verification/Startup.thy ===== *)
theory Startup
  imports Routing
begin

text \<open>
  The start of the gateway: the mode of the camera (\<^verbatim>\<open>internal/reolinkmode/detect.go\<close>), the stored calibration of
  the echo canceller (\<^verbatim>\<open>internal/calibration/store.go\<close>) and their use (\<^verbatim>\<open>internal/startup/prepare.go\<close>).  The probes
  of the camera, the acoustic measurement, the JSON codec of the record and the file system are parameters.
\<close>

section \<open>The mode of the camera\<close>

datatype 'e mode_error = Unsupported_mode string | Cancelled_detection | Detection_failed 'e 'e

text \<open>A probe gives its error, if any, and whether the context of the caller has ended meanwhile.\<close>

definition resolveWith :: "(Config \<Rightarrow> 'e option \<times> bool) \<Rightarrow> (Config \<Rightarrow> 'e option \<times> bool) \<Rightarrow> Config \<Rightarrow> 'e mode_error + string" where
  "resolveWith standalone nvr c =
     (if ReolinkMode c = ''standalone'' \<or> ReolinkMode c = ''nvr'' then Inr (ReolinkMode c)
      else if ReolinkMode c \<noteq> ''auto'' then Inl (Unsupported_mode (ReolinkMode c))
      else case standalone c of
        (None, _) \<Rightarrow> Inr ''standalone''
      | (Some e, ended) \<Rightarrow>
          if ended then Inl Cancelled_detection
          else case nvr c of
            (None, _) \<Rightarrow> Inr ''nvr''
          | (Some e', ended) \<Rightarrow> if ended then Inl Cancelled_detection else Inl (Detection_failed e e'))"

section \<open>The stored calibration\<close>

record calibration =
  cal_Version :: int
  cal_Fingerprint :: string
  cal_Mode :: string
  cal_DelayMS :: int
  cal_MeasuredAt :: int

definition Fingerprint :: "Config \<Rightarrow> string" where
  "Fingerprint c =
     ReolinkHost c @ ''|'' @ EffectiveReolinkMode c @ ''|rtsp:'' @ show_int (ReolinkRTSPPort c) @ ''|path:'' @ ReolinkStreamPath c
     @ ''|bc:'' @ show_int (BaichuanPort c) @ ''|ch:'' @ show_int (NVRChannel c)"

datatype calibration_error = No_file | Not_decodable | Other_profile | Bad_delay | Unresolved_mode string | Not_written

type_synonym files = "string \<rightharpoonup> byte list"

definition calibration_load ::
  "(byte list \<Rightarrow> calibration option) \<Rightarrow> files \<Rightarrow> string \<Rightarrow> Config \<Rightarrow> calibration_error + calibration" where
  "calibration_load decode fs path c =
     (case fs path of
        None \<Rightarrow> Inl No_file
      | Some b \<Rightarrow>
          (case decode b of
             None \<Rightarrow> Inl Not_decodable
           | Some r \<Rightarrow>
               if cal_Version r \<noteq> 1 \<or> cal_Fingerprint r \<noteq> Fingerprint c \<or> cal_DelayMS r < 0 \<or> MaxSupportedAECDelayMS < cal_DelayMS r
               then Inl Other_profile else Inr r))"

text \<open>\<open>written\<close> says whether the directory could be made and the temporary file written, \<open>renamed\<close> whether the rename worked;
  a file that was written but not renamed leaves the old record in place.\<close>

definition calibration_save ::
  "(calibration \<Rightarrow> byte list) \<Rightarrow> bool \<Rightarrow> bool \<Rightarrow> files \<Rightarrow> string \<Rightarrow> Config \<Rightarrow> int \<Rightarrow> int \<Rightarrow> calibration_error option \<times> files" where
  "calibration_save encode written renamed fs path c delayMS measuredAt =
     (if delayMS < 0 \<or> MaxSupportedAECDelayMS < delayMS then (Some Bad_delay, fs)
      else
        let m = EffectiveReolinkMode c in
        if m \<noteq> ''standalone'' \<and> m \<noteq> ''nvr'' then (Some (Unresolved_mode m), fs)
        else
          let b = encode \<lparr>cal_Version = 1, cal_Fingerprint = Fingerprint c, cal_Mode = m, cal_DelayMS = delayMS, cal_MeasuredAt = measuredAt\<rparr>;
              tmp = path @ ''.tmp''; b = b @ [0x0A]
          in if \<not> written then (Some Not_written, fs)
             else if \<not> renamed then (Some Not_written, fs(tmp \<mapsto> b))
             else (None, (fs(path \<mapsto> b))(tmp := None)))"

section \<open>Preparing the configuration\<close>

datatype calibration_status =
    Not_required | Cached_dry_run | Skipped_dry_run | Aec_disabled | Measured | Cached_fallback | Safe_fallback

text \<open>\<open>pr_Save\<close> is the delay and the time that are stored.\<close>

record prepared =
  pr_Config :: Config
  pr_ActiveMode :: string
  pr_MediaProfile :: string
  pr_Status :: calibration_status
  pr_LastCalibration :: "int option"
  pr_Save :: "(int \<times> int) option"

text \<open>The two profiles, as the bytes of their UTF-8 text with the arrow in the middle.\<close>

definition arrow :: string where "arrow = [CHR 0xE2, CHR 0x86, CHR 0x94]"

definition mediaProfile :: "string \<Rightarrow> string" where
  "mediaProfile m =
     (if m = ''standalone'' then ''RTSP '' @ arrow @ '' RTSP''
      else if m = ''nvr'' then ''Baichuan '' @ arrow @ '' Baichuan (sub)'' else [])"

text \<open>\<open>time.Duration.Round\<close>, away from zero on a tie, and the number of milliseconds.\<close>

definition duration_round :: "int \<Rightarrow> int \<Rightarrow> int" where
  "duration_round m d =
     (if 0 \<le> d then (let r = d mod m in if 2 * r < m then d - r else d + m - r)
      else (let r = (- d) mod m in if 2 * r < m then d + r else d - m + r))"

definition delay_ms :: "int \<Rightarrow> int" where
  "delay_ms d = go_div (duration_round 1000000 d) 1000000"

record 'e startup_deps =
  resolve_mode :: "Config \<Rightarrow> 'e mode_error + string"
  measure_latency :: "Config \<Rightarrow> int option \<times> bool"
  stored :: "Config \<Rightarrow> calibration_error + calibration"
  clock :: int

datatype 'e startup_error = Mode_error "'e mode_error" | Startup_cancelled

text \<open>\<open>measure_latency\<close> gives the measured delay, if it succeeds, and whether the context has ended.\<close>

definition prepare_dry :: "'e startup_deps \<Rightarrow> Config \<Rightarrow> prepared" where
  "prepare_dry deps c =
     (let resolved = (ReolinkMode c = ''standalone'' \<or> ReolinkMode c = ''nvr'');
          c = (if resolved then WithResolvedReolinkMode (ReolinkMode c) c else c);
          m = (if resolved then EffectiveReolinkMode c else []);
          p = \<lparr>pr_Config = c, pr_ActiveMode = m, pr_MediaProfile = (if resolved then mediaProfile m else []),
               pr_Status = Not_required, pr_LastCalibration = None, pr_Save = None\<rparr>
      in if \<not> EchoCancellationEnabled c then p
         else case stored deps c of
           Inr r \<Rightarrow> p\<lparr>pr_Config := SetAECDelay (cal_DelayMS r) c, pr_Status := Cached_dry_run, pr_LastCalibration := Some (cal_MeasuredAt r)\<rparr>
         | Inl _ \<Rightarrow> p\<lparr>pr_Config := SetAECDelay DefaultAECInitialDelayMS c, pr_Status := Skipped_dry_run\<rparr>)"

definition prepareWith :: "'e startup_deps \<Rightarrow> Config \<Rightarrow> 'e startup_error + prepared" where
  "prepareWith deps c =
     (if DryRun c then Inr (prepare_dry deps c)
      else case resolve_mode deps c of
        Inl e \<Rightarrow> Inl (Mode_error e)
      | Inr m \<Rightarrow>
          let c = WithResolvedReolinkMode m c;
              p = \<lparr>pr_Config = c, pr_ActiveMode = m, pr_MediaProfile = mediaProfile m, pr_Status = Aec_disabled, pr_LastCalibration = None, pr_Save = None\<rparr>
          in if \<not> EchoCancellationEnabled c then Inr p
             else
               let (delay, ended) = measure_latency deps c;
                   good = (case delay of Some d \<Rightarrow> 0 \<le> delay_ms d \<and> delay_ms d \<le> MaxSupportedAECDelayMS | None \<Rightarrow> False)
               in if delay = None \<and> ended then Inl Startup_cancelled
                  else if good
                  then Inr (p\<lparr>pr_Config := SetAECDelay (delay_ms (the delay)) c, pr_Status := Measured, pr_LastCalibration := Some (clock deps),
                                pr_Save := Some (delay_ms (the delay), clock deps)\<rparr>)
                  else case stored deps c of
                    Inr r \<Rightarrow> Inr (p\<lparr>pr_Config := SetAECDelay (cal_DelayMS r) c, pr_Status := Cached_fallback,
                                    pr_LastCalibration := Some (cal_MeasuredAt r)\<rparr>)
                  | Inl _ \<Rightarrow> Inr (p\<lparr>pr_Config := SetAECDelay DefaultAECInitialDelayMS c, pr_Status := Safe_fallback\<rparr>))"


section \<open>Facts\<close>

lemma resolved_mode: "resolveWith s n c = Inr m \<Longrightarrow> m = ''standalone'' \<or> m = ''nvr''"
  by (auto simp: resolveWith_def split: if_splits option.splits prod.splits)

lemma SetAECDelay_mode [simp]:
  "EffectiveReolinkMode (SetAECDelay d c) = EffectiveReolinkMode c" "Fingerprint (SetAECDelay d c) = Fingerprint c"
  by (simp_all add: EffectiveReolinkMode_def Fingerprint_def SetAECDelay_def Let_def)

lemma WithResolved_echo [simp]: "EchoCancellationEnabled (WithResolvedReolinkMode m c) = EchoCancellationEnabled c"
  by (simp add: WithResolvedReolinkMode_def)

lemma WithResolved_mode:
  "m = ''standalone'' \<or> m = ''nvr'' \<Longrightarrow> EffectiveReolinkMode (WithResolvedReolinkMode m c) = m"
  by (auto simp: EffectiveReolinkMode_def WithResolvedReolinkMode_def trim_space_def trim_left_def is_space_def to_lower_def
      lower_char_def)

lemma loaded_range: "calibration_load decode fs path c = Inr r \<Longrightarrow> 0 \<le> cal_DelayMS r \<and> cal_DelayMS r \<le> MaxSupportedAECDelayMS"
  by (auto simp: calibration_load_def split: option.splits if_splits)

lemma loaded_record:
  "calibration_load decode fs path c = Inr r \<Longrightarrow>
   \<exists>b. fs path = Some b \<and> decode b = Some r \<and> cal_Fingerprint r = Fingerprint c"
  by (auto simp: calibration_load_def split: option.splits if_splits)

lemma default_delay: "0 \<le> DefaultAECInitialDelayMS" "DefaultAECInitialDelayMS \<le> MaxSupportedAECDelayMS"
  by (simp_all add: DefaultAECInitialDelayMS_def MaxSupportedAECDelayMS_def)

text \<open>Where the delay of the echo canceller comes from.\<close>

definition delay_source :: "'e startup_deps \<Rightarrow> prepared \<Rightarrow> bool" where
  "delay_source deps p \<longleftrightarrow>
     (case pr_Status p of
        Measured \<Rightarrow> \<exists>c d. fst (measure_latency deps c) = Some d \<and> AECInitialDelayMS (pr_Config p) = delay_ms d
          \<and> pr_Save p = Some (delay_ms d, clock deps)
      | Cached_dry_run \<Rightarrow> \<exists>c r. stored deps c = Inr r \<and> AECInitialDelayMS (pr_Config p) = cal_DelayMS r
      | Cached_fallback \<Rightarrow> \<exists>c r. stored deps c = Inr r \<and> AECInitialDelayMS (pr_Config p) = cal_DelayMS r
      | _ \<Rightarrow> AECInitialDelayMS (pr_Config p) = DefaultAECInitialDelayMS)"

definition delay_ok :: "Config \<Rightarrow> bool" where
  "delay_ok c \<longleftrightarrow>
     0 \<le> AECMinDelayMS c \<and> AECMinDelayMS c \<le> AECInitialDelayMS c \<and> AECInitialDelayMS c \<le> AECMaxDelayMS c
     \<and> AECMaxDelayMS c \<le> MaxSupportedAECDelayMS \<and> AECMinDelayMS c < AECMaxDelayMS c"

lemma delay_ok_Set: "delay_ok (SetAECDelay d c)"
  unfolding delay_ok_def using SetAECDelay_range [of d c] by simp

lemma prepare_dry_sound:
  assumes "stored deps = calibration_load decode fs path" "EchoCancellationEnabled c"
  shows "delay_ok (pr_Config (prepare_dry deps c)) \<and> delay_source deps (prepare_dry deps c)"
proof -
  let ?c = "if ReolinkMode c = ''standalone'' \<or> ReolinkMode c = ''nvr'' then WithResolvedReolinkMode (ReolinkMode c) c else c"
  show ?thesis
  proof (cases "stored deps ?c")
    case (Inl e)
    then show ?thesis using assms(2) default_delay
      by (simp add: prepare_dry_def Let_def delay_source_def delay_ok_Set SetAECDelay_range(5))
  next
    case (Inr r)
    then have "AECInitialDelayMS (SetAECDelay (cal_DelayMS r) ?c) = cal_DelayMS r"
      using assms(1) loaded_range [of decode fs path ?c r] by (intro SetAECDelay_range(5)) simp_all
    then show ?thesis using assms(2) Inr
      by (auto simp add: prepare_dry_def Let_def delay_source_def delay_ok_Set)
  qed
qed

lemma prepare_live_sound:
  assumes "stored deps = calibration_load decode fs path" "resolve_mode deps = resolveWith s n" "\<not> DryRun c"
    "prepareWith deps c = Inr p"
  shows "pr_ActiveMode p \<in> {''standalone'', ''nvr''}" "EffectiveReolinkMode (pr_Config p) = pr_ActiveMode p"
    "EchoCancellationEnabled c \<Longrightarrow> delay_ok (pr_Config p) \<and> delay_source deps p"
proof -
  obtain m where m: "resolve_mode deps c = Inr m" using assms(3,4) by (auto simp: prepareWith_def split: sum.splits)
  then have mode: "m = ''standalone'' \<or> m = ''nvr''" using assms(2) resolved_mode by metis
  define c1 where "c1 = WithResolvedReolinkMode m c"
  have e: "EffectiveReolinkMode c1 = m" unfolding c1_def by (rule WithResolved_mode [OF mode])
  obtain d ended where ml: "measure_latency deps c1 = (d, ended)" by fastforce
  have cases: "pr_ActiveMode p = m \<and>
    (pr_Config p = c1 \<and> \<not> EchoCancellationEnabled c
     \<or> (\<exists>x. d = Some x \<and> 0 \<le> delay_ms x \<and> delay_ms x \<le> MaxSupportedAECDelayMS \<and> pr_Config p = SetAECDelay (delay_ms x) c1
          \<and> pr_Status p = Measured \<and> pr_Save p = Some (delay_ms x, clock deps))
     \<or> (\<exists>r. stored deps c1 = Inr r \<and> pr_Config p = SetAECDelay (cal_DelayMS r) c1 \<and> pr_Status p = Cached_fallback)
     \<or> (pr_Config p = SetAECDelay DefaultAECInitialDelayMS c1 \<and> pr_Status p = Safe_fallback))"
    using assms(3,4) m ml unfolding prepareWith_def c1_def
    by (auto simp: Let_def split: if_splits option.splits sum.splits)
  show "pr_ActiveMode p \<in> {''standalone'', ''nvr''}" using cases mode by auto
  show "EffectiveReolinkMode (pr_Config p) = pr_ActiveMode p" using cases e by auto
  show "delay_ok (pr_Config p) \<and> delay_source deps p" if echo: "EchoCancellationEnabled c"
  proof -
    consider x where "d = Some x" "0 \<le> delay_ms x" "delay_ms x \<le> MaxSupportedAECDelayMS" "pr_Config p = SetAECDelay (delay_ms x) c1"
        "pr_Status p = Measured" "pr_Save p = Some (delay_ms x, clock deps)"
      | r where "stored deps c1 = Inr r" "pr_Config p = SetAECDelay (cal_DelayMS r) c1" "pr_Status p = Cached_fallback"
      | "pr_Config p = SetAECDelay DefaultAECInitialDelayMS c1" "pr_Status p = Safe_fallback"
      using cases echo by auto
    then show ?thesis
    proof cases
      case 1
      then show ?thesis using ml SetAECDelay_range(5) delay_ok_Set by (auto simp: delay_source_def intro!: exI [of _ c1])
    next
      case 2
      then have "AECInitialDelayMS (SetAECDelay (cal_DelayMS r) c1) = cal_DelayMS r"
        using assms(1) loaded_range [of decode fs path c1 r] by (intro SetAECDelay_range(5)) simp_all
      then show ?thesis using 2 delay_ok_Set by (auto simp: delay_source_def)
    next
      case 3
      then show ?thesis using default_delay SetAECDelay_range(5) delay_ok_Set by (simp add: delay_source_def)
    qed
  qed
qed

section \<open>Properties\<close>

text \<open>A start that succeeds leaves a usable configuration: with the echo canceller on, its delay lies in its search window,
  the window is not empty and within the supported range, and the delay is the measured one, the stored one of this
  camera, or the default, as the status says; outside a dry run the mode is one of the two that exist and is the one the
  media use; and a dry run depends neither on the probes nor on a measurement.\<close>

lemma startup_sound:
  assumes "stored deps = calibration_load decode fs path" "resolve_mode deps = resolveWith s n" "prepareWith deps c = Inr p"
  shows "(EchoCancellationEnabled c \<longrightarrow> delay_ok (pr_Config p) \<and> delay_source deps p)
    \<and> (\<not> DryRun c \<longrightarrow> pr_ActiveMode p \<in> {''standalone'', ''nvr''} \<and> EffectiveReolinkMode (pr_Config p) = pr_ActiveMode p)
    \<and> (DryRun c \<longrightarrow> (\<forall>deps'. stored deps' = stored deps \<longrightarrow> prepareWith deps' c = Inr p))"
proof (cases "DryRun c")
  case True
  then have p: "p = prepare_dry deps c" using assms(3) by (simp add: prepareWith_def)
  have "prepareWith deps' c = Inr p" if "stored deps' = stored deps" for deps'
    using True unfolding p prepareWith_def prepare_dry_def that by simp
  then have "\<forall>deps'. stored deps' = stored deps \<longrightarrow> prepareWith deps' c = Inr p" by blast
  then show ?thesis using True prepare_dry_sound [OF assms(1)] p by blast
next
  case False
  then show ?thesis using prepare_live_sound [OF assms(1,2) False assms(3)] by simp
qed

definition offline_deps :: "unit startup_deps" where
  "offline_deps = \<lparr>resolve_mode = resolveWith (\<lambda>_. (None, False)) (\<lambda>_. (None, False)), measure_latency = (\<lambda>_. (None, False)),
     stored = calibration_load (\<lambda>_. None) (\<lambda>_. None) ''/data/aec-calibration.json'', clock = 0\<rparr>"

text \<open>What is measured is found again: a calibration that is saved for a camera is what the next load for the same camera
  gives, whatever was stored before; saving that fails leaves the stored calibration as it was; and a calibration
  saved for another camera or mode is refused.\<close>

lemma calibration_round_trip:
  fixes c delay t
  defines "r \<equiv> \<lparr>cal_Version = 1, cal_Fingerprint = Fingerprint c, cal_Mode = EffectiveReolinkMode c, cal_DelayMS = delay, cal_MeasuredAt = t\<rparr>"
  assumes "decode (encode r @ [0x0A]) = Some r" "0 \<le> delay" "delay \<le> MaxSupportedAECDelayMS"
    and "EffectiveReolinkMode c \<in> {''standalone'', ''nvr''}"
  shows "calibration_load decode (snd (calibration_save encode written renamed fs path c delay t)) path c' =
    (if \<not> (written \<and> renamed) then calibration_load decode fs path c'
     else if Fingerprint c = Fingerprint c' then Inr r
     else Inl Other_profile)"
  using assms by (auto simp: calibration_save_def calibration_load_def Let_def)

end
