(* ===== verification/RtspText.thy ===== *)
theory RtspText
  imports GoStrings
begin

text \<open>
  The texts of RTSP: responses and the frames between them on one connection, the SDP of a camera and its
  backchannel, the Session and Transport headers.  It models the reading half of
  \<^verbatim>\<open>internal/rtsp/client.go\<close>; the bytes still to arrive are a list.
\<close>

section \<open>Responses\<close>

definition maxRTSPBodySize :: int where "maxRTSPBodySize = 4194304"

record rtsp_response =
  rs_StatusCode :: int
  rs_Reason :: string
  rs_Header :: "string \<rightharpoonup> string"
  rs_HeaderValues :: "string \<Rightarrow> string list"
  rs_Body :: "byte list"

datatype rtsp_error =
    Rtsp_eof
  | Unexpected_line string
  | Bad_status string
  | Bad_content_length string

text \<open>\<open>strings.TrimRight(s, "\r\n")\<close> of a line read up to its line feed.\<close>

definition trim_right_crlf :: "string \<Rightarrow> string" where
  "trim_right_crlf s = rev (dropWhile (\<lambda>c. c = CR \<or> c = LF) (rev s))"

definition read_line :: "byte list \<Rightarrow> (string \<times> byte list) option" where
  "read_line s =
     (if 0x0A \<in> set s
      then Some (trim_right_crlf (bytes_string (takeWhile (\<lambda>b. b \<noteq> 0x0A) s)), tl (dropWhile (\<lambda>b. b \<noteq> 0x0A) s))
      else None)"

lemma read_line_length:
  assumes "read_line s = Some (l, r)"
  shows "length r < length s"
proof -
  have ne: "dropWhile (\<lambda>b. b \<noteq> 0x0A) s \<noteq> []" and r: "r = tl (dropWhile (\<lambda>b. b \<noteq> 0x0A) s)"
    using assms by (auto simp: read_line_def split: if_splits)
  have "length (dropWhile (\<lambda>b. b \<noteq> 0x0A) s) \<le> length s" by (rule length_dropWhile_le)
  then show ?thesis using ne by (cases "dropWhile (\<lambda>b. b \<noteq> 0x0A) s") (auto simp: r)
qed

text \<open>One header line: a line without a colon is skipped.\<close>

definition header_line :: "string \<Rightarrow> (string \<times> string) list" where
  "header_line line =
     (case split2 '':'' line of [n, v] \<Rightarrow> [(to_lower (trim_space n), trim_space v)] | _ \<Rightarrow> [])"

function read_headers :: "byte list \<Rightarrow> ((string \<times> string) list \<times> byte list) option" where
  "read_headers s =
     (case read_line s of
        None \<Rightarrow> None
      | Some (line, r) \<Rightarrow>
          if line = [] then Some ([], r)
          else map_option (\<lambda>(h, r). (header_line line @ h, r)) (read_headers r))"
  by pat_completeness auto
termination
  by (relation "measure length") (auto dest: read_line_length)

declare read_headers.simps [simp del]

lemma read_headers_length: "read_headers s = Some (h, r) \<Longrightarrow> length r < length s"
proof (induction s arbitrary: h r rule: read_headers.induct)
  case (1 s)
  obtain line r1 where line: "read_line s = Some (line, r1)"
    using "1.prems" by (subst (asm) read_headers.simps) (auto split: option.splits)
  note len = read_line_length [OF line]
  show ?case
  proof (cases "line = []")
    case True
    then show ?thesis using "1.prems" line len by (simp add: read_headers.simps [of s])
  next
    case False
    then obtain h' where "read_headers r1 = Some (h', r)"
      using "1.prems" line by (auto simp: read_headers.simps [of s] split: option.splits)
    then have "length r < length r1" using "1.IH" [OF line refl False] by simp
    then show ?thesis using len by simp
  qed
qed

definition header_map :: "(string \<times> string) list \<Rightarrow> string \<rightharpoonup> string" where
  "header_map hs = map_of (rev hs)"

definition header_values :: "(string \<times> string) list \<Rightarrow> string \<Rightarrow> string list" where
  "header_values hs name = map snd (filter (\<lambda>(n, v). n = name) hs)"

definition get_header :: "(string \<rightharpoonup> string) \<Rightarrow> string \<Rightarrow> string" where
  "get_header h name = (case h name of Some v \<Rightarrow> v | None \<Rightarrow> [])"

definition content_length :: "(string \<rightharpoonup> string) \<Rightarrow> rtsp_error + int" where
  "content_length h =
     (let raw = trim_space (get_header h ''content-length'') in
      if raw = [] then Inr 0
      else let (n, ok) = atoi raw in if \<not> ok \<or> n < 0 \<or> maxRTSPBodySize < n then Inl (Bad_content_length raw) else Inr n)"

text \<open>\<open>strings.SplitN(line, " ", 3)\<close>.\<close>

definition split3 :: "string \<Rightarrow> string \<Rightarrow> string list" where
  "split3 sep s = (case cut sep s of None \<Rightarrow> [s] | Some (a, b) \<Rightarrow> a # split2 sep b)"

definition status_line :: "string \<Rightarrow> rtsp_error + int \<times> string" where
  "status_line line =
     (let parts = split3 '' '' line in
      if length parts < 2 \<or> \<not> prefix ''RTSP/'' (parts ! 0) then Inl (Unexpected_line line)
      else let (code, ok) = atoi (parts ! 1) in
        if \<not> ok then Inl (Bad_status (parts ! 1)) else Inr (code, if length parts = 3 then parts ! 2 else []))"

definition readResponse :: "byte list \<Rightarrow> rtsp_error + rtsp_response \<times> byte list" where
  "readResponse s =
     (case read_line s of
        None \<Rightarrow> Inl Rtsp_eof
      | Some (line, s) \<Rightarrow>
          (case status_line line of
             Inl e \<Rightarrow> Inl e
           | Inr (code, reason) \<Rightarrow>
               (case read_headers s of
                  None \<Rightarrow> Inl Rtsp_eof
                | Some (hs, s) \<Rightarrow>
                    (case content_length (header_map hs) of
                       Inl e \<Rightarrow> Inl e
                     | Inr n \<Rightarrow>
                         (case read_full (nat n) s of
                            None \<Rightarrow> Inl Rtsp_eof
                          | Some (body, s) \<Rightarrow>
                              Inr (\<lparr>rs_StatusCode = code, rs_Reason = reason, rs_Header = header_map hs,
                                    rs_HeaderValues = header_values hs, rs_Body = body\<rparr>, s))))))"

lemma readResponse_length: "readResponse s = Inr (res, r) \<Longrightarrow> length r < length s"
  by (auto simp: readResponse_def split: option.splits sum.splits prod.splits
      dest!: read_line_length read_headers_length read_full_length)

section \<open>Frames between the responses\<close>

definition interleaved_frame :: "byte \<Rightarrow> byte list \<Rightarrow> byte list" where
  "interleaved_frame channel payload = 0x24 # channel # be16 (of_nat (length payload)) @ payload"

text \<open>One turn of \<open>readLoop\<close>: a frame is skipped, anything else must be a response.\<close>

definition skip_frame :: "byte list \<Rightarrow> byte list option" where
  "skip_frame s =
     (case read_full 4 s of
        None \<Rightarrow> None
      | Some (h, s) \<Rightarrow> map_option snd (read_full (unat (of_be16 (h ! 2) (h ! 3))) s))"

lemma skip_frame_length: "skip_frame s = Some r \<Longrightarrow> length r < length s"
  by (auto simp: skip_frame_def split: option.splits dest!: read_full_length)

function read_loop :: "byte list \<Rightarrow> rtsp_response list \<times> rtsp_error" where
  "read_loop s =
     (case s of
        [] \<Rightarrow> ([], Rtsp_eof)
      | b # _ \<Rightarrow>
          if b = 0x24
          then (case skip_frame s of None \<Rightarrow> ([], Rtsp_eof) | Some r \<Rightarrow> read_loop r)
          else (case readResponse s of
                  Inl e \<Rightarrow> ([], e)
                | Inr (res, r) \<Rightarrow> (let (out, e) = read_loop r in (res # out, e))))"
  by pat_completeness auto
termination
  by (relation "measure length") (auto dest: skip_frame_length readResponse_length)

declare read_loop.simps [simp del]

section \<open>SDP and the backchannel\<close>

record sdp_media =
  m_Kind :: string
  m_Payloads :: "int list"
  m_Control :: string
  m_Direction :: string
  m_RTPMap :: "int \<rightharpoonup> string"

definition new_media :: "string list \<Rightarrow> sdp_media" where
  "new_media f =
     \<lparr>m_Kind = f ! 0, m_Payloads = List.map_filter (\<lambda>x. case atoi x of (n, ok) \<Rightarrow> if ok then Some n else None) (drop 3 f),
      m_Control = [], m_Direction = [], m_RTPMap = (\<lambda>_. None)\<rparr>"

definition media_attribute :: "string \<Rightarrow> sdp_media \<Rightarrow> sdp_media" where
  "media_attribute a m =
     (if a \<in> {''sendonly'', ''recvonly'', ''sendrecv'', ''inactive''} then m\<lparr>m_Direction := a\<rparr>
      else if prefix ''control:'' a then m\<lparr>m_Control := trim_space (trim_prefix ''control:'' a)\<rparr>
      else if prefix ''rtpmap:'' a
      then (case split2 '' '' (trim_space (trim_prefix ''rtpmap:'' a)) of
              [pt, v] \<Rightarrow> m\<lparr>m_RTPMap := (m_RTPMap m)(fst (atoi pt) \<mapsto> trim_space v)\<rparr>
            | _ \<Rightarrow> m)
      else m)"

text \<open>The media so far; an attribute belongs to the last of them.\<close>

definition sdp_line :: "sdp_media list \<Rightarrow> string \<Rightarrow> sdp_media list" where
  "sdp_line out raw =
     (let line = trim_space raw in
      if prefix ''m='' line
      then (let f = str_fields (trim_prefix ''m='' line) in if 4 \<le> length f then out @ [new_media f] else out)
      else if out = [] \<or> \<not> prefix ''a='' line then out
      else butlast out @ [media_attribute (trim_prefix ''a='' line) (last out)])"

definition parseSDP :: "string \<Rightarrow> sdp_media list" where
  "parseSDP s = foldl sdp_line [] (split_str [LF] (replace_all s CRLF [LF]))"

record Backchannel =
  bc_Codec :: string
  bc_PayloadType :: byte
  bc_ControlURL :: "string option"

definition rtpmap_name :: "sdp_media \<Rightarrow> int \<Rightarrow> string" where
  "rtpmap_name m pt = to_upper (hd (split2 ''/'' (case m_RTPMap m pt of Some v \<Rightarrow> v | None \<Rightarrow> [])))"

definition backchannel_codec :: "sdp_media \<Rightarrow> int \<Rightarrow> string option" where
  "backchannel_codec m pt =
     (let name = rtpmap_name m pt;
          name = (if name = [] then (if pt = 0 then ''PCMU'' else if pt = 8 then ''PCMA'' else []) else name)
      in if name = ''PCMA'' then Some ''pcma'' else if name = ''PCMU'' then Some ''pcmu'' else None)"

text \<open>What the code uses of \<open>net/url\<close>: parsing, printing, the path, and resolving a reference.\<close>

record 'u url_ops =
  url_parse :: "string \<Rightarrow> 'u option"
  url_print :: "'u \<Rightarrow> string"
  url_path :: "'u \<Rightarrow> string"
  url_set_path :: "'u \<Rightarrow> string \<Rightarrow> 'u"
  url_clear_query :: "'u \<Rightarrow> 'u"
  url_resolve :: "'u \<Rightarrow> 'u \<Rightarrow> 'u"

text \<open>\<open>None\<close> is a panic: the code ignores the error of parsing the control attribute and then uses a nil URL.\<close>

definition resolveControl :: "'u url_ops \<Rightarrow> string \<Rightarrow> string \<Rightarrow> string option" where
  "resolveControl u base control =
     (if prefix ''rtsp://'' control \<or> prefix ''rtsps://'' control then Some control
      else case url_parse u base of
        None \<Rightarrow> Some (base @ ''/'' @ trim_prefix ''/'' control)
      | Some bu \<Rightarrow>
          if prefix ''/'' control then Some (url_print u (url_clear_query u (url_set_path u bu control)))
          else
            let bu = (if suffix ''/'' (url_path u bu) then bu else url_set_path u bu (url_path u bu @ ''/''))
            in map_option (\<lambda>ref. url_print u (url_resolve u bu ref)) (url_parse u control))"

lemma control_panics:
  assumes "url_parse u control = None" "url_parse u base = Some bu" "\<not> prefix ''rtsp://'' control"
    "\<not> prefix ''rtsps://'' control" "\<not> prefix ''/'' control"
  shows "resolveControl u base control = None"
  using assms by (simp add: resolveControl_def Let_def)

definition media_backchannel :: "'u url_ops \<Rightarrow> string \<Rightarrow> sdp_media \<Rightarrow> Backchannel option" where
  "media_backchannel u base m =
     (if m_Kind m \<noteq> ''audio'' \<or> m_Direction m \<noteq> ''sendonly'' then None
      else first_some (\<lambda>pt. map_option (\<lambda>codec. \<lparr>bc_Codec = codec, bc_PayloadType = of_int pt, bc_ControlURL = resolveControl u base (m_Control m)\<rparr>)
                         (backchannel_codec m pt)) (m_Payloads m))"

definition findBackchannel :: "'u url_ops \<Rightarrow> string \<Rightarrow> string \<Rightarrow> Backchannel option" where
  "findBackchannel u sdp base = first_some (media_backchannel u base) (parseSDP sdp)"

section \<open>Header values\<close>

text \<open>The last parameter in the right form wins, as in the code.\<close>

definition parseInterleaved :: "string \<Rightarrow> byte \<times> byte \<Rightarrow> byte \<times> byte" where
  "parseInterleaved transport channels =
     foldl (\<lambda>ch p.
         let p = to_lower (trim_space p) in
         if prefix ''interleaved='' p
         then (case split2 ''-'' (trim_prefix ''interleaved='' p) of
                 [a, b] \<Rightarrow> (of_int (fst (atoi a)), of_int (fst (atoi b)))
               | _ \<Rightarrow> ch)
         else ch)
       channels (split_str '';'' transport)"

text \<open>The session id and its timeout in nanoseconds, zero when there is none.  \<open>int64\<close> wraps as the product in the code does.\<close>

definition wrap64 :: "int \<Rightarrow> int" where
  "wrap64 x = (x + 2 ^ 63) mod 2 ^ 64 - 2 ^ 63"

definition parseSession :: "string \<Rightarrow> string \<times> int" where
  "parseSession s =
     (let parts = split_str '';'' s in
      (trim_space (hd parts),
       foldl (\<lambda>timeout part.
           case split2 ''='' (trim_space part) of
             [k, v] \<Rightarrow>
               if equal_fold k ''timeout''
               then (let (sec, ok) = atoi (trim_space v) in if ok \<and> 0 < sec then wrap64 (sec * 1000000000) else timeout)
               else timeout
           | _ \<Rightarrow> timeout)
         0 (tl parts)))"


section \<open>What a server sends\<close>

text \<open>A response as text, with its length, and a frame; the connection carries any sequence of them.\<close>

datatype rtsp_item =
    Frame byte "byte list"
  | Response nat string "(string \<times> string) list" "byte list"

definition no_break :: "string \<Rightarrow> bool" where
  "no_break s \<longleftrightarrow> CR \<notin> set s \<and> LF \<notin> set s"

definition header_ok :: "string \<times> string \<Rightarrow> bool" where
  "header_ok = (\<lambda>(n, v). n \<noteq> [] \<and> CHR '':'' \<notin> set n \<and> no_break n \<and> no_break v \<and> trimmed n \<and> trimmed v)"

fun item_good :: "rtsp_item \<Rightarrow> bool" where
  "item_good (Frame ch payload) \<longleftrightarrow> length payload \<le> 65535"
| "item_good (Response code reason hs body) \<longleftrightarrow>
     code < 2 ^ 63 \<and> no_break reason \<and> (\<forall>h \<in> set hs. header_ok h \<and> to_lower (fst h) \<noteq> ''content-length'')
     \<and> int (length body) \<le> maxRTSPBodySize"

definition header_text :: "string \<times> string \<Rightarrow> string" where
  "header_text = (\<lambda>(n, v). n @ '': '' @ v)"

definition all_headers :: "(string \<times> string) list \<Rightarrow> byte list \<Rightarrow> (string \<times> string) list" where
  "all_headers hs body = hs @ [(''Content-Length'', show_nat (length body))]"

fun item_bytes :: "rtsp_item \<Rightarrow> byte list" where
  "item_bytes (Frame ch payload) = interleaved_frame ch payload"
| "item_bytes (Response code reason hs body) =
     string_bytes (''RTSP/1.0 '' @ show_nat code @ '' '' @ reason @ CRLF
       @ concat (map (\<lambda>h. header_text h @ CRLF) (all_headers hs body)) @ CRLF) @ body"

fun item_response :: "rtsp_item \<Rightarrow> rtsp_response list" where
  "item_response (Frame ch payload) = []"
| "item_response (Response code reason hs body) =
     (let hs = map (\<lambda>(n, v). (to_lower n, v)) (all_headers hs body) in
      [\<lparr>rs_StatusCode = int code, rs_Reason = reason, rs_Header = header_map hs, rs_HeaderValues = header_values hs, rs_Body = body\<rparr>])"

lemma string_bytes_simps [simp]: "string_bytes (a @ b) = string_bytes a @ string_bytes b" "string_bytes [] = []"
  by (simp_all add: string_bytes_def)

lemma byte_char: "(of_char c :: byte) = 0x0A \<longleftrightarrow> c = LF"
proof -
  have "(of_char c :: byte) = of_char LF \<longleftrightarrow> c = LF"
  proof
    assume "(of_char c :: byte) = of_char LF"
    then have "bytes_string [of_char c] = bytes_string [of_char LF]" by simp
    moreover have "bytes_string [of_char d] = [d]" for d
      using bytes_string_bytes [of "[d]"] by (simp add: string_bytes_def)
    ultimately show "c = LF" by simp
  qed simp
  then show ?thesis by (simp add: LF_def)
qed

lemma read_line_text:
  assumes "no_break l"
  shows "read_line (string_bytes (l @ CRLF) @ r) = Some (l, r)"
proof -
  have low: "\<forall>b \<in> set (string_bytes (l @ [CR])). b \<noteq> 0x0A"
    using assms by (auto simp: string_bytes_def byte_char no_break_def CR_def LF_def)
  have s: "string_bytes (l @ CRLF) @ r = string_bytes (l @ [CR]) @ 0x0A # r"
    by (simp add: string_bytes_def CRLF_def LF_def)
  have t: "takeWhile (\<lambda>b. b \<noteq> 0x0A) (string_bytes (l @ [CR]) @ 0x0A # r) = string_bytes (l @ [CR])"
    "dropWhile (\<lambda>b. b \<noteq> 0x0A) (string_bytes (l @ [CR]) @ 0x0A # r) = 0x0A # r"
    using low by (simp_all add: takeWhile_append2 dropWhile_append2)
  have "trim_right_crlf (l @ [CR]) = l"
  proof (cases "l = []")
    case False
    then have "last l \<noteq> CR" "last l \<noteq> LF" using assms by (metis last_in_set no_break_def)+
    then show ?thesis using False by (simp add: trim_right_crlf_def dropWhile_eq_self_iff hd_rev rev_swap)
  qed (simp add: trim_right_crlf_def)
  then show ?thesis unfolding read_line_def s t by (simp del: string_bytes_simps)
qed


lemma trim_space_cons: "is_space c \<Longrightarrow> trim_space (c # v) = trim_space v"
  by (simp add: trim_space_def trim_left_def)

lemma header_line_text: "header_ok (n, v) \<Longrightarrow> header_line (header_text (n, v)) = [(to_lower n, v)]"
proof -
  assume ok: "header_ok (n, v)"
  then have "split2 '':'' (n @ '':'' @ '' '' @ v) = [n, '' '' @ v]"
    by (intro split2_cut) (auto simp: header_ok_def)
  moreover have "trim_space ('' '' @ v) = v" using ok
    by (simp add: trim_space_cons is_space_def trim_space_trimmed header_ok_def)
  ultimately show ?thesis using ok by (simp add: header_line_def header_text_def trim_space_trimmed header_ok_def)
qed

lemma header_text_facts:
  assumes "header_ok h"
  shows "no_break (header_text h)" "header_text h \<noteq> []"
  using assms by (auto simp: header_ok_def header_text_def no_break_def CR_def LF_def)

lemma read_headers_text:
  assumes "\<forall>h \<in> set hs. header_ok h"
  shows "read_headers (string_bytes (concat (map (\<lambda>h. header_text h @ CRLF) hs) @ CRLF) @ r) = Some (map (\<lambda>(n, v). (to_lower n, v)) hs, r)"
  using assms
proof (induction hs)
  case Nil
  have "read_line (string_bytes ([] @ CRLF) @ r) = Some ([], r)" by (rule read_line_text) (simp add: no_break_def)
  then show ?case by (simp add: read_headers.simps del: string_bytes_simps)
next
  case (Cons h hs)
  obtain n v where h: "h = (n, v)" by (cases h)
  let ?r = "string_bytes (concat (map (\<lambda>h. header_text h @ CRLF) hs) @ CRLF) @ r"
  have "read_line (string_bytes (header_text h @ CRLF) @ ?r) = Some (header_text h, ?r)"
    using Cons.prems header_text_facts by (intro read_line_text) simp
  moreover have "string_bytes (concat (map (\<lambda>h. header_text h @ CRLF) (h # hs)) @ CRLF) @ r = string_bytes (header_text h @ CRLF) @ ?r"
    by simp
  ultimately show ?case
    using Cons header_text_facts(2) [of h] header_line_text [of n v] h
    by (subst read_headers.simps) (simp del: string_bytes_simps)
qed

lemma status_line_text:
  assumes "code < 2 ^ 63"
  shows "status_line (''RTSP/1.0 '' @ show_nat code @ '' '' @ reason) = Inr (int code, reason)"
proof -
  have "cut '' '' (''RTSP/1.0'' @ '' '' @ show_nat code @ '' '' @ reason) = Some (''RTSP/1.0'', show_nat code @ '' '' @ reason)"
    by (rule cut_first) simp_all
  moreover have "split2 '' '' (show_nat code @ '' '' @ reason) = [show_nat code, reason]"
    using show_nat_no_space [of code] by (intro split2_cut) (auto simp: list_all_iff is_space_def)
  ultimately have "split3 '' '' (''RTSP/1.0 '' @ show_nat code @ '' '' @ reason) = [''RTSP/1.0'', show_nat code, reason]"
    by (simp add: split3_def)
  then show ?thesis using assms by (simp add: status_line_def atoi_show_nat)
qed

lemma trimmed_show_nat: "trimmed (show_nat n)"
  using show_nat_no_space [of n] by (auto simp: trimmed_def list_all_iff)

lemma low_content_length: "to_lower ''Content-Length'' = ''content-length''"
  by code_simp

lemma content_length_text:
  assumes "int n \<le> maxRTSPBodySize"
  shows "content_length (header_map (hs @ [(''content-length'', show_nat n)])) = Inr (int n)"
  using assms by (simp add: content_length_def header_map_def get_header_def trim_space_trimmed trimmed_show_nat atoi_show_nat
      maxRTSPBodySize_def Let_def)

lemma readResponse_text:
  assumes "item_good (Response code reason hs body)"
  shows "readResponse (item_bytes (Response code reason hs body) @ r) = Inr (hd (item_response (Response code reason hs body)), r)"
proof -
  let ?first = "''RTSP/1.0 '' @ show_nat code @ '' '' @ reason" and ?hs = "all_headers hs body"
  let ?rest = "string_bytes (concat (map (\<lambda>h. header_text h @ CRLF) ?hs) @ CRLF) @ body @ r"
  have digits: "no_break (show_nat n)" for n
    using show_nat_digits [of n] by (auto simp: no_break_def list_all_iff dest: is_digit_facts(4,5))
  have "no_break ?first" using assms digits by (auto simp: no_break_def CR_def LF_def)
  then have line: "read_line (string_bytes (?first @ CRLF) @ ?rest) = Some (?first, ?rest)" by (rule read_line_text)
  have len: "header_ok (''Content-Length'', show_nat (length body))"
    using digits trimmed_show_nat by (auto simp: header_ok_def no_break_def CR_def LF_def) (simp add: trimmed_def is_space_def)
  have hdrs: "read_headers ?rest = Some (map (\<lambda>(n, v). (to_lower n, v)) ?hs, body @ r)"
    by (rule read_headers_text) (use assms len in \<open>auto simp: all_headers_def\<close>)
  have low: "map (\<lambda>(n, v). (to_lower n, v)) ?hs = map (\<lambda>(n, v). (to_lower n, v)) hs @ [(''content-length'', show_nat (length body))]"
    by (simp add: all_headers_def low_content_length)
  have cl: "content_length (header_map (map (\<lambda>(n, v). (to_lower n, v)) ?hs)) = Inr (int (length body))"
    unfolding low by (rule content_length_text) (use assms in simp)
  have split: "item_bytes (Response code reason hs body) @ r = string_bytes (?first @ CRLF) @ ?rest"
    by (simp only: item_bytes.simps string_bytes_simps append_assoc)
  have "status_line ?first = Inr (int code, reason)" using assms by (intro status_line_text) simp
  then show ?thesis
    unfolding split readResponse_def line option.case prod.case hdrs
    by (simp add: cl read_full_append Let_def)
qed

lemma skip_frame_text:
  assumes "length p \<le> 65535"
  shows "skip_frame (interleaved_frame ch p @ r) = Some r"
proof -
  have "read_full 4 ([0x24, ch] @ be16 (of_nat (length p)) @ p @ r) = Some ([0x24, ch] @ be16 (of_nat (length p)), p @ r)"
    using read_full_append [of "[0x24, ch] @ be16 (of_nat (length p))" 4] by simp
  moreover have "unat (of_be16 (be16 (of_nat (length p)) ! 0) (be16 (of_nat (length p)) ! 1)) = length p"
    using assms by (simp add: wire_defs unat_small)
  ultimately show ?thesis by (simp add: skip_frame_def interleaved_frame_def read_full_append nth_append numeral_2_eq_2 numeral_3_eq_3)
qed

lemma item_head: "hd (item_bytes (Response code reason hs body) @ r) = 0x52" "item_bytes (Response code reason hs body) \<noteq> []"
  by (simp_all add: string_bytes_def)

lemma read_loop_items:
  "\<forall>x \<in> set items. item_good x \<Longrightarrow> read_loop (concat (map item_bytes items)) = (concat (map item_response items), Rtsp_eof)"
proof (induction items)
  case Nil
  show ?case by (simp add: read_loop.simps)
next
  case (Cons x xs)
  let ?r = "concat (map item_bytes xs)"
  show ?case
  proof (cases x)
    case (Frame ch p)
    then have "skip_frame (interleaved_frame ch p @ ?r) = Some ?r" using Cons.prems by (intro skip_frame_text) simp
    then show ?thesis using Cons Frame by (subst read_loop.simps) (simp add: interleaved_frame_def)
  next
    case (Response code reason hs body)
    have res: "readResponse (item_bytes x @ ?r) = Inr (hd (item_response x), ?r)"
      unfolding Response by (rule readResponse_text) (use Cons.prems Response in simp)
    obtain bs where bs: "item_bytes x @ ?r = 0x52 # bs"
      using item_head(1) [of code reason hs body ?r] item_head(2) [of code reason hs body] unfolding Response
      by (metis append_is_Nil_conv list.collapse)
    have "read_loop (item_bytes x @ ?r) = (hd (item_response x) # concat (map item_response xs), Rtsp_eof)"
      using Cons res unfolding bs by (subst read_loop.simps) simp
    then show ?thesis by (simp add: Response Let_def)
  qed
qed

section \<open>Properties\<close>

text \<open>The connection carries two things at once and the reader keeps them apart: from any sequence of responses and
  interleaved media frames, whatever bytes the frames and the bodies hold, it reads exactly the responses in their order,
  each with its status, its headers with lower-case names and every value of a repeated header, and its body.\<close>

lemma rtsp_responses_read:
  assumes "\<forall>x \<in> set items. item_good x"
  shows "read_loop (concat (map item_bytes items)) = (concat (map item_response items), Rtsp_eof)"
  using assms by (rule read_loop_items)

lemma first_some_hit: "first_some f xs = Some y \<Longrightarrow> \<exists>x \<in> set xs. f x = Some y"
  by (induction xs) (auto split: option.splits)

lemma first_some_none: "first_some f xs = None \<longleftrightarrow> (\<forall>x \<in> set xs. f x = None)"
  by (induction xs) (auto split: option.splits)

text \<open>A backchannel is only what the camera offers as one: it belongs to an audio medium the camera wants to receive, its
  payload type is listed there, and its codec is the G.711 law that the medium maps the type to or, without a mapping,
  the static one; and when the search fails no such medium lists such a type.\<close>

lemma backchannel_sound:
  "(case findBackchannel u sdp base of
      Some bc \<Rightarrow> \<exists>m \<in> set (parseSDP sdp). \<exists>pt \<in> set (m_Payloads m).
        m_Kind m = ''audio'' \<and> m_Direction m = ''sendonly'' \<and> bc_PayloadType bc = of_int pt
        \<and> bc_ControlURL bc = resolveControl u base (m_Control m)
        \<and> (bc_Codec bc = ''pcma'' \<and> (rtpmap_name m pt = ''PCMA'' \<or> rtpmap_name m pt = [] \<and> pt = 8)
           \<or> bc_Codec bc = ''pcmu'' \<and> (rtpmap_name m pt = ''PCMU'' \<or> rtpmap_name m pt = [] \<and> pt = 0))
    | None \<Rightarrow> \<forall>m \<in> set (parseSDP sdp). m_Kind m = ''audio'' \<and> m_Direction m = ''sendonly'' \<longrightarrow>
        (\<forall>pt \<in> set (m_Payloads m). rtpmap_name m pt \<notin> {''PCMA'', ''PCMU''} \<and> (rtpmap_name m pt = [] \<longrightarrow> pt \<notin> {0, 8})))"
proof (cases "findBackchannel u sdp base")
  case None
  then have none: "\<forall>m \<in> set (parseSDP sdp). media_backchannel u base m = None"
    by (simp add: findBackchannel_def first_some_none)
  have "rtpmap_name m pt \<notin> {''PCMA'', ''PCMU''} \<and> (rtpmap_name m pt = [] \<longrightarrow> pt \<notin> {0, 8})"
    if "m \<in> set (parseSDP sdp)" "m_Kind m = ''audio''" "m_Direction m = ''sendonly''" "pt \<in> set (m_Payloads m)" for m pt
  proof -
    have "backchannel_codec m pt = None"
      using none that by (auto simp: media_backchannel_def first_some_none)
    then show ?thesis by (auto simp: backchannel_codec_def Let_def split: if_splits)
  qed
  then show ?thesis using None by simp
next
  case (Some bc)
  then obtain m where m: "m \<in> set (parseSDP sdp)" "media_backchannel u base m = Some bc"
    by (auto simp: findBackchannel_def dest: first_some_hit)
  then obtain pt where pt: "m_Kind m = ''audio''" "m_Direction m = ''sendonly''" "pt \<in> set (m_Payloads m)"
      "bc_PayloadType bc = of_int pt" "bc_ControlURL bc = resolveControl u base (m_Control m)"
      "backchannel_codec m pt = Some (bc_Codec bc)"
    by (auto simp: media_backchannel_def split: if_splits dest!: first_some_hit)
  have "bc_Codec bc = ''pcma'' \<and> (rtpmap_name m pt = ''PCMA'' \<or> rtpmap_name m pt = [] \<and> pt = 8)
      \<or> bc_Codec bc = ''pcmu'' \<and> (rtpmap_name m pt = ''PCMU'' \<or> rtpmap_name m pt = [] \<and> pt = 0)"
    using pt(6) by (auto simp: backchannel_codec_def Let_def split: if_splits)
  then have "\<exists>pt \<in> set (m_Payloads m). m_Kind m = ''audio'' \<and> m_Direction m = ''sendonly'' \<and> bc_PayloadType bc = of_int pt
      \<and> bc_ControlURL bc = resolveControl u base (m_Control m)
      \<and> (bc_Codec bc = ''pcma'' \<and> (rtpmap_name m pt = ''PCMA'' \<or> rtpmap_name m pt = [] \<and> pt = 8)
         \<or> bc_Codec bc = ''pcmu'' \<and> (rtpmap_name m pt = ''PCMU'' \<or> rtpmap_name m pt = [] \<and> pt = 0))"
    by (intro bexI [of _ pt] conjI pt)
  then show ?thesis unfolding Some option.case by (rule bexI [OF _ m(1)])
qed

end
