(* ===== verification/RtspClient.thy ===== *)
theory RtspClient
  imports RtspText Digest Rtp
begin

text \<open>
  The RTSP client of \<^verbatim>\<open>internal/rtsp/client.go\<close>: requests with digest authentication, the opening and closing of a
  backchannel, the audio written to it, the sender reports and the keepalive.  Sending a request and waiting for its
  response is a parameter that acts on the world outside; times are integers of nanoseconds.
\<close>

section \<open>The client\<close>

text \<open>\<open>rc_uses\<close> records the credentials that were computed: which challenge, and with which count.\<close>

record rtsp_client =
  rc_cseq :: u32
  rc_session :: string
  rc_baseURI :: string
  rc_sessionTimeout :: int
  rc_auth :: "Challenge option"
  rc_nc :: u32
  rc_closed :: bool
  rc_readErr :: bool
  rc_rtp :: byte
  rc_rtcp :: byte
  rc_ssrc :: u32
  rc_seq :: u16
  rc_timestamp :: u32
  rc_packets :: u32
  rc_octets :: u32
  rc_uses :: "(Challenge \<times> u32) list"

definition rtsp_new :: rtsp_client where
  "rtsp_new =
     \<lparr>rc_cseq = 0, rc_session = [], rc_baseURI = [], rc_sessionTimeout = 0, rc_auth = None, rc_nc = 0, rc_closed = False,
      rc_readErr = False, rc_rtp = 0, rc_rtcp = 1, rc_ssrc = 0, rc_seq = 0, rc_timestamp = 0, rc_packets = 0, rc_octets = 0,
      rc_uses = []\<rparr>"

datatype rtsp_failure =
    Request_error
  | Authentication_error digest_error
  | No_challenge
  | Bad_response string int string
  | No_backchannel
  | No_session

text \<open>\<open>exchange\<close> writes the bytes of a request and gives its response, or nothing when the write fails, the time is over or the
  connection ends; \<open>map_order\<close> is the order in which a header map is printed.\<close>

record 'w rtsp_env =
  exchange :: "byte list \<Rightarrow> 'w \<Rightarrow> 'w \<times> rtsp_response option"
  rt_username :: string
  rt_password :: string
  rt_hash :: hashes
  rt_random :: "u32 \<Rightarrow> byte list option"
  map_order :: "(string \<times> string) list \<Rightarrow> (string \<times> string) list"

section \<open>Requests\<close>

definition header_print :: "string \<Rightarrow> string \<Rightarrow> string" where
  "header_print n v = n @ '': '' @ v @ CRLF"

definition request_text :: "'w rtsp_env \<Rightarrow> string \<Rightarrow> string \<Rightarrow> (string \<times> string) list \<Rightarrow> byte list \<Rightarrow> string \<Rightarrow> rtsp_client \<Rightarrow> byte list" where
  "request_text env verb uri headers body auth cl =
     string_bytes
       (verb @ '' '' @ uri @ '' RTSP/1.0'' @ CRLF
        @ header_print ''CSeq'' (show_nat (unat (rc_cseq cl)))
        @ header_print ''User-Agent'' ''ReolinkSIPGateway/1.5.0''
        @ (if rc_session cl \<noteq> [] \<and> verb \<noteq> ''DESCRIBE'' then header_print ''Session'' (rc_session cl) else [])
        @ (if auth \<noteq> [] then header_print ''Authorization'' auth else [])
        @ concat (map (\<lambda>(k, v). header_print k v) (map_order env headers))
        @ (if body \<noteq> [] then header_print ''Content-Length'' (show_nat (length body)) else [])
        @ CRLF)
     @ body"

text \<open>The next credentials for a challenge: the count goes up by one.\<close>

definition credentials :: "'w rtsp_env \<Rightarrow> string \<Rightarrow> string \<Rightarrow> Challenge \<Rightarrow> rtsp_client \<Rightarrow> string \<times> rtsp_client" where
  "credentials env verb uri ch cl =
     (let nc = rc_nc cl + 1 in
      (Authorization (rt_hash env) (rt_random env nc) ch (rt_username env) (rt_password env) verb uri nc,
       cl\<lparr>rc_nc := nc, rc_uses := rc_uses cl @ [(ch, nc)]\<rparr>))"

definition doOnce ::
  "'w rtsp_env \<Rightarrow> string \<Rightarrow> string \<Rightarrow> (string \<times> string) list \<Rightarrow> byte list \<Rightarrow> string \<Rightarrow> rtsp_client \<Rightarrow> 'w
   \<Rightarrow> rtsp_client \<times> 'w \<times> rtsp_response option" where
  "doOnce env verb uri headers body auth cl w =
     (let cl = cl\<lparr>rc_cseq := rc_cseq cl + 1\<rparr>;
          (auth, cl) =
            (if auth \<noteq> [] then (auth, cl)
             else case rc_auth cl of Some ch \<Rightarrow> credentials env verb uri ch cl | None \<Rightarrow> ([], cl));
          (w, res) = exchange env (request_text env verb uri headers body auth cl) w
      in (cl, w, res))"

definition responseHeaderValues :: "rtsp_response \<Rightarrow> string \<Rightarrow> string list" where
  "responseHeaderValues res name =
     (let name = to_lower (trim_space name) in
      if rs_HeaderValues res name \<noteq> [] then rs_HeaderValues res name
      else if get_header (rs_Header res) name \<noteq> [] then [get_header (rs_Header res) name]
      else [])"

text \<open>The first challenge that parses, else the first error.\<close>

fun first_challenge :: "((string \<times> string) list \<Rightarrow> (string \<times> string) list) \<Rightarrow> digest_error option \<Rightarrow> string list \<Rightarrow> rtsp_failure + Challenge" where
  "first_challenge ord first [] = Inl (case first of Some e \<Rightarrow> Authentication_error e | None \<Rightarrow> No_challenge)"
| "first_challenge ord first (v # vs) =
     (case Parse_challenge ord v of
        Inr ch \<Rightarrow> Inr ch
      | Inl e \<Rightarrow> first_challenge ord (if first = None then Some e else first) vs)"

definition chooseDigestChallenge :: "'w rtsp_env \<Rightarrow> string list \<Rightarrow> rtsp_failure + Challenge" where
  "chooseDigestChallenge env values = first_challenge (map_order env) None values"

definition same_challenge :: "Challenge \<Rightarrow> Challenge \<Rightarrow> bool" where
  "same_challenge a b \<longleftrightarrow> Nonce a = Nonce b \<and> Realm a = Realm b \<and> equal_fold (Algorithm a) (Algorithm b)"

definition accept_challenge :: "Challenge \<Rightarrow> rtsp_client \<Rightarrow> rtsp_client" where
  "accept_challenge ch cl =
     (let nonceChanged = (case rc_auth cl of None \<Rightarrow> True | Some old \<Rightarrow> \<not> same_challenge old ch)
      in cl\<lparr>rc_auth := Some ch, rc_nc := (if nonceChanged then 0 else rc_nc cl)\<rparr>)"

text \<open>The retries: at most as many challenges as the counter says.\<close>

fun auth_loop ::
  "'w rtsp_env \<Rightarrow> string \<Rightarrow> string \<Rightarrow> (string \<times> string) list \<Rightarrow> byte list \<Rightarrow> nat \<Rightarrow> rtsp_response \<Rightarrow> rtsp_client \<Rightarrow> 'w
   \<Rightarrow> rtsp_client \<times> 'w \<times> (rtsp_failure + rtsp_response)" where
  "auth_loop env verb uri headers body 0 res cl w = (cl, w, Inr res)"
| "auth_loop env verb uri headers body (Suc k) res cl w =
     (case chooseDigestChallenge env (responseHeaderValues res ''www-authenticate'') of
        Inl e \<Rightarrow> (cl, w, Inl e)
      | Inr ch \<Rightarrow>
          let (auth, cl) = credentials env verb uri ch (accept_challenge ch cl);
              (cl, w, r) = doOnce env verb uri headers body auth cl w
          in case r of
               None \<Rightarrow> (cl, w, Inl Request_error)
             | Some res \<Rightarrow>
                 if rs_StatusCode res \<noteq> 401 then (cl, w, Inr res) else auth_loop env verb uri headers body k res cl w)"

definition maxAuthRetries :: nat where "maxAuthRetries = 3"

definition do_request ::
  "'w rtsp_env \<Rightarrow> string \<Rightarrow> string \<Rightarrow> (string \<times> string) list \<Rightarrow> byte list \<Rightarrow> rtsp_client \<Rightarrow> 'w
   \<Rightarrow> rtsp_client \<times> 'w \<times> (rtsp_failure + rtsp_response)" where
  "do_request env verb uri headers body cl w =
     (let (cl, w, r) = doOnce env verb uri headers body [] cl w in
      case r of
        None \<Rightarrow> (cl, w, Inl Request_error)
      | Some res \<Rightarrow>
          if rs_StatusCode res \<noteq> 401 then (cl, w, Inr res)
          else auth_loop env verb uri headers body maxAuthRetries res cl w)"

section \<open>Opening and closing\<close>

definition rtsp_close :: "rtsp_client \<Rightarrow> rtsp_client" where
  "rtsp_close cl = cl\<lparr>rc_closed := True\<rparr>"

definition require_backchannel :: "string \<times> string" where
  "require_backchannel = (''Require'', ''www.onvif.org/ver20/backchannel'')"

text \<open>A request that must be answered with 200; anything else closes the client.\<close>

definition must_do ::
  "'w rtsp_env \<Rightarrow> string \<Rightarrow> string \<Rightarrow> (string \<times> string) list \<Rightarrow> rtsp_client \<Rightarrow> 'w \<Rightarrow> rtsp_client \<times> 'w \<times> (rtsp_failure + rtsp_response)" where
  "must_do env verb uri headers cl w =
     (case do_request env verb uri headers [] cl w of
        (cl, w, Inl e) \<Rightarrow> (rtsp_close cl, w, Inl e)
      | (cl, w, Inr res) \<Rightarrow>
          if rs_StatusCode res \<noteq> 200 then (rtsp_close cl, w, Inl (Bad_response verb (rs_StatusCode res) (rs_Reason res)))
          else (cl, w, Inr res))"

definition setup_headers :: "rtsp_client \<Rightarrow> (string \<times> string) list" where
  "setup_headers cl =
     [(''Transport'', ''RTP/AVP/TCP;unicast;interleaved='' @ show_nat (unat (rc_rtp cl)) @ ''-'' @ show_nat (unat (rc_rtcp cl))),
      require_backchannel]"

text \<open>The answer to SETUP: the session, its timeout and the channels.\<close>

definition accept_setup :: "rtsp_response \<Rightarrow> rtsp_client \<Rightarrow> rtsp_client" where
  "accept_setup res cl =
     (let (sid, timeout) = parseSession (get_header (rs_Header res) ''session'');
          tr = get_header (rs_Header res) ''transport'';
          cl = cl\<lparr>rc_session := sid, rc_sessionTimeout := timeout\<rparr>
      in if sid = [] then rtsp_close cl
         else if tr = [] then cl
         else (let (a, b) = parseInterleaved tr (rc_rtp cl, rc_rtcp cl) in cl\<lparr>rc_rtp := a, rc_rtcp := b\<rparr>))"

text \<open>\<open>ids\<close> are the random SSRC, first sequence number and first timestamp.  An inner \<open>None\<close> is a panic of the control URL.\<close>

definition rtsp_open ::
  "'w rtsp_env \<Rightarrow> 'u url_ops \<Rightarrow> string \<Rightarrow> u32 \<times> u32 \<times> u32 \<Rightarrow> rtsp_client \<Rightarrow> 'w
   \<Rightarrow> rtsp_client \<times> 'w \<times> (rtsp_failure + Backchannel) option" where
  "rtsp_open env u url ids cl w =
     (case must_do env ''DESCRIBE'' url [(''Accept'', ''application/sdp''), require_backchannel] cl w of
        (cl, w, Inl e) \<Rightarrow> (cl, w, Some (Inl e))
      | (cl, w, Inr res) \<Rightarrow>
          let base = get_header (rs_Header res) ''content-base'';
              base = (if base = [] then url else base);
              cl = cl\<lparr>rc_baseURI := base\<rparr>
          in case findBackchannel u (bytes_string (rs_Body res)) base of
               None \<Rightarrow> (rtsp_close cl, w, Some (Inl No_backchannel))
             | Some bc \<Rightarrow>
                 (case bc_ControlURL bc of
                    None \<Rightarrow> (cl, w, None)
                  | Some control \<Rightarrow>
                      (case must_do env ''SETUP'' control (setup_headers cl) cl w of
                         (cl, w, Inl e) \<Rightarrow> (cl, w, Some (Inl e))
                       | (cl, w, Inr res) \<Rightarrow>
                           let cl = accept_setup res cl in
                           if rc_session cl = [] then (cl, w, Some (Inl No_session))
                           else case must_do env ''PLAY'' base [require_backchannel] cl w of
                             (cl, w, Inl e) \<Rightarrow> (cl, w, Some (Inl e))
                           | (cl, w, Inr res) \<Rightarrow>
                               (case ids of (a, b, t) \<Rightarrow>
                                  (cl\<lparr>rc_ssrc := a, rc_seq := ucast b, rc_timestamp := t\<rparr>, w, Some (Inr bc))))))"

text \<open>A second shutdown does nothing; a missing session (454) counts as closed.\<close>

definition rtsp_shutdown :: "'w rtsp_env \<Rightarrow> rtsp_client \<Rightarrow> 'w \<Rightarrow> rtsp_client \<times> 'w \<times> rtsp_failure option" where
  "rtsp_shutdown env cl w =
     (if rc_closed cl then (cl, w, None)
      else if rc_session cl = [] \<or> rc_baseURI cl = [] then (rtsp_close cl, w, None)
      else case do_request env ''TEARDOWN'' (rc_baseURI cl) [require_backchannel] [] cl w of
        (cl, w, Inl e) \<Rightarrow> (rtsp_close cl, w, Some e)
      | (cl, w, Inr res) \<Rightarrow>
          (rtsp_close cl, w,
           if rs_StatusCode res \<noteq> 200 \<and> rs_StatusCode res \<noteq> 454 then Some (Bad_response ''TEARDOWN'' (rs_StatusCode res) (rs_Reason res))
           else None))"

section \<open>Media\<close>

definition audio_packet :: "rtsp_client \<Rightarrow> byte list \<Rightarrow> byte \<Rightarrow> packet" where
  "audio_packet cl payload payloadType =
     \<lparr>PayloadType = payloadType, Marker = False, Sequence = rc_seq cl, Timestamp = rc_timestamp cl, SSRC = rc_ssrc cl, Payload = payload\<rparr>"

text \<open>The frame that is written, none when the client is closed.\<close>

definition WriteAudio :: "byte list \<Rightarrow> byte \<Rightarrow> rtsp_client \<Rightarrow> rtsp_client \<times> byte list option" where
  "WriteAudio payload payloadType cl =
     (if rc_closed cl then (cl, None)
      else
        (cl\<lparr>rc_seq := rc_seq cl + 1, rc_timestamp := rc_timestamp cl + of_nat (length payload), rc_packets := rc_packets cl + 1,
            rc_octets := rc_octets cl + of_nat (length payload)\<rparr>,
         Some (interleaved_frame (rc_rtp cl) (Marshal (audio_packet cl payload payloadType)))))"

text \<open>\<open>ntp\<close>: seconds since 1900 and the fraction, from seconds and nanoseconds since 1970.\<close>

definition ntp :: "int \<Rightarrow> nat \<Rightarrow> u32 \<times> u32" where
  "ntp unix nanosecond = (of_int (unix + 2208988800), of_nat (nanosecond * 2 ^ 32 div 1000000000))"

definition signalReadErr :: "rtsp_client \<Rightarrow> rtsp_client" where
  "signalReadErr cl = rtsp_close (cl\<lparr>rc_readErr := True\<rparr>)"

definition sender_report_tick :: "int \<Rightarrow> nat \<Rightarrow> bool \<Rightarrow> rtsp_client \<Rightarrow> rtsp_client \<times> byte list" where
  "sender_report_tick unix nanosecond ok cl =
     (let (sec, frac) = ntp unix nanosecond;
          sr = interleaved_frame (rc_rtcp cl) (SenderReport (rc_ssrc cl) (rc_timestamp cl) (rc_packets cl) (rc_octets cl) sec frac)
      in (if ok then cl else signalReadErr cl, sr))"

section \<open>Keepalive\<close>







section \<open>The nonce counts\<close>

text \<open>Each use of a challenge counts on from the last one if it is the same challenge, else it starts at one.\<close>

definition next_count :: "(Challenge \<times> u32) option \<Rightarrow> Challenge \<Rightarrow> u32" where
  "next_count p ch = (case p of Some (c, m) \<Rightarrow> if same_challenge c ch then m + 1 else 1 | None \<Rightarrow> 1)"

fun counts_from :: "(Challenge \<times> u32) option \<Rightarrow> (Challenge \<times> u32) list \<Rightarrow> bool" where
  "counts_from p [] = True"
| "counts_from p ((ch, n) # us) \<longleftrightarrow> n = next_count p ch \<and> counts_from (Some (ch, n)) us"

definition counts_ok :: "(Challenge \<times> u32) list \<Rightarrow> bool" where
  "counts_ok us = counts_from None us"

lemma counts_from_snoc:
  "counts_from p (us @ [(ch, n)]) \<longleftrightarrow> counts_from p us \<and> n = next_count (if us = [] then p else Some (last us)) ch"
  by (induction p us rule: counts_from.induct) auto

lemma counts_snoc:
  "counts_ok (us @ [(ch, n)]) \<longleftrightarrow>
   counts_ok us \<and> n = (if us \<noteq> [] \<and> same_challenge (fst (last us)) ch then snd (last us) + 1 else 1)"
  by (simp add: counts_ok_def counts_from_snoc next_count_def case_prod_unfold)

definition auth_inv :: "rtsp_client \<Rightarrow> bool" where
  "auth_inv cl \<longleftrightarrow>
     counts_ok (rc_uses cl)
     \<and> (if rc_uses cl = [] then rc_auth cl = None \<and> rc_nc cl = 0
        else rc_auth cl = Some (fst (last (rc_uses cl))) \<and> rc_nc cl = snd (last (rc_uses cl)))"

lemma same_challenge_refl [simp]: "same_challenge ch ch"
  by (simp add: same_challenge_def equal_fold_def)

lemma same_credentials:
  assumes "auth_inv cl" "rc_auth cl = Some ch"
  shows "auth_inv (snd (credentials env verb uri ch cl))"
  using assms by (auto simp: auth_inv_def credentials_def Let_def counts_snoc split: if_splits)

lemma new_credentials:
  assumes "auth_inv cl"
  shows "auth_inv (snd (credentials env verb uri ch (accept_challenge ch cl)))"
  using assms
  by (auto simp: auth_inv_def credentials_def accept_challenge_def Let_def counts_snoc split: option.splits if_splits)

text \<open>What one request changes: the sequence number goes up by one, at most one credential is added, the rest stays.\<close>

lemma credentials_fields [simp]:
  "rc_cseq (snd (credentials env verb uri ch cl)) = rc_cseq cl" "rc_closed (snd (credentials env verb uri ch cl)) = rc_closed cl"
  "rc_session (snd (credentials env verb uri ch cl)) = rc_session cl" "rc_baseURI (snd (credentials env verb uri ch cl)) = rc_baseURI cl"
  by (simp_all add: credentials_def Let_def)

lemma accept_fields [simp]:
  "rc_cseq (accept_challenge ch cl) = rc_cseq cl" "rc_closed (accept_challenge ch cl) = rc_closed cl"
  "rc_session (accept_challenge ch cl) = rc_session cl" "rc_baseURI (accept_challenge ch cl) = rc_baseURI cl"
  by (simp_all add: accept_challenge_def Let_def)

lemma doOnce_facts:
  assumes "doOnce env verb uri headers body auth cl w = (cl', w', r)"
  shows "rc_cseq cl' = rc_cseq cl + 1" "rc_closed cl' = rc_closed cl" "rc_session cl' = rc_session cl"
    "auth_inv cl \<Longrightarrow> auth_inv cl'"
proof -
  let ?c = "cl\<lparr>rc_cseq := rc_cseq cl + 1\<rparr>"
  have cl': "cl' = (if auth \<noteq> [] then ?c else case rc_auth cl of Some ch \<Rightarrow> snd (credentials env verb uri ch ?c) | None \<Rightarrow> ?c)"
    using assms by (auto simp: doOnce_def Let_def case_prod_unfold split: option.splits if_splits)
  have inv: "auth_inv ?c = auth_inv cl" by (simp add: auth_inv_def)
  show "rc_cseq cl' = rc_cseq cl + 1" "rc_closed cl' = rc_closed cl" "rc_session cl' = rc_session cl"
    unfolding cl' by (simp_all split: option.split)
  show "auth_inv cl'" if "auth_inv cl"
  proof (cases "rc_auth cl")
    case None
    then show ?thesis unfolding cl' using that inv by simp
  next
    case (Some ch)
    then have "auth_inv (snd (credentials env verb uri ch ?c))" using that inv by (intro same_credentials) simp_all
    then show ?thesis unfolding cl' using that inv Some by simp
  qed
qed

lemma auth_loop_facts:
  "auth_loop env verb uri headers body k res cl w = (cl', w', r) \<Longrightarrow>
   (\<exists>n \<le> k. rc_cseq cl' = rc_cseq cl + of_nat n \<and> (\<forall>res'. r = Inr res' \<and> rs_StatusCode res' = 401 \<longrightarrow> n = k))
   \<and> rc_closed cl' = rc_closed cl \<and> rc_session cl' = rc_session cl \<and> (auth_inv cl \<longrightarrow> auth_inv cl')"
proof (induction k arbitrary: res cl w)
  case (Suc k)
  show ?case
  proof (cases "chooseDigestChallenge env (responseHeaderValues res ''www-authenticate'')")
    case (Inl e)
    then show ?thesis using Suc.prems by (auto intro: exI [of _ 0])
  next
    case (Inr ch)
    obtain au c1 where cr: "credentials env verb uri ch (accept_challenge ch cl) = (au, c1)" by fastforce
    obtain c2 w2 r2 where once: "doOnce env verb uri headers body au c1 w = (c2, w2, r2)"
      by (metis prod_cases3)
    have c1: "c1 = snd (credentials env verb uri ch (accept_challenge ch cl))" by (simp add: cr)
    have one: "rc_cseq c1 = rc_cseq cl" "rc_closed c1 = rc_closed cl" "rc_session c1 = rc_session cl" "auth_inv cl \<Longrightarrow> auth_inv c1"
      unfolding c1 by (simp_all add: new_credentials)
    note two = doOnce_facts [OF once]
    have step: "(case r2 of None \<Rightarrow> (c2, w2, Inl Request_error)
        | Some res \<Rightarrow> if rs_StatusCode res \<noteq> 401 then (c2, w2, Inr res) else auth_loop env verb uri headers body k res c2 w2) = (cl', w', r)"
      using Suc.prems by (simp only: auth_loop.simps Inr cr once Let_def sum.case prod.case)
    consider "cl' = c2" "r = Inl Request_error \<or> (\<exists>res. r = Inr res \<and> rs_StatusCode res \<noteq> 401)"
      | res' where "auth_loop env verb uri headers body k res' c2 w2 = (cl', w', r)"
      using step by (auto split: option.splits if_splits)
    then show ?thesis
    proof cases
      case 1
      then show ?thesis using one two by (intro conjI exI [of _ 1]) auto
    next
      case 2
      then obtain n where n: "n \<le> k" "rc_cseq cl' = rc_cseq c2 + of_nat n"
          "\<forall>res'. r = Inr res' \<and> rs_StatusCode res' = 401 \<longrightarrow> n = k"
        and rest: "rc_closed cl' = rc_closed c2" "rc_session cl' = rc_session c2" "auth_inv c2 \<longrightarrow> auth_inv cl'"
        using Suc.IH by blast
      have "rc_cseq cl' = rc_cseq cl + of_nat (n + 1)" using n(2) two(1) one(1) by simp
      then show ?thesis using n(1,3) rest one two by (intro conjI exI [of _ "n + 1"]) auto
    qed
  qed
qed (auto intro: exI [of _ 0])

lemma do_request_facts:
  assumes "do_request env verb uri headers body cl w = (cl', w', r)"
  shows "\<exists>n \<le> 4. rc_cseq cl' = rc_cseq cl + of_nat n \<and> (\<forall>res. r = Inr res \<and> rs_StatusCode res = 401 \<longrightarrow> n = 4)"
    "rc_closed cl' = rc_closed cl" "rc_session cl' = rc_session cl" "auth_inv cl \<Longrightarrow> auth_inv cl'"
proof -
  obtain c1 w1 r1 where once: "doOnce env verb uri headers body [] cl w = (c1, w1, r1)" by (metis prod_cases3)
  note one = doOnce_facts [OF once]
  have step: "(case r1 of None \<Rightarrow> (c1, w1, Inl Request_error)
      | Some res \<Rightarrow> if rs_StatusCode res \<noteq> 401 then (c1, w1, Inr res) else auth_loop env verb uri headers body maxAuthRetries res c1 w1)
      = (cl', w', r)"
    using assms by (simp only: do_request_def once Let_def prod.case)
  consider "cl' = c1" "r = Inl Request_error \<or> (\<exists>res. r = Inr res \<and> rs_StatusCode res \<noteq> 401)"
    | res' where "auth_loop env verb uri headers body maxAuthRetries res' c1 w1 = (cl', w', r)"
    using step by (auto split: option.splits if_splits)
  then have "(\<exists>n \<le> 4. rc_cseq cl' = rc_cseq cl + of_nat n \<and> (\<forall>res. r = Inr res \<and> rs_StatusCode res = 401 \<longrightarrow> n = 4))
    \<and> rc_closed cl' = rc_closed cl \<and> rc_session cl' = rc_session cl \<and> (auth_inv cl \<longrightarrow> auth_inv cl')"
  proof cases
    case 1
    then show ?thesis using one by (intro conjI exI [of _ 1]) auto
  next
    case 2
    then obtain n where n: "n \<le> 3" "rc_cseq cl' = rc_cseq c1 + of_nat n"
        "\<forall>res'. r = Inr res' \<and> rs_StatusCode res' = 401 \<longrightarrow> n = 3"
      and rest: "rc_closed cl' = rc_closed c1" "rc_session cl' = rc_session c1" "auth_inv c1 \<longrightarrow> auth_inv cl'"
      using auth_loop_facts [OF 2, unfolded maxAuthRetries_def] by blast
    have "rc_cseq cl' = rc_cseq cl + of_nat (n + 1)" using n(2) one(1) by simp
    then show ?thesis using n(1,3) rest one by (intro conjI exI [of _ "n + 1"]) auto
  qed
  then show "\<exists>n \<le> 4. rc_cseq cl' = rc_cseq cl + of_nat n \<and> (\<forall>res. r = Inr res \<and> rs_StatusCode res = 401 \<longrightarrow> n = 4)"
    "rc_closed cl' = rc_closed cl" "rc_session cl' = rc_session cl" "auth_inv cl \<Longrightarrow> auth_inv cl'" by blast+
qed


section \<open>Opening, media and keepalive\<close>

lemma must_do_facts:
  assumes "must_do env verb uri headers cl w = (cl', w', r)"
  shows "(case r of Inl e \<Rightarrow> rc_closed cl' | Inr res \<Rightarrow> rs_StatusCode res = 200 \<and> rc_closed cl' = rc_closed cl \<and> rc_session cl' = rc_session cl)"
proof -
  obtain c1 w1 r1 where d: "do_request env verb uri headers [] cl w = (c1, w1, r1)" by (metis prod_cases3)
  show ?thesis using assms do_request_facts(2,3) [OF d] d
    by (auto simp: must_do_def rtsp_close_def split: sum.splits if_splits)
qed

lemma accept_setup_facts:
  "rc_session (accept_setup res cl) = [] \<Longrightarrow> rc_closed (accept_setup res cl)"
  "rc_session (accept_setup res cl) \<noteq> [] \<Longrightarrow> rc_closed (accept_setup res cl) = rc_closed cl"
  by (auto simp: accept_setup_def rtsp_close_def Let_def split: prod.splits if_splits)

lemma open_result:
  assumes "rtsp_open env u url ids cl w = (cl', w', Some r)"
  shows "case r of Inl e \<Rightarrow> rc_closed cl' | Inr bc \<Rightarrow> rc_closed cl' = rc_closed cl \<and> rc_session cl' \<noteq> []"
proof -
  obtain c1 w1 r1 where d: "must_do env ''DESCRIBE'' url [(''Accept'', ''application/sdp''), require_backchannel] cl w = (c1, w1, r1)"
    by (metis prod_cases3)
  note f1 = must_do_facts [OF d]
  show ?thesis
  proof (cases r1)
    case (Inl e)
    then show ?thesis using assms d f1 by (auto simp: rtsp_open_def)
  next
    case (Inr res)
    define base where "base = (if get_header (rs_Header res) ''content-base'' = [] then url else get_header (rs_Header res) ''content-base'')"
    define c2 where "c2 = c1\<lparr>rc_baseURI := base\<rparr>"
    have c2: "rc_closed c2 = rc_closed cl" using f1 Inr by (simp add: c2_def)
    show ?thesis
    proof (cases "findBackchannel u (bytes_string (rs_Body res)) base")
      case None
      then show ?thesis using assms d Inr by (auto simp: rtsp_open_def Let_def base_def rtsp_close_def)
    next
      case (Some bc)
      then obtain control where control: "bc_ControlURL bc = Some control"
        using assms d Inr by (auto simp: rtsp_open_def Let_def base_def split: option.splits)
      obtain c3 w3 r3 where st: "must_do env ''SETUP'' control (setup_headers c2) c2 w1 = (c3, w3, r3)" by (metis prod_cases3)
      note f3 = must_do_facts [OF st]
      have step: "(cl', w', Some r) = (case (c3, w3, r3) of
          (cl, w, Inl e) \<Rightarrow> (cl, w, Some (Inl e))
        | (cl, w, Inr res) \<Rightarrow>
            let cl = accept_setup res cl in
            if rc_session cl = [] then (cl, w, Some (Inl No_session))
            else case must_do env ''PLAY'' base [require_backchannel] cl w of
              (cl, w, Inl e) \<Rightarrow> (cl, w, Some (Inl e))
            | (cl, w, Inr res) \<Rightarrow>
                (case ids of (a, b, t) \<Rightarrow> (cl\<lparr>rc_ssrc := a, rc_seq := ucast b, rc_timestamp := t\<rparr>, w, Some (Inr bc))))"
        unfolding assms [symmetric] rtsp_open_def d Inr sum.case prod.case Let_def base_def [symmetric] Some option.case control
          c2_def [symmetric] st ..
      show ?thesis
      proof (cases r3)
        case (Inl e)
        then show ?thesis using step f3 by auto
      next
        case (Inr res3)
        define c4 where "c4 = accept_setup res3 c3"
        have c3: "rc_closed c3 = rc_closed cl" using f3 Inr c2 by simp
        show ?thesis
        proof (cases "rc_session c4 = []")
          case True
          then show ?thesis using step Inr accept_setup_facts(1) by (auto simp: Let_def c4_def)
        next
          case False
          then have c4: "rc_closed c4 = rc_closed cl" using accept_setup_facts(2) c3 by (simp add: c4_def)
          obtain c5 w5 r5 where play: "must_do env ''PLAY'' base [require_backchannel] c4 w3 = (c5, w5, r5)" by (metis prod_cases3)
          show ?thesis
            using step must_do_facts [OF play] False c4 play Inr
            by (auto simp: Let_def c4_def [symmetric] split: sum.splits prod.splits)
        qed
      qed
    qed
  qed
qed

text \<open>The frames of a series of payloads.\<close>

fun write_all :: "byte \<Rightarrow> byte list list \<Rightarrow> rtsp_client \<Rightarrow> rtsp_client \<times> byte list list" where
  "write_all pt [] cl = (cl, [])"
| "write_all pt (p # ps) cl =
     (case WriteAudio p pt cl of
        (cl, None) \<Rightarrow> (cl, [])
      | (cl, Some f) \<Rightarrow> (case write_all pt ps cl of (cl, fs) \<Rightarrow> (cl, f # fs)))"

lemma write_all_frames:
  "\<not> rc_closed cl \<Longrightarrow>
   write_all pt ps cl =
   (cl\<lparr>rc_seq := rc_seq cl + of_nat (length ps), rc_timestamp := rc_timestamp cl + of_nat (length (concat ps)),
       rc_packets := rc_packets cl + of_nat (length ps), rc_octets := rc_octets cl + of_nat (length (concat ps))\<rparr>,
    map (\<lambda>i. interleaved_frame (rc_rtp cl) (Marshal \<lparr>PayloadType = pt, Marker = False, Sequence = rc_seq cl + of_nat i,
        Timestamp = rc_timestamp cl + of_nat (length (concat (take i ps))), SSRC = rc_ssrc cl, Payload = ps ! i\<rparr>)) [0..<length ps])"
proof (induction ps arbitrary: cl)
  case (Cons p ps)
  let ?c = "fst (WriteAudio p pt cl)"
  have "\<not> rc_closed ?c" using Cons.prems by (simp add: WriteAudio_def)
  note ih = Cons.IH [OF this]
  have "[0..<length (p # ps)] = 0 # map Suc [0..<length ps]" by (simp add: upt_conv_Cons map_Suc_upt del: upt_Suc)
  then show ?case using Cons.prems ih
    by (simp add: WriteAudio_def audio_packet_def comp_def ac_simps)
qed simp



text \<open>A series of requests.\<close>

fun do_all :: "'w rtsp_env \<Rightarrow> (string \<times> string \<times> (string \<times> string) list \<times> byte list) list \<Rightarrow> rtsp_client \<Rightarrow> 'w \<Rightarrow> rtsp_client \<times> 'w" where
  "do_all env [] cl w = (cl, w)"
| "do_all env ((verb, uri, headers, body) # rs) cl w =
     (case do_request env verb uri headers body cl w of (cl, w, _) \<Rightarrow> do_all env rs cl w)"

lemma do_all_inv: "auth_inv cl \<Longrightarrow> do_all env rs cl w = (cl', w') \<Longrightarrow> auth_inv cl'"
proof (induction env rs cl w rule: do_all.induct)
  case (2 env verb uri headers body rs cl w)
  obtain c1 w1 r1 where a: "do_request env verb uri headers body cl w = (c1, w1, r1)" by (metis prod_cases3)
  show ?case using "2.IH" [OF a [symmetric] refl] "2.prems" do_request_facts(4) [OF a] a by simp
qed simp

section \<open>Properties\<close>

text \<open>Authentication is bounded and never repeats a nonce count: over any series of requests of a new client, the credentials
  it computes for an unchanged challenge carry the counts 1, 2, 3 and so on, starting again only when the nonce, the realm or
  the algorithm changes; a request is sent at most four times under consecutive sequence numbers, and 401 is reported
  only after the fourth.\<close>

lemma nonce_counts_advance:
  assumes "do_all env rs rtsp_new w = (cl, w')" "do_request env verb uri headers body cl w' = (cl', w'', r)"
  shows "counts_ok (rc_uses cl')
    \<and> (\<exists>n \<le> 4. rc_cseq cl' = rc_cseq cl + of_nat n \<and> (\<forall>res. r = Inr res \<and> rs_StatusCode res = 401 \<longrightarrow> n = 4))"
proof
  have "auth_inv rtsp_new" by (simp add: auth_inv_def rtsp_new_def counts_ok_def)
  then have "auth_inv cl'" using do_all_inv [OF _ assms(1)] by (intro do_request_facts(4) [OF assms(2)])
  then show "counts_ok (rc_uses cl')" by (simp add: auth_inv_def)
qed (rule do_request_facts(1) [OF assms(2)])

definition silent_env :: "unit rtsp_env" where
  "silent_env = \<lparr>exchange = (\<lambda>_ w. (w, None)), rt_username = [], rt_password = [],
     rt_hash = \<lparr>md5_sum = id, sha256_sum = id\<rparr>, rt_random = (\<lambda>_. None), map_order = id\<rparr>"

text \<open>C19. Opening leaves no half-open connection: whatever the camera answers, an attempt that fails with an error has closed the
  client, and one that succeeds has a session and has not closed it.\<close>

theorem open_or_closed:
  assumes "rtsp_open env u url ids cl w = (cl', w', Some r)"
  shows "case r of Inl e \<Rightarrow> rc_closed cl' | Inr bc \<Rightarrow> rc_closed cl' = rc_closed cl \<and> rc_session cl' \<noteq> []"
  using assms by (rule open_result)

theorem open_or_closed_witness:
  "\<exists>cl'. rtsp_open silent_env (\<lparr>url_parse = (\<lambda>_. None), url_print = id, url_path = id, url_set_path = (\<lambda>u p. p), url_clear_query = id,
      url_resolve = (\<lambda>u r. r)\<rparr> :: string url_ops) ''rtsp://cam'' (1, 2, 3) rtsp_new () = (cl', (), Some (Inl Request_error)) \<and> rc_closed cl'"
proof -
  let ?u = "\<lparr>url_parse = (\<lambda>_. None), url_print = id, url_path = id, url_set_path = (\<lambda>u p. p), url_clear_query = id,
      url_resolve = (\<lambda>u r. r)\<rparr> :: string url_ops"
  obtain cl' where o: "rtsp_open silent_env ?u ''rtsp://cam'' (1, 2, 3) rtsp_new () = (cl', (), Some (Inl Request_error))"
    by (auto simp: rtsp_open_def must_do_def do_request_def doOnce_def silent_env_def rtsp_new_def Let_def)
  then show ?thesis using open_or_closed [OF o] by simp
qed

text \<open>The audio of the backchannel is one gapless stream: as long as the client is open, the payloads written are put out in
  their order as interleaved RTP packets with consecutive sequence numbers and timestamps that advance by one per sample,
  and the counters that the sender reports carry are exactly the packets and octets written.\<close>

lemma written_audio_is_gapless:
  assumes "\<not> rc_closed cl"
  shows "write_all pt ps cl =
   (cl\<lparr>rc_seq := rc_seq cl + of_nat (length ps), rc_timestamp := rc_timestamp cl + of_nat (length (concat ps)),
       rc_packets := rc_packets cl + of_nat (length ps), rc_octets := rc_octets cl + of_nat (length (concat ps))\<rparr>,
    map (\<lambda>i. interleaved_frame (rc_rtp cl) (Marshal \<lparr>PayloadType = pt, Marker = False, Sequence = rc_seq cl + of_nat i,
        Timestamp = rc_timestamp cl + of_nat (length (concat (take i ps))), SSRC = rc_ssrc cl, Payload = ps ! i\<rparr>)) [0..<length ps])"
  using assms by (rule write_all_frames)



end
