(* ===== verification/LiveImage.thy ===== *)
theory LiveImage
  imports Config
begin

text \<open>
  The live image of one camera channel: \<^verbatim>\<open>internal/liveimage/source.go\<close>, with its short cache, the capture in advance
  of a ring, the order of the sources and the size an image is reduced to.  Fetching over HTTP or RTSP and the JPEG
  codec are parameters; times are integers of nanoseconds.
\<close>

section \<open>Where an image comes from\<close>

definition targetWidth :: int where "targetWidth = 480"
definition targetHeight :: int where "targetHeight = 640"
definition maxSnapshotBytes :: nat where "maxSnapshotBytes = 16777216"
definition maxDecodedPixels :: int where "maxDecodedPixels = 32000000"
definition cacheLifetime :: int where "cacheLifetime = 750000000"
definition prewarmLifetime :: int where "prewarmLifetime = 5000000000"

definition pad2 :: "int \<Rightarrow> string" where
  "pad2 n = (if 0 \<le> n \<and> n < 10 then ''0'' @ show_int n else show_int n)"

definition channelRTSPURL :: "Config \<Rightarrow> int \<Rightarrow> string" where
  "channelRTSPURL c channel =
     (if channel = NVRChannel c then RTSPURL c
      else ''rtsp://'' @ join_host_port (ReolinkHost c) (show_int (ReolinkRTSPPort c))
        @ ''/Preview_'' @ pad2 (channel + 1) @ ''_sub'')"

definition snapshotCGIBases :: "string \<Rightarrow> string list" where
  "snapshotCGIBases host =
     (let host = trim_space host in [''https://'' @ join_host_port host ''443'', ''http://'' @ join_host_port host ''80''])"

datatype image_error =
    Connection_failed
  | Http_status int
  | Bad_size
  | Not_jpeg
  | Invalid_jpeg
  | Too_large
  | Not_encodable
  | Capture_failed

text \<open>The redirects of a request: \<open>via\<close> are the hosts so far.\<close>

definition sameHostRedirects :: "string \<Rightarrow> string list \<Rightarrow> bool" where
  "sameHostRedirects host via \<longleftrightarrow> length via < 3 \<and> (via \<noteq> [] \<longrightarrow> equal_fold host (hd via))"

text \<open>A response of the camera: nothing when the connection fails, else the status and the bytes.\<close>

definition fetchCGI :: "(int \<times> byte list) option \<Rightarrow> image_error + byte list" where
  "fetchCGI response =
     (case response of
        None \<Rightarrow> Inl Connection_failed
      | Some (status, b) \<Rightarrow>
          if status \<noteq> 200 then Inl (Http_status status)
          else if b = [] \<or> maxSnapshotBytes < length b then Inl Bad_size
          else Inr b)"

definition fetchRTSP :: "byte list option \<Rightarrow> image_error + byte list" where
  "fetchRTSP out =
     (case out of
        None \<Rightarrow> Inl Capture_failed
      | Some b \<Rightarrow> if b = [] \<or> maxSnapshotBytes < length b then Inl Bad_size else Inr b)"

section \<open>The size of an image\<close>

definition fitDimensions :: "int \<Rightarrow> int \<Rightarrow> int \<Rightarrow> int \<Rightarrow> int \<times> int" where
  "fitDimensions width height maximumWidth maximumHeight =
     (if width \<le> maximumWidth \<and> height \<le> maximumHeight then (width, height)
      else
        let newWidth = maximumWidth;
            newHeight = go_div (height * maximumWidth) width;
            (newWidth, newHeight) =
              (if maximumHeight < newHeight then (go_div (width * maximumHeight) height, maximumHeight) else (newWidth, newHeight))
        in (if newWidth < 1 then 1 else newWidth, if newHeight < 1 then 1 else newHeight))"

text \<open>The codec: the dimensions of a JPEG, the pixel of a decoded one at a column and a row, and the encoder for a picture of
  given size.  The decoded picture starts at the origin.\<close>

record 'p jpeg =
  jpeg_config :: "byte list \<Rightarrow> (int \<times> int) option"
  jpeg_decode :: "byte list \<Rightarrow> ((int \<Rightarrow> int \<Rightarrow> 'p) \<times> int \<times> int) option"
  jpeg_encode :: "int \<Rightarrow> int \<Rightarrow> (int \<Rightarrow> int \<Rightarrow> 'p) \<Rightarrow> byte list option"

definition normalizeJPEG :: "'p jpeg \<Rightarrow> byte list \<Rightarrow> image_error + byte list" where
  "normalizeJPEG j b =
     (if length b < 4 \<or> b ! 0 \<noteq> 0xFF \<or> b ! 1 \<noteq> 0xD8 then Inl Not_jpeg
      else case jpeg_config j b of
        None \<Rightarrow> Inl Invalid_jpeg
      | Some (w, h) \<Rightarrow>
          if w \<le> 0 \<or> h \<le> 0 then Inl Invalid_jpeg
          else if go_div maxDecodedPixels h < w then Inl Too_large
          else if w \<le> targetWidth \<and> h \<le> targetHeight then Inr b
          else case jpeg_decode j b of
            None \<Rightarrow> Inl Invalid_jpeg
          | Some (at, dx, dy) \<Rightarrow>
              (case fitDimensions w h targetWidth targetHeight of (nw, nh) \<Rightarrow>
                (case jpeg_encode j nw nh (\<lambda>x y. at (go_div (x * dx) nw) (go_div (y * dy) nh)) of
                   None \<Rightarrow> Inl Not_encodable
                 | Some out \<Rightarrow> Inr out)))"

text \<open>The sources in their order, the fallback last: the first one whose image can be used, with its name.\<close>

fun fetchFresh :: "'p jpeg \<Rightarrow> (string \<times> (image_error + byte list)) list \<Rightarrow> image_error list + byte list \<times> string" where
  "fetchFresh j [] = Inl []"
| "fetchFresh j ((name, r) # rs) =
     (case (case r of Inl e \<Rightarrow> Inl e | Inr b \<Rightarrow> normalizeJPEG j b) of
        Inr b \<Rightarrow> Inr (b, name)
      | Inl e \<Rightarrow> (case fetchFresh j rs of Inr x \<Rightarrow> Inr x | Inl es \<Rightarrow> Inl (e # es)))"

section \<open>The cache\<close>

record diagnostics =
  LastAttempt :: "int option"
  LastSuccess :: "int option"
  LastSource :: string
  LastFailed :: bool

text \<open>\<open>capturedAt\<close> and \<open>prewarms\<close> record when the cached image was taken and how often it was kept for a ring since then.\<close>

record source =
  cached :: "byte list"
  cachedAt :: int
  prewarmedUntil :: "int option"
  diag :: diagnostics
  capturedAt :: int
  prewarms :: nat

text \<open>A capture: the time at its end, and its result.\<close>

type_synonym capture = "int \<times> (image_error list + byte list \<times> string)"

definition fetchAndCacheLocked :: "capture \<Rightarrow> int \<Rightarrow> source \<Rightarrow> source \<times> byte list option" where
  "fetchAndCacheLocked cap now s =
     (let s = s\<lparr>diag := (diag s)\<lparr>LastAttempt := Some now\<rparr>\<rparr> in
      case snd cap of
        Inl _ \<Rightarrow> (s\<lparr>diag := (diag s)\<lparr>LastFailed := True\<rparr>\<rparr>, None)
      | Inr (b, name) \<Rightarrow>
          (s\<lparr>cached := b, cachedAt := fst cap, capturedAt := fst cap, prewarms := 0,
             diag := (diag s)\<lparr>LastSuccess := Some (fst cap), LastSource := name, LastFailed := False\<rparr>\<rparr>, Some b))"

definition FetchJPEG :: "capture \<Rightarrow> int \<Rightarrow> source \<Rightarrow> source \<times> byte list option" where
  "FetchJPEG cap now s =
     (let age = now - cachedAt s;
          prewarmed = (case prewarmedUntil s of None \<Rightarrow> False | Some u \<Rightarrow> now \<le> u)
      in if cached s \<noteq> [] \<and> 0 \<le> age \<and> (age \<le> cacheLifetime \<or> prewarmed)
         then (if prewarmed then s\<lparr>prewarmedUntil := None, cachedAt := now\<rparr> else s, Some (cached s))
         else fetchAndCacheLocked cap now s)"

text \<open>The clock is read again after a capture; without one it is the time of the call.\<close>

definition Prewarm :: "capture \<Rightarrow> int \<Rightarrow> source \<Rightarrow> source \<times> bool" where
  "Prewarm cap now s =
     (let age = now - cachedAt s in
      if cached s = [] \<or> age < 0 \<or> cacheLifetime < age
      then (case fetchAndCacheLocked cap now s of
              (s, None) \<Rightarrow> (s, False)
            | (s, Some _) \<Rightarrow> (s\<lparr>prewarmedUntil := Some (fst cap + prewarmLifetime), prewarms := prewarms s + 1\<rparr>, True))
      else (s\<lparr>prewarmedUntil := Some (now + prewarmLifetime), prewarms := prewarms s + 1\<rparr>, True))"

definition new_source :: source where
  "new_source = \<lparr>cached = [], cachedAt = 0, prewarmedUntil = None,
     diag = \<lparr>LastAttempt = None, LastSuccess = None, LastSource = [], LastFailed = False\<rparr>, capturedAt = 0, prewarms = 0\<rparr>"

text \<open>The calls of a source, each with its capture and its time.\<close>

datatype source_call = Fetch capture int | Warm capture int

definition source_step :: "source \<Rightarrow> source_call \<Rightarrow> source" where
  "source_step s call =
     (case call of Fetch cap now \<Rightarrow> fst (FetchJPEG cap now s) | Warm cap now \<Rightarrow> fst (Prewarm cap now s))"

section \<open>How old an image can be\<close>

text \<open>Every ring that keeps an image can make it older by the life of the cache and of the capture in advance.\<close>

definition keep_time :: int where "keep_time = cacheLifetime + prewarmLifetime"

definition call_time :: "source_call \<Rightarrow> int" where
  "call_time call = (case call of Fetch cap now \<Rightarrow> now | Warm cap now \<Rightarrow> now)"

definition call_end :: "source_call \<Rightarrow> int" where
  "call_end call = (case call of Fetch cap now \<Rightarrow> fst cap | Warm cap now \<Rightarrow> fst cap)"

definition call_result :: "source_call \<Rightarrow> image_error list + byte list \<times> string" where
  "call_result call = (case call of Fetch cap now \<Rightarrow> snd cap | Warm cap now \<Rightarrow> snd cap)"

text \<open>A schedule: the calls follow each other, as under the lock of the source, and no captured image is empty.\<close>

fun schedule :: "int \<Rightarrow> source_call list \<Rightarrow> bool" where
  "schedule t [] = True"
| "schedule t (call # cs) \<longleftrightarrow>
     t \<le> call_time call \<and> call_time call \<le> call_end call \<and> (\<forall>name. call_result call \<noteq> Inr ([], name)) \<and> schedule (call_end call) cs"

definition age_inv :: "int \<Rightarrow> source \<Rightarrow> bool" where
  "age_inv t s \<longleftrightarrow>
     (cached s = [] \<longrightarrow> prewarmedUntil s = None)
     \<and> (cached s \<noteq> [] \<longrightarrow> cachedAt s \<le> t \<and> cachedAt s \<le> capturedAt s + int (prewarms s) * keep_time
         \<and> (\<forall>u. prewarmedUntil s = Some u \<longrightarrow> u < t \<or> u \<le> capturedAt s + int (prewarms s) * keep_time))"

lemma age_later: "age_inv t s \<Longrightarrow> t \<le> t' \<Longrightarrow> age_inv t' s"
  by (force simp: age_inv_def)

lemma capture_inv:
  assumes "\<forall>name. snd cap \<noteq> Inr ([], name)" "now \<le> fst cap" "age_inv now s"
    and "\<forall>u. prewarmedUntil s = Some u \<longrightarrow> u < now"
  shows "age_inv (fst cap) (fst (fetchAndCacheLocked cap now s))"
proof (cases "snd cap")
  case (Inl e)
  then show ?thesis using age_later [OF assms(3,2)] by (simp add: fetchAndCacheLocked_def age_inv_def Let_def)
next
  case (Inr r)
  obtain b name where "r = (b, name)" by (cases r)
  then show ?thesis using Inr assms by (fastforce simp: fetchAndCacheLocked_def age_inv_def Let_def)
qed

lemma fetch_age:
  assumes "age_inv t s" "t \<le> now" "now \<le> fst cap" "\<forall>name. snd cap \<noteq> Inr ([], name)"
  shows "age_inv (fst cap) (fst (FetchJPEG cap now s))"
    "snd (FetchJPEG cap now s) = Some b \<Longrightarrow>
     b = cached (fst (FetchJPEG cap now s))
     \<and> now - capturedAt (fst (FetchJPEG cap now s)) \<le> int (prewarms (fst (FetchJPEG cap now s))) * keep_time + cacheLifetime"
proof -
  let ?pre = "\<exists>u. prewarmedUntil s = Some u \<and> now \<le> u"
  have now: "age_inv now s" by (rule age_later [OF assms(1,2)])
  have life: "0 \<le> cacheLifetime" by (simp add: cacheLifetime_def)
  consider (warm) "cached s \<noteq> []" "0 \<le> now - cachedAt s" ?pre
    | (young) "cached s \<noteq> []" "0 \<le> now - cachedAt s" "now - cachedAt s \<le> cacheLifetime" "\<not> ?pre"
    | (old) "\<forall>u. prewarmedUntil s = Some u \<longrightarrow> u < now" "FetchJPEG cap now s = fetchAndCacheLocked cap now s"
  proof -
    have "0 \<le> now - cachedAt s" if "cached s \<noteq> []" using now that by (simp add: age_inv_def)
    moreover have "\<forall>u. prewarmedUntil s = Some u \<longrightarrow> u < now" if "\<not> ?pre" using that by auto
    moreover have "\<not> ?pre" if "cached s = []" using now that by (simp add: age_inv_def)
    ultimately show thesis using that
      by (cases "cached s = []"; cases ?pre; cases "now - cachedAt s \<le> cacheLifetime")
         (auto simp: FetchJPEG_def Let_def split: option.splits)
  qed
  then have "age_inv (fst cap) (fst (FetchJPEG cap now s)) \<and> (snd (FetchJPEG cap now s) = Some b \<longrightarrow>
     b = cached (fst (FetchJPEG cap now s))
     \<and> now - capturedAt (fst (FetchJPEG cap now s)) \<le> int (prewarms (fst (FetchJPEG cap now s))) * keep_time + cacheLifetime)"
  proof cases
    case warm
    then obtain u where u: "prewarmedUntil s = Some u" "now \<le> u" by blast
    then have r: "FetchJPEG cap now s = (s\<lparr>prewarmedUntil := None, cachedAt := now\<rparr>, Some (cached s))"
      using warm by (simp add: FetchJPEG_def Let_def)
    have "now \<le> capturedAt s + int (prewarms s) * keep_time" using now u warm(1) by (auto simp: age_inv_def)
    then show ?thesis using r warm(1) assms(3) life by (simp add: age_inv_def)
  next
    case young
    then have r: "FetchJPEG cap now s = (s, Some (cached s))"
      by (auto simp: FetchJPEG_def Let_def split: option.splits)
    then show ?thesis using age_later [OF now assms(3)] young now by (auto simp: age_inv_def)
  next
    case old
    have "age_inv (fst cap) (fst (fetchAndCacheLocked cap now s))" by (rule capture_inv [OF assms(4,3) now old(1)])
    moreover have "snd (fetchAndCacheLocked cap now s) = Some b \<Longrightarrow>
      b = cached (fst (fetchAndCacheLocked cap now s)) \<and> capturedAt (fst (fetchAndCacheLocked cap now s)) = fst cap
      \<and> prewarms (fst (fetchAndCacheLocked cap now s)) = 0"
      by (auto simp: fetchAndCacheLocked_def Let_def split: sum.splits prod.splits)
    ultimately show ?thesis using old(2) assms(3) life by auto
  qed
  then show "age_inv (fst cap) (fst (FetchJPEG cap now s))"
    "snd (FetchJPEG cap now s) = Some b \<Longrightarrow>
     b = cached (fst (FetchJPEG cap now s))
     \<and> now - capturedAt (fst (FetchJPEG cap now s)) \<le> int (prewarms (fst (FetchJPEG cap now s))) * keep_time + cacheLifetime"
    by blast+
qed

lemma keep_more: "int (n + 1) * keep_time = int n * keep_time + cacheLifetime + prewarmLifetime"
  by (simp add: keep_time_def algebra_simps)

lemma warm_age:
  assumes "age_inv t s" "t \<le> now" "now \<le> fst cap" "\<forall>name. snd cap \<noteq> Inr ([], name)"
  shows "age_inv (fst cap) (fst (Prewarm cap now s))"
proof -
  have now: "age_inv now s" by (rule age_later [OF assms(1,2)])
  show ?thesis
  proof (cases "cached s = [] \<or> now - cachedAt s < 0 \<or> cacheLifetime < now - cachedAt s")
    case True
    show ?thesis
    proof (cases "snd cap")
      case (Inl e)
      then show ?thesis using True age_later [OF now assms(3)]
        by (auto simp: Prewarm_def fetchAndCacheLocked_def Let_def age_inv_def)
    next
      case (Inr r)
      obtain b name where "r = (b, name)" by (cases r)
      then show ?thesis using Inr True assms(4)
        by (auto simp: Prewarm_def fetchAndCacheLocked_def Let_def age_inv_def keep_time_def cacheLifetime_def prewarmLifetime_def)
    qed
  next
    case False
    then have r: "fst (Prewarm cap now s) = s\<lparr>prewarmedUntil := Some (now + prewarmLifetime), prewarms := prewarms s + 1\<rparr>"
      by (simp add: Prewarm_def Let_def)
    have "cachedAt s \<le> capturedAt s + int (prewarms s) * keep_time" using now False by (simp add: age_inv_def)
    moreover have "0 \<le> keep_time" by (simp add: keep_time_def cacheLifetime_def prewarmLifetime_def)
    ultimately show ?thesis using False now assms(3) keep_more [of "prewarms s"] unfolding r
      by (auto simp: age_inv_def keep_time_def cacheLifetime_def prewarmLifetime_def)
  qed
qed


lemma schedule_inv:
  "age_inv t s \<Longrightarrow> schedule t (calls @ [Fetch cap now]) \<Longrightarrow> \<exists>t' \<le> now. age_inv t' (foldl source_step s calls)"
proof (induction calls arbitrary: t s)
  case Nil
  then show ?case by (auto simp: call_time_def)
next
  case (Cons c cs)
  have step: "age_inv (call_end c) (source_step s c)"
    using Cons.prems fetch_age(1) warm_age
    by (cases c) (auto simp: source_step_def call_time_def call_end_def call_result_def)
  show ?case using Cons.IH [OF step] Cons.prems(2) by simp
qed

lemma schedule_last: "schedule t (calls @ [Fetch cap now]) \<Longrightarrow> now \<le> fst cap \<and> (\<forall>name. snd cap \<noteq> Inr ([], name))"
  by (induction calls arbitrary: t) (auto simp: call_time_def call_end_def call_result_def)

lemma new_source_inv: "age_inv t new_source"
  by (simp add: age_inv_def new_source_def)

section \<open>Keeping an image for ever\<close>

text \<open>A ring shortly after a fetch keeps the cached image without a new capture, because a fetch that is served from the capture
  in advance counts as the time of the image; so a ring and a fetch, repeated, serve the same image for ever.\<close>

definition ring_and_fetch :: "capture \<Rightarrow> int \<Rightarrow> source_call list" where
  "ring_and_fetch cap t = [Warm cap (t + cacheLifetime), Fetch cap (t + keep_time)]"

lemma ring_and_fetch_keeps:
  assumes "cached s \<noteq> []"
  shows "foldl source_step s (ring_and_fetch cap (cachedAt s)) =
    s\<lparr>cachedAt := cachedAt s + keep_time, prewarmedUntil := None, prewarms := prewarms s + 1\<rparr>"
proof -
  let ?w = "s\<lparr>prewarmedUntil := Some (cachedAt s + cacheLifetime + prewarmLifetime), prewarms := prewarms s + 1\<rparr>"
  have "fst (Prewarm cap (cachedAt s + cacheLifetime) s) = ?w"
    using assms by (simp add: Prewarm_def cacheLifetime_def)
  moreover have "fst (FetchJPEG cap (cachedAt s + keep_time) ?w) = ?w\<lparr>prewarmedUntil := None, cachedAt := cachedAt s + keep_time\<rparr>"
    using assms by (simp add: FetchJPEG_def keep_time_def cacheLifetime_def prewarmLifetime_def)
  ultimately show ?thesis by (simp add: ring_and_fetch_def source_step_def)
qed

lemma image_kept_for_ever:
  assumes "cached s \<noteq> []" "capturedAt s = cachedAt s"
  shows "\<exists>calls. capturedAt (foldl source_step s calls) = capturedAt s \<and> cached (foldl source_step s calls) = cached s
    \<and> cachedAt (foldl source_step s calls) = capturedAt s + int n * keep_time"
proof (induction n)
  case 0
  show ?case using assms(2) by (intro exI [of _ "[]"]) simp
next
  case (Suc n)
  then obtain calls where calls: "capturedAt (foldl source_step s calls) = capturedAt s" "cached (foldl source_step s calls) = cached s"
      "cachedAt (foldl source_step s calls) = capturedAt s + int n * keep_time" by blast
  let ?s = "foldl source_step s calls"
  have "foldl source_step s (calls @ ring_and_fetch (0, Inl []) (cachedAt ?s)) =
      ?s\<lparr>cachedAt := cachedAt ?s + keep_time, prewarmedUntil := None, prewarms := prewarms ?s + 1\<rparr>"
    using ring_and_fetch_keeps [of ?s "(0, Inl [])"] assms(1) calls(2) by simp
  then show ?case using calls
    by (intro exI [of _ "calls @ ring_and_fetch (0, Inl []) (cachedAt ?s)"]) (simp add: algebra_simps)
qed

section \<open>Properties\<close>

text \<open>C31. An image is as fresh as the cache promises, ring by ring: after any calls in the order of time, the image a request gets
  is the cached one and was captured no longer ago than the life of the cache (750 ms), plus 5.75 s for every ring that
  kept it since its capture; without a ring in between it is never older than 750 ms.\<close>

theorem image_age_bounded:
  assumes "schedule t (calls @ [Fetch cap now])" "FetchJPEG cap now (foldl source_step new_source calls) = (s, Some b)"
  shows "b = cached s \<and> now - capturedAt s \<le> int (prewarms s) * keep_time + cacheLifetime"
proof -
  obtain t' where "t' \<le> now" "age_inv t' (foldl source_step new_source calls)"
    using schedule_inv [OF new_source_inv assms(1)] by blast
  then show ?thesis using fetch_age(2) [of t' "foldl source_step new_source calls" now cap b] schedule_last [OF assms(1)] assms(2)
    by simp
qed

theorem image_age_bounded_witness:
  "\<exists>s b. FetchJPEG (2, Inl []) 1 (foldl source_step new_source [Fetch (1, Inr ([7], ''HTTPS'')) 0]) = (s, Some b) \<and> b = [7]
   \<and> 1 - capturedAt s \<le> int (prewarms s) * keep_time + cacheLifetime"
proof -
  let ?calls = "[Fetch (1, Inr ([7], ''HTTPS'')) 0]"
  have sch: "schedule 0 (?calls @ [Fetch (2, Inl []) 1])" by (simp add: call_time_def call_end_def call_result_def)
  have "snd (FetchJPEG (2, Inl []) 1 (foldl source_step new_source ?calls)) = Some [7]"
    by (simp add: FetchJPEG_def source_step_def fetchAndCacheLocked_def new_source_def cacheLifetime_def Let_def)
  then obtain s where s: "FetchJPEG (2, Inl []) 1 (foldl source_step new_source ?calls) = (s, Some [7])"
    by (metis prod.collapse)
  then show ?thesis using image_age_bounded [OF sch s] by blast
qed

lemma fit_bounds:
  assumes "0 < w" "0 < h" "0 < mw" "0 < mh"
  shows "1 \<le> fst (fitDimensions w h mw mh) \<and> fst (fitDimensions w h mw mh) \<le> mw
    \<and> 1 \<le> snd (fitDimensions w h mw mh) \<and> snd (fitDimensions w h mw mh) \<le> mh"
proof (cases "w \<le> mw \<and> h \<le> mh")
  case True
  then show ?thesis using assms by (simp add: fitDimensions_def)
next
  case False
  show ?thesis
  proof (cases "mh < h * mw div w")
    case True
    have "w * mh div h \<le> mw"
    proof -
      have "h * mw div w * w \<le> h * mw" using assms(1) by (simp add: minus_mod_eq_div_mult [symmetric])
      moreover have "(mh + 1) * w \<le> h * mw div w * w" using True assms(1) by (intro mult_right_mono) auto
      ultimately have "(mh + 1) * w \<le> h * mw" by simp
      then have "w * mh \<le> mw * h" using assms by (simp add: algebra_simps)
      then have "w * mh div h \<le> mw * h div h" using assms by (intro zdiv_mono1) auto
      then show ?thesis using assms by simp
    qed
    then show ?thesis using False True assms by (auto simp: fitDimensions_def Let_def)
  next
    case below: False
    then show ?thesis using False assms by (auto simp: fitDimensions_def Let_def)
  qed
qed

text \<open>What comes out of the normalisation fits the display, whatever the camera sent.\<close>

lemma normalized_fits:
  assumes "normalizeJPEG j b = Inr out"
  shows "out = b \<and> (\<exists>w h. jpeg_config j b = Some (w, h) \<and> w \<le> targetWidth \<and> h \<le> targetHeight)
    \<or> (\<exists>w h p. 1 \<le> w \<and> w \<le> targetWidth \<and> 1 \<le> h \<and> h \<le> targetHeight \<and> jpeg_encode j w h p = Some out)"
proof -
  obtain w h where c: "jpeg_config j b = Some (w, h)" "0 < w" "0 < h"
    using assms by (auto simp: normalizeJPEG_def split: if_splits option.splits)
  show ?thesis
  proof (cases "w \<le> targetWidth \<and> h \<le> targetHeight")
    case True
    then show ?thesis using assms c by (auto simp: normalizeJPEG_def split: if_splits)
  next
    case False
    obtain nw nh where n: "fitDimensions w h targetWidth targetHeight = (nw, nh)" by fastforce
    then obtain p where "jpeg_encode j nw nh p = Some out"
      using assms c False by (auto simp: normalizeJPEG_def split: if_splits option.splits prod.splits)
    moreover have "1 \<le> nw \<and> nw \<le> targetWidth \<and> 1 \<le> nh \<and> nh \<le> targetHeight"
      using fit_bounds [OF c(2,3), of targetWidth targetHeight] n by (simp add: targetWidth_def targetHeight_def)
    ultimately show ?thesis by blast
  qed
qed

end
