(* ===== verification/Catalog.thy ===== *)
theory Catalog
  imports LiveImage Digest "HOL-Library.Multiset"
begin

text \<open>
  The catalogue of the camera channels: \<^verbatim>\<open>internal/liveimage/catalog.go\<close>.  It holds the channels of the last
  successful discovery, survives restarts in a file, and finds the image source of a channel or of a camera.  SHA-256,
  the JSON codec and the HTTP request are parameters.  A Go map is an association list with distinct keys, and the
  order in which the code ranges over it is a parameter.
\<close>

section \<open>Channels\<close>

text \<open>A source is named by its zero-based channel; the source of the door channel is the primary one.\<close>

record channel =
  ch_Number :: int
  ch_Name :: string
  ch_CameraID :: string
  ch_Online :: bool
  ch_StatusKnown :: bool
  ch_Primary :: bool
  ch_uid :: string
  ch_source :: "int option"

type_synonym channels = "(int \<times> channel) list"

record discovery =
  disc_LastAttempt :: "int option"
  disc_LastSuccess :: "int option"
  disc_LastFailed :: bool

record catalog =
  cat_cfg :: Config
  cat_channels :: channels
  cat_discovery :: discovery

definition maxChannelStatusBytes :: nat where "maxChannelStatusBytes = 1048576"
definition maxCatalogStateBytes :: nat where "maxCatalogStateBytes = 1048576"
definition catalogStateVersion :: int where "catalogStateVersion = 1"

definition normalizeChannelName :: "string \<Rightarrow> string" where
  "normalizeChannelName v = take 80 (join '' '' (str_fields v))"

definition normalizeUID :: "string \<Rightarrow> string" where
  "normalizeUID v = take 128 (to_upper (trim_space v))"

definition cameraIDForUID :: "(byte list \<Rightarrow> byte list) \<Rightarrow> string \<Rightarrow> string" where
  "cameraIDForUID sha uid =
     (let uid = normalizeUID uid in if uid = [] then [] else hex_encode (take 16 (sha (string_bytes uid))))"

definition primary_number :: "Config \<Rightarrow> int" where
  "primary_number c = NVRChannel c + 1"

definition zero_channel :: channel where
  "zero_channel = \<lparr>ch_Number = 0, ch_Name = [], ch_CameraID = [], ch_Online = False, ch_StatusKnown = False, ch_Primary = False,
     ch_uid = [], ch_source = None\<rparr>"

text \<open>A lookup of a missing key gives the zero value.\<close>

definition lookup :: "channels \<Rightarrow> int \<Rightarrow> channel" where
  "lookup m n = (case map_of m n of Some e \<Rightarrow> e | None \<Rightarrow> zero_channel)"

definition catalogHost :: "Config \<Rightarrow> string" where
  "catalogHost c = to_lower (trim_space (ReolinkHost c))"

section \<open>The status of the channels\<close>

record channel_status =
  st_channel :: int
  st_name :: string
  st_online :: int
  st_uid :: string

datatype catalog_error =
    Status_connection
  | Status_http int
  | Status_size
  | Status_rejected
  | No_cameras
  | No_endpoint
  | Attempts "catalog_error list"

definition status_channel :: "(byte list \<Rightarrow> byte list) \<Rightarrow> channels \<Rightarrow> channel_status \<Rightarrow> channels" where
  "status_channel sha m st =
     (let name = normalizeChannelName (st_name st); uid = normalizeUID (st_uid st); n = st_channel st + 1 in
      if st_channel st < 0 \<or> 255 < st_channel st \<or> (st_online st \<noteq> 1 \<and> name = [] \<and> uid = []) then m
      else AList.update n
        \<lparr>ch_Number = n, ch_Name = name, ch_CameraID = cameraIDForUID sha uid, ch_Online = (st_online st = 1), ch_StatusKnown = True,
         ch_Primary = False, ch_uid = uid, ch_source = None\<rparr> m)"

text \<open>\<open>decode\<close> gives the replies: command, code and the status list of each.\<close>

definition fetchChannelStatusCGI ::
  "(byte list \<Rightarrow> byte list) \<Rightarrow> (byte list \<Rightarrow> (string \<times> int \<times> channel_status list) list option) \<Rightarrow> (int \<times> byte list) option
   \<Rightarrow> catalog_error + channel list" where
  "fetchChannelStatusCGI sha decode response =
     (case response of
        None \<Rightarrow> Inl Status_connection
      | Some (code, payload) \<Rightarrow>
          if code \<noteq> 200 then Inl (Status_http code)
          else if payload = [] \<or> maxChannelStatusBytes < length payload then Inl Status_size
          else case decode payload of
            Some [(cmd, rc, statuses)] \<Rightarrow>
              if rc \<noteq> 0 \<or> \<not> equal_fold cmd ''GetChannelstatus'' then Inl Status_rejected
              else
                let m = foldl (status_channel sha) [] statuses
                in if m = [] then Inl No_cameras else Inr (sort_key ch_Number (map snd m))
          | _ \<Rightarrow> Inl Status_rejected)"

text \<open>The endpoints in their order: the first success, or all errors.\<close>

fun fetch_first :: "(catalog_error + channel list) list \<Rightarrow> catalog_error list + channel list" where
  "fetch_first [] = Inl []"
| "fetch_first (r # rs) =
     (case r of Inr cs \<Rightarrow> Inr cs | Inl e \<Rightarrow> (case fetch_first rs of Inr cs \<Rightarrow> Inr cs | Inl es \<Rightarrow> Inl (e # es)))"

definition fetchChannels :: "(catalog_error + channel list) list \<Rightarrow> catalog_error + channel list" where
  "fetchChannels rs = (case fetch_first rs of Inr cs \<Rightarrow> Inr cs | Inl es \<Rightarrow> Inl (if es = [] then No_endpoint else Attempts es))"

section \<open>Discovery\<close>

text \<open>The names known by camera; of two entries with the same camera the one ranged over last counts.\<close>

definition previous_by_camera :: "channels \<Rightarrow> string \<rightharpoonup> channel" where
  "previous_by_camera m = foldl (\<lambda>t (n, e). if ch_CameraID e \<noteq> [] then t(ch_CameraID e \<mapsto> e) else t) (\<lambda>_. None) m"

definition discover_entry :: "channels \<Rightarrow> (string \<rightharpoonup> channel) \<Rightarrow> channels \<times> string set \<Rightarrow> channel \<Rightarrow> channels \<times> string set" where
  "discover_entry prev byCamera = (\<lambda>(nxt, seen) d.
     if ch_CameraID d \<noteq> [] \<and> ch_CameraID d \<in> seen then (nxt, seen)
     else
       let seen = (if ch_CameraID d \<noteq> [] then insert (ch_CameraID d) seen else seen);
           source = (case map_of prev (ch_Number d) of Some e \<Rightarrow> (if ch_source e = None then Some (ch_Number d - 1) else ch_source e)
                     | None \<Rightarrow> Some (ch_Number d - 1));
           name = (case byCamera (ch_CameraID d) of Some old \<Rightarrow> if ch_Name d = [] then ch_Name old else ch_Name d | None \<Rightarrow> ch_Name d)
       in (AList.update (ch_Number d) (d\<lparr>ch_Name := name, ch_source := source\<rparr>) nxt, seen))"

definition discovered :: "(channels \<Rightarrow> channels) \<Rightarrow> Config \<Rightarrow> channels \<Rightarrow> channel list \<Rightarrow> channels" where
  "discovered ord c prev detected =
     (let nxt = fst (foldl (discover_entry prev (previous_by_camera (ord prev))) ([], {}) detected);
          p = primary_number c; source = Some (NVRChannel c)
      in case map_of nxt p of
           Some e \<Rightarrow> AList.update p (e\<lparr>ch_Primary := True, ch_source := source\<rparr>) nxt
         | None \<Rightarrow> AList.update p ((lookup prev p)\<lparr>ch_Number := p, ch_Primary := True, ch_StatusKnown := True, ch_Online := False,
                                                    ch_source := source\<rparr>) nxt)"

definition Channels :: "catalog \<Rightarrow> channel list" where
  "Channels c = sort_key ch_Number (map snd (cat_channels c))"

definition Discover ::
  "(channels \<Rightarrow> channels) \<Rightarrow> int \<Rightarrow> catalog_error + channel list \<Rightarrow> catalog \<Rightarrow> catalog \<times> channel list \<times> catalog_error option" where
  "Discover ord now result c =
     (let c = c\<lparr>cat_discovery := (cat_discovery c)\<lparr>disc_LastAttempt := Some now\<rparr>\<rparr> in
      case result of
        Inl e \<Rightarrow> (let c = c\<lparr>cat_discovery := (cat_discovery c)\<lparr>disc_LastFailed := True\<rparr>\<rparr> in (c, Channels c, Some e))
      | Inr detected \<Rightarrow>
          let c = c\<lparr>cat_channels := discovered ord (cat_cfg c) (cat_channels c) detected,
                    cat_discovery := (cat_discovery c)\<lparr>disc_LastSuccess := Some now, disc_LastFailed := False\<rparr>\<rparr>
          in (c, Channels c, None))"

section \<open>Images by channel and by camera\<close>

definition FetchChannelJPEG :: "catalog \<Rightarrow> int \<Rightarrow> int option" where
  "FetchChannelJPEG c n = (case map_of (cat_channels c) n of Some e \<Rightarrow> ch_source e | None \<Rightarrow> None)"

definition FetchCameraJPEG :: "(channels \<Rightarrow> channels) \<Rightarrow> catalog \<Rightarrow> string \<Rightarrow> int option" where
  "FetchCameraJPEG ord c i = (case find (\<lambda>(n, e). ch_CameraID e = i) (ord (cat_channels c)) of Some (n, e) \<Rightarrow> ch_source e | None \<Rightarrow> None)"

definition ChannelName :: "catalog \<Rightarrow> int \<Rightarrow> string" where
  "ChannelName c n = ch_Name (lookup (cat_channels c) n)"

definition ChannelNumbers :: "catalog \<Rightarrow> int list" where
  "ChannelNumbers c = map ch_Number (Channels c)"

section \<open>The stored catalogue\<close>

record stored_channel =
  sc_Number :: int
  sc_Name :: string
  sc_UID :: string
  sc_Online :: bool

record stored_catalog =
  sto_Version :: int
  sto_Host :: string
  sto_LastSuccess :: "int option"
  sto_Channels :: "stored_channel list"

definition stored_state :: "catalog \<Rightarrow> stored_catalog" where
  "stored_state c =
     \<lparr>sto_Version = catalogStateVersion, sto_Host = catalogHost (cat_cfg c), sto_LastSuccess = disc_LastSuccess (cat_discovery c),
      sto_Channels = sort_key sc_Number
        (map (\<lambda>(n, e). \<lparr>sc_Number = ch_Number e, sc_Name = ch_Name e, sc_UID = ch_uid e, sc_Online = ch_Online e\<rparr>) (cat_channels c))\<rparr>"

definition load_entry :: "(byte list \<Rightarrow> byte list) \<Rightarrow> Config \<Rightarrow> channels \<Rightarrow> stored_channel \<Rightarrow> channels" where
  "load_entry sha c m s =
     (if sc_Number s < 1 \<or> 256 < sc_Number s then m
      else
        let uid = normalizeUID (sc_UID s) in
        AList.update (sc_Number s)
          \<lparr>ch_Number = sc_Number s, ch_Name = normalizeChannelName (sc_Name s), ch_CameraID = cameraIDForUID sha uid,
           ch_Online = sc_Online s, ch_StatusKnown = False, ch_Primary = (sc_Number s = primary_number c), ch_uid = uid,
           ch_source = Some (sc_Number s - 1)\<rparr> m)"

datatype state_error = State_missing | State_size | State_invalid | State_foreign

text \<open>\<open>file\<close> is the content of the state file, \<open>decode\<close> the JSON decoder.\<close>

definition loadState ::
  "(byte list \<Rightarrow> byte list) \<Rightarrow> (byte list \<Rightarrow> stored_catalog option) \<Rightarrow> byte list option \<Rightarrow> catalog \<Rightarrow> catalog \<times> state_error option" where
  "loadState sha decode file c =
     (case file of
        None \<Rightarrow> (c, Some State_missing)
      | Some b \<Rightarrow>
          if b = [] \<or> maxCatalogStateBytes < length b then (c, Some State_size)
          else case decode b of
            None \<Rightarrow> (c, Some State_invalid)
          | Some s \<Rightarrow>
              if sto_Version s \<noteq> catalogStateVersion \<or> sto_Host s \<noteq> catalogHost (cat_cfg c) \<or> 256 < length (sto_Channels s)
              then (c, Some State_foreign)
              else
                let m = foldl (load_entry sha (cat_cfg c)) (cat_channels c) (sto_Channels s);
                    p = primary_number (cat_cfg c);
                    e = (lookup m p)\<lparr>ch_Number := p, ch_Primary := True, ch_source := Some (NVRChannel (cat_cfg c))\<rparr>
                in (c\<lparr>cat_channels := AList.update p e m,
                      cat_discovery := (cat_discovery c)\<lparr>disc_LastSuccess := sto_LastSuccess s\<rparr>\<rparr>, None))"

definition empty_catalog :: "Config \<Rightarrow> catalog" where
  "empty_catalog c =
     \<lparr>cat_cfg = c,
      cat_channels = [(primary_number c, zero_channel\<lparr>ch_Number := primary_number c, ch_Primary := True, ch_source := Some (NVRChannel c)\<rparr>)],
      cat_discovery = \<lparr>disc_LastAttempt = None, disc_LastSuccess = None, disc_LastFailed = False\<rparr>\<rparr>"

text \<open>\<open>newCatalog\<close>: an error of the state file is only logged.\<close>

definition newCatalog ::
  "(byte list \<Rightarrow> byte list) \<Rightarrow> (byte list \<Rightarrow> stored_catalog option) \<Rightarrow> (string \<Rightarrow> byte list option) \<Rightarrow> Config \<Rightarrow> string \<Rightarrow> catalog" where
  "newCatalog sha decode files c statePath =
     (let path = trim_space statePath in
      if path = [] then empty_catalog c else fst (loadState sha decode (files path) (empty_catalog c)))"

section \<open>The state of a running gateway\<close>

text \<open>The catalogues a gateway goes through: restored or new, then discoveries with replies of any kind.\<close>

inductive catalog_reach :: "(byte list \<Rightarrow> byte list) \<Rightarrow> Config \<Rightarrow> catalog \<Rightarrow> bool" for sha cfg where
  started: "catalog_reach sha cfg (newCatalog sha decode files cfg path)"
| discovers: "catalog_reach sha cfg c \<Longrightarrow>
    catalog_reach sha cfg (fst (Discover ord now (fetchChannels (map (fetchChannelStatusCGI sha decode) replies)) c))"

definition normal_uid :: "string \<Rightarrow> bool" where
  "normal_uid u = (\<exists>raw. u = normalizeUID raw)"

definition entry_ok :: "(byte list \<Rightarrow> byte list) \<Rightarrow> Config \<Rightarrow> int \<times> channel \<Rightarrow> bool" where
  "entry_ok sha cfg = (\<lambda>(n, e). 1 \<le> n \<and> n \<le> 256 \<and> ch_Number e = n \<and> ch_source e = Some (n - 1) \<and> (ch_Primary e \<longleftrightarrow> n = primary_number cfg)
     \<and> ch_CameraID e = cameraIDForUID sha (ch_uid e) \<and> normal_uid (ch_uid e))"

definition channels_ok :: "(byte list \<Rightarrow> byte list) \<Rightarrow> Config \<Rightarrow> channels \<Rightarrow> bool" where
  "channels_ok sha cfg m = (distinct (map fst m) \<and> (\<forall>x \<in> set m. entry_ok sha cfg x))"

definition catalog_ok :: "(byte list \<Rightarrow> byte list) \<Rightarrow> Config \<Rightarrow> catalog \<Rightarrow> bool" where
  "catalog_ok sha cfg c = (cat_cfg c = cfg \<and> channels_ok sha cfg (cat_channels c) \<and> primary_number cfg \<in> fst ` set (cat_channels c))"

text \<open>What a reply gives: each camera once, under its own number, not yet with a source.\<close>

definition detected_ok :: "(byte list \<Rightarrow> byte list) \<Rightarrow> channel \<Rightarrow> bool" where
  "detected_ok sha d = (1 \<le> ch_Number d \<and> ch_Number d \<le> 256 \<and> \<not> ch_Primary d \<and> ch_CameraID d = cameraIDForUID sha (ch_uid d)
     \<and> normal_uid (ch_uid d))"

lemma ball_update: "\<forall>x \<in> set m. P x \<Longrightarrow> P (k, v) \<Longrightarrow> \<forall>x \<in> set (AList.update k v m). P x"
  by (induction m) auto

lemma keys_update: "x \<in> set (AList.update k v m) \<Longrightarrow> distinct (map fst m) \<Longrightarrow> x = (k, v) \<or> (x \<in> set m \<and> fst x \<noteq> k)"
  by (induction m) (auto split: if_splits)

lemma normal_uid_normalize [simp]: "normal_uid (normalizeUID raw)" "normal_uid []"
  by (auto simp: normal_uid_def normalizeUID_def trim_space_def trim_left_def to_upper_def intro: exI [of _ "[]"])

lemma normalizeUID_Nil [simp]: "normalizeUID [] = []"
  by (simp add: normalizeUID_def trim_space_def trim_left_def to_upper_def)

lemma cameraID_Nil [simp]: "cameraIDForUID sha [] = []"
  by (simp add: cameraIDForUID_def)

lemma status_channel_ok:
  assumes "\<forall>x \<in> set m. fst x = ch_Number (snd x) \<and> detected_ok sha (snd x)"
  shows "\<forall>x \<in> set (status_channel sha m st). fst x = ch_Number (snd x) \<and> detected_ok sha (snd x)"
proof -
  have "\<forall>x \<in> set (AList.update (st_channel st + 1)
      \<lparr>ch_Number = st_channel st + 1, ch_Name = name, ch_CameraID = cameraIDForUID sha (normalizeUID u), ch_Online = on,
       ch_StatusKnown = True, ch_Primary = False, ch_uid = normalizeUID u, ch_source = None\<rparr> m).
      fst x = ch_Number (snd x) \<and> detected_ok sha (snd x)"
    if "0 \<le> st_channel st" "st_channel st \<le> 255" for name u on
    by (rule ball_update [OF assms]) (use that in \<open>simp add: detected_ok_def\<close>)
  then show ?thesis using assms by (simp add: status_channel_def Let_def)
qed

lemma fetched_ok: "fetchChannelStatusCGI sha decode r = Inr ds \<Longrightarrow> d \<in> set ds \<Longrightarrow> detected_ok sha d"
proof -
  assume a: "fetchChannelStatusCGI sha decode r = Inr ds" "d \<in> set ds"
  have "\<forall>x \<in> set (foldl (status_channel sha) m statuses). fst x = ch_Number (snd x) \<and> detected_ok sha (snd x)"
    if "\<forall>x \<in> set m. fst x = ch_Number (snd x) \<and> detected_ok sha (snd x)" for m statuses
    using that
  proof (induction statuses arbitrary: m)
    case (Cons st statuses)
    then show ?case using status_channel_ok [OF Cons.prems] unfolding foldl_Cons by blast
  qed simp
  from this [of "[]"] have all: "\<forall>x \<in> set (foldl (status_channel sha) [] statuses). detected_ok sha (snd x)" for statuses
    by (simp only: ball_simps simp_thms list.set) blast
  obtain statuses where ds: "ds = sort_key ch_Number (map snd (foldl (status_channel sha) [] statuses))"
    using a(1) unfolding fetchChannelStatusCGI_def Let_def by (auto split: option.splits if_splits list.splits)
  show ?thesis using a(2) all [of statuses] unfolding ds set_sort set_map by blast
qed

lemma fetch_first_in: "fetch_first rs = Inr ds \<Longrightarrow> Inr ds \<in> set rs"
  by (induction rs) (auto split: sum.splits)

lemma fetchChannels_in: "fetchChannels rs = Inr ds \<Longrightarrow> Inr ds \<in> set rs"
  by (auto simp: fetchChannels_def intro: fetch_first_in split: sum.splits)

section \<open>The invariant of the channels\<close>

lemma channels_ok_update:
  "channels_ok sha cfg m \<Longrightarrow> entry_ok sha cfg (k, v) \<Longrightarrow> channels_ok sha cfg (AList.update k v m)"
  unfolding channels_ok_def by (intro conjI ball_update) (simp_all add: distinct_update)

lemma channels_ok_lookup: "channels_ok sha cfg m \<Longrightarrow> map_of m n = Some e \<Longrightarrow> entry_ok sha cfg (n, e)"
  by (auto simp: channels_ok_def dest: map_of_SomeD)

text \<open>While the new channels are collected, none is primary yet.\<close>

definition fresh_ok :: "(byte list \<Rightarrow> byte list) \<Rightarrow> channels \<Rightarrow> bool" where
  "fresh_ok sha m = (distinct (map fst m) \<and> (\<forall>(n, e) \<in> set m. ch_Number e = n \<and> ch_source e = Some (n - 1) \<and> detected_ok sha e))"

lemma discover_entry_ok:
  assumes "fresh_ok sha (fst s)" "channels_ok sha cfg prev" "detected_ok sha d"
  shows "fresh_ok sha (fst (discover_entry prev byCamera s d))"
proof -
  have src: "(case map_of prev (ch_Number d) of Some e \<Rightarrow> (if ch_source e = None then Some (ch_Number d - 1) else ch_source e)
      | None \<Rightarrow> Some (ch_Number d - 1)) = Some (ch_Number d - 1)"
    using channels_ok_lookup [OF assms(2)] by (auto simp: entry_ok_def split: option.split)
  have "fresh_ok sha (AList.update (ch_Number d) (d\<lparr>ch_Name := x, ch_source := Some (ch_Number d - 1)\<rparr>) (fst s))" for x
    using assms(1,3) unfolding fresh_ok_def
    by (intro conjI ball_update) (simp_all add: distinct_update detected_ok_def)
  then show ?thesis using assms(1) by (cases s) (simp add: discover_entry_def Let_def src)
qed

lemma discover_fold_ok:
  assumes "channels_ok sha cfg prev" "\<forall>d \<in> set ds. detected_ok sha d" "fresh_ok sha (fst s)"
  shows "fresh_ok sha (fst (foldl (discover_entry prev byCamera) s ds))"
  using assms(2,3) by (induction ds arbitrary: s) (simp_all add: discover_entry_ok [OF _ assms(1)])

lemma lookup_ok:
  assumes "channels_ok sha cfg m"
  shows "ch_CameraID (lookup m n) = cameraIDForUID sha (ch_uid (lookup m n))" "normal_uid (ch_uid (lookup m n))"
  using channels_ok_lookup [OF assms, of n]
  by (auto simp: lookup_def entry_ok_def zero_channel_def split: option.split)

lemma discovered_ok:
  assumes "channels_ok sha cfg prev" "\<forall>d \<in> set ds. detected_ok sha d" "0 \<le> NVRChannel cfg" "NVRChannel cfg \<le> 255"
  shows "channels_ok sha cfg (discovered ord cfg prev ds)" "primary_number cfg \<in> fst ` set (discovered ord cfg prev ds)"
proof -
  define nxt where "nxt = fst (foldl (discover_entry prev (previous_by_camera (ord prev))) ([], {}) ds)"
  have fresh: "fresh_ok sha nxt"
    unfolding nxt_def by (rule discover_fold_ok [OF assms(1,2)]) (simp add: fresh_ok_def)
  define p where "p = primary_number cfg"
  have p: "1 \<le> p" "p \<le> 256" "NVRChannel cfg = p - 1" using assms(3,4) by (simp_all add: p_def primary_number_def)
  obtain e where e: "discovered ord cfg prev ds = AList.update p e nxt" "entry_ok sha cfg (p, e)"
  proof (cases "map_of nxt p")
    case None
    show ?thesis
      by (rule that [of "(lookup prev p)\<lparr>ch_Number := p, ch_Primary := True, ch_StatusKnown := True, ch_Online := False, ch_source := Some (p - 1)\<rparr>"])
        (use None p lookup_ok [OF assms(1)] in \<open>auto simp: discovered_def Let_def nxt_def p_def entry_ok_def\<close>)
  next
    case (Some d)
    then have "detected_ok sha d" "ch_Number d = p" using fresh by (auto simp: fresh_ok_def dest: map_of_SomeD)
    then show ?thesis using Some p
      by (intro that [of "d\<lparr>ch_Primary := True, ch_source := Some (p - 1)\<rparr>"])
        (auto simp: discovered_def Let_def nxt_def p_def entry_ok_def detected_ok_def)
  qed
  have split: "x = (p, e) \<or> (x \<in> set nxt \<and> fst x \<noteq> p)" if "x \<in> set (AList.update p e nxt)" for x
    using keys_update [OF that] fresh by (simp add: fresh_ok_def)
  have "entry_ok sha cfg x" if "x \<in> set (AList.update p e nxt)" for x
    using split [OF that] e(2) fresh by (auto simp: fresh_ok_def entry_ok_def detected_ok_def p_def)
  then show "channels_ok sha cfg (discovered ord cfg prev ds)"
    using fresh unfolding e(1) by (simp add: channels_ok_def fresh_ok_def distinct_update)
  show "primary_number cfg \<in> fst ` set (discovered ord cfg prev ds)" unfolding e(1) by (simp add: dom_update p_def)
qed

lemma foldl_keeps: "P s \<Longrightarrow> (\<And>s x. P s \<Longrightarrow> P (f s x)) \<Longrightarrow> P (foldl f s xs)"
  by (induction xs arbitrary: s) auto

lemma load_entry_ok: "channels_ok sha cfg m \<Longrightarrow> channels_ok sha cfg (load_entry sha cfg m s)"
proof -
  assume m: "channels_ok sha cfg m"
  have "cameraIDForUID sha (normalizeUID (sc_UID s)) = cameraIDForUID sha (normalizeUID (sc_UID s))" by simp
  then show ?thesis using m
    by (auto simp: load_entry_def Let_def entry_ok_def intro!: channels_ok_update)
qed

lemma loadState_ok:
  assumes "catalog_ok sha cfg c" "0 \<le> NVRChannel cfg" "NVRChannel cfg \<le> 255"
  shows "catalog_ok sha cfg (fst (loadState sha decode file c))"
proof -
  have cfg: "cat_cfg c = cfg" using assms(1) by (simp add: catalog_ok_def)
  have p: "1 \<le> primary_number cfg" "primary_number cfg \<le> 256" "NVRChannel cfg = primary_number cfg - 1"
    using assms(2,3) by (simp_all add: primary_number_def)
  have m: "channels_ok sha cfg (foldl (load_entry sha cfg) (cat_channels c) ss)" for ss
    using assms(1) by (intro foldl_keeps [where P = "channels_ok sha cfg"] load_entry_ok) (simp_all add: catalog_ok_def)
  have "channels_ok sha cfg (AList.update (primary_number cfg)
      ((lookup m (primary_number cfg))\<lparr>ch_Number := primary_number cfg, ch_Primary := True, ch_source := Some (NVRChannel cfg)\<rparr>) m)"
    if "channels_ok sha cfg m" for m
    using that p lookup_ok [OF that] by (auto simp: entry_ok_def intro!: channels_ok_update)
  then show ?thesis using assms(1) m cfg
    by (simp add: loadState_def Let_def catalog_ok_def dom_update split: option.split)
qed

lemma reach_ok:
  assumes "catalog_reach sha cfg c" "0 \<le> NVRChannel cfg" "NVRChannel cfg \<le> 255"
  shows "catalog_ok sha cfg c"
  using assms(1)
proof (induction rule: catalog_reach.induct)
  case (started decode files path)
  have "catalog_ok sha cfg (empty_catalog cfg)"
    using assms(2,3)
    by (simp add: catalog_ok_def channels_ok_def entry_ok_def empty_catalog_def zero_channel_def primary_number_def)
  then show ?case by (simp add: newCatalog_def Let_def loadState_ok assms(2,3))
next
  case (discovers c ord now decode replies)
  have "\<forall>d \<in> set ds. detected_ok sha d" if "fetchChannels (map (fetchChannelStatusCGI sha decode) replies) = Inr ds" for ds
    using fetchChannels_in [OF that] fetched_ok by (metis (no_types, lifting) imageE list.set_map)
  then show ?case using discovers.IH discovered_ok [OF _ _ assms(2,3)]
    by (auto simp: Discover_def Let_def catalog_ok_def split: sum.splits)
qed

section \<open>Properties of the published channels\<close>

lemma channel_numbers:
  assumes "catalog_ok sha cfg c"
  shows "set (ChannelNumbers c) = fst ` set (cat_channels c)" "sorted (ChannelNumbers c)" "distinct (ChannelNumbers c)"
proof -
  have "map ch_Number (map snd (cat_channels c)) = map fst (cat_channels c)"
    using assms by (auto simp: catalog_ok_def channels_ok_def entry_ok_def)
  then have m: "mset (ChannelNumbers c) = mset (map fst (cat_channels c))"
    unfolding ChannelNumbers_def Channels_def by (metis mset_map mset_sort)
  show "set (ChannelNumbers c) = fst ` set (cat_channels c)" using mset_eq_setD [OF m] by simp
  show "sorted (ChannelNumbers c)" by (simp add: ChannelNumbers_def Channels_def sorted_sort_key)
  show "distinct (ChannelNumbers c)"
    using mset_eq_imp_distinct_iff [OF m] assms by (simp add: catalog_ok_def channels_ok_def)
qed

lemma published_fetch:
  assumes "catalog_ok sha cfg c"
  shows "FetchChannelJPEG c n = (if n \<in> set (ChannelNumbers c) then Some (n - 1) else None)"
proof -
  have all: "\<forall>x \<in> set (cat_channels c). entry_ok sha cfg x" using assms by (simp add: catalog_ok_def channels_ok_def)
  show ?thesis using all channel_numbers(1) [OF assms]
    by (auto simp: FetchChannelJPEG_def entry_ok_def map_of_eq_None_iff image_iff split: option.split dest!: map_of_SomeD)
qed

text \<open>C20. Whatever the state file and the replies of the recorder hold, and however often and with whatever failures the
  channels were discovered, the catalogue publishes each channel once, in order, and numbered 1 to 256; the image of channel
  \<open>n\<close> comes from camera input \<open>n - 1\<close>, nothing is served for a number that is not published, and the door channel is
  published with its own source.  A failed discovery changes no channel.\<close>

theorem published_channels:
  assumes "catalog_reach sha cfg c" "0 \<le> NVRChannel cfg" "NVRChannel cfg \<le> 255"
  shows "sorted (ChannelNumbers c) \<and> distinct (ChannelNumbers c) \<and> set (ChannelNumbers c) \<subseteq> {1..256}
    \<and> (\<forall>n. FetchChannelJPEG c n = (if n \<in> set (ChannelNumbers c) then Some (n - 1) else None))
    \<and> primary_number cfg \<in> set (ChannelNumbers c) \<and> FetchChannelJPEG c (primary_number cfg) = Some (NVRChannel cfg)
    \<and> (\<forall>ord now e. cat_channels (fst (Discover ord now (Inl e) c)) = cat_channels c)"
proof -
  have ok: "catalog_ok sha cfg c" by (rule reach_ok [OF assms])
  then have all: "\<forall>x \<in> set (cat_channels c). entry_ok sha cfg x" and p: "primary_number cfg \<in> fst ` set (cat_channels c)"
    by (simp_all add: catalog_ok_def channels_ok_def)
  note fetch = published_fetch [OF ok]
  have "set (ChannelNumbers c) \<subseteq> {1..256}" using all channel_numbers(1) [OF ok] by (auto simp: entry_ok_def)
  then show ?thesis using fetch p channel_numbers [OF ok]
    by (simp add: primary_number_def Discover_def Let_def)
qed

theorem published_channels_witness:
  "set (ChannelNumbers (newCatalog (\<lambda>b. b) (\<lambda>_. None) (\<lambda>_. None) Defaults [])) \<subseteq> {1..256}"
  using published_channels [OF catalog_reach.started, of Defaults "\<lambda>b. b" "\<lambda>_. None" "\<lambda>_. None" "[]"]
  by (simp add: Defaults_def SetAECDelay_def Let_def)

section \<open>Restarts\<close>

lemma upper_char_space [simp]: "is_space (upper_char c) = is_space c"
  by (auto simp: upper_char_def is_space_def Let_def)

lemma trim_left_map_upper: "trim_left (map upper_char s) = map upper_char (trim_left s)"
  by (simp add: trim_left_def dropWhile_map comp_def)

lemma to_upper_trim: "to_upper (trim_space s) = trim_space (to_upper s)"
  by (simp add: to_upper_def trim_space_def trim_left_map_upper dropWhile_map comp_def rev_map)

text \<open>The first normalization may leave a trailing blank where it cuts; the second one removes it.\<close>

lemma normalizeUID_twice: "normalizeUID (normalizeUID (normalizeUID u)) = normalizeUID (normalizeUID u)"
proof -
  define v where "v = normalizeUID u"
  define w where "w = trim_space v"
  have v: "to_upper v = v" "length v \<le> 128" by (simp_all add: v_def normalizeUID_def to_upper_def take_map comp_def)
  have "length w \<le> 128" using v(2)
      length_dropWhile_le [of is_space "rev (dropWhile is_space v)"] length_dropWhile_le [of is_space v]
    by (simp add: w_def trim_space_def trim_left_def)
  moreover have "to_upper w = w" using v(1) by (simp add: w_def to_upper_trim)
  ultimately have nv: "normalizeUID v = w" by (simp add: normalizeUID_def flip: w_def)
  then have "normalizeUID w = w" using \<open>to_upper w = w\<close> \<open>length w \<le> 128\<close> by (simp add: normalizeUID_def w_def)
  then show ?thesis using nv by (simp add: v_def)
qed

definition stored_entry :: "int \<times> channel \<Rightarrow> stored_channel" where
  "stored_entry = (\<lambda>(n, e). \<lparr>sc_Number = ch_Number e, sc_Name = ch_Name e, sc_UID = ch_uid e, sc_Online = ch_Online e\<rparr>)"

definition restored :: "channel \<Rightarrow> channel" where
  "restored e = e\<lparr>ch_Name := normalizeChannelName (ch_Name e), ch_uid := normalizeUID (ch_uid e), ch_StatusKnown := False\<rparr>"

lemma load_entry_other: "sc_Number s \<noteq> n \<Longrightarrow> map_of (load_entry sha cfg m s) n = map_of m n"
  by (simp add: load_entry_def Let_def update_conv)

lemma load_entries_other: "n \<notin> sc_Number ` set ss \<Longrightarrow> map_of (foldl (load_entry sha cfg) m ss) n = map_of m n"
  by (induction ss arbitrary: m) (auto simp: load_entry_other)

lemma load_entry_stored:
  assumes "entry_ok sha cfg (n, e)"
  shows "map_of (load_entry sha cfg m (stored_entry (n, e))) n = Some (restored e)"
proof -
  obtain raw where u: "ch_uid e = normalizeUID raw" using assms by (auto simp: entry_ok_def normal_uid_def)
  have "cameraIDForUID sha (normalizeUID (ch_uid e)) = cameraIDForUID sha (ch_uid e)"
    unfolding u cameraIDForUID_def normalizeUID_twice ..
  then show ?thesis using assms
    by (cases e) (auto simp: load_entry_def Let_def update_conv stored_entry_def restored_def entry_ok_def)
qed

lemma load_entries_stored:
  assumes "stored_entry (n, e) \<in> set ss" "distinct (map sc_Number ss)" "entry_ok sha cfg (n, e)"
  shows "map_of (foldl (load_entry sha cfg) m ss) n = Some (restored e)"
  using assms
proof (induction ss arbitrary: m)
  case (Cons s ss)
  show ?case
  proof (cases "s = stored_entry (n, e)")
    case True
    have "sc_Number s = n" using Cons.prems(3) True by (simp add: stored_entry_def entry_ok_def)
    then have "n \<notin> sc_Number ` set ss" using Cons.prems(2) by auto
    then show ?thesis using load_entry_stored [OF Cons.prems(3), of m] by (simp add: True load_entries_other)
  next
    case False
    then show ?thesis using Cons by auto
  qed
qed simp

lemma stored_state_entries:
  assumes "catalog_ok sha cfg c"
  shows "set (sto_Channels (stored_state c)) = stored_entry ` set (cat_channels c)" "distinct (map sc_Number (sto_Channels (stored_state c)))"
    "sc_Number ` set (sto_Channels (stored_state c)) = set (ChannelNumbers c)" "length (sto_Channels (stored_state c)) \<le> 256"
proof -
  have st: "sto_Channels (stored_state c) = sort_key sc_Number (map stored_entry (cat_channels c))"
    by (simp add: stored_state_def stored_entry_def)
  show s: "set (sto_Channels (stored_state c)) = stored_entry ` set (cat_channels c)" by (simp add: st)
  have n: "map (sc_Number \<circ> stored_entry) (cat_channels c) = map fst (cat_channels c)"
    using assms by (auto simp: catalog_ok_def channels_ok_def entry_ok_def stored_entry_def)
  have m: "mset (map sc_Number (sto_Channels (stored_state c))) = mset (map fst (cat_channels c))"
    unfolding st by (metis map_map mset_map mset_sort n)
  show "distinct (map sc_Number (sto_Channels (stored_state c)))"
    using mset_eq_imp_distinct_iff [OF m] assms by (simp add: catalog_ok_def channels_ok_def)
  show "sc_Number ` set (sto_Channels (stored_state c)) = set (ChannelNumbers c)"
    using mset_eq_setD [OF m] channel_numbers(1) [OF assms] by simp
  have "fst ` set (cat_channels c) \<subseteq> {1..256}" using assms by (auto simp: catalog_ok_def channels_ok_def entry_ok_def)
  then have "card (fst ` set (cat_channels c)) \<le> card {1..256 :: int}" by (intro card_mono) auto
  then show "length (sto_Channels (stored_state c)) \<le> 256"
    using assms distinct_card [of "map fst (cat_channels c)"] by (simp add: st catalog_ok_def channels_ok_def)
qed

text \<open>A restart keeps what is published: when the state file decodes to what was saved, the restored catalogue has the same
  channel numbers, and every channel has the same camera id, online flag, primary flag and image source, under the normalized
  name; only that its status is known is forgotten.  A file of another host or version restores nothing.\<close>

lemma restart_keeps_channels:
  assumes "catalog_reach sha cfg c" "0 \<le> NVRChannel cfg" "NVRChannel cfg \<le> 255" "trim_space path \<noteq> []"
    and "files (trim_space path) = Some b" "b \<noteq> []" "length b \<le> maxCatalogStateBytes" "decode b = Some s"
  shows "if s = stored_state c
    then ChannelNumbers (newCatalog sha decode files cfg path) = ChannelNumbers c
      \<and> (\<forall>n e. map_of (cat_channels c) n = Some e \<longrightarrow>
           map_of (cat_channels (newCatalog sha decode files cfg path)) n = Some (restored e))
    else sto_Host s \<noteq> catalogHost cfg \<or> sto_Version s \<noteq> catalogStateVersion \<longrightarrow>
      newCatalog sha decode files cfg path = empty_catalog cfg"
proof (cases "s = stored_state c")
  case False
  then show ?thesis using assms(4-8) by (auto simp: newCatalog_def Let_def loadState_def empty_catalog_def)
next
  case True
  let ?c' = "newCatalog sha decode files cfg path"
  let ?ss = "sto_Channels (stored_state c)"
  define p where "p = primary_number cfg"
  have ok: "catalog_ok sha cfg c" by (rule reach_ok [OF assms(1-3)])
  then have cfg: "cat_cfg c = cfg" and entries: "\<And>n e. (n, e) \<in> set (cat_channels c) \<Longrightarrow> entry_ok sha cfg (n, e)"
    by (auto simp: catalog_ok_def channels_ok_def)
  have ok': "catalog_ok sha cfg ?c'" by (rule reach_ok [OF catalog_reach.started assms(2,3)])
  define m where "m = foldl (load_entry sha cfg) (cat_channels (empty_catalog cfg)) ?ss"
  have c': "cat_channels ?c' = AList.update p ((lookup m p)\<lparr>ch_Number := p, ch_Primary := True, ch_source := Some (p - 1)\<rparr>) m"
    using assms(4-8) stored_state_entries(4) [OF ok] cfg
    by (simp add: True newCatalog_def loadState_def Let_def m_def p_def primary_number_def stored_state_def empty_catalog_def)
  have in_m: "map_of m n = Some (restored e)" if "(n, e) \<in> set (cat_channels c)" for n e
    using that stored_state_entries(1,2) [OF ok] entries [OF that] unfolding m_def
    by (intro load_entries_stored) auto
  have same: "map_of (cat_channels ?c') n = Some (restored e)" if "map_of (cat_channels c) n = Some e" for n e
  proof -
    have e: "(n, e) \<in> set (cat_channels c)" using that by (rule map_of_SomeD)
    have "(restored e)\<lparr>ch_Number := p, ch_Primary := True, ch_source := Some (p - 1)\<rparr> = restored e" if "n = p"
      using entries [OF e] that by (cases e) (simp add: restored_def entry_ok_def p_def)
    then show ?thesis using in_m [OF e] by (auto simp: c' update_conv lookup_def)
  qed
  have sub: "n \<in> fst ` set (cat_channels c)" if n: "n \<in> fst ` set (cat_channels ?c')" for n
  proof (cases "n = p")
    case True
    then show ?thesis using ok by (simp add: catalog_ok_def p_def)
  next
    case False
    then have "map_of m n \<noteq> None" using n by (auto simp: c' dom_update map_of_eq_None_iff)
    moreover have "map_of (cat_channels (empty_catalog cfg)) n = None" using False by (simp add: empty_catalog_def p_def)
    ultimately show ?thesis
      using load_entries_other [of n ?ss] stored_state_entries(3) [OF ok] channel_numbers(1) [OF ok] by (auto simp: m_def)
  qed
  have "n \<in> fst ` set (cat_channels ?c')" if n: "n \<in> fst ` set (cat_channels c)" for n
    using same [of n] n by (metis map_of_eq_None_iff not_Some_eq)
  then have "set (ChannelNumbers ?c') = set (ChannelNumbers c)"
    using sub unfolding channel_numbers(1) [OF ok] channel_numbers(1) [OF ok'] by blast
  then have "ChannelNumbers ?c' = ChannelNumbers c"
    by (rule sorted_distinct_set_unique [OF channel_numbers(2,3) [OF ok'] channel_numbers(2,3) [OF ok]])
  then show ?thesis using same True by simp
qed

section \<open>Two channels of one camera\<close>

text \<open>When the camera of the door channel moves to another input and nothing is left at the door channel, the door channel keeps
  the camera id, so two channels have it, and which image the camera's address shows depends on the order of a Go map.\<close>

lemma moved_door_camera:
  assumes "map_of prev (primary_number cfg) = Some door" "ch_CameraID door = ch_CameraID d" "ch_Number d \<noteq> primary_number cfg"
  shows "map_option ch_CameraID (map_of (discovered ord cfg prev [d]) (primary_number cfg)) = Some (ch_CameraID d)"
    "map_option ch_CameraID (map_of (discovered ord cfg prev [d]) (ch_Number d)) = Some (ch_CameraID d)"
  using assms by (auto simp: discovered_def discover_entry_def Let_def update_conv lookup_def)

end
