(* ===== verification/StatusStore.thy ===== *)
theory StatusStore
  imports GoStrings
begin

text \<open>
  The status of the gateway and its subscribers: \<^verbatim>\<open>Snapshot\<close> and \<^verbatim>\<open>Store\<close> of \<^verbatim>\<open>internal/status/server.go\<close>.  Every
  operation holds the mutex, so it is one step.  A channel of capacity one is an option, the queue of DTMF events a
  list of at most 64; a nil channel is \<open>None\<close>.
\<close>

section \<open>Snapshots\<close>

type_synonym timestamp = "int option"

record Snapshot =
  sn_Version :: string
  sn_StartedAt :: timestamp
  sn_UpdatedAt :: timestamp
  sn_Revision :: "64 word"
  sn_State :: string
  sn_DryRun :: bool
  sn_HAConnected :: bool
  sn_DoorCallEnabled :: bool
  sn_SIPRegistered :: bool
  sn_LastRegistrationErr :: string
  sn_ParallelCallEnabled :: bool
  sn_ParallelSIPRegistered :: bool
  sn_LastParallelRegistrationErr :: string
  sn_LastVisitorEvent :: timestamp
  sn_LastCallStarted :: timestamp
  sn_LastCallEnded :: timestamp
  sn_CurrentCallDirection :: string
  sn_LastCallDirection :: string
  sn_CurrentCallerNumber :: string
  sn_LastCallerNumber :: string
  sn_CurrentRouteID :: string
  sn_CurrentRouteName :: string
  sn_LastRouteID :: string
  sn_LastRouteName :: string
  sn_LastError :: string
  sn_ActiveCodec :: string
  sn_ConfiguredReolinkMode :: string
  sn_ActiveReolinkMode :: string
  sn_MediaProfile :: string
  sn_EchoCancellationEnabled :: bool
  sn_CalibratedDelayMS :: int
  sn_CurrentDelayMS :: int
  sn_AECSearchWindowMS :: int
  sn_AECMinDelayMS :: int
  sn_AECMaxDelayMS :: int
  sn_CalibrationStatus :: string
  sn_CalibrationDetails :: string
  sn_LastCalibration :: timestamp
  sn_WebRTCHighPassFilterEnabled :: bool
  sn_WebRTCNoiseSuppressionEnabled :: bool
  sn_FritzFonLiveImageEnabled :: bool
  sn_ActiveEchoCancellation :: string
  sn_ActiveTalkback :: string
  sn_TalkbackDetails :: string
  sn_ActiveReceive :: string
  sn_ReceiveDetails :: string

definition initial_snapshot :: "string \<Rightarrow> int \<Rightarrow> Snapshot" where
  "initial_snapshot version now =
     \<lparr>sn_Version = version, sn_StartedAt = Some now, sn_UpdatedAt = Some now, sn_Revision = 1, sn_State = ''starting'',
      sn_DryRun = False, sn_HAConnected = False, sn_DoorCallEnabled = False, sn_SIPRegistered = False, sn_LastRegistrationErr = [],
      sn_ParallelCallEnabled = False, sn_ParallelSIPRegistered = False, sn_LastParallelRegistrationErr = [],
      sn_LastVisitorEvent = None, sn_LastCallStarted = None, sn_LastCallEnded = None, sn_CurrentCallDirection = [],
      sn_LastCallDirection = [], sn_CurrentCallerNumber = [], sn_LastCallerNumber = [], sn_CurrentRouteID = [],
      sn_CurrentRouteName = [], sn_LastRouteID = [], sn_LastRouteName = [], sn_LastError = [], sn_ActiveCodec = [],
      sn_ConfiguredReolinkMode = [], sn_ActiveReolinkMode = [], sn_MediaProfile = [], sn_EchoCancellationEnabled = False,
      sn_CalibratedDelayMS = 0, sn_CurrentDelayMS = 0, sn_AECSearchWindowMS = 0, sn_AECMinDelayMS = 0, sn_AECMaxDelayMS = 0,
      sn_CalibrationStatus = [], sn_CalibrationDetails = [], sn_LastCalibration = None, sn_WebRTCHighPassFilterEnabled = False,
      sn_WebRTCNoiseSuppressionEnabled = False, sn_FritzFonLiveImageEnabled = False, sn_ActiveEchoCancellation = [],
      sn_ActiveTalkback = [], sn_TalkbackDetails = [], sn_ActiveReceive = [], sn_ReceiveDetails = []\<rparr>"

record dtmf_event =
  ev_Digit :: string
  ev_DurationMS :: int
  ev_ReceivedAt :: int
  ev_CallDirection :: string
  ev_RemoteNumber :: string
  ev_CallID :: string

record RouteDefinition =
  rd_ID :: string
  rd_Name :: string
  rd_DoorCall :: bool
  rd_MobileCall :: bool

section \<open>The store\<close>

record subscriber =
  sub_status :: "Snapshot option"
  sub_dtmf :: "dtmf_event list option"

record Store =
  st_value :: Snapshot
  st_subscribers :: "64 word \<rightharpoonup> subscriber"
  st_nextSubscriber :: "64 word"
  st_routes :: "RouteDefinition list"

definition new_store :: "string \<Rightarrow> int \<Rightarrow> Store" where
  "new_store version now =
     \<lparr>st_value = initial_snapshot version now, st_subscribers = (\<lambda>_. None), st_nextSubscriber = 0, st_routes = []\<rparr>"

text \<open>The newest snapshot replaces one that is still waiting to be read.\<close>

definition offer_status :: "Snapshot \<Rightarrow> subscriber \<Rightarrow> subscriber" where
  "offer_status v sub = (if sub_status sub = None then sub\<lparr>sub_status := Some v\<rparr> else sub\<lparr>sub_status := None\<rparr>\<lparr>sub_status := Some v\<rparr>)"

definition Update :: "(Snapshot \<Rightarrow> Snapshot) \<Rightarrow> int \<Rightarrow> Store \<Rightarrow> Store" where
  "Update fn now s =
     (let before = st_value s; v = fn before in
      if v = before then s
      else
        let v = v\<lparr>sn_Revision := sn_Revision v + 1, sn_UpdatedAt := Some now\<rparr>
        in s\<lparr>st_value := v, st_subscribers := (\<lambda>i. map_option (offer_status v) (st_subscribers s i))\<rparr>)"

definition SetRoutes :: "RouteDefinition list \<Rightarrow> Store \<Rightarrow> Store" where
  "SetRoutes routes s = s\<lparr>st_routes := routes\<rparr>"

definition add_subscriber :: "dtmf_event list option \<Rightarrow> Store \<Rightarrow> 64 word \<times> Store" where
  "add_subscriber dtmf s =
     (let i = st_nextSubscriber s + 1
      in (i, s\<lparr>st_nextSubscriber := i,
               st_subscribers := (st_subscribers s)(i \<mapsto> \<lparr>sub_status = Some (st_value s), sub_dtmf = dtmf\<rparr>)\<rparr>))"

definition Subscribe :: "Store \<Rightarrow> 64 word \<times> Store" where
  "Subscribe s = add_subscriber None s"

definition subscribeEvents :: "Store \<Rightarrow> 64 word \<times> Store" where
  "subscribeEvents s = add_subscriber (Some []) s"

definition cancelSubscriber :: "64 word \<Rightarrow> Store \<Rightarrow> Store" where
  "cancelSubscriber i s = s\<lparr>st_subscribers := (st_subscribers s)(i := None)\<rparr>"

definition dtmf_capacity :: nat where "dtmf_capacity = 64"

definition offer_dtmf :: "dtmf_event \<Rightarrow> subscriber \<Rightarrow> subscriber" where
  "offer_dtmf ev sub =
     (case sub_dtmf sub of
        None \<Rightarrow> sub
      | Some q \<Rightarrow> if length q < dtmf_capacity then sub\<lparr>sub_dtmf := Some (q @ [ev])\<rparr> else sub)"

definition PublishDTMF :: "dtmf_event \<Rightarrow> Store \<Rightarrow> Store" where
  "PublishDTMF ev s = s\<lparr>st_subscribers := (\<lambda>i. map_option (offer_dtmf ev) (st_subscribers s i))\<rparr>"

section \<open>The reader of a subscription\<close>

text \<open>\<open>serveEvents\<close> takes from the two channels in any order; a channel that is empty gives nothing.\<close>

definition take_status :: "64 word \<Rightarrow> Store \<Rightarrow> Snapshot option \<times> Store" where
  "take_status i s =
     (case st_subscribers s i of
        None \<Rightarrow> (None, s)
      | Some sub \<Rightarrow> (sub_status sub, s\<lparr>st_subscribers := (st_subscribers s)(i \<mapsto> sub\<lparr>sub_status := None\<rparr>)\<rparr>))"

definition take_dtmf :: "64 word \<Rightarrow> Store \<Rightarrow> dtmf_event option \<times> Store" where
  "take_dtmf i s =
     (case st_subscribers s i of
        None \<Rightarrow> (None, s)
      | Some sub \<Rightarrow>
          (case sub_dtmf sub of
             Some (ev # q) \<Rightarrow> (Some ev, s\<lparr>st_subscribers := (st_subscribers s)(i \<mapsto> sub\<lparr>sub_dtmf := Some q\<rparr>)\<rparr>)
           | _ \<Rightarrow> (None, s)))"

text \<open>What can happen to a store, by any of the goroutines that share it.\<close>

datatype store_op =
    Op_update "Snapshot \<Rightarrow> Snapshot" int
  | Op_routes "RouteDefinition list"
  | Op_subscribe
  | Op_subscribe_events
  | Op_cancel "64 word"
  | Op_publish dtmf_event
  | Op_take_status "64 word"
  | Op_take_dtmf "64 word"

datatype store_event = Read_status "64 word" Snapshot | Read_dtmf "64 word" dtmf_event

fun store_do :: "store_op \<Rightarrow> Store \<Rightarrow> Store \<times> store_event list" where
  "store_do (Op_update fn now) s = (Update fn now s, [])"
| "store_do (Op_routes rs) s = (SetRoutes rs s, [])"
| "store_do Op_subscribe s = (snd (Subscribe s), [])"
| "store_do Op_subscribe_events s = (snd (subscribeEvents s), [])"
| "store_do (Op_cancel i) s = (cancelSubscriber i s, [])"
| "store_do (Op_publish ev) s = (PublishDTMF ev s, [])"
| "store_do (Op_take_status i) s =
     (case take_status i s of (Some v, s') \<Rightarrow> (s', [Read_status i v]) | (None, s') \<Rightarrow> (s', []))"
| "store_do (Op_take_dtmf i) s =
     (case take_dtmf i s of (Some ev, s') \<Rightarrow> (s', [Read_dtmf i ev]) | (None, s') \<Rightarrow> (s', []))"

fun store_run :: "store_op list \<Rightarrow> Store \<Rightarrow> Store \<times> store_event list" where
  "store_run [] s = (s, [])"
| "store_run (x # xs) s =
     (let (s, out) = store_do x s; (s, outs) = store_run xs s in (s, out @ outs))"

definition status_reads :: "64 word \<Rightarrow> store_event list \<Rightarrow> Snapshot list" where
  "status_reads i outs = concat (map (\<lambda>x. case x of Read_status j v \<Rightarrow> if j = i then [v] else [] | _ \<Rightarrow> []) outs)"

definition dtmf_reads :: "64 word \<Rightarrow> store_event list \<Rightarrow> dtmf_event list" where
  "dtmf_reads i outs = concat (map (\<lambda>x. case x of Read_dtmf j v \<Rightarrow> if j = i then [v] else [] | _ \<Rightarrow> []) outs)"

definition published :: "store_op list \<Rightarrow> dtmf_event list" where
  "published ops = concat (map (\<lambda>x. case x of Op_publish ev \<Rightarrow> [ev] | _ \<Rightarrow> []) ops)"

section \<open>What a subscription sees\<close>

lemmas store_defs = Update_def SetRoutes_def add_subscriber_def Subscribe_def subscribeEvents_def cancelSubscriber_def PublishDTMF_def
  take_status_def take_dtmf_def offer_status_def offer_dtmf_def

text \<open>The invariant of one subscription \<open>i\<close>: \<open>rs\<close> and \<open>es\<close> have been read from it, \<open>ps\<close> was published since it began.\<close>

definition pending_ok :: "Snapshot \<Rightarrow> Snapshot option \<Rightarrow> Snapshot list \<Rightarrow> bool" where
  "pending_ok cur w rs = (case w of Some v \<Rightarrow> v = cur \<and> (rs \<noteq> [] \<longrightarrow> sn_Revision (last rs) < sn_Revision cur)
     | None \<Rightarrow> rs \<noteq> [] \<and> last rs = cur)"

definition stream_inv :: "64 word \<Rightarrow> Store \<Rightarrow> Snapshot list \<Rightarrow> dtmf_event list \<Rightarrow> dtmf_event list \<Rightarrow> bool" where
  "stream_inv i s rs es ps = (\<exists>w q. st_subscribers s i = Some \<lparr>sub_status = w, sub_dtmf = Some q\<rparr>
     \<and> length q \<le> dtmf_capacity \<and> subseq (es @ q) ps \<and> (length ps \<le> dtmf_capacity \<longrightarrow> es @ q = ps)
     \<and> sorted_wrt (\<lambda>a b. sn_Revision a < sn_Revision b) rs
     \<and> pending_ok (st_value s) w rs \<and> i \<le> st_nextSubscriber s)"

text \<open>The updates of the gateway leave the revision to the store.\<close>

definition op_ok :: "64 word \<Rightarrow> store_op \<Rightarrow> bool" where
  "op_ok i x = (x \<noteq> Op_cancel i \<and> (\<forall>fn now v. x = Op_update fn now \<longrightarrow> sn_Revision (fn v) = sn_Revision v))"

lemma word_next: "unat (w :: 64 word) + 1 < 2 ^ 64 \<Longrightarrow> w < w + 1 \<and> unat (w + 1) = unat w + 1"
proof -
  assume w: "unat w + 1 < 2 ^ 64"
  have "unat (w + 1) = (unat w + unat (1 :: 64 word)) mod 2 ^ LENGTH(64)" by (rule unat_word_ariths(1))
  then have "unat (w + 1) = unat w + 1" using w by simp
  then show ?thesis by (simp add: word_less_nat_alt)
qed

lemma sorted_snoc:
  "sorted_wrt (\<lambda>a b. sn_Revision a < sn_Revision b) rs \<Longrightarrow> (rs \<noteq> [] \<longrightarrow> sn_Revision (last rs) < sn_Revision v)
   \<Longrightarrow> sorted_wrt (\<lambda>a b. sn_Revision a < sn_Revision b) (rs @ [v])"
  by (cases rs rule: rev_cases) (simp_all add: sorted_wrt_append, meson less_trans)

lemma pending_le: "pending_ok cur w rs \<Longrightarrow> rs \<noteq> [] \<Longrightarrow> sn_Revision (last rs) \<le> sn_Revision cur"
  by (cases w) (simp_all add: pending_ok_def)

lemma update_stream:
  assumes "stream_inv i s rs es ps" "sn_Revision (fn (st_value s)) = sn_Revision (st_value s)"
    and "unat (sn_Revision (st_value s)) + 1 < 2 ^ 64"
  shows "stream_inv i (Update fn now s) rs es ps"
proof (cases "fn (st_value s) = st_value s")
  case True
  then show ?thesis using assms(1) by (simp add: Update_def)
next
  case False
  have "sn_Revision (last rs) < sn_Revision (st_value s) + 1" if "rs \<noteq> []"
  proof -
    have "sn_Revision (last rs) \<le> sn_Revision (st_value s)"
      using assms(1) that unfolding stream_inv_def by (auto intro: pending_le)
    then show ?thesis by (rule le_less_trans) (rule conjunct1 [OF word_next [OF assms(3)]])
  qed
  moreover have "offer_status v \<lparr>sub_status = w, sub_dtmf = q\<rparr> = \<lparr>sub_status = Some v, sub_dtmf = q\<rparr>" for v w q
    by (simp add: offer_status_def)
  moreover obtain w q where "st_subscribers s i = Some \<lparr>sub_status = w, sub_dtmf = Some q\<rparr>" "length q \<le> dtmf_capacity"
      "subseq (es @ q) ps" "length ps \<le> dtmf_capacity \<longrightarrow> es @ q = ps" "sorted_wrt (\<lambda>a b. sn_Revision a < sn_Revision b) rs"
      "i \<le> st_nextSubscriber s"
    using assms(1) unfolding stream_inv_def by blast
  ultimately show ?thesis using False
    by (simp add: stream_inv_def Update_def Let_def assms(2) pending_ok_def)
qed

lemma publish_stream:
  assumes "stream_inv i s rs es ps"
  shows "stream_inv i (PublishDTMF ev s) rs es (ps @ [ev])"
proof -
  obtain w q where s: "st_subscribers s i = Some \<lparr>sub_status = w, sub_dtmf = Some q\<rparr>" "length q \<le> dtmf_capacity" "subseq (es @ q) ps"
      "length ps \<le> dtmf_capacity \<longrightarrow> es @ q = ps"
    and rest: "sorted_wrt (\<lambda>a b. sn_Revision a < sn_Revision b) rs"
      "pending_ok (st_value s) w rs"
      "i \<le> st_nextSubscriber s"
    using assms unfolding stream_inv_def by blast
  show ?thesis
  proof (cases "length q < dtmf_capacity")
    case True
    have "subseq (es @ q @ [ev]) (ps @ [ev])" using list_emb_append_mono [OF s(3), of "[ev]" "[ev]"] by simp
    then show ?thesis using s rest True by (simp add: stream_inv_def PublishDTMF_def offer_dtmf_def)
  next
    case False
    have "subseq (es @ q) (ps @ [ev])" using list_emb_append_mono [OF s(3) list_emb_Nil, of "[ev]"] by simp
    moreover have "\<not> length (ps @ [ev]) \<le> dtmf_capacity"
      using s(3) False list_emb_length [OF s(3)] by simp
    ultimately show ?thesis using s rest False by (simp add: stream_inv_def PublishDTMF_def offer_dtmf_def)
  qed
qed

lemma step_stream:
  assumes inv: "stream_inv i s rs es ps" and ok: "op_ok i x"
    and rev: "unat (sn_Revision (st_value s)) + 1 < 2 ^ 64" and nxt: "unat (st_nextSubscriber s) + 1 < 2 ^ 64"
    and step: "store_do x s = (s', out)"
  shows "stream_inv i s' (rs @ status_reads i out) (es @ dtmf_reads i out) (ps @ published [x])"
    "unat (sn_Revision (st_value s')) \<le> unat (sn_Revision (st_value s)) + 1"
    "unat (st_nextSubscriber s') \<le> unat (st_nextSubscriber s) + 1"
proof -
  note obs = status_reads_def dtmf_reads_def published_def
  have le: "i \<le> st_nextSubscriber s" using inv by (auto simp: stream_inv_def)
  then have new: "st_nextSubscriber s + 1 \<noteq> i" "i \<le> st_nextSubscriber s + 1"
    using word_next [OF nxt] by auto
  show "stream_inv i s' (rs @ status_reads i out) (es @ dtmf_reads i out) (ps @ published [x])"
  proof (cases x)
    case (Op_update fn now)
    then show ?thesis using step ok update_stream [OF inv _ rev] by (auto simp: obs op_ok_def)
  next
    case (Op_publish ev)
    then show ?thesis using step publish_stream [OF inv] by (auto simp: obs)
  next
    case (Op_take_status j)
    show ?thesis
    proof (cases "j = i")
      case True
      then show ?thesis using step Op_take_status inv
        by (auto simp: obs stream_inv_def take_status_def sorted_snoc pending_ok_def split: option.splits)
    next
      case False
      then show ?thesis using step Op_take_status inv
        by (auto simp: obs stream_inv_def take_status_def split: option.splits prod.splits)
    qed
  next
    case (Op_take_dtmf j)
    show ?thesis
    proof (cases "j = i")
      case True
      then show ?thesis using step Op_take_dtmf inv
        by (auto simp: obs stream_inv_def take_dtmf_def split: option.splits list.splits)
    next
      case False
      then show ?thesis using step Op_take_dtmf inv
        by (auto simp: obs stream_inv_def take_dtmf_def split: option.splits prod.splits list.splits)
    qed
  qed (use step inv ok new in \<open>auto simp: obs stream_inv_def op_ok_def store_defs Let_def\<close>)
  show "unat (sn_Revision (st_value s')) \<le> unat (sn_Revision (st_value s)) + 1"
  proof (cases x)
    case (Op_update fn now)
    then show ?thesis using step ok word_next [OF rev] by (auto simp: op_ok_def Update_def Let_def)
  qed (use step in \<open>auto simp: store_defs Let_def split: option.splits list.splits\<close>)
  show "unat (st_nextSubscriber s') \<le> unat (st_nextSubscriber s) + 1"
    using step word_next [OF nxt] by (cases x) (auto simp: store_defs Let_def split: option.splits list.splits)
qed

lemma run_stream:
  assumes "stream_inv i s rs es ps" "\<forall>x \<in> set ops. op_ok i x" "unat (sn_Revision (st_value s)) + length ops < 2 ^ 64"
    "unat (st_nextSubscriber s) + length ops < 2 ^ 64" "store_run ops s = (s', outs)"
  shows "stream_inv i s' (rs @ status_reads i outs) (es @ dtmf_reads i outs) (ps @ published ops)"
  using assms
proof (induction ops arbitrary: s rs es ps outs)
  case Nil
  then show ?case by (simp add: status_reads_def dtmf_reads_def published_def)
next
  case (Cons x ops)
  obtain s1 out where s1: "store_do x s = (s1, out)" by fastforce
  obtain outs' where run: "store_run ops s1 = (s', outs')" and outs: "outs = out @ outs'"
    using Cons.prems(5) s1 by (auto simp: Let_def split: prod.splits)
  have x: "op_ok i x" "unat (sn_Revision (st_value s)) + 1 < 2 ^ 64" "unat (st_nextSubscriber s) + 1 < 2 ^ 64"
    using Cons.prems(2-4) by auto
  note st = step_stream [OF Cons.prems(1) x s1]
  have "stream_inv i s' ((rs @ status_reads i out) @ status_reads i outs') ((es @ dtmf_reads i out) @ dtmf_reads i outs')
      ((ps @ published [x]) @ published ops)"
    using Cons.prems(2-4) st(2,3) run by (intro Cons.IH [OF st(1)]) auto
  then show ?case by (simp add: outs status_reads_def dtmf_reads_def published_def)
qed

section \<open>Properties\<close>

text \<open>C9. A client of the event stream never misses where the gateway is: the snapshots it reads have strictly rising
  revisions, and after any operations of all the goroutines the current snapshot is either waiting for it or is the one
  it read last, however slow it is.  The key presses it reads are published ones in their order, at most 64 wait, and
  as long as at most 64 were published none is lost.\<close>

theorem event_stream_is_current:
  assumes "subscribeEvents s = (i, s0)" "\<forall>x \<in> set ops. op_ok i x" "store_run ops s0 = (s', outs)"
    and "unat (sn_Revision (st_value s)) + length ops < 2 ^ 64" "unat (st_nextSubscriber s) + 1 + length ops < 2 ^ 64"
  shows "sorted_wrt (\<lambda>a b. sn_Revision a < sn_Revision b) (status_reads i outs)
    \<and> (\<exists>w q. st_subscribers s' i = Some \<lparr>sub_status = w, sub_dtmf = Some q\<rparr>
        \<and> (w = Some (st_value s') \<or> w = None \<and> status_reads i outs \<noteq> [] \<and> last (status_reads i outs) = st_value s')
        \<and> length q \<le> dtmf_capacity \<and> subseq (dtmf_reads i outs @ q) (published ops)
        \<and> (length (published ops) \<le> dtmf_capacity \<longrightarrow> dtmf_reads i outs @ q = published ops))"
proof -
  have "unat (st_nextSubscriber s) + 1 < 2 ^ 64" using assms(5) by linarith
  note nxt = word_next [OF this]
  have s0: "s0 = s\<lparr>st_nextSubscriber := i, st_subscribers := (st_subscribers s)(i \<mapsto> \<lparr>sub_status = Some (st_value s), sub_dtmf = Some []\<rparr>)\<rparr>"
    "i = st_nextSubscriber s + 1"
    using assms(1) by (auto simp: subscribeEvents_def add_subscriber_def Let_def)
  have "stream_inv i s0 [] [] []" by (simp add: s0(1) stream_inv_def pending_ok_def)
  then have "stream_inv i s' ([] @ status_reads i outs) ([] @ dtmf_reads i outs) ([] @ published ops)"
    using assms nxt s0 by (intro run_stream) auto
  then show ?thesis by (auto simp: stream_inv_def pending_ok_def split: option.splits)
qed

definition two_rings :: "store_op list" where
  "two_rings = [Op_update (\<lambda>v. v\<lparr>sn_State := ''dialing''\<rparr>) 2, Op_take_status 1, Op_update (\<lambda>v. v\<lparr>sn_State := ''idle''\<rparr>) 3]"

theorem event_stream_is_current_witness:
  "map sn_State (status_reads 1 (snd (store_run two_rings (snd (subscribeEvents (new_store ''1'' 0)))))) = [''dialing'']
   \<and> sn_State (st_value (fst (store_run two_rings (snd (subscribeEvents (new_store ''1'' 0)))))) = ''idle''
   \<and> (\<exists>w q. st_subscribers (fst (store_run two_rings (snd (subscribeEvents (new_store ''1'' 0))))) 1
             = Some \<lparr>sub_status = w, sub_dtmf = Some q\<rparr> \<and> w \<noteq> None)"
proof -
  let ?s = "new_store ''1'' 0"
  obtain s0 where s0: "subscribeEvents ?s = (1, s0)"
    by (auto simp: new_store_def subscribeEvents_def add_subscriber_def Let_def)
  obtain s' outs where run: "store_run two_rings s0 = (s', outs)" by fastforce
  have r: "map sn_State (status_reads 1 outs) = [''dialing'']" "sn_State (st_value s') = ''idle''"
    using run s0 by (auto simp: two_rings_def new_store_def initial_snapshot_def subscribeEvents_def add_subscriber_def Let_def Update_def
        take_status_def offer_status_def status_reads_def split: prod.splits)
  have "\<forall>x \<in> set two_rings. op_ok 1 x" by (simp add: two_rings_def op_ok_def)
  from event_stream_is_current [OF s0 this run]
  have "\<exists>w q. st_subscribers s' 1 = Some \<lparr>sub_status = w, sub_dtmf = Some q\<rparr>
      \<and> (w = Some (st_value s') \<or> w = None \<and> last (status_reads 1 outs) = st_value s')"
    by (auto simp: two_rings_def new_store_def initial_snapshot_def)
  moreover have "last (status_reads 1 outs) \<noteq> st_value s'" using r by (cases "status_reads 1 outs") auto
  ultimately show ?thesis using r run s0 by auto
qed

end
