(* ===== verification/StatusApi.thy ===== *)
theory StatusApi
  imports StatusStore
begin

text \<open>
  The API of the gateway: \<^verbatim>\<open>internal/status/api.go\<close> and the access checks of \<^verbatim>\<open>server.go\<close>.  A request is its method, its
  clean path, its \<^verbatim>\<open>Authorization\<close> field and the address of its sender; the redirects that \<^verbatim>\<open>http.ServeMux\<close> makes for
  other paths are left out.  Replies are values; the JSON encoder is a parameter of the event stream.
\<close>

section \<open>Addresses\<close>

text \<open>An \<open>net.IP\<close> is its 4 or 16 bytes.  \<open>net.SplitHostPort\<close> and \<open>net.ParseIP\<close> are parameters.\<close>

record net_ops =
  split_host :: "string \<Rightarrow> string option"
  parse_ip :: "string \<Rightarrow> byte list option"

definition to4 :: "byte list \<Rightarrow> byte list option" where
  "to4 ip =
     (if length ip = 4 then Some ip
      else if length ip = 16 \<and> take 12 ip = replicate 10 0 @ [0xff, 0xff] then Some (drop 12 ip)
      else None)"

definition is_loopback :: "byte list \<Rightarrow> bool" where
  "is_loopback ip = (case to4 ip of Some v \<Rightarrow> v ! 0 = 127 | None \<Rightarrow> ip = replicate 15 0 @ [1])"

definition is_private :: "byte list \<Rightarrow> bool" where
  "is_private ip =
     (case to4 ip of
        Some v \<Rightarrow> v ! 0 = 10 \<or> (v ! 0 = 172 \<and> and (v ! 1) 0xf0 = 16) \<or> (v ! 0 = 192 \<and> v ! 1 = 168)
      | None \<Rightarrow> length ip = 16 \<and> and (ip ! 0) 0xfe = 0xfc)"

definition is_link_local :: "byte list \<Rightarrow> bool" where
  "is_link_local ip =
     (case to4 ip of
        Some v \<Rightarrow> v ! 0 = 169 \<and> v ! 1 = 254
      | None \<Rightarrow> length ip = 16 \<and> ip ! 0 = 0xfe \<and> and (ip ! 1) 0xc0 = 0x80)"

definition remote_ip :: "net_ops \<Rightarrow> string \<Rightarrow> byte list option" where
  "remote_ip ops remote =
     parse_ip ops (trim_chars ''[]'' (case split_host ops remote of Some h \<Rightarrow> h | None \<Rightarrow> remote))"

definition allowedRemote :: "net_ops \<Rightarrow> string \<Rightarrow> bool" where
  "allowedRemote ops remote =
     (case remote_ip ops remote of None \<Rightarrow> False | Some ip \<Rightarrow> is_loopback ip \<or> to4 ip = Some [172, 30, 32, 2])"

definition allowedAPIRemote :: "net_ops \<Rightarrow> string \<Rightarrow> bool" where
  "allowedAPIRemote ops remote =
     (case remote_ip ops remote of None \<Rightarrow> False | Some ip \<Rightarrow> is_loopback ip \<or> is_private ip \<or> is_link_local ip)"

section \<open>The status of the API\<close>

record APIGatewayStatus =
  gw_Version :: string
  gw_State :: string
  gw_StartedAt :: timestamp
  gw_HomeAssistantConnected :: bool
  gw_DryRun :: bool
  gw_LastVisitorEvent :: timestamp
  gw_LastError :: string

record APISIPStatus =
  as_Registered :: bool
  as_LastRegistrationError :: string
  as_DoorCallEnabled :: bool
  as_DoorRegistered :: bool
  as_ParallelCallEnabled :: bool
  as_ParallelRegistered :: bool
  as_ParallelLastRegistrationError :: string

record APICallStatus =
  ac_Active :: bool
  ac_State :: string
  ac_Direction :: string
  ac_LastDirection :: string
  ac_CallerNumber :: string
  ac_LastCallerNumber :: string
  ac_StartedAt :: timestamp
  ac_EndedAt :: timestamp
  ac_Codec :: string
  ac_RouteID :: string
  ac_RouteName :: string
  ac_LastRouteID :: string
  ac_LastRouteName :: string

record APIMediaStatus =
  am_ConfiguredReolinkMode :: string
  am_ActiveReolinkMode :: string
  am_Profile :: string
  am_ReceiveMode :: string
  am_ReceiveDetails :: string
  am_TalkbackMode :: string
  am_TalkbackDetails :: string
  am_EchoCancellation :: string
  am_CalibratedDelayMS :: int
  am_CurrentDelayMS :: int
  am_CalibrationStatus :: string
  am_LastCalibration :: timestamp

record APIControls =
  ctl_TestCallAvailable :: bool
  ctl_HangupAvailable :: bool

record APIRouteStatus =
  ars_ID :: string
  ars_Name :: string
  ars_TestCallAvailable :: bool

record APIStatus =
  api_APIVersion :: int
  api_Revision :: "64 word"
  api_UpdatedAt :: timestamp
  api_Gateway :: APIGatewayStatus
  api_SIP :: APISIPStatus
  api_Call :: APICallStatus
  api_Media :: APIMediaStatus
  api_Controls :: APIControls
  api_Routes :: "APIRouteStatus list"

definition APIVersion :: int where "APIVersion = 1"

definition door_registered :: "Snapshot \<Rightarrow> bool" where
  "door_registered v \<longleftrightarrow> sn_DoorCallEnabled v \<and> sn_SIPRegistered v"

definition parallel_registered :: "Snapshot \<Rightarrow> bool" where
  "parallel_registered v \<longleftrightarrow> sn_ParallelCallEnabled v \<and> sn_ParallelSIPRegistered v"

definition call_can_start :: "Snapshot \<Rightarrow> bool" where
  "call_can_start v \<longleftrightarrow> sn_State v = ''idle'' \<or> sn_State v = ''error''"

definition route_status :: "Snapshot \<Rightarrow> RouteDefinition \<Rightarrow> APIRouteStatus" where
  "route_status v r =
     \<lparr>ars_ID = rd_ID r, ars_Name = rd_Name r,
      ars_TestCallAvailable = (\<not> sn_DryRun v \<and> ((rd_DoorCall r \<and> door_registered v) \<or> (rd_MobileCall r \<and> parallel_registered v))
        \<and> sn_CurrentCallDirection v = [] \<and> call_can_start v)\<rparr>"

definition newAPIStatus :: "Snapshot \<Rightarrow> RouteDefinition list \<Rightarrow> APIStatus" where
  "newAPIStatus v routes =
     (let active = (sn_CurrentCallDirection v \<noteq> []);
          anyRegistered = (door_registered v \<or> parallel_registered v);
          statuses = map (route_status v) routes;
          legacy = (if statuses \<noteq> [] then list_ex ars_TestCallAvailable statuses
                    else \<not> sn_DryRun v \<and> anyRegistered \<and> \<not> active \<and> call_can_start v)
      in \<lparr>api_APIVersion = APIVersion, api_Revision = sn_Revision v, api_UpdatedAt = sn_UpdatedAt v,
          api_Gateway = \<lparr>gw_Version = sn_Version v, gw_State = sn_State v, gw_StartedAt = sn_StartedAt v,
            gw_HomeAssistantConnected = sn_HAConnected v, gw_DryRun = sn_DryRun v, gw_LastVisitorEvent = sn_LastVisitorEvent v,
            gw_LastError = sn_LastError v\<rparr>,
          api_SIP = \<lparr>as_Registered = anyRegistered, as_LastRegistrationError = sn_LastRegistrationErr v,
            as_DoorCallEnabled = sn_DoorCallEnabled v, as_DoorRegistered = door_registered v,
            as_ParallelCallEnabled = sn_ParallelCallEnabled v, as_ParallelRegistered = parallel_registered v,
            as_ParallelLastRegistrationError = sn_LastParallelRegistrationErr v\<rparr>,
          api_Call = \<lparr>ac_Active = active, ac_State = (if active then sn_State v else ''idle''),
            ac_Direction = sn_CurrentCallDirection v, ac_LastDirection = sn_LastCallDirection v,
            ac_CallerNumber = sn_CurrentCallerNumber v, ac_LastCallerNumber = sn_LastCallerNumber v,
            ac_StartedAt = sn_LastCallStarted v, ac_EndedAt = sn_LastCallEnded v, ac_Codec = sn_ActiveCodec v,
            ac_RouteID = sn_CurrentRouteID v, ac_RouteName = sn_CurrentRouteName v, ac_LastRouteID = sn_LastRouteID v,
            ac_LastRouteName = sn_LastRouteName v\<rparr>,
          api_Media = \<lparr>am_ConfiguredReolinkMode = sn_ConfiguredReolinkMode v, am_ActiveReolinkMode = sn_ActiveReolinkMode v,
            am_Profile = sn_MediaProfile v, am_ReceiveMode = sn_ActiveReceive v, am_ReceiveDetails = sn_ReceiveDetails v,
            am_TalkbackMode = sn_ActiveTalkback v, am_TalkbackDetails = sn_TalkbackDetails v,
            am_EchoCancellation = sn_ActiveEchoCancellation v, am_CalibratedDelayMS = sn_CalibratedDelayMS v,
            am_CurrentDelayMS = sn_CurrentDelayMS v, am_CalibrationStatus = sn_CalibrationStatus v,
            am_LastCalibration = sn_LastCalibration v\<rparr>,
          api_Controls = \<lparr>ctl_TestCallAvailable = legacy, ctl_HangupAvailable = active\<rparr>,
          api_Routes = statuses\<rparr>)"

section \<open>Requests and replies\<close>

record http_request =
  rq_method :: string
  rq_path :: string
  rq_authorization :: string
  rq_remote :: string

datatype reply_body =
    Info_json string string
  | Status_json APIStatus
  | Event_stream
  | Accepted_json
  | Error_json string string
  | No_body

record reply =
  rp_status :: int
  rp_body :: reply_body

definition writeAPIError :: "int \<Rightarrow> string \<Rightarrow> string \<Rightarrow> reply" where
  "writeAPIError status code message = \<lparr>rp_status = status, rp_body = Error_json code message\<rparr>"

datatype command_error =
    ErrCallBusy | ErrSIPUnavailable | ErrNoActiveCall | ErrCommandUnavailable | ErrRouteNotFound | Context_ended | Other_error

definition writeCommandError :: "command_error \<Rightarrow> reply" where
  "writeCommandError e =
     (case e of
        ErrCallBusy \<Rightarrow> writeAPIError 409 ''call_busy'' ''another call is active''
      | ErrSIPUnavailable \<Rightarrow> writeAPIError 503 ''sip_unavailable'' ''SIP is not registered''
      | ErrRouteNotFound \<Rightarrow> writeAPIError 404 ''route_not_found'' ''call route was not found''
      | ErrCommandUnavailable \<Rightarrow> writeAPIError 503 ''gateway_unavailable'' ''gateway commands are not ready''
      | Context_ended \<Rightarrow> writeAPIError 503 ''gateway_unavailable'' ''gateway commands are not ready''
      | _ \<Rightarrow> writeAPIError 500 ''internal_error'' ''the command could not be completed'')"

text \<open>The commands the gateway offers, on the state \<open>'s\<close> of the gateway; no handler is \<open>None\<close>.\<close>

record 's commands =
  cmd_StartTestCall :: "string \<Rightarrow> 's \<Rightarrow> command_error option \<times> 's"
  cmd_Hangup :: "'s \<Rightarrow> command_error option \<times> 's"

definition apiMethod :: "http_request \<Rightarrow> string \<Rightarrow> reply option" where
  "apiMethod rq expected =
     (if rq_method rq = expected then None else Some (writeAPIError 405 ''method_not_allowed'' ''method not allowed''))"

definition with_method :: "http_request \<Rightarrow> string \<Rightarrow> 's \<Rightarrow> reply \<times> 's \<Rightarrow> reply \<times> 's" where
  "with_method rq expected s r = (case apiMethod rq expected of Some e \<Rightarrow> (e, s) | None \<Rightarrow> r)"

definition start_reply :: "'s commands option \<Rightarrow> string \<Rightarrow> 's \<Rightarrow> reply \<times> 's" where
  "start_reply cmds route s =
     (case cmds of
        None \<Rightarrow> (writeCommandError ErrCommandUnavailable, s)
      | Some c \<Rightarrow>
          (case cmd_StartTestCall c route s of
             (Some e, s') \<Rightarrow> (writeCommandError e, s')
           | (None, s') \<Rightarrow> (\<lparr>rp_status = 202, rp_body = Accepted_json\<rparr>, s')))"

definition hangup_reply :: "'s commands option \<Rightarrow> 's \<Rightarrow> reply \<times> 's" where
  "hangup_reply cmds s =
     (case cmds of
        None \<Rightarrow> (writeCommandError ErrCommandUnavailable, s)
      | Some c \<Rightarrow>
          (case cmd_Hangup c s of
             (Some e, s') \<Rightarrow> (if e = ErrNoActiveCall then \<lparr>rp_status = 204, rp_body = No_body\<rparr> else writeCommandError e, s')
           | (None, s') \<Rightarrow> (\<lparr>rp_status = 202, rp_body = Accepted_json\<rparr>, s')))"

definition route_test :: "http_request \<Rightarrow> 's commands option \<Rightarrow> 's \<Rightarrow> reply \<times> 's" where
  "route_test rq cmds s =
     (case split_str ''/'' (trim_prefix ''/api/v1/routes/'' (rq_path rq)) of
        [route, action] \<Rightarrow>
          if route = [] \<or> action \<noteq> ''test'' then (writeAPIError 404 ''not_found'' ''API endpoint not found'', s)
          else with_method rq ''POST'' s (start_reply cmds route s)
      | _ \<Rightarrow> (writeAPIError 404 ''not_found'' ''API endpoint not found'', s))"

text \<open>The handlers behind the authentication; the longest pattern that matches is served.\<close>

definition api_endpoint ::
  "string \<Rightarrow> Snapshot \<Rightarrow> RouteDefinition list \<Rightarrow> 's commands option \<Rightarrow> http_request \<Rightarrow> 's \<Rightarrow> reply \<times> 's" where
  "api_endpoint instance_id v routes cmds rq s =
     (if rq_path rq = ''/api/v1/info''
        then with_method rq ''GET'' s (\<lparr>rp_status = 200, rp_body = Info_json (sn_Version v) instance_id\<rparr>, s)
      else if rq_path rq = ''/api/v1/status''
        then with_method rq ''GET'' s (\<lparr>rp_status = 200, rp_body = Status_json (newAPIStatus v routes)\<rparr>, s)
      else if rq_path rq = ''/api/v1/events'' then with_method rq ''GET'' s (\<lparr>rp_status = 200, rp_body = Event_stream\<rparr>, s)
      else if rq_path rq = ''/api/v1/calls/test'' then with_method rq ''POST'' s (start_reply cmds [] s)
      else if prefix ''/api/v1/routes/'' (rq_path rq) then route_test rq cmds s
      else if rq_path rq = ''/api/v1/calls/hangup'' then with_method rq ''POST'' s (hangup_reply cmds s)
      else (writeAPIError 404 ''not_found'' ''API endpoint not found'', s))"

definition bearer_ok :: "string \<Rightarrow> string \<Rightarrow> bool" where
  "bearer_ok token authorization =
     (case str_fields authorization of
        [scheme, credential] \<Rightarrow> equal_fold scheme ''Bearer'' \<and> token \<noteq> [] \<and> credential = token
      | _ \<Rightarrow> False)"

definition apiAuthenticated :: "net_ops \<Rightarrow> string \<Rightarrow> http_request \<Rightarrow> 's \<Rightarrow> reply \<times> 's \<Rightarrow> reply \<times> 's" where
  "apiAuthenticated ops token rq s r =
     (if \<not> allowedAPIRemote ops (rq_remote rq) then (writeAPIError 403 ''forbidden'' ''API access is limited to local networks'', s)
      else if \<not> bearer_ok token (rq_authorization rq) then (writeAPIError 401 ''unauthorized'' ''a valid bearer token is required'', s)
      else r)"

definition serve_api ::
  "net_ops \<Rightarrow> string \<Rightarrow> string \<Rightarrow> Snapshot \<Rightarrow> RouteDefinition list \<Rightarrow> 's commands option \<Rightarrow> http_request \<Rightarrow> 's \<Rightarrow> reply \<times> 's" where
  "serve_api ops token instance_id v routes cmds rq s =
     apiAuthenticated ops token rq s (api_endpoint instance_id v routes cmds rq s)"

section \<open>The event stream\<close>

text \<open>The text of one item; \<open>json\<close> is the encoder.\<close>

definition sse_status :: "(APIStatus \<Rightarrow> string) \<Rightarrow> RouteDefinition list \<Rightarrow> Snapshot \<Rightarrow> string" where
  "sse_status json routes v =
     ''id: '' @ show_nat (unat (sn_Revision v)) @ [LF] @ ''event: status'' @ [LF] @ ''data: '' @ json (newAPIStatus v routes) @ [LF, LF]"

definition sse_dtmf :: "(dtmf_event \<Rightarrow> string) \<Rightarrow> dtmf_event \<Rightarrow> string" where
  "sse_dtmf json ev = ''event: dtmf'' @ [LF] @ ''data: '' @ json ev @ [LF, LF]"

definition sse_keepalive :: string where
  "sse_keepalive = '': keepalive'' @ [LF, LF]"

datatype sse_wake = Wake_status | Wake_dtmf | Wake_keepalive

text \<open>One turn of the select; what is not ready writes nothing.\<close>

definition sse_turn ::
  "(APIStatus \<Rightarrow> string) \<Rightarrow> (dtmf_event \<Rightarrow> string) \<Rightarrow> 64 word \<Rightarrow> sse_wake \<Rightarrow> Store \<Rightarrow> string \<times> Store" where
  "sse_turn json_status json_dtmf i w s =
     (case w of
        Wake_status \<Rightarrow>
          (case take_status i s of (Some v, s') \<Rightarrow> (sse_status json_status (st_routes s') v, s') | (None, s') \<Rightarrow> ([], s'))
      | Wake_dtmf \<Rightarrow> (case take_dtmf i s of (Some ev, s') \<Rightarrow> (sse_dtmf json_dtmf ev, s') | (None, s') \<Rightarrow> ([], s'))
      | Wake_keepalive \<Rightarrow> (sse_keepalive, s))"

text \<open>The beginning of \<open>serveEvents\<close>: the subscription and the snapshot that is written before anything else.\<close>

definition serve_begin :: "(APIStatus \<Rightarrow> string) \<Rightarrow> Store \<Rightarrow> 64 word \<times> string \<times> Store" where
  "serve_begin json_status s =
     (let (i, s) = subscribeEvents s;
          (v, s) = take_status i s
      in (i, (case v of Some v \<Rightarrow> sse_status json_status (st_routes s) v | None \<Rightarrow> []), s))"

section \<open>Properties\<close>

lemma with_method_state: "snd (with_method rq m s r) \<noteq> s \<Longrightarrow> rq_method rq = m \<and> snd r \<noteq> s"
  by (auto simp: with_method_def apiMethod_def split: if_splits)

lemma with_method_status: "rp_status (fst (with_method rq m s r)) \<noteq> 405 \<Longrightarrow> rq_method rq = m \<and> with_method rq m s r = r"
  by (auto simp: with_method_def apiMethod_def writeAPIError_def split: if_splits)

text \<open>The first item of a stream is the current snapshot.\<close>

lemma stream_begins_with_status:
  "fst (snd (serve_begin json s)) = sse_status json (st_routes s) (st_value s)"
  by (simp add: serve_begin_def subscribeEvents_def add_subscriber_def take_status_def Let_def)

lemma bearer_ok_iff:
  assumes "list_all (\<lambda>c. \<not> is_space c) token" "token \<noteq> []"
  shows "bearer_ok token (''Bearer '' @ token)"
proof -
  have "str_fields (''Bearer'' @ CHR '' '' # token) = [''Bearer'', token]"
    using str_fields_append [of "''Bearer''" "CHR '' ''" token] str_fields_word [OF assms] by (simp add: is_space_def)
  then show ?thesis using assms(2) by (simp add: bearer_ok_def equal_fold_def)
qed

lemma cut_char_first: "cut [c] s = Some (a, b) \<Longrightarrow> c \<notin> set a"
  by (induction s arbitrary: a) (auto split: if_splits)

lemma split_two:
  assumes "split_str [c] s = [a, b]"
  shows "s = a @ [c] @ b" "c \<notin> set a"
proof -
  obtain b' where c: "cut [c] s = Some (a, b')" and b: "split_str [c] b' = [b]"
    using assms by (subst (asm) split_str.simps) (auto split: option.splits)
  have "b' = b" using b by (subst (asm) split_str.simps) (auto split: option.splits)
  then show "s = a @ [c] @ b" "c \<notin> set a" using cut_Some [OF c] cut_char_first [OF c] by auto
qed

lemma command_error_status: "rp_status (writeCommandError e) \<notin> {200, 202}"
  by (cases e) (simp_all add: writeCommandError_def writeAPIError_def)

definition effective :: "'s \<Rightarrow> reply \<times> 's \<Rightarrow> bool" where
  "effective s r \<longleftrightarrow> snd r \<noteq> s \<or> rp_status (fst r) = 202"

lemma with_method_effective: "effective s (with_method rq m s r) \<Longrightarrow> rq_method rq = m \<and> with_method rq m s r = r \<and> effective s r"
  by (auto simp: effective_def with_method_def apiMethod_def writeAPIError_def split: if_splits)

lemma start_effective: "effective s (start_reply cmds route s) \<Longrightarrow> cmds \<noteq> None"
  using command_error_status [of ErrCommandUnavailable] by (cases cmds) (auto simp: start_reply_def effective_def)

lemma hangup_effective: "effective s (hangup_reply cmds s) \<Longrightarrow> cmds \<noteq> None"
  using command_error_status [of ErrCommandUnavailable] by (cases cmds) (auto simp: hangup_reply_def effective_def)

lemma no_data: "rp_status (fst (start_reply cmds route s)) \<noteq> 200" "rp_status (fst (hangup_reply cmds s)) \<noteq> 200"
  using command_error_status by (auto simp: start_reply_def hangup_reply_def split: option.split prod.split)

lemma route_effective:
  assumes "prefix ''/api/v1/routes/'' (rq_path rq)" "effective s (route_test rq cmds s)"
  shows "\<exists>route. CHR ''/'' \<notin> set route \<and> route \<noteq> [] \<and> rq_path rq = ''/api/v1/routes/'' @ route @ ''/test''
    \<and> rq_method rq = ''POST'' \<and> route_test rq cmds s = start_reply cmds route s \<and> cmds \<noteq> None"
proof -
  obtain path where path: "rq_path rq = ''/api/v1/routes/'' @ path" using assms(1) by (auto simp: prefix_def)
  then have trim: "trim_prefix ''/api/v1/routes/'' (rq_path rq) = path" by (simp add: trim_prefix_def)
  have not_found: "\<not> effective s (writeAPIError 404 ''not_found'' ''API endpoint not found'', s)"
    by (simp add: effective_def writeAPIError_def)
  obtain route action where sp: "split_str ''/'' path = [route, action]"
    using assms(2) not_found unfolding route_test_def trim by (auto split: list.splits)
  then have ra: "route \<noteq> []" "action = ''test''"
    and e: "effective s (with_method rq ''POST'' s (start_reply cmds route s))"
    using assms(2) not_found unfolding route_test_def trim by (auto split: if_splits)
  have "route_test rq cmds s = with_method rq ''POST'' s (start_reply cmds route s)"
    using sp ra unfolding route_test_def trim by simp
  then show ?thesis using with_method_effective [OF e] start_effective split_two [OF sp] ra path by auto
qed

lemma endpoint_effective:
  assumes "effective s (api_endpoint instance_id v routes cmds rq s)"
  shows "rq_method rq = ''POST'' \<and> cmds \<noteq> None \<and>
    (rq_path rq = ''/api/v1/calls/test'' \<and> api_endpoint instance_id v routes cmds rq s = start_reply cmds [] s
     \<or> rq_path rq = ''/api/v1/calls/hangup'' \<and> api_endpoint instance_id v routes cmds rq s = hangup_reply cmds s
     \<or> (\<exists>route. CHR ''/'' \<notin> set route \<and> route \<noteq> [] \<and> rq_path rq = ''/api/v1/routes/'' @ route @ ''/test''
          \<and> api_endpoint instance_id v routes cmds rq s = start_reply cmds route s))"
proof -
  let ?r = "api_endpoint instance_id v routes cmds rq s"
  have idle: "\<not> effective s (with_method rq m s (\<lparr>rp_status = 200, rp_body = b\<rparr>, s))"
    "\<not> effective s (writeAPIError 404 ''not_found'' ''API endpoint not found'', s)" for m b
    using with_method_effective [of s rq m "(\<lparr>rp_status = 200, rp_body = b\<rparr>, s)"] by (auto simp: effective_def writeAPIError_def)
  have p: "rq_path rq \<noteq> ''/api/v1/info''" "rq_path rq \<noteq> ''/api/v1/status''" "rq_path rq \<noteq> ''/api/v1/events''"
    using assms idle(1) by (auto simp: api_endpoint_def)
  consider "rq_path rq = ''/api/v1/calls/test''" | "prefix ''/api/v1/routes/'' (rq_path rq)" "rq_path rq \<noteq> ''/api/v1/calls/test''"
    | "rq_path rq = ''/api/v1/calls/hangup''"
    using assms p idle(2) unfolding api_endpoint_def by (auto split: if_splits)
  then show ?thesis
  proof cases
    case 1
    then have r: "?r = with_method rq ''POST'' s (start_reply cmds [] s)" by (simp add: api_endpoint_def)
    then show ?thesis using 1 with_method_effective [of s rq "''POST''" "start_reply cmds [] s"] start_effective assms by auto
  next
    case 2
    then have r: "?r = route_test rq cmds s" using p by (simp add: api_endpoint_def)
    then show ?thesis using route_effective [OF 2(1), of s cmds] assms by auto
  next
    case 3
    then have r: "?r = with_method rq ''POST'' s (hangup_reply cmds s)" by (simp add: api_endpoint_def)
    then show ?thesis using 3 with_method_effective [of s rq "''POST''" "hangup_reply cmds s"] hangup_effective assms by auto
  qed
qed

lemma endpoint_data:
  fixes s :: 's
  shows "rp_status (fst (api_endpoint instance_id v routes cmds rq s)) = 200 \<Longrightarrow> rq_method rq = ''GET''"
proof (rule ccontr)
  assume a: "rp_status (fst (api_endpoint instance_id v routes cmds rq s)) = 200" "rq_method rq \<noteq> ''GET''"
  have w: "rp_status (fst (with_method rq m s r)) = 200 \<Longrightarrow> rp_status (fst r) = 200 \<and> rq_method rq = m" for m r
    by (auto simp: with_method_def apiMethod_def writeAPIError_def split: if_splits)
  have post: "rp_status (fst (with_method rq ''POST'' s (start_reply cmds r s))) \<noteq> 200" for r by (auto simp: no_data dest!: w)
  have "rp_status (fst (route_test rq cmds s)) \<noteq> 200"
    unfolding route_test_def using post by (simp add: writeAPIError_def split: list.split)
  moreover have branch: "rp_status (fst x) \<noteq> 200 \<Longrightarrow> rp_status (fst y) \<noteq> 200 \<Longrightarrow> rp_status (fst (if c then x else y)) \<noteq> 200"
    for c and x y :: "reply \<times> 's" by simp
  moreover have "rp_status (fst (with_method rq ''GET'' s r)) \<noteq> 200" for r :: "reply \<times> 's" using a(2) by (auto dest!: w)
  moreover note post
  moreover have "rp_status (fst (with_method rq ''POST'' s (hangup_reply cmds s))) \<noteq> 200" by (auto simp: no_data dest!: w)
  moreover have "rp_status (fst (writeAPIError 404 c m, s)) \<noteq> 200" for c m by (simp add: writeAPIError_def)
  ultimately have "rp_status (fst (api_endpoint instance_id v routes cmds rq s)) \<noteq> 200"
    unfolding api_endpoint_def by (intro branch)
  then show False using a(1) by contradiction
qed

text \<open>C8. The API is closed to anybody but a holder of the token on a local network: a request from another address is
  answered 403 and one without exactly the bearer token 401, both without an effect; only a POST to one of the three command
  endpoints reaches the gateway, with exactly the route that its path names, and only then can anything change; a reply
  with data answers a GET.\<close>

theorem api_is_guarded:
  "(case serve_api ops token instance_id v routes cmds rq s of (rp, s') \<Rightarrow>
     (\<not> allowedAPIRemote ops (rq_remote rq) \<longrightarrow> rp_status rp = 403 \<and> s' = s)
   \<and> (allowedAPIRemote ops (rq_remote rq) \<and> \<not> bearer_ok token (rq_authorization rq) \<longrightarrow> rp_status rp = 401 \<and> s' = s)
   \<and> (s' \<noteq> s \<or> rp_status rp = 202 \<longrightarrow> allowedAPIRemote ops (rq_remote rq) \<and> bearer_ok token (rq_authorization rq) \<and> rq_method rq = ''POST''
        \<and> (\<exists>c. cmds = Some c \<and>
             (rq_path rq = ''/api/v1/calls/test'' \<and> (rp, s') = start_reply cmds [] s
              \<or> rq_path rq = ''/api/v1/calls/hangup'' \<and> (rp, s') = hangup_reply cmds s
              \<or> (\<exists>route. CHR ''/'' \<notin> set route \<and> route \<noteq> [] \<and> rq_path rq = ''/api/v1/routes/'' @ route @ ''/test''
                   \<and> (rp, s') = start_reply cmds route s))))
   \<and> (rp_status rp = 200 \<longrightarrow> rq_method rq = ''GET'' \<and> bearer_ok token (rq_authorization rq)))"
proof -
  let ?r = "api_endpoint instance_id v routes cmds rq s"
  have e: "rq_method rq = ''POST'' \<and> (\<exists>c. cmds = Some c \<and>
      (rq_path rq = ''/api/v1/calls/test'' \<and> ?r = start_reply cmds [] s
       \<or> rq_path rq = ''/api/v1/calls/hangup'' \<and> ?r = hangup_reply cmds s
       \<or> (\<exists>route. CHR ''/'' \<notin> set route \<and> route \<noteq> [] \<and> rq_path rq = ''/api/v1/routes/'' @ route @ ''/test''
            \<and> ?r = start_reply cmds route s)))"
    if "snd ?r \<noteq> s \<or> rp_status (fst ?r) = 202"
    using endpoint_effective [of s instance_id v routes cmds rq] that unfolding effective_def by fast
  show ?thesis
  proof (cases "allowedAPIRemote ops (rq_remote rq) \<and> bearer_ok token (rq_authorization rq)")
    case True
    then have r: "serve_api ops token instance_id v routes cmds rq s = ?r" by (simp add: serve_api_def apiAuthenticated_def)
    obtain rp s' where rs: "?r = (rp, s')" by fastforce
    show ?thesis using True e endpoint_data [of instance_id v routes cmds rq s] unfolding r rs by simp
  next
    case False
    then show ?thesis by (auto simp: serve_api_def apiAuthenticated_def writeAPIError_def)
  qed
qed

definition hangup_only :: "bool commands" where
  "hangup_only = \<lparr>cmd_StartTestCall = (\<lambda>_ busy. (Some ErrSIPUnavailable, busy)), cmd_Hangup = (\<lambda>busy. if busy then (None, False) else (Some ErrNoActiveCall, busy))\<rparr>"

theorem api_is_guarded_witness:
  "rp_status (fst (serve_api \<lparr>split_host = (\<lambda>_. None), parse_ip = (\<lambda>_. Some [8, 8, 8, 8])\<rparr> ''t'' ''i'' (initial_snapshot ''1'' 0) []
     (Some hangup_only) \<lparr>rq_method = ''POST'', rq_path = ''/api/v1/calls/hangup'', rq_authorization = ''Bearer t'', rq_remote = []\<rparr> True)) = 403"
  using api_is_guarded [where ops = "\<lparr>split_host = (\<lambda>_. None), parse_ip = (\<lambda>_. Some [8, 8, 8, 8])\<rparr>" and token = "''t''" and instance_id = "''i''"
      and v = "initial_snapshot ''1'' 0" and routes = "[]" and cmds = "Some hangup_only" and s = True
      and rq = "\<lparr>rq_method = ''POST'', rq_path = ''/api/v1/calls/hangup'', rq_authorization = ''Bearer t'', rq_remote = []\<rparr>"]
  by (auto simp: allowedAPIRemote_def remote_ip_def is_loopback_def is_private_def is_link_local_def to4_def)

end
