(* ===== verification/Identity.thy ===== *)
theory Identity
  imports Digest
begin

text \<open>
  The identity of the gateway: \<^verbatim>\<open>internal/status/identity.go\<close>.  The instance id, the token of the API and the token
  of the live images are files; what may fail of a file operation and the random bytes are input.
\<close>

section \<open>Text encodings\<close>

definition digit_index :: "string \<Rightarrow> char \<Rightarrow> nat option" where
  "digit_index ds c = map_of (zip ds [0..<length ds]) c"

definition digit_indices :: "string \<Rightarrow> string \<Rightarrow> nat list option" where
  "digit_indices ds s = those (map (digit_index ds) s)"

text \<open>\<open>base64.RawURLEncoding\<close>: no padding; the decoder skips line breaks.\<close>

definition url_digits :: string where
  "url_digits = ''ABCDEFGHIJKLMNOPQRSTUVWXYZabcdefghijklmnopqrstuvwxyz0123456789-_''"

fun url_code :: "byte list \<Rightarrow> nat list" where
  "url_code (a # b # c # s) =
     (let n = unat a * 65536 + unat b * 256 + unat c in
      [n div 262144, n div 4096 mod 64, n div 64 mod 64, n mod 64] @ url_code s)"
| "url_code [a, b] = (let n = unat a * 65536 + unat b * 256 in [n div 262144, n div 4096 mod 64, n div 64 mod 64])"
| "url_code [a] = (let n = unat a * 65536 in [n div 262144, n div 4096 mod 64])"
| "url_code [] = []"

definition url_encode :: "byte list \<Rightarrow> string" where
  "url_encode b = map (\<lambda>i. url_digits ! i) (url_code b)"

fun url_bytes :: "nat list \<Rightarrow> byte list option" where
  "url_bytes (a # b # c # d # s) =
     (let n = a * 262144 + b * 4096 + c * 64 + d in
      map_option (\<lambda>r. [of_nat (n div 65536), of_nat (n div 256 mod 256), of_nat (n mod 256)] @ r) (url_bytes s))"
| "url_bytes [a, b, c] = (let n = a * 262144 + b * 4096 + c * 64 in Some [of_nat (n div 65536), of_nat (n div 256 mod 256)])"
| "url_bytes [a, b] = (let n = a * 262144 + b * 4096 in Some [of_nat (n div 65536)])"
| "url_bytes [a] = None"
| "url_bytes [] = Some []"

definition url_decode :: "string \<Rightarrow> byte list option" where
  "url_decode s =
     (case digit_indices url_digits (filter (\<lambda>c. c \<noteq> CR \<and> c \<noteq> LF) s) of None \<Rightarrow> None | Some is \<Rightarrow> url_bytes is)"

text \<open>\<open>hex.DecodeString\<close>, which reads both cases.\<close>

fun hex_bytes :: "nat list \<Rightarrow> byte list option" where
  "hex_bytes (a # b # s) = map_option (\<lambda>r. of_nat (a * 16 + b) # r) (hex_bytes s)"
| "hex_bytes [a] = None"
| "hex_bytes [] = Some []"

definition hex_decode :: "string \<Rightarrow> byte list option" where
  "hex_decode s = (case digit_indices hex_lower (to_lower s) of None \<Rightarrow> None | Some is \<Rightarrow> hex_bytes is)"

section \<open>The values\<close>

definition newRandomToken :: "byte list option \<Rightarrow> string option" where
  "newRandomToken random = map_option url_encode random"

definition validAPIToken :: "string \<Rightarrow> bool" where
  "validAPIToken v = (case url_decode v of Some b \<Rightarrow> length b = 32 | None \<Rightarrow> False)"

definition validLiveImageToken :: "string \<Rightarrow> bool" where
  "validLiveImageToken v = (case url_decode v of Some b \<Rightarrow> length b = 24 | None \<Rightarrow> False)"

text \<open>The version and variant bits of RFC 4122 are set in the sixteen random bytes.\<close>

definition stamp :: "byte list \<Rightarrow> byte list" where
  "stamp b = b[6 := or (and (b ! 6) 0x0f) 0x40, 8 := or (and (b ! 8) 0x3f) 0x80]"

definition uuid_text :: "byte list \<Rightarrow> string" where
  "uuid_text b = join ''-'' [hex_encode (slice 0 4 b), hex_encode (slice 4 6 b), hex_encode (slice 6 8 b), hex_encode (slice 8 10 b),
     hex_encode (slice 10 16 b)]"

definition newInstanceID :: "byte list option \<Rightarrow> string option" where
  "newInstanceID random = map_option (\<lambda>b. uuid_text (stamp b)) random"

definition validInstanceID :: "string \<Rightarrow> bool" where
  "validInstanceID v =
     (if length v \<noteq> 36 \<or> v ! 8 \<noteq> CHR ''-'' \<or> v ! 13 \<noteq> CHR ''-'' \<or> v ! 18 \<noteq> CHR ''-'' \<or> v ! 23 \<noteq> CHR ''-'' then False
      else case hex_decode (replace_all v ''-'' []) of
        None \<Rightarrow> False
      | Some b \<Rightarrow> length b = 16 \<and> drop_bit 4 (b ! 6) = 4 \<and> drop_bit 6 (b ! 8) = 2)"

section \<open>The files\<close>

text \<open>What may go wrong with the file of one value: \<open>appears\<close> is the content another process creates in between.\<close>

record faults =
  read_fails :: bool
  chmod_fails :: bool
  appears :: "byte list option"
  create_fails :: bool
  write_fails :: bool

datatype identity_error =
    Unreadable | Stored_invalid | Not_secured | No_random | Concurrent_invalid | Not_created | Not_written | No_directory

definition readIdentityValue :: "byte list \<Rightarrow> string" where
  "readIdentityValue b = trim_space (bytes_string b)"

definition loadOrCreateValue ::
  "faults \<Rightarrow> string \<Rightarrow> string option \<Rightarrow> (string \<Rightarrow> bool) \<Rightarrow> (string \<rightharpoonup> byte list)
   \<Rightarrow> (string \<rightharpoonup> byte list) \<times> (identity_error + string)" where
  "loadOrCreateValue f path generated valid fs =
     (if read_fails f then (fs, Inl Unreadable)
      else case fs path of
        Some b \<Rightarrow>
          let v = readIdentityValue b in
          if \<not> valid v then (fs, Inl Stored_invalid)
          else if chmod_fails f then (fs, Inl Not_secured)
          else (fs, Inr v)
      | None \<Rightarrow>
          (case generated of
             None \<Rightarrow> (fs, Inl No_random)
           | Some v \<Rightarrow>
               (case appears f of
                  Some b \<Rightarrow>
                    let fs = fs(path \<mapsto> b); v = readIdentityValue b in
                    (fs, if valid v then Inr v else Inl Concurrent_invalid)
                | None \<Rightarrow>
                    if create_fails f then (fs, Inl Not_created)
                    else if write_fails f then (fs, Inl Not_written)
                    else (fs(path \<mapsto> string_bytes (v @ [LF])), Inr v))))"

record Identity =
  id_InstanceID :: string
  id_Token :: string
  id_LiveImageToken :: string

definition instanceIDFile :: string where "instanceIDFile = ''/integration-api-instance-id''"
definition apiTokenFile :: string where "apiTokenFile = ''/integration-api-token''"
definition liveImageTokenFile :: string where "liveImageTokenFile = ''/fritzfon-live-image-token''"

text \<open>The random bytes of the three values: 16, 32 and 24 of them.\<close>

record identity_input =
  in_mkdir :: bool
  in_faults :: "nat \<Rightarrow> faults"
  in_instance :: "byte list option"
  in_token :: "byte list option"
  in_live :: "byte list option"

definition LoadOrCreateIdentity ::
  "identity_input \<Rightarrow> string \<Rightarrow> (string \<rightharpoonup> byte list) \<Rightarrow> (string \<rightharpoonup> byte list) \<times> (identity_error + Identity)" where
  "LoadOrCreateIdentity i dir fs =
     (if \<not> in_mkdir i then (fs, Inl No_directory)
      else case loadOrCreateValue (in_faults i 0) (dir @ instanceIDFile) (newInstanceID (in_instance i)) validInstanceID fs of
        (fs, Inl e) \<Rightarrow> (fs, Inl e)
      | (fs, Inr instance_id) \<Rightarrow>
          (case loadOrCreateValue (in_faults i 1) (dir @ apiTokenFile) (newRandomToken (in_token i)) validAPIToken fs of
             (fs, Inl e) \<Rightarrow> (fs, Inl e)
           | (fs, Inr token) \<Rightarrow>
               (case loadOrCreateValue (in_faults i 2) (dir @ liveImageTokenFile) (newRandomToken (in_live i)) validLiveImageToken fs of
                  (fs, Inl e) \<Rightarrow> (fs, Inl e)
                | (fs, Inr live) \<Rightarrow>
                    (fs, Inr \<lparr>id_InstanceID = instance_id, id_Token = token, id_LiveImageToken = live\<rparr>))))"

section \<open>Generated values are valid\<close>

lemma digit_index_nth: "distinct ds \<Longrightarrow> i < length ds \<Longrightarrow> digit_index ds (ds ! i) = Some i"
  unfolding digit_index_def by (rule map_of_eq_Some_iff [THEN iffD2]) (auto simp: in_set_zip)

lemma those_map_Some: "(\<And>x. x \<in> set xs \<Longrightarrow> f x = Some (g x)) \<Longrightarrow> those (map f xs) = Some (map g xs)"
  by (induction xs) auto

lemma digit_indices_nth:
  assumes "distinct ds" "\<forall>i \<in> set is. i < length ds"
  shows "digit_indices ds (map (\<lambda>i. ds ! i) is) = Some is"
proof -
  have "those (map (\<lambda>i. digit_index ds (ds ! i)) is) = Some (map (\<lambda>i. i) is)"
    by (rule those_map_Some) (use assms digit_index_nth in auto)
  then show ?thesis by (simp add: digit_indices_def comp_def)
qed

lemma byte_bound: "unat (x :: byte) < 256"
  by (rule order.strict_trans2 [OF unsigned_less]) simp

lemma url_code_digits: "i \<in> set (url_code b) \<Longrightarrow> i < 64"
proof (induction b rule: url_code.induct)
  case (1 a b c s)
  have "unat a < 256" "unat b < 256" "unat c < 256" by (rule byte_bound)+
  then show ?case using 1 by (auto simp: Let_def)
next
  case (2 a b)
  have "unat a < 256" "unat b < 256" by (rule byte_bound)+
  then show ?case using 2 by (auto simp: Let_def)
next
  case (3 a)
  have "unat a < 256" by (rule byte_bound)
  then show ?case using 3 by (auto simp: Let_def)
qed simp

lemma regroup:
  fixes n :: nat
  assumes "n < 16777216"
  shows "n div 262144 * 262144 + n div 4096 mod 64 * 4096 + n div 64 mod 64 * 64 + n mod 64 = n"
proof -
  have "n div 262144 = n div 4096 div 64" "n div 4096 = n div 64 div 64" by (simp_all add: div_mult2_eq [symmetric])
  then show ?thesis using div_mult_mod_eq [of "n div 4096" 64] div_mult_mod_eq [of "n div 64" 64] div_mult_mod_eq [of n 64] by linarith
qed

lemma regroup_end: "(n :: nat) mod 64 = 0 \<Longrightarrow> n < 16777216 \<Longrightarrow>
    n div 262144 * 262144 + n div 4096 mod 64 * 4096 + n div 64 mod 64 * 64 = n"
  using regroup [of n] by linarith

lemma unbytes:
  assumes "x < 256" "y < 256" "z < (256 :: nat)"
  shows "(x * 65536 + y * 256 + z) div 65536 = x" "(x * 65536 + y * 256 + z) div 256 mod 256 = y"
    "(x * 65536 + y * 256 + z) mod 256 = z" "x * 65536 + y * 256 + z < 16777216"
proof -
  have le: "x \<le> 255" "y \<le> 255" "z \<le> 255" using assms by simp_all
  show "(x * 65536 + y * 256 + z) div 65536 = x" by (rule div_nat_eqI) (use le in simp_all)
  have "(x * 65536 + y * 256 + z) div 256 = x * 256 + y" by (rule div_nat_eqI) (use le in simp_all)
  then show "(x * 65536 + y * 256 + z) div 256 mod 256 = y" using assms(2) by simp
  have "x * 65536 + y * 256 + z = z + (x * 256 + y) * 256" by simp
  then show "(x * 65536 + y * 256 + z) mod 256 = z" using assms(3) by (simp only: mod_mult_self1) simp
  show "x * 65536 + y * 256 + z < 16777216" using le by linarith
qed

lemma url_bytes_code: "url_bytes (url_code b) = Some b"
proof (induction b rule: url_code.induct)
  case (1 a b c s)
  define n where "n = unat a * 65536 + unat b * 256 + unat c"
  note u = unbytes [OF byte_bound [of a] byte_bound [of b] byte_bound [of c], folded n_def]
  have "url_code (a # b # c # s) = [n div 262144, n div 4096 mod 64, n div 64 mod 64, n mod 64] @ url_code s"
    by (simp only: url_code.simps Let_def n_def)
  then show ?case using 1 by (simp add: Let_def regroup [OF u(4)] u(1-3))
next
  case (2 a b)
  define n where "n = unat a * 65536 + unat b * 256"
  have u: "n div 65536 = unat a" "n div 256 mod 256 = unat b" "n < 16777216"
    using unbytes [OF byte_bound [of a] byte_bound [of b], of 0] by (simp_all add: n_def)
  have m: "n mod 64 = 0" by (simp add: n_def mod_simps)
  have "url_code [a, b] = [n div 262144, n div 4096 mod 64, n div 64 mod 64]" by (simp only: url_code.simps Let_def n_def)
  then show ?case by (simp add: Let_def regroup_end [OF m u(3)] u(1,2))
next
  case (3 a)
  define n where "n = unat a * 65536"
  have u: "n div 65536 = unat a" "n < 16777216"
    using unbytes [OF byte_bound [of a], of 0 0] by (simp_all add: n_def)
  have "n div 64 mod 64 = 0" "n mod 64 = 0" by (simp_all add: n_def)
  then have r: "n div 262144 * 262144 + n div 4096 mod 64 * 4096 = n" using regroup [OF u(2)] by linarith
  have "url_code [a] = [n div 262144, n div 4096 mod 64]" by (simp only: url_code.simps Let_def n_def)
  then show ?case by (simp add: Let_def r u(1))
qed simp

lemma url_digits_facts: "distinct url_digits" "length url_digits = 64"
  "CR \<notin> set url_digits" "LF \<notin> set url_digits" "\<forall>c \<in> set url_digits. \<not> is_space c"
  by (simp_all add: url_digits_def CR_def LF_def is_space_def)

lemma url_encode_chars: "c \<in> set (url_encode b) \<Longrightarrow> c \<in> set url_digits"
  using url_code_digits url_digits_facts(2) by (auto simp: url_encode_def)

lemma url_decode_encode: "url_decode (url_encode b) = Some b"
proof -
  have "filter (\<lambda>c. c \<noteq> CR \<and> c \<noteq> LF) (url_encode b) = url_encode b"
    using url_encode_chars url_digits_facts(3,4) by (fastforce intro: filter_True)
  moreover have "digit_indices url_digits (url_encode b) = Some (url_code b)"
    unfolding url_encode_def by (rule digit_indices_nth [OF url_digits_facts(1)]) (use url_code_digits url_digits_facts(2) in auto)
  ultimately show ?thesis by (simp add: url_decode_def url_bytes_code)
qed

lemma hex_code: "hex_encode b = map (\<lambda>i. hex_lower ! i) (concat (map (\<lambda>x. [unat x div 16, unat x mod 16]) b))"
  by (induction b) (simp_all add: hex_encode_def)

lemma hex_bytes_code: "hex_bytes (concat (map (\<lambda>x. [unat x div 16, unat x mod 16]) b)) = Some b"
  by (induction b) simp_all

lemma hex_lower_facts: "distinct hex_lower" "length hex_lower = 16" "\<forall>c \<in> set hex_lower. lower_char c = c \<and> \<not> is_space c \<and> c \<noteq> CHR ''-''"
  by (simp_all add: hex_lower_def lower_char_def is_space_def)

lemma hex_decode_encode: "hex_decode (hex_encode b) = Some b"
proof -
  have "to_lower (hex_encode b) = hex_encode b"
    using hex_chars hex_lower_facts(3) by (fastforce simp: to_lower_def intro: map_idI)
  moreover have "digit_indices hex_lower (hex_encode b) = Some (concat (map (\<lambda>x. [unat x div 16, unat x mod 16]) b))"
    unfolding hex_code by (rule digit_indices_nth [OF hex_lower_facts(1)])
      (use byte_bound in \<open>auto simp: hex_lower_facts(2) less_mult_imp_div_less\<close>)
  ultimately show ?thesis by (simp add: hex_decode_def hex_bytes_code)
qed

lemma length_hex_encode [simp]: "length (hex_encode b) = 2 * length b"
  by (induction b) (simp_all add: hex_encode_def)

lemma hex_encode_append: "hex_encode (a @ b) = hex_encode a @ hex_encode b"
  by (simp add: hex_encode_def)

lemma tokens_valid:
  "length b = 32 \<Longrightarrow> validAPIToken (url_encode b)" "length b = 24 \<Longrightarrow> validLiveImageToken (url_encode b)"
  by (simp_all add: validAPIToken_def validLiveImageToken_def url_decode_encode)

lemma stamp_facts:
  assumes "length b = 16"
  shows "length (stamp b) = 16" "drop_bit 4 (stamp b ! 6) = 4" "drop_bit 6 (stamp b ! 8) = 2"
proof -
  show "length (stamp b) = 16" by (simp add: stamp_def assms)
  have "drop_bit 4 (or (and x 0x0f) 0x40) = (4 :: byte)" "drop_bit 6 (or (and x 0x3f) 0x80) = (2 :: byte)" for x :: byte
    by (rule bit_word_eqI, auto simp: bit_simps less_Suc_eq numeral_eq_Suc)+
  then show "drop_bit 4 (stamp b ! 6) = 4" "drop_bit 6 (stamp b ! 8) = 2" by (simp_all add: stamp_def assms)
qed

lemma no_dash: "CHR ''-'' \<notin> set (hex_encode b)"
  using hex_chars hex_lower_facts(3) by fastforce

lemma uuid_valid:
  assumes "length b = 16"
  shows "validInstanceID (uuid_text (stamp b))" "list_all (\<lambda>c. \<not> is_space c) (uuid_text (stamp b))"
proof -
  define s where "s = stamp b"
  have s: "length s = 16" using stamp_facts(1) [OF assms] by (simp add: s_def)
  have body: "uuid_text s = hex_encode (slice 0 4 s) @ ''-'' @ hex_encode (slice 4 6 s) @ ''-'' @ hex_encode (slice 6 8 s) @ ''-''
      @ hex_encode (slice 8 10 s) @ ''-'' @ hex_encode (slice 10 16 s)"
    by (simp add: uuid_text_def)
  have dashes: "length (uuid_text s) = 36" "uuid_text s ! 8 = CHR ''-''" "uuid_text s ! 13 = CHR ''-''" "uuid_text s ! 18 = CHR ''-''"
    "uuid_text s ! 23 = CHR ''-''"
    unfolding body using s by (simp_all add: nth_append)
  have keep: "concat (map (\<lambda>x. if x = CHR ''-'' then [] else [x]) (hex_encode t)) = hex_encode t" for t
  proof -
    have "concat (map (\<lambda>x. if x = CHR ''-'' then [] else [x]) u) = u" if "CHR ''-'' \<notin> set u" for u
      using that by (induction u) auto
    then show ?thesis using no_dash by blast
  qed
  have "replace_all (uuid_text s) ''-'' [] = hex_encode (slice 0 4 s) @ hex_encode (slice 4 6 s) @ hex_encode (slice 6 8 s)
      @ hex_encode (slice 8 10 s) @ hex_encode (slice 10 16 s)"
    unfolding replace_all_char body by (simp add: keep)
  also have "\<dots> = hex_encode (slice 0 4 s @ slice 4 6 s @ slice 6 8 s @ slice 8 10 s @ slice 10 16 s)"
    by (simp add: hex_encode_append)
  also have "slice 0 4 s @ slice 4 6 s @ slice 6 8 s @ slice 8 10 s @ slice 10 16 s = s"
    using s by (simp add: slice_def flip: take_add drop_drop append_assoc)
  finally have "hex_decode (replace_all (uuid_text s) ''-'' []) = Some s" by (simp add: hex_decode_encode)
  then show "validInstanceID (uuid_text (stamp b))"
    using dashes stamp_facts [OF assms] unfolding s_def validInstanceID_def by simp
  have "\<not> is_space c" if "c \<in> set (hex_encode t)" for c t using hex_chars [OF that] hex_lower_facts(3) by blast
  then show "list_all (\<lambda>c. \<not> is_space c) (uuid_text (stamp b))"
    unfolding s_def [symmetric] body list_all_iff by (auto simp: is_space_def)
qed

section \<open>The files keep the identity\<close>

lemma trim_word: "list_all (\<lambda>c. \<not> is_space c) v \<Longrightarrow> trim_space (v @ [LF]) = v"
proof -
  assume v: "list_all (\<lambda>c. \<not> is_space c) v"
  have left: "trim_left (v @ [LF]) = (if v = [] then [] else v @ [LF])"
    using v by (cases v) (simp_all add: trim_left_def is_space_def LF_def)
  have "dropWhile is_space (rev v) = rev v" using v by (cases v rule: rev_cases) simp_all
  then show ?thesis unfolding trim_space_def left by (simp add: is_space_def LF_def trim_left_def)
qed

lemma created_value:
  assumes "loadOrCreateValue f path generated valid fs = (fs', Inr v)"
    and "\<forall>g. generated = Some g \<longrightarrow> valid g \<and> list_all (\<lambda>c. \<not> is_space c) g"
  shows "valid v" "\<exists>b. fs' path = Some b \<and> readIdentityValue b = v" "q \<noteq> path \<Longrightarrow> fs' q = fs q"
  using assms trim_word
  by (auto simp: loadOrCreateValue_def Let_def readIdentityValue_def split: if_splits option.splits)

lemma reloaded_value:
  assumes "fs path = Some b" "readIdentityValue b = v" "valid v" "\<not> read_fails f" "\<not> chmod_fails f"
  shows "loadOrCreateValue f path generated valid fs = (fs, Inr v)"
  using assms by (simp add: loadOrCreateValue_def Let_def)

lemma generated_values:
  "\<forall>b. r = Some b \<longrightarrow> length b = 16 \<Longrightarrow> newInstanceID r = Some g \<Longrightarrow> validInstanceID g \<and> list_all (\<lambda>c. \<not> is_space c) g"
  "\<forall>b. r = Some b \<longrightarrow> length b = 32 \<Longrightarrow> newRandomToken r = Some g \<Longrightarrow> validAPIToken g \<and> list_all (\<lambda>c. \<not> is_space c) g"
  "\<forall>b. r = Some b \<longrightarrow> length b = 24 \<Longrightarrow> newRandomToken r = Some g \<Longrightarrow> validLiveImageToken g \<and> list_all (\<lambda>c. \<not> is_space c) g"
  using uuid_valid tokens_valid url_encode_chars url_digits_facts(5)
  by (auto simp: newInstanceID_def newRandomToken_def list_all_iff)

lemma file_names: "instanceIDFile \<noteq> apiTokenFile" "instanceIDFile \<noteq> liveImageTokenFile" "apiTokenFile \<noteq> liveImageTokenFile"
  by (simp_all add: instanceIDFile_def apiTokenFile_def liveImageTokenFile_def)

section \<open>Properties\<close>

text \<open>C10. The identity survives restarts: when the gateway has come up with an identity, created or stored, then its three values
  are of the shape the server demands, and every later start that can read the files comes up with the same identity and
  changes no file, whatever random values it would have drawn.\<close>

theorem identity_persists:
  assumes "LoadOrCreateIdentity i dir fs = (fs', Inr d)"
    and "\<forall>b. in_instance i = Some b \<longrightarrow> length b = 16" "\<forall>b. in_token i = Some b \<longrightarrow> length b = 32" "\<forall>b. in_live i = Some b \<longrightarrow> length b = 24"
  shows "validInstanceID (id_InstanceID d) \<and> validAPIToken (id_Token d) \<and> validLiveImageToken (id_LiveImageToken d)
    \<and> (\<forall>i'. in_mkdir i' \<and> (\<forall>k. \<not> read_fails (in_faults i' k) \<and> \<not> chmod_fails (in_faults i' k)) \<longrightarrow>
          LoadOrCreateIdentity i' dir fs' = (fs', Inr d))"
proof -
  obtain fs1 v1 fs2 v2 v3 where
      1: "loadOrCreateValue (in_faults i 0) (dir @ instanceIDFile) (newInstanceID (in_instance i)) validInstanceID fs = (fs1, Inr v1)"
    and 2: "loadOrCreateValue (in_faults i 1) (dir @ apiTokenFile) (newRandomToken (in_token i)) validAPIToken fs1 = (fs2, Inr v2)"
    and 3: "loadOrCreateValue (in_faults i 2) (dir @ liveImageTokenFile) (newRandomToken (in_live i)) validLiveImageToken fs2 = (fs', Inr v3)"
    and d: "d = \<lparr>id_InstanceID = v1, id_Token = v2, id_LiveImageToken = v3\<rparr>"
    using assms(1) by (auto simp: LoadOrCreateIdentity_def split: if_splits prod.splits sum.splits)
  note c1 = created_value [OF 1, OF allI, OF impI, OF generated_values(1), OF assms(2)]
    and c2 = created_value [OF 2, OF allI, OF impI, OF generated_values(2), OF assms(3)]
    and c3 = created_value [OF 3, OF allI, OF impI, OF generated_values(3), OF assms(4)]
  obtain b1 where b1: "fs1 (dir @ instanceIDFile) = Some b1" "readIdentityValue b1 = v1" using c1(2) by blast
  obtain b2 where b2: "fs2 (dir @ apiTokenFile) = Some b2" "readIdentityValue b2 = v2" using c2(2) by blast
  obtain b3 where b3: "fs' (dir @ liveImageTokenFile) = Some b3" "readIdentityValue b3 = v3" using c3(2) by blast
  have f: "fs' (dir @ instanceIDFile) = Some b1" "fs' (dir @ apiTokenFile) = Some b2"
    using b1(1) b2(1) c2(3) [of "dir @ instanceIDFile"] c3(3) [of "dir @ instanceIDFile"] c3(3) [of "dir @ apiTokenFile"] file_names
    by simp_all
  have "LoadOrCreateIdentity i' dir fs' = (fs', Inr d)"
    if ok: "in_mkdir i'" "\<forall>k. \<not> read_fails (in_faults i' k) \<and> \<not> chmod_fails (in_faults i' k)" for i'
    using ok reloaded_value [where fs = fs', OF f(1) b1(2), of validInstanceID] reloaded_value [where fs = fs', OF f(2) b2(2), of validAPIToken]
      reloaded_value [where fs = fs', OF b3, of validLiveImageToken] c1(1) c2(1) c3(1)
    by (simp add: LoadOrCreateIdentity_def d)
  then show ?thesis using c1(1) c2(1) c3(1) by (simp add: d)
qed

definition first_start :: identity_input where
  "first_start = \<lparr>in_mkdir = True, in_faults = (\<lambda>_. \<lparr>read_fails = False, chmod_fails = False, appears = None, create_fails = False, write_fails = False\<rparr>),
     in_instance = Some (replicate 16 7), in_token = Some (replicate 32 8), in_live = Some (replicate 24 9)\<rparr>"

theorem identity_persists_witness:
  "\<exists>fs' d. LoadOrCreateIdentity first_start ''/data'' (\<lambda>_. None) = (fs', Inr d) \<and> validAPIToken (id_Token d)
     \<and> LoadOrCreateIdentity (first_start\<lparr>in_token := None\<rparr>) ''/data'' fs' = (fs', Inr d)"
proof -
  obtain fs' d where d: "LoadOrCreateIdentity first_start ''/data'' (\<lambda>_. None) = (fs', Inr d)"
    by (auto simp: LoadOrCreateIdentity_def first_start_def loadOrCreateValue_def newInstanceID_def newRandomToken_def file_names file_names [symmetric])
  have "\<forall>b. in_instance first_start = Some b \<longrightarrow> length b = 16" "\<forall>b. in_token first_start = Some b \<longrightarrow> length b = 32"
    "\<forall>b. in_live first_start = Some b \<longrightarrow> length b = 24"
    by (simp_all add: first_start_def)
  from identity_persists [OF d this] have r: "validAPIToken (id_Token d)"
    "LoadOrCreateIdentity (first_start\<lparr>in_token := None\<rparr>) ''/data'' fs' = (fs', Inr d)"
    by (simp_all add: first_start_def)
  then show ?thesis using d by blast
qed

end
