(* ===== verification/LiveImageHttp.thy ===== *)
theory LiveImageHttp
  imports StatusApi Catalog Identity
begin

text \<open>
  The live images over HTTP and the server around them: \<^verbatim>\<open>internal/status/live_image.go\<close>, the handlers and the page
  data of \<^verbatim>\<open>internal/status/server.go\<close>, and the provider in \<^verbatim>\<open>cmd/gateway/live_image.go\<close>.  The page template, the
  formatting of times and the sending of bytes are left out.
\<close>

section \<open>Paths and addresses\<close>

definition liveImagePrefix :: string where "liveImagePrefix = ''/fritzfon/''"

definition trim_suffix :: "string \<Rightarrow> string \<Rightarrow> string" where
  "trim_suffix x s = (if suffix x s then take (length s - length x) s else s)"

definition liveImagePath :: "string \<Rightarrow> string" where
  "liveImagePath token = liveImagePrefix @ token @ ''.jpg''"

definition liveImageAddress :: "string \<Rightarrow> int \<Rightarrow> string \<Rightarrow> string" where
  "liveImageAddress host port token =
     (let host = trim_space host in
      if host = [] then ''HOME-ASSISTANT-IP:'' @ show_int port @ liveImagePath token
      else join_host_port host (show_int port) @ liveImagePath token)"

definition liveImageChannelPrefix :: "string \<Rightarrow> string" where
  "liveImageChannelPrefix token = liveImagePrefix @ token @ ''/''"

definition liveImageChannelPath :: "string \<Rightarrow> int \<Rightarrow> string" where
  "liveImageChannelPath token n = liveImageChannelPrefix token @ ''channel-'' @ show_int n @ ''.jpg''"

definition liveImageCameraPath :: "string \<Rightarrow> string \<Rightarrow> string" where
  "liveImageCameraPath token i = liveImageChannelPrefix token @ ''camera-'' @ i @ ''.jpg''"

definition liveImageAddressForPath :: "string \<Rightarrow> int \<Rightarrow> string \<Rightarrow> string" where
  "liveImageAddressForPath host port path =
     (let host = trim_space host in
      if host = [] then ''HOME-ASSISTANT-IP:'' @ show_int port @ path else join_host_port host (show_int port) @ path)"

definition liveImageChannelAddress :: "string \<Rightarrow> int \<Rightarrow> string \<Rightarrow> int \<Rightarrow> string" where
  "liveImageChannelAddress host port token n = liveImageAddressForPath host port (liveImageChannelPath token n)"

definition liveImageCameraAddress :: "string \<Rightarrow> int \<Rightarrow> string \<Rightarrow> string \<Rightarrow> string" where
  "liveImageCameraAddress host port token i = liveImageAddressForPath host port (liveImageCameraPath token i)"

definition fullLiveImageURL :: "string \<Rightarrow> string" where
  "fullLiveImageURL address = ''http://'' @ address"

definition validLiveImageCameraID :: "string \<Rightarrow> bool" where
  "validLiveImageCameraID i \<longleftrightarrow> length i = 32 \<and> CHR ''/'' \<notin> set i \<and> list_all (\<lambda>c. c \<in> set hex_lower) i"

definition requestedLiveImageChannel :: "string \<Rightarrow> string \<Rightarrow> int option" where
  "requestedLiveImageChannel path pre =
     (if \<not> prefix pre path then None
      else
        let filename = trim_prefix pre path in
        if \<not> prefix ''channel-'' filename \<or> \<not> suffix ''.jpg'' filename then None
        else
          let v = trim_suffix ''.jpg'' (trim_prefix ''channel-'' filename) in
          if v = [] \<or> CHR ''/'' \<in> set v then None
          else case atoi v of (n, ok) \<Rightarrow> if ok \<and> 1 \<le> n \<and> n \<le> 256 \<and> v = show_int n then Some n else None)"

definition requestedLiveImageCamera :: "string \<Rightarrow> string \<Rightarrow> string option" where
  "requestedLiveImageCamera path pre =
     (if \<not> prefix pre path then None
      else
        let filename = trim_prefix pre path in
        if \<not> prefix ''camera-'' filename \<or> \<not> suffix ''.jpg'' filename then None
        else
          let i = trim_suffix ''.jpg'' (trim_prefix ''camera-'' filename) in
          if validLiveImageCameraID i then Some i else None)"

section \<open>The handlers\<close>

record image_reply =
  ir_status :: int
  ir_image :: "byte list option"

text \<open>\<open>picture\<close> is what the provider gives; the body goes with a GET only.\<close>

definition liveImageHandler :: "byte list option \<Rightarrow> http_request \<Rightarrow> image_reply" where
  "liveImageHandler picture rq =
     (if rq_method rq \<noteq> ''GET'' \<and> rq_method rq \<noteq> ''HEAD'' then \<lparr>ir_status = 405, ir_image = None\<rparr>
      else case picture of
        None \<Rightarrow> \<lparr>ir_status = 502, ir_image = None\<rparr>
      | Some b \<Rightarrow>
          if length b < 4 \<or> b ! 0 \<noteq> 0xff \<or> b ! 1 \<noteq> 0xd8 then \<lparr>ir_status = 502, ir_image = None\<rparr>
          else \<lparr>ir_status = 200, ir_image = (if rq_method rq = ''GET'' then Some b else None)\<rparr>)"

definition availableLiveImageChannel :: "channel list \<Rightarrow> int \<Rightarrow> bool" where
  "availableLiveImageChannel cs n = list_ex (\<lambda>c. ch_Number c = n) cs"

definition availableLiveImageCamera :: "channel list \<Rightarrow> string \<Rightarrow> bool" where
  "availableLiveImageCamera cs i = list_ex (\<lambda>c. ch_CameraID c = i \<and> i \<noteq> []) cs"

text \<open>The provider of the gateway: \<open>picture\<close> gives the result of the source of a camera input.\<close>

record provider =
  pv_channels :: "channel list"
  pv_channel :: "int \<Rightarrow> byte list option"
  pv_camera :: "string \<Rightarrow> byte list option"
  pv_primary :: "byte list option"

definition catalog_provider :: "(channels \<Rightarrow> channels) \<Rightarrow> (int \<Rightarrow> byte list option) \<Rightarrow> catalog \<Rightarrow> provider" where
  "catalog_provider ord picture c =
     \<lparr>pv_channels = Channels c,
      pv_channel = (\<lambda>n. case FetchChannelJPEG c n of Some k \<Rightarrow> picture k | None \<Rightarrow> None),
      pv_camera = (\<lambda>i. case FetchCameraJPEG ord c i of Some k \<Rightarrow> picture k | None \<Rightarrow> None),
      pv_primary = picture (NVRChannel (cat_cfg c))\<rparr>"

definition liveImageChannelHandler :: "provider \<Rightarrow> string \<Rightarrow> http_request \<Rightarrow> image_reply" where
  "liveImageChannelHandler p token rq =
     (let pre = liveImageChannelPrefix token;
          channel = (case requestedLiveImageChannel (rq_path rq) pre of
                       Some n \<Rightarrow> if availableLiveImageChannel (pv_channels p) n then Some n else None | None \<Rightarrow> None);
          camera = (case requestedLiveImageCamera (rq_path rq) pre of
                       Some i \<Rightarrow> if availableLiveImageCamera (pv_channels p) i then Some i else None | None \<Rightarrow> None)
      in case channel of
           Some n \<Rightarrow> liveImageHandler (pv_channel p n) rq
         | None \<Rightarrow>
             (case camera of
                Some i \<Rightarrow> liveImageHandler (pv_camera p i) rq
              | None \<Rightarrow> \<lparr>ir_status = 404, ir_image = None\<rparr>))"

definition localLiveImageOnly :: "net_ops \<Rightarrow> http_request \<Rightarrow> image_reply \<Rightarrow> image_reply" where
  "localLiveImageOnly ops rq r = (if allowedAPIRemote ops (rq_remote rq) then r else \<lparr>ir_status = 403, ir_image = None\<rparr>)"

section \<open>The server\<close>

record ServerOptions =
  so_Port :: int
  so_Token :: string
  so_InstanceID :: string
  so_LiveImage :: bool
  so_LiveImageToken :: string
  so_LiveImageHost :: string

datatype serve_error = Invalid_port int | Invalid_identity | Invalid_live_identity

definition serve_check :: "ServerOptions \<Rightarrow> serve_error option" where
  "serve_check opts =
     (if so_Port opts < 1 \<or> 65535 < so_Port opts then Some (Invalid_port (so_Port opts))
      else if \<not> validAPIToken (so_Token opts) \<or> \<not> validInstanceID (so_InstanceID opts) then Some Invalid_identity
      else if so_LiveImage opts \<and> \<not> validLiveImageToken (so_LiveImageToken opts) then Some Invalid_live_identity
      else None)"

text \<open>Which handler the longest pattern of the path names, and whom it serves.\<close>

datatype handler = H_api | H_live | H_live_channel | H_health | H_logo | H_status | H_page

definition serve_handler :: "ServerOptions \<Rightarrow> string \<Rightarrow> handler" where
  "serve_handler opts path =
     (if prefix ''/api/v1/'' path then H_api
      else if so_LiveImage opts \<and> path = liveImagePath (so_LiveImageToken opts) then H_live
      else if so_LiveImage opts \<and> prefix (liveImageChannelPrefix (so_LiveImageToken opts)) path then H_live_channel
      else if path = ''/health'' then H_health
      else if path = ''/logo.png'' then H_logo
      else if path = ''/api/status'' then H_status
      else H_page)"

definition serve_live :: "net_ops \<Rightarrow> ServerOptions \<Rightarrow> provider \<Rightarrow> http_request \<Rightarrow> image_reply option" where
  "serve_live ops opts p rq =
     (case serve_handler opts (rq_path rq) of
        H_live \<Rightarrow> Some (localLiveImageOnly ops rq (liveImageHandler (pv_primary p) rq))
      | H_live_channel \<Rightarrow> Some (localLiveImageOnly ops rq (liveImageChannelHandler p (so_LiveImageToken opts) rq))
      | _ \<Rightarrow> None)"

text \<open>The status page, the logo and the raw snapshot, which holds the token, go to the ingress only.\<close>

definition ingressOnly :: "net_ops \<Rightarrow> ServerOptions \<Rightarrow> http_request \<Rightarrow> int option" where
  "ingressOnly ops opts rq =
     (if serve_handler opts (rq_path rq) \<in> {H_logo, H_status, H_page}
      then Some (if allowedRemote ops (rq_remote rq) then 200 else 403) else None)"

section \<open>The page\<close>

record page_channel =
  pg_Number :: int
  pg_Name :: string
  pg_Primary :: bool
  pg_StatusText :: string
  pg_StatusClass :: string
  pg_Address :: string
  pg_URL :: string
  pg_ChannelAddress :: string
  pg_ChannelURL :: string

definition umlaut_u :: string where "umlaut_u = [CHR 0xC3, CHR 0xBC]"

definition liveImageChannelStatusText :: "channel \<Rightarrow> string" where
  "liveImageChannelStatusText c =
     (if \<not> ch_StatusKnown c then ''noch nicht neu gepr'' @ umlaut_u @ ''ft'' else if ch_Online c then ''online'' else ''offline'')"

definition liveImageChannelStatusClass :: "channel \<Rightarrow> string" where
  "liveImageChannelStatusClass c = (if \<not> ch_StatusKnown c then ''muted'' else if ch_Online c then ''ok'' else ''bad'')"

definition page_entry :: "ServerOptions \<Rightarrow> channel \<Rightarrow> page_channel" where
  "page_entry opts c =
     (let channelAddress = liveImageChannelAddress (so_LiveImageHost opts) (so_Port opts) (so_LiveImageToken opts) (ch_Number c);
          address = (if validLiveImageCameraID (ch_CameraID c)
                     then liveImageCameraAddress (so_LiveImageHost opts) (so_Port opts) (so_LiveImageToken opts) (ch_CameraID c) else [])
      in \<lparr>pg_Number = ch_Number c, pg_Name = trim_space (ch_Name c), pg_Primary = ch_Primary c,
          pg_StatusText = liveImageChannelStatusText c, pg_StatusClass = liveImageChannelStatusClass c,
          pg_Address = address, pg_URL = (if validLiveImageCameraID (ch_CameraID c) then fullLiveImageURL address else []),
          pg_ChannelAddress = channelAddress, pg_ChannelURL = fullLiveImageURL channelAddress\<rparr>)"

text \<open>The loop over the sorted channels with the numbers already shown.\<close>

fun page_loop :: "ServerOptions \<Rightarrow> int set \<Rightarrow> channel list \<Rightarrow> page_channel list" where
  "page_loop opts seen [] = []"
| "page_loop opts seen (c # cs) =
     (if ch_Number c < 1 \<or> 256 < ch_Number c \<or> ch_Number c \<in> seen then page_loop opts seen cs
      else page_entry opts c # page_loop opts (insert (ch_Number c) seen) cs)"

definition liveImagePageChannels :: "ServerOptions \<Rightarrow> provider \<Rightarrow> page_channel list" where
  "liveImagePageChannels opts p = page_loop opts {} (sort_key ch_Number (pv_channels p))"

text \<open>The line on the discovery: text and class.\<close>

definition liveImagePageDiscoveryData :: "discovery \<Rightarrow> string \<times> string" where
  "liveImagePageDiscoveryData d =
     (if disc_LastFailed d
      then (''vor'' @ umlaut_u @ ''bergehend nicht erreichbar '' @ [CHR 0xE2, CHR 0x80, CHR 0x93] @ '' letzter Katalog bleibt aktiv'', ''bad'')
      else if disc_LastAttempt d \<noteq> None then (''erfolgreich'', ''ok'')
      else if disc_LastSuccess d \<noteq> None then (''gespeicherter Katalog geladen; neue Pr'' @ umlaut_u @ ''fung l'' @ [CHR 0xC3, CHR 0xA4] @ ''uft'', ''muted'')
      else (''noch nicht ausgef'' @ umlaut_u @ ''hrt'', ''muted''))"

definition setupHostname :: "string \<Rightarrow> string" where
  "setupHostname v = replace_all (trim_space v) ''_'' ''-''"

section \<open>Links\<close>

lemma provider_simps [simp]:
  "pv_channels (catalog_provider ord picture c) = Channels c"
  "pv_channel (catalog_provider ord picture c) n = (case FetchChannelJPEG c n of Some k \<Rightarrow> picture k | None \<Rightarrow> None)"
  "pv_camera (catalog_provider ord picture c) i = (case FetchCameraJPEG ord c i of Some k \<Rightarrow> picture k | None \<Rightarrow> None)"
  by (simp_all add: catalog_provider_def)

lemma suffix_after: "suffix x (a @ r) \<Longrightarrow> x \<noteq> [] \<Longrightarrow> hd x \<notin> set a \<Longrightarrow> suffix x r"
proof -
  assume a: "suffix x (a @ r)" "x \<noteq> []" "hd x \<notin> set a"
  then obtain zs us where "a = zs @ us \<and> us @ r = x \<or> a @ us = zs \<and> r = us @ x"
    by (auto simp: suffix_def append_eq_append_conv2)
  moreover have "us = []" if "a = zs @ us" "us @ r = x" using that a(2,3) by (cases us) auto
  ultimately show ?thesis by (auto simp: suffix_def)
qed

lemma trim_suffix_append [simp]: "trim_suffix x (s @ x) = s"
  by (simp add: trim_suffix_def suffix_def)

lemma trim_prefix_append [simp]: "trim_prefix x (x @ s) = s"
  by (simp add: trim_prefix_def)

text \<open>A name between the prefix, a kind and \<^verbatim>\<open>.jpg\<close>.\<close>

lemma named_file:
  assumes "prefix pre path" "prefix kind (trim_prefix pre path)" "suffix ''.jpg'' (trim_prefix pre path)" "CHR ''.'' \<notin> set kind"
  shows "path = pre @ kind @ trim_suffix ''.jpg'' (trim_prefix kind (trim_prefix pre path)) @ ''.jpg''"
proof -
  obtain f where path: "path = pre @ f" using assms(1) by (auto simp: prefix_def)
  then have f: "trim_prefix pre path = f" by simp
  obtain r where r: "f = kind @ r" using assms(2) unfolding f by (auto simp: prefix_def)
  have "suffix ''.jpg'' r" using assms(3,4) suffix_after [of "''.jpg''" kind r] unfolding f r by simp
  then obtain v where "r = v @ ''.jpg''" by (auto simp: suffix_def)
  then show ?thesis by (simp add: path r)
qed

lemma channel_requested:
  assumes "requestedLiveImageChannel path (liveImageChannelPrefix t) = Some n"
  shows "path = liveImageChannelPath t n" "1 \<le> n" "n \<le> 256"
proof -
  let ?pre = "liveImageChannelPrefix t"
  let ?v = "trim_suffix ''.jpg'' (trim_prefix ''channel-'' (trim_prefix ?pre path))"
  have "prefix ?pre path" "prefix ''channel-'' (trim_prefix ?pre path)" "suffix ''.jpg'' (trim_prefix ?pre path)"
    and v: "?v = show_int n" "1 \<le> n" "n \<le> 256"
    using assms by (auto simp: requestedLiveImageChannel_def Let_def split: if_splits prod.splits)
  then have "path = ?pre @ ''channel-'' @ ?v @ ''.jpg''" by (intro named_file) simp_all
  then show "path = liveImageChannelPath t n" "1 \<le> n" "n \<le> 256" using v by (simp_all add: liveImageChannelPath_def)
qed

lemma show_int_pos: "1 \<le> n \<Longrightarrow> n \<le> 256 \<Longrightarrow> atoi (show_int n) = (n, True)"
  using atoi_show_nat [of "nat n"] by (simp add: show_int_def)

lemma show_int_chars: "0 \<le> n \<Longrightarrow> show_int n \<noteq> [] \<and> CHR ''/'' \<notin> set (show_int n)"
  using show_nat_digits [of "nat n"] by (auto simp: show_int_def list_all_iff is_digit_def)

lemma request_channel:
  "1 \<le> n \<Longrightarrow> n \<le> 256 \<Longrightarrow> requestedLiveImageChannel (liveImageChannelPath t n) (liveImageChannelPrefix t) = Some n"
  using show_int_chars [of n] show_int_pos [of n]
  by (simp add: requestedLiveImageChannel_def liveImageChannelPath_def Let_def suffix_def trim_prefix_def trim_suffix_def)

lemma camera_requested:
  assumes "requestedLiveImageCamera path (liveImageChannelPrefix t) = Some i"
  shows "path = liveImageCameraPath t i" "validLiveImageCameraID i"
proof -
  let ?pre = "liveImageChannelPrefix t"
  let ?v = "trim_suffix ''.jpg'' (trim_prefix ''camera-'' (trim_prefix ?pre path))"
  have "prefix ?pre path" "prefix ''camera-'' (trim_prefix ?pre path)" "suffix ''.jpg'' (trim_prefix ?pre path)"
    and v: "?v = i" "validLiveImageCameraID i"
    using assms by (auto simp: requestedLiveImageCamera_def Let_def split: if_splits)
  then have "path = ?pre @ ''camera-'' @ ?v @ ''.jpg''" by (intro named_file) simp_all
  then show "path = liveImageCameraPath t i" "validLiveImageCameraID i" using v by (simp_all add: liveImageCameraPath_def)
qed

lemma request_camera:
  "validLiveImageCameraID i \<Longrightarrow> requestedLiveImageCamera (liveImageCameraPath t i) (liveImageChannelPrefix t) = Some i"
  by (simp add: requestedLiveImageCamera_def liveImageCameraPath_def Let_def suffix_def trim_prefix_def trim_suffix_def)

lemma kinds_differ: "liveImageChannelPath t n \<noteq> liveImageCameraPath t i"
  by (simp add: liveImageChannelPath_def liveImageCameraPath_def)

lemma channel_path_inj: "liveImageChannelPath t n = liveImageChannelPath t m \<Longrightarrow> 0 \<le> n \<Longrightarrow> 0 \<le> m \<Longrightarrow> n = m"
  by (auto simp: liveImageChannelPath_def show_int_def dest!: show_nat_inj)

lemma camera_ids_valid:
  assumes "ch_CameraID e = cameraIDForUID sha uid" "ch_CameraID e \<noteq> []" "\<forall>b. length (sha b) = 32"
  shows "validLiveImageCameraID (ch_CameraID e)"
proof -
  obtain b where b: "ch_CameraID e = hex_encode (take 16 (sha b))" using assms(1,2) by (auto simp: cameraIDForUID_def Let_def split: if_splits)
  have "length (hex_encode (take 16 (sha b))) = 32" using assms(3) by simp
  moreover have "CHR ''/'' \<notin> set hex_lower" by (simp add: hex_lower_def)
  ultimately show ?thesis using hex_chars unfolding b validLiveImageCameraID_def list_all_iff by blast
qed

lemma page_loop_all:
  "distinct (map ch_Number cs) \<Longrightarrow> \<forall>c \<in> set cs. 1 \<le> ch_Number c \<and> ch_Number c \<le> 256 \<and> ch_Number c \<notin> seen \<Longrightarrow>
     page_loop opts seen cs = map (page_entry opts) cs"
proof (induction cs arbitrary: seen)
  case (Cons c cs)
  have "ch_Number x \<noteq> ch_Number c" if "x \<in> set cs" for x using Cons.prems(1) imageI [OF that, of ch_Number] by auto
  then have "page_loop opts (insert (ch_Number c) seen) cs = map (page_entry opts) cs" using Cons.prems by (intro Cons.IH) auto
  then show ?case using Cons.prems by simp
qed simp

lemma channels_sound:
  assumes "catalog_ok sha cfg c" "e \<in> set (Channels c)"
  shows "(ch_Number e, e) \<in> set (cat_channels c)" "1 \<le> ch_Number e" "ch_Number e \<le> 256" "ch_CameraID e = cameraIDForUID sha (ch_uid e)"
  using assms by (auto simp: catalog_ok_def channels_ok_def entry_ok_def Channels_def)

lemma page_channels:
  assumes "catalog_ok sha cfg c"
  shows "liveImagePageChannels opts (catalog_provider ord picture c) = map (page_entry opts) (Channels c)"
proof -
  have "distinct (map ch_Number (Channels c))" using channel_numbers(3) [OF assms] by (simp add: ChannelNumbers_def)
  moreover have "sort_key ch_Number (Channels c) = Channels c"
    using channel_numbers(2) [OF assms] by (intro sort_key_id_if_sorted) (simp add: ChannelNumbers_def)
  ultimately show ?thesis
    using channels_sound [OF assms] by (simp add: liveImagePageChannels_def page_loop_all)
qed

lemma available_channel: "availableLiveImageChannel (Channels c) n \<longleftrightarrow> n \<in> set (ChannelNumbers c)"
  by (auto simp: availableLiveImageChannel_def ChannelNumbers_def list_ex_iff)

lemma find_in: "find P xs = Some x \<Longrightarrow> x \<in> set xs \<and> P x"
  by (induction xs) (auto split: if_splits)

lemma find_camera:
  assumes "\<forall>m. set (ord m) = set m" "catalog_ok sha cfg c" "availableLiveImageCamera (Channels c) i"
  shows "\<exists>n e. (n, e) \<in> set (cat_channels c) \<and> ch_CameraID e = i \<and> FetchCameraJPEG ord c i = Some (n - 1)"
proof -
  obtain e0 where e0: "(ch_Number e0, e0) \<in> set (cat_channels c)" "ch_CameraID e0 = i"
    using assms(3) channels_sound(1) [OF assms(2)] by (auto simp: availableLiveImageCamera_def list_ex_iff)
  then obtain n e where f: "find (\<lambda>(n, e). ch_CameraID e = i) (ord (cat_channels c)) = Some (n, e)"
    using assms(1) by (cases "find (\<lambda>(n, e). ch_CameraID e = i) (ord (cat_channels c))") (auto simp: find_None_iff)
  then have "(n, e) \<in> set (cat_channels c)" "ch_CameraID e = i" 
    using find_in [OF f] assms(1) by auto
  moreover from this have "ch_source e = Some (n - 1)" using assms(2) by (auto simp: catalog_ok_def channels_ok_def entry_ok_def)
  ultimately show ?thesis using f by (auto simp: FetchCameraJPEG_def)
qed

lemma live_links:
  assumes reach: "catalog_reach sha cfg c" "0 \<le> NVRChannel cfg" "NVRChannel cfg \<le> 255"
    and ord: "\<forall>m. set (ord m) = set m" and sha: "\<forall>b. length (sha b) = 32" and live: "so_LiveImage opts"
    and below: "prefix (liveImageChannelPrefix (so_LiveImageToken opts)) (rq_path rq)"
  shows "map pg_ChannelURL (liveImagePageChannels opts (catalog_provider ord picture c)) =
      map (\<lambda>n. fullLiveImageURL (liveImageAddressForPath (so_LiveImageHost opts) (so_Port opts)
                  (liveImageChannelPath (so_LiveImageToken opts) n))) (ChannelNumbers c)"
    "\<not> allowedAPIRemote ops (rq_remote rq) \<Longrightarrow>
      serve_live ops opts (catalog_provider ord picture c) rq = Some \<lparr>ir_status = 403, ir_image = None\<rparr>"
    "allowedAPIRemote ops (rq_remote rq) \<Longrightarrow> n \<in> set (ChannelNumbers c) \<Longrightarrow>
      rq_path rq = liveImageChannelPath (so_LiveImageToken opts) n \<Longrightarrow>
      serve_live ops opts (catalog_provider ord picture c) rq = Some (liveImageHandler (picture (n - 1)) rq)"
    "allowedAPIRemote ops (rq_remote rq) \<Longrightarrow> e \<in> set (Channels c) \<Longrightarrow> ch_CameraID e \<noteq> [] \<Longrightarrow>
      rq_path rq = liveImageCameraPath (so_LiveImageToken opts) (ch_CameraID e) \<Longrightarrow>
      \<exists>m e'. (m, e') \<in> set (cat_channels c) \<and> ch_CameraID e' = ch_CameraID e
        \<and> serve_live ops opts (catalog_provider ord picture c) rq = Some (liveImageHandler (picture (m - 1)) rq)"
    "allowedAPIRemote ops (rq_remote rq) \<Longrightarrow>
      \<forall>n \<in> set (ChannelNumbers c). rq_path rq \<noteq> liveImageChannelPath (so_LiveImageToken opts) n \<Longrightarrow>
      \<forall>e \<in> set (Channels c). ch_CameraID e \<noteq> [] \<longrightarrow> rq_path rq \<noteq> liveImageCameraPath (so_LiveImageToken opts) (ch_CameraID e) \<Longrightarrow>
      serve_live ops opts (catalog_provider ord picture c) rq = Some \<lparr>ir_status = 404, ir_image = None\<rparr>"
proof -
  let ?t = "so_LiveImageToken opts" and ?p = "catalog_provider ord picture c"
  let ?pre = "liveImageChannelPrefix ?t"
  have ok: "catalog_ok sha cfg c" by (rule reach_ok [OF reach])
  have "serve_handler opts (rq_path rq) = H_live_channel"
  proof -
    obtain r where r: "rq_path rq = ?pre @ r" using below by (auto simp: prefix_def)
    show ?thesis using live by (simp add: serve_handler_def r liveImageChannelPrefix_def liveImagePrefix_def liveImagePath_def prefix_def)
  qed
  then have serve: "serve_live ops opts ?p rq = Some (localLiveImageOnly ops rq (liveImageChannelHandler ?p ?t rq))"
    by (simp add: serve_live_def)
  show "map pg_ChannelURL (liveImagePageChannels opts ?p) =
      map (\<lambda>n. fullLiveImageURL (liveImageAddressForPath (so_LiveImageHost opts) (so_Port opts) (liveImageChannelPath ?t n))) (ChannelNumbers c)"
    unfolding page_channels [OF ok] by (simp add: page_entry_def Let_def liveImageChannelAddress_def ChannelNumbers_def comp_def)
  show "serve_live ops opts ?p rq = Some \<lparr>ir_status = 403, ir_image = None\<rparr>" if "\<not> allowedAPIRemote ops (rq_remote rq)"
    using that by (simp add: serve localLiveImageOnly_def)
  assume allowed: "allowedAPIRemote ops (rq_remote rq)"
  then have serve: "serve_live ops opts ?p rq = Some (liveImageChannelHandler ?p ?t rq)"
    by (simp add: serve localLiveImageOnly_def)
  note handler = liveImageChannelHandler_def Let_def
  show "serve_live ops opts ?p rq = Some (liveImageHandler (picture (n - 1)) rq)"
    if n: "n \<in> set (ChannelNumbers c)" "rq_path rq = liveImageChannelPath ?t n"
  proof -
    obtain e where e: "e \<in> set (Channels c)" "ch_Number e = n" using n(1) by (auto simp: ChannelNumbers_def)
    have "FetchChannelJPEG c n = Some (n - 1)" using published_fetch [OF ok] n(1) by simp
    then show ?thesis using n channels_sound(2,3) [OF ok e(1)] e(2) available_channel [of c n] request_channel [of n ?t]
      by (simp add: serve handler)
  qed
  show "\<exists>m e'. (m, e') \<in> set (cat_channels c) \<and> ch_CameraID e' = ch_CameraID e
        \<and> serve_live ops opts ?p rq = Some (liveImageHandler (picture (m - 1)) rq)"
    if e: "e \<in> set (Channels c)" "ch_CameraID e \<noteq> []" "rq_path rq = liveImageCameraPath ?t (ch_CameraID e)"
  proof -
    have valid: "validLiveImageCameraID (ch_CameraID e)"
      by (rule camera_ids_valid [OF channels_sound(4) [OF ok e(1)] e(2) sha])
    have av: "availableLiveImageCamera (Channels c) (ch_CameraID e)" using e(1,2) by (auto simp: availableLiveImageCamera_def list_ex_iff)
    have no: "requestedLiveImageChannel (rq_path rq) ?pre = None"
      using channel_requested(1) [of "rq_path rq" ?t] kinds_differ e(3) by (metis option.exhaust)
    obtain m e' where m: "(m, e') \<in> set (cat_channels c)" "ch_CameraID e' = ch_CameraID e"
        "FetchCameraJPEG ord c (ch_CameraID e) = Some (m - 1)"
      using find_camera [OF ord ok av] by blast
    have "serve_live ops opts ?p rq = Some (liveImageHandler (picture (m - 1)) rq)"
      using no request_camera [OF valid, of ?t] av m(3) by (simp add: serve handler e(3))
    then show ?thesis using m(1,2) by blast
  qed
  show "serve_live ops opts ?p rq = Some \<lparr>ir_status = 404, ir_image = None\<rparr>"
    if none: "\<forall>n \<in> set (ChannelNumbers c). rq_path rq \<noteq> liveImageChannelPath ?t n"
      "\<forall>e \<in> set (Channels c). ch_CameraID e \<noteq> [] \<longrightarrow> rq_path rq \<noteq> liveImageCameraPath ?t (ch_CameraID e)"
  proof -
    have "\<not> availableLiveImageChannel (Channels c) n" if "requestedLiveImageChannel (rq_path rq) ?pre = Some n" for n
      using channel_requested(1) [OF that] none(1) by (auto simp: available_channel)
    moreover have "\<not> availableLiveImageCamera (Channels c) i" if "requestedLiveImageCamera (rq_path rq) ?pre = Some i" for i
      using camera_requested(1) [OF that] none(2) by (auto simp: availableLiveImageCamera_def list_ex_iff)
    ultimately show ?thesis by (auto simp: serve handler split: option.split)
  qed
qed

section \<open>Properties\<close>

text \<open>C11. The links of the status page lead to the right cameras.  In every reachable catalogue the page lists exactly the published
  channels; the path of a listed channel serves the image of the camera input of that number; the path of a camera id
  serves the image of a channel that has this id; every other path below the token is not found; and none of it is
  served outside the local networks.\<close>

theorem live_links_serve_their_camera:
  assumes "catalog_reach sha cfg c" "0 \<le> NVRChannel cfg" "NVRChannel cfg \<le> 255"
    and "\<forall>m. set (ord m) = set m" "\<forall>b. length (sha b) = 32" "so_LiveImage opts"
    and "prefix (liveImageChannelPrefix (so_LiveImageToken opts)) (rq_path rq)"
  shows "map pg_ChannelURL (liveImagePageChannels opts (catalog_provider ord picture c)) =
      map (\<lambda>n. fullLiveImageURL (liveImageAddressForPath (so_LiveImageHost opts) (so_Port opts)
                  (liveImageChannelPath (so_LiveImageToken opts) n))) (ChannelNumbers c)
    \<and> (\<not> allowedAPIRemote ops (rq_remote rq) \<longrightarrow>
        serve_live ops opts (catalog_provider ord picture c) rq = Some \<lparr>ir_status = 403, ir_image = None\<rparr>)
    \<and> (allowedAPIRemote ops (rq_remote rq) \<longrightarrow>
        (\<forall>n \<in> set (ChannelNumbers c). rq_path rq = liveImageChannelPath (so_LiveImageToken opts) n \<longrightarrow>
           serve_live ops opts (catalog_provider ord picture c) rq = Some (liveImageHandler (picture (n - 1)) rq))
      \<and> (\<forall>e \<in> set (Channels c). ch_CameraID e \<noteq> [] \<and> rq_path rq = liveImageCameraPath (so_LiveImageToken opts) (ch_CameraID e) \<longrightarrow>
           (\<exists>m e'. (m, e') \<in> set (cat_channels c) \<and> ch_CameraID e' = ch_CameraID e
              \<and> serve_live ops opts (catalog_provider ord picture c) rq = Some (liveImageHandler (picture (m - 1)) rq)))
      \<and> ((\<forall>n \<in> set (ChannelNumbers c). rq_path rq \<noteq> liveImageChannelPath (so_LiveImageToken opts) n)
           \<and> (\<forall>e \<in> set (Channels c). ch_CameraID e \<noteq> [] \<longrightarrow> rq_path rq \<noteq> liveImageCameraPath (so_LiveImageToken opts) (ch_CameraID e)) \<longrightarrow>
           serve_live ops opts (catalog_provider ord picture c) rq = Some \<lparr>ir_status = 404, ir_image = None\<rparr>))"
  using live_links [OF assms] by blast

theorem live_links_serve_their_camera_witness:
  "serve_live \<lparr>split_host = (\<lambda>_. None), parse_ip = (\<lambda>_. Some [192, 168, 1, 20])\<rparr>
     \<lparr>so_Port = 8099, so_Token = [], so_InstanceID = [], so_LiveImage = True, so_LiveImageToken = ''T'', so_LiveImageHost = []\<rparr>
     (catalog_provider id (\<lambda>_. Some [0xff, 0xd8, 1, 2]) (empty_catalog Defaults))
     \<lparr>rq_method = ''GET'', rq_path = liveImageChannelPath ''T'' 2, rq_authorization = [], rq_remote = []\<rparr>
   = Some \<lparr>ir_status = 200, ir_image = Some [0xff, 0xd8, 1, 2]\<rparr>"
proof -
  have n: "NVRChannel Defaults = 1" by (simp add: Defaults_def SetAECDelay_def Let_def)
  have "catalog_reach (\<lambda>_. replicate 32 0) Defaults (empty_catalog Defaults)"
    using catalog_reach.started [of "\<lambda>_. replicate 32 0" Defaults "\<lambda>_. None" "\<lambda>_. None" "[]"]
    by (simp add: newCatalog_def trim_space_def trim_left_def)
  moreover have "ChannelNumbers (empty_catalog Defaults) = [2]"
    by (simp add: ChannelNumbers_def Channels_def empty_catalog_def zero_channel_def primary_number_def n)
  ultimately show ?thesis
    using live_links_serve_their_camera [where sha = "\<lambda>_. replicate 32 0" and cfg = Defaults and c = "empty_catalog Defaults" and ord = id
        and opts = "\<lparr>so_Port = 8099, so_Token = [], so_InstanceID = [], so_LiveImage = True, so_LiveImageToken = ''T'', so_LiveImageHost = []\<rparr>"
        and rq = "\<lparr>rq_method = ''GET'', rq_path = liveImageChannelPath ''T'' 2, rq_authorization = [], rq_remote = []\<rparr>"
        and picture = "\<lambda>_. Some [0xff, 0xd8, 1, 2]" and ops = "\<lparr>split_host = (\<lambda>_. None), parse_ip = (\<lambda>_. Some [192, 168, 1, 20])\<rparr>"]
    by (simp add: n allowedAPIRemote_def remote_ip_def is_loopback_def is_private_def to4_def liveImageHandler_def liveImageChannelPath_def)
qed

end
