(* ===== verification/CallLife.thy ===== *)
theory CallLife
  imports StatusStore Config
begin

text \<open>
  The life of one call as the gateway leads it: \<^verbatim>\<open>handleCall\<close>, \<^verbatim>\<open>handleIncomingCall\<close> and their helpers in
  \<^verbatim>\<open>cmd/gateway/main.go\<close>.  What the SIP client, the fork, the media session and the clock give is the environment of a
  call; the result is the store after it and the actions in their order.  Events that the goroutines of a call deliver
  are lists: the ones while it runs, and the ones that slip in after its end.
\<close>

section \<open>Errors\<close>

text \<open>An error is its text and what \<open>errors.Is\<close> finds in it.\<close>

record gw_error =
  ge_text :: string
  ge_canceled :: bool
  ge_deadline :: bool
  ge_closed :: bool
  ge_call_canceled :: bool

definition plain_error :: "string \<Rightarrow> gw_error" where
  "plain_error t = \<lparr>ge_text = t, ge_canceled = False, ge_deadline = False, ge_closed = False, ge_call_canceled = False\<rparr>"

definition wrap_error :: "string \<Rightarrow> gw_error \<Rightarrow> gw_error" where
  "wrap_error t e = e\<lparr>ge_text := t @ '': '' @ ge_text e\<rparr>"

section \<open>Updates of the snapshot\<close>

definition clearActiveMedia :: "Snapshot \<Rightarrow> Snapshot" where
  "clearActiveMedia v = v\<lparr>sn_ActiveCodec := [], sn_ActiveTalkback := [], sn_TalkbackDetails := [], sn_ActiveReceive := [],
     sn_ReceiveDetails := [], sn_ActiveEchoCancellation := []\<rparr>"

definition clearActiveCall :: "Snapshot \<Rightarrow> Snapshot" where
  "clearActiveCall v = clearActiveMedia (v\<lparr>sn_CurrentCallDirection := [], sn_CurrentCallerNumber := [], sn_CurrentRouteID := [],
     sn_CurrentRouteName := []\<rparr>)"

definition end_call :: "string \<Rightarrow> string \<Rightarrow> int \<Rightarrow> Snapshot \<Rightarrow> Snapshot" where
  "end_call state err now v = clearActiveCall (v\<lparr>sn_State := state, sn_LastError := err, sn_LastCallEnded := Some now\<rparr>)"

definition finishCall :: "gw_error option \<Rightarrow> int \<Rightarrow> Store \<Rightarrow> Store" where
  "finishCall finalErr now s =
     (case finalErr of
        Some e \<Rightarrow> if ge_canceled e then Update (end_call ''idle'' [] now) now s else Update (end_call ''error'' (ge_text e) now) now s
      | None \<Rightarrow> Update (end_call ''idle'' [] now) now s)"

definition finishCanceledIncomingCall :: "int \<Rightarrow> Store \<Rightarrow> Store" where
  "finishCanceledIncomingCall now s = Update (end_call ''idle'' [] now) now s"

definition recordIncomingCallError :: "gw_error \<Rightarrow> int \<Rightarrow> Store \<Rightarrow> Store" where
  "recordIncomingCallError e now s = Update (end_call ''error'' (ge_text e) now) now s"

definition recordCallError :: "gw_error \<Rightarrow> int \<Rightarrow> Store \<Rightarrow> Store" where
  "recordCallError e now s = Update (end_call ''error'' (ge_text e) now) now s"

definition begin_outgoing :: "Config \<Rightarrow> ResolvedCallRoute \<Rightarrow> int \<Rightarrow> Snapshot \<Rightarrow> Snapshot" where
  "begin_outgoing cfg route started v =
     v\<lparr>sn_State := ''dialing'', sn_LastCallStarted := Some started, sn_CurrentCallDirection := ''outgoing'',
       sn_LastCallDirection := ''outgoing'', sn_CurrentCallerNumber := [], sn_CurrentRouteID := rr_ID route,
       sn_CurrentRouteName := rr_Name route, sn_LastRouteID := rr_ID route, sn_LastRouteName := rr_Name route, sn_LastError := [],
       sn_ActiveCodec := [], sn_ActiveTalkback := [], sn_TalkbackDetails := [], sn_ActiveReceive := [], sn_ReceiveDetails := [],
       sn_ActiveEchoCancellation := [], sn_CurrentDelayMS := AECInitialDelayMS cfg\<rparr>"

definition begin_incoming :: "Config \<Rightarrow> string \<Rightarrow> string \<Rightarrow> int \<Rightarrow> Snapshot \<Rightarrow> Snapshot" where
  "begin_incoming cfg caller codec started v =
     (let v = v\<lparr>sn_State := ''connecting_media'', sn_LastCallStarted := Some started, sn_CurrentCallDirection := ''incoming'',
                sn_LastCallDirection := ''incoming'', sn_CurrentCallerNumber := caller, sn_CurrentRouteID := [], sn_CurrentRouteName := []\<rparr>;
          v = (if caller \<noteq> [] then v\<lparr>sn_LastCallerNumber := caller\<rparr> else v)
      in v\<lparr>sn_LastError := [], sn_ActiveCodec := codec, sn_ActiveTalkback := [], sn_TalkbackDetails := [], sn_ActiveReceive := [],
           sn_ReceiveDetails := [], sn_ActiveEchoCancellation := [], sn_CurrentDelayMS := AECInitialDelayMS cfg\<rparr>)"

record session_info =
  si_TalkbackMode :: string
  si_TalkbackDetails :: string
  si_ReceiveMode :: string
  si_ReceiveDetails :: string
  si_EchoCancellation :: string

definition show_media :: "session_info \<Rightarrow> Snapshot \<Rightarrow> Snapshot" where
  "show_media i v = v\<lparr>sn_ActiveTalkback := si_TalkbackMode i, sn_TalkbackDetails := si_TalkbackDetails i,
     sn_ActiveReceive := si_ReceiveMode i, sn_ReceiveDetails := si_ReceiveDetails i, sn_ActiveEchoCancellation := si_EchoCancellation i\<rparr>"

definition outgoing_ready :: "session_info \<Rightarrow> Snapshot \<Rightarrow> Snapshot" where
  "outgoing_ready i v = show_media i (if sn_State v = ''connecting_media'' then v\<lparr>sn_State := ''active''\<rparr> else v)"

definition incoming_ready :: "session_info \<Rightarrow> Snapshot \<Rightarrow> Snapshot" where
  "incoming_ready i v = show_media i (v\<lparr>sn_State := ''active''\<rparr>)"

text \<open>What the goroutines of a running call do to the store: \<^verbatim>\<open>forwardMediaEvents\<close> hands on the delay of the echo
  cancellation and the pressed keys, with the direction, the remote number and the id of the call it belongs to; the other
  goroutine of an outgoing call waits for the media session to be ready.\<close>

datatype media_event = Ev_delay int | Ev_dtmf string int int

definition forwardMediaEvents :: "string \<Rightarrow> string \<Rightarrow> string \<Rightarrow> media_event \<times> int \<Rightarrow> Store \<Rightarrow> Store" where
  "forwardMediaEvents direction remote callID = (\<lambda>(e, now) s.
     case e of
       Ev_delay d \<Rightarrow> Update (\<lambda>v. v\<lparr>sn_CurrentDelayMS := d\<rparr>) now s
     | Ev_dtmf digit duration received \<Rightarrow>
         PublishDTMF \<lparr>ev_Digit = digit, ev_DurationMS = duration, ev_ReceivedAt = received, ev_CallDirection = direction,
                      ev_RemoteNumber = remote, ev_CallID = callID\<rparr> s)"

datatype call_event = Ev_ready session_info | Ev_media media_event

definition outgoing_event :: "string \<Rightarrow> string \<Rightarrow> call_event \<times> int \<Rightarrow> Store \<Rightarrow> Store" where
  "outgoing_event remote callID = (\<lambda>(e, now) s.
     case e of
       Ev_ready i \<Rightarrow> Update (outgoing_ready i) now s
     | Ev_media m \<Rightarrow> forwardMediaEvents ''outgoing'' remote callID (m, now) s)"

section \<open>The end of a call\<close>

text \<open>What waiting for the media session gives within its time.\<close>

datatype media_stop = Media_stopped "gw_error option" | Media_stuck

definition waitMedia :: "media_stop \<Rightarrow> gw_error option" where
  "waitMedia m =
     (case m of
        Media_stopped None \<Rightarrow> None
      | Media_stopped (Some e) \<Rightarrow> if ge_canceled e \<or> ge_closed e then None else Some e
      | Media_stuck \<Rightarrow> Some (plain_error ''media shutdown timed out''))"

text \<open>Which of the three the call ended with, and the results of what is done then: \<open>deadline\<close> tells that the context of the
  call passed its deadline, \<open>hangup\<close> is the result of the hang-up.\<close>

datatype call_end =
    Call_done "gw_error option" media_stop
  | Media_ended "gw_error option" (deadline: bool) (hangup: "gw_error option")
  | Context_over (deadline: bool) (hangup: "gw_error option") (parent_over: bool) media_stop

definition max_duration :: gw_error where
  "max_duration = plain_error ''maximum call duration reached''"

definition first_error :: "gw_error option \<Rightarrow> gw_error option \<Rightarrow> gw_error option" where
  "first_error a b = (case a of Some e \<Rightarrow> Some e | None \<Rightarrow> b)"

definition final_error :: "call_end \<Rightarrow> gw_error option" where
  "final_error c =
     (case c of
        Call_done e m \<Rightarrow> first_error e (waitMedia m)
      | Media_ended e dl h \<Rightarrow>
          first_error (case e of Some x \<Rightarrow> if ge_deadline x \<and> dl then Some max_duration else Some x | None \<Rightarrow> None) h
      | Context_over dl h parent m \<Rightarrow>
          first_error (first_error (if dl then Some max_duration else None) (if parent then None else h)) (waitMedia m))"

datatype action =
    Dial_fork | Hangup_call | Wait_losers | Close_rtp | Start_media | Cancel_call | Wait_media | Answer_call | Reject_call nat

definition end_actions :: "call_end \<Rightarrow> action list" where
  "end_actions c =
     (case c of
        Call_done _ _ \<Rightarrow> [Cancel_call, Wait_media]
      | Media_ended _ _ _ \<Rightarrow> [Cancel_call, Hangup_call]
      | Context_over _ _ _ _ \<Rightarrow> [Hangup_call, Wait_media])"

section \<open>An outgoing call\<close>

record fork_winner =
  fw_codec :: string
  fw_remote :: string
  fw_callID :: string

record outgoing_env =
  og_started :: int
  og_connected :: int
  og_ended :: int
  og_legs :: bool
  og_fork :: "gw_error + fork_winner option"
  og_parent_over :: bool
  og_port :: "gw_error option"
  og_events :: "(call_event \<times> int) list"
  og_end :: call_end
  og_late :: "(call_event \<times> int) list"

text \<open>\<open>og_legs\<close> tells that there is a leg to dial; the fork gives an error or the winning call, with its codec, the canonical number
  of its destination and its id, or \<open>None\<close> when the winner is not a usable dialog; \<open>og_port\<close> is the error of the port for FFmpeg.\<close>

definition handleCall :: "Config \<Rightarrow> ResolvedCallRoute \<Rightarrow> outgoing_env \<Rightarrow> Store \<Rightarrow> Store \<times> action list" where
  "handleCall cfg route env s =
     (let s = Update (begin_outgoing cfg route (og_started env)) (og_started env) s; now = og_ended env in
      if DryRun cfg
      then (Update (\<lambda>v. clearActiveCall (v\<lparr>sn_State := ''idle'', sn_LastCallEnded := Some now\<rparr>)) now s, [])
      else if \<not> og_legs env then (recordCallError (plain_error ''no configured SIP account is registered'') now s, [])
      else case og_fork env of
        Inl e \<Rightarrow>
          (if ge_canceled e \<and> og_parent_over env then finishCall None now s
           else recordCallError (wrap_error ''all SIP call legs failed'' e) now s, [Dial_fork, Wait_losers])
      | Inr None \<Rightarrow>
          (recordCallError (plain_error ''SIP fork returned an invalid winning dialog'') now s, [Dial_fork, Hangup_call, Wait_losers])
      | Inr (Some w) \<Rightarrow>
          (case (if ReceiveMode cfg = ''rtsp'' then og_port env else None) of
             Some e \<Rightarrow>
               (recordCallError (wrap_error ''reserve local FFmpeg RTP port'' e) now s, [Dial_fork, Hangup_call, Wait_losers, Close_rtp])
           | None \<Rightarrow>
               let s = Update (\<lambda>v. v\<lparr>sn_State := ''connecting_media'', sn_ActiveCodec := fw_codec w\<rparr>) (og_connected env) s;
                   s = fold (outgoing_event (fw_remote w) (fw_callID w)) (og_events env) s;
                   s = finishCall (final_error (og_end env)) now s;
                   s = fold (outgoing_event (fw_remote w) (fw_callID w)) (og_late env) s
               in (s, [Dial_fork, Start_media] @ end_actions (og_end env) @ [Wait_losers, Cancel_call, Close_rtp])))"

section \<open>An incoming call\<close>

text \<open>What happens first after the media session has been started: it is ready, and answering gives a result; it fails; the call
  is over; or its context is.\<close>

datatype call_opening =
    Opened session_info "gw_error option"
  | Opening_failed "gw_error option"
  | Opening_done "gw_error option"
  | Opening_over bool

record incoming_env =
  ic_caller :: string
  ic_codec :: string
  ic_callID :: string
  ic_started :: int
  ic_answered :: int
  ic_ended :: int
  ic_rtp :: "gw_error option"
  ic_port :: "gw_error option"
  ic_early :: "(media_event \<times> int) list"
  ic_opening :: call_opening
  ic_events :: "(media_event \<times> int) list"
  ic_end :: call_end
  ic_late :: "(media_event \<times> int) list"

definition incoming_event :: "incoming_env \<Rightarrow> media_event \<times> int \<Rightarrow> Store \<Rightarrow> Store" where
  "incoming_event env = forwardMediaEvents ''incoming'' (ic_caller env) (ic_callID env)"

definition rejectUnavailable :: "gw_error \<Rightarrow> int \<Rightarrow> Store \<Rightarrow> Store" where
  "rejectUnavailable e now s = recordIncomingCallError e now s"

definition prepare_error :: "gw_error option \<Rightarrow> gw_error" where
  "prepare_error e =
     (case e of
        Some x \<Rightarrow> wrap_error ''prepare Reolink media for incoming call'' x
      | None \<Rightarrow> plain_error ''prepare Reolink media for incoming call: %!w(<nil>)'')"

definition opening_result :: "incoming_env \<Rightarrow> Store \<Rightarrow> Store \<times> action list" where
  "opening_result env s =
     (let now = ic_ended env in
      case ic_opening env of
        Opened i (Some e) \<Rightarrow>
          (if ge_call_canceled e then finishCanceledIncomingCall now s
           else recordIncomingCallError (wrap_error ''answer incoming SIP call'' e) now s, [Answer_call, Cancel_call, Wait_media])
      | Opened i None \<Rightarrow>
          (let s = Update (incoming_ready i) (ic_answered env) s;
               s = fold (incoming_event env) (ic_events env) s
           in (finishCall (final_error (ic_end env)) now s, [Answer_call] @ end_actions (ic_end env)))
      | Opening_failed e \<Rightarrow>
          (rejectUnavailable (prepare_error e) now s, [Cancel_call, Reject_call 480])
      | Opening_done e \<Rightarrow>
          (case e of
             None \<Rightarrow> finishCanceledIncomingCall now s
           | Some x \<Rightarrow> if ge_call_canceled x then finishCanceledIncomingCall now s else recordIncomingCallError x now s,
           [Cancel_call, Wait_media])
      | Opening_over dl \<Rightarrow>
          (if dl then rejectUnavailable (plain_error ''incoming call media preparation timed out'') now s else finishCall None now s,
           [Cancel_call, Wait_media, Reject_call 480]))"

definition handleIncomingCall :: "Config \<Rightarrow> incoming_env \<Rightarrow> Store \<Rightarrow> Store \<times> action list" where
  "handleIncomingCall cfg env s =
     (let s = Update (begin_incoming cfg (ic_caller env) (ic_codec env) (ic_started env)) (ic_started env) s; now = ic_ended env in
      case ic_rtp env of
        Some e \<Rightarrow> (rejectUnavailable (wrap_error ''reserve SIP RTP port'' e) now s, [Reject_call 480])
      | None \<Rightarrow>
          (case (if ReceiveMode cfg = ''rtsp'' then ic_port env else None) of
             Some e \<Rightarrow> (rejectUnavailable (wrap_error ''reserve local FFmpeg RTP port'' e) now s, [Reject_call 480, Close_rtp])
           | None \<Rightarrow>
               let s = fold (incoming_event env) (ic_early env) s;
                   (s, acts) = opening_result env s;
                   s = fold (incoming_event env) (ic_late env) s
               in (s, [Start_media] @ acts @ [Cancel_call, Close_rtp])))"

section \<open>Every call ends clean\<close>

definition call_over :: "int \<Rightarrow> Snapshot \<Rightarrow> bool" where
  "call_over t v \<longleftrightarrow>
     sn_State v \<in> {''idle'', ''error''} \<and> (sn_State v = ''idle'' \<longrightarrow> sn_LastError v = []) \<and> sn_LastCallEnded v = Some t \<and>
     sn_CurrentCallDirection v = [] \<and> sn_CurrentCallerNumber v = [] \<and> sn_CurrentRouteID v = [] \<and> sn_CurrentRouteName v = [] \<and>
     sn_ActiveCodec v = []"

text \<open>What is kept of the history: who called last, and on which route.\<close>

definition call_history :: "Snapshot \<Rightarrow> string \<times> string \<times> string \<times> string" where
  "call_history v = (sn_LastCallDirection v, sn_LastCallerNumber v, sn_LastRouteID v, sn_LastRouteName v)"

lemma call_over_stamp: "call_over t (v\<lparr>sn_Revision := r, sn_UpdatedAt := u\<rparr>) = call_over t v"
  by (simp add: call_over_def)

lemma call_history_stamp: "call_history (v\<lparr>sn_Revision := r, sn_UpdatedAt := u\<rparr>) = call_history v"
  by (simp add: call_history_def)

lemma call_over_Update [simp]: "call_over t (st_value (Update f n s)) = call_over t (f (st_value s))"
  by (auto simp: Update_def Let_def call_over_stamp)

lemma call_history_Update [simp]: "call_history (st_value (Update f n s)) = call_history (f (st_value s))"
  by (auto simp: Update_def Let_def call_history_stamp)

lemma value_PublishDTMF [simp]: "st_value (PublishDTMF e s) = st_value s"
  by (simp add: PublishDTMF_def)

lemma end_call_over: "call_over t (end_call state err t v) \<longleftrightarrow> state \<in> {''idle'', ''error''} \<and> (state = ''idle'' \<longrightarrow> err = [])"
  by (auto simp: end_call_def clearActiveCall_def clearActiveMedia_def call_over_def)

lemma end_call_history: "call_history (end_call state err t v) = call_history v"
  by (simp add: end_call_def clearActiveCall_def clearActiveMedia_def call_history_def)

lemmas end_defs = finishCall_def finishCanceledIncomingCall_def recordIncomingCallError_def recordCallError_def rejectUnavailable_def

named_theorems ends_call

lemma finishCall_over [ends_call]: "call_over t (st_value (finishCall e t s))"
  by (simp add: end_defs end_call_over split: option.split)

lemma finishCanceled_over [ends_call]: "call_over t (st_value (finishCanceledIncomingCall t s))"
  by (simp add: end_defs end_call_over)

lemma recordIncoming_over [ends_call]: "call_over t (st_value (recordIncomingCallError e t s))"
  by (simp add: end_defs end_call_over)

lemma recordCall_over [ends_call]: "call_over t (st_value (recordCallError e t s))"
  by (simp add: end_defs end_call_over)

lemma rejectUnavailable_over [ends_call]: "call_over t (st_value (rejectUnavailable e t s))"
  by (simp add: end_defs end_call_over)

lemma ends_keep_history [simp]:
  "call_history (st_value (finishCall e t s)) = call_history (st_value s)"
  "call_history (st_value (finishCanceledIncomingCall t s)) = call_history (st_value s)"
  "call_history (st_value (recordIncomingCallError x t s)) = call_history (st_value s)"
  "call_history (st_value (recordCallError x t s)) = call_history (st_value s)"
  "call_history (st_value (rejectUnavailable x t s)) = call_history (st_value s)"
  by (simp_all add: end_defs end_call_history split: option.split)

lemma forward_over: "call_over t (st_value (forwardMediaEvents d r c e s)) = call_over t (st_value s)"
proof -
  have "call_over t (v\<lparr>sn_CurrentDelayMS := x\<rparr>) = call_over t v" for v x by (simp add: call_over_def)
  then show ?thesis by (auto simp: forwardMediaEvents_def split: prod.split media_event.split)
qed

lemma forward_history: "call_history (st_value (forwardMediaEvents d r c e s)) = call_history (st_value s)"
proof -
  have "call_history (v\<lparr>sn_CurrentDelayMS := x\<rparr>) = call_history v" for v x by (simp add: call_history_def)
  then show ?thesis by (auto simp: forwardMediaEvents_def split: prod.split media_event.split)
qed

lemma ready_over: "call_over t v \<Longrightarrow> call_over t (outgoing_ready i v)"
  by (auto simp: call_over_def outgoing_ready_def show_media_def)

lemma ready_history [simp]: "call_history (outgoing_ready i v) = call_history v" "call_history (incoming_ready i v) = call_history v"
  by (auto simp: call_history_def outgoing_ready_def incoming_ready_def show_media_def)

lemma outgoing_event_over: "call_over t (st_value s) \<Longrightarrow> call_over t (st_value (outgoing_event r c e s))"
  by (auto simp: outgoing_event_def forward_over ready_over split: prod.split call_event.split)

lemma outgoing_event_history: "call_history (st_value (outgoing_event r c e s)) = call_history (st_value s)"
  by (auto simp: outgoing_event_def forward_history split: prod.split call_event.split)

lemma fold_keeps: "(\<And>e s. P s \<Longrightarrow> P (f e s)) \<Longrightarrow> P s \<Longrightarrow> P (fold f es s)"
  by (induction es arbitrary: s) auto

lemma late_outgoing_over: "call_over t (st_value s) \<Longrightarrow> call_over t (st_value (fold (outgoing_event r c) es s))"
  by (rule fold_keeps[where P="\<lambda>s. call_over t (st_value s)"]) (simp_all add: outgoing_event_over)

lemma late_incoming_over: "call_over t (st_value s) \<Longrightarrow> call_over t (st_value (fold (incoming_event env) es s))"
  by (rule fold_keeps[where P="\<lambda>s. call_over t (st_value s)"]) (simp_all add: incoming_event_def forward_over)

lemma outgoing_events_history [simp]: "call_history (st_value (fold (outgoing_event r c) es s)) = call_history (st_value s)"
  by (rule fold_keeps[where P="\<lambda>s'. call_history (st_value s') = call_history (st_value s)"]) (simp_all add: outgoing_event_history)

lemma incoming_events_history [simp]: "call_history (st_value (fold (incoming_event env) es s)) = call_history (st_value s)"
  by (rule fold_keeps[where P="\<lambda>s'. call_history (st_value s') = call_history (st_value s)"])
    (simp_all add: incoming_event_def forward_history)

lemma begin_outgoing_history:
  "call_history (begin_outgoing cfg route t v) = (''outgoing'', sn_LastCallerNumber v, rr_ID route, rr_Name route)"
  by (simp add: begin_outgoing_def call_history_def)

lemma begin_incoming_history:
  "call_history (begin_incoming cfg caller codec t v) =
     (''incoming'', if caller = [] then sn_LastCallerNumber v else caller, sn_LastRouteID v, sn_LastRouteName v)"
  by (simp add: begin_incoming_def call_history_def Let_def)

lemma clearActiveCall_history: "call_history (clearActiveCall (v\<lparr>sn_State := x, sn_LastCallEnded := y\<rparr>)) = call_history v"
  by (simp add: clearActiveCall_def clearActiveMedia_def call_history_def)

lemma connecting_history: "call_history (v\<lparr>sn_State := x, sn_ActiveCodec := y\<rparr>) = call_history v"
  by (simp add: call_history_def)

lemma last_error_Update [simp]: "sn_LastError (st_value (Update f n s)) = sn_LastError (f (st_value s))"
  by (simp add: Update_def Let_def)

lemma dry_run_over:
  "call_over t (clearActiveCall (v\<lparr>sn_State := ''idle'', sn_LastCallEnded := Some t\<rparr>)) = (sn_LastError v = [])"
  by (simp add: call_over_def clearActiveCall_def clearActiveMedia_def)

lemma begin_no_error: "sn_LastError (begin_outgoing cfg route t v) = []"
  by (simp add: begin_outgoing_def)

lemma handleCall_over: "call_over (og_ended env) (st_value (fst (handleCall cfg route env s)))"
  by (auto simp: handleCall_def Let_def ends_call dry_run_over begin_no_error split: sum.split option.split intro!: late_outgoing_over)

lemma handleCall_history:
  "call_history (st_value (fst (handleCall cfg route env s))) =
     (''outgoing'', sn_LastCallerNumber (st_value s), rr_ID route, rr_Name route)"
  by (auto simp: handleCall_def Let_def clearActiveCall_history connecting_history begin_outgoing_history
      split: sum.split option.split)

lemma opening_over: "call_over (ic_ended env) (st_value (fst (opening_result env s)))"
  by (auto simp: opening_result_def Let_def ends_call split: call_opening.split option.split)

lemma opening_history: "call_history (st_value (fst (opening_result env s))) = call_history (st_value s)"
  by (auto simp: opening_result_def Let_def split: call_opening.split option.split)

lemma handleIncomingCall_over: "call_over (ic_ended env) (st_value (fst (handleIncomingCall cfg env s)))"
  by (auto simp: handleIncomingCall_def Let_def ends_call case_prod_unfold opening_over split: option.split intro!: late_incoming_over)

lemma handleIncomingCall_history:
  "call_history (st_value (fst (handleIncomingCall cfg env s))) =
     (''incoming'', if ic_caller env = [] then sn_LastCallerNumber (st_value s) else ic_caller env,
      sn_LastRouteID (st_value s), sn_LastRouteName (st_value s))"
  by (auto simp: handleIncomingCall_def Let_def case_prod_unfold opening_history begin_incoming_history split: option.split)

lemma in_history:
  "call_history v = (d, n, i, m) \<longleftrightarrow>
     sn_LastCallDirection v = d \<and> sn_LastCallerNumber v = n \<and> sn_LastRouteID v = i \<and> sn_LastRouteName v = m"
  by (simp add: call_history_def)

text \<open>C5. However a call ends, in either direction and with every late event of its goroutines, the store
  shows no current call afterwards: the state is idle without an error, or error; the direction, the caller, the route and the
  codec are cleared and the end time is the one of this call.  What is shown as the last call is this one: its direction, the
  route that was dialed, and the caller if there was a number, the previous one otherwise.
\<close>

theorem call_ends_clean:
  "(let out = st_value (fst (handleCall cfg route o_env s)); inc = st_value (fst (handleIncomingCall cfg i_env s)) in
      call_over (og_ended o_env) out \<and> call_over (ic_ended i_env) inc \<and>
      sn_LastCallDirection out = ''outgoing'' \<and> sn_LastRouteID out = rr_ID route \<and> sn_LastRouteName out = rr_Name route \<and>
      sn_LastCallerNumber out = sn_LastCallerNumber (st_value s) \<and>
      sn_LastCallDirection inc = ''incoming'' \<and> sn_LastRouteID inc = sn_LastRouteID (st_value s) \<and>
      sn_LastCallerNumber inc = (if ic_caller i_env = [] then sn_LastCallerNumber (st_value s) else ic_caller i_env))"
  using handleCall_over[of o_env cfg route s] handleIncomingCall_over[of i_env cfg s] handleCall_history[of cfg route o_env s]
    handleIncomingCall_history[of cfg i_env s]
  unfolding in_history Let_def by blast

section \<open>Every dialog is released\<close>

text \<open>How far an outgoing call gets, and an incoming one.\<close>

datatype outgoing_phase = Not_dialed | Fork_failed | Unusable_winner | No_port | Talking call_end

definition outgoing_phase :: "Config \<Rightarrow> outgoing_env \<Rightarrow> outgoing_phase" where
  "outgoing_phase cfg env =
     (if DryRun cfg \<or> \<not> og_legs env then Not_dialed
      else case og_fork env of
        Inl _ \<Rightarrow> Fork_failed
      | Inr None \<Rightarrow> Unusable_winner
      | Inr (Some _) \<Rightarrow> if ReceiveMode cfg = ''rtsp'' \<and> og_port env \<noteq> None then No_port else Talking (og_end env))"

datatype incoming_phase = No_ports | Not_opened | Gone_early | Answer_failed | Answered call_end

definition incoming_phase :: "Config \<Rightarrow> incoming_env \<Rightarrow> incoming_phase" where
  "incoming_phase cfg env =
     (if ic_rtp env \<noteq> None \<or> ReceiveMode cfg = ''rtsp'' \<and> ic_port env \<noteq> None then No_ports
      else case ic_opening env of
        Opened _ None \<Rightarrow> Answered (ic_end env)
      | Opened _ (Some _) \<Rightarrow> Answer_failed
      | Opening_done _ \<Rightarrow> Gone_early
      | _ \<Rightarrow> Not_opened)"

definition needs_hangup :: "call_end \<Rightarrow> bool" where
  "needs_hangup c = (case c of Call_done _ _ \<Rightarrow> False | _ \<Rightarrow> True)"

definition media_awaited :: "call_end \<Rightarrow> bool" where
  "media_awaited c = (case c of Media_ended _ _ _ \<Rightarrow> False | _ \<Rightarrow> True)"

definition outgoing_released :: "outgoing_phase \<Rightarrow> action list \<Rightarrow> bool" where
  "outgoing_released p acts \<longleftrightarrow>
     count_list acts Wait_losers = count_list acts Dial_fork \<and>
     count_list acts Dial_fork = of_bool (p \<noteq> Not_dialed) \<and>
     count_list acts Hangup_call =
       (case p of Not_dialed \<Rightarrow> 0 | Fork_failed \<Rightarrow> 0 | Unusable_winner \<Rightarrow> 1 | No_port \<Rightarrow> 1 | Talking c \<Rightarrow> of_bool (needs_hangup c)) \<and>
     count_list acts Close_rtp = (case p of No_port \<Rightarrow> 1 | Talking _ \<Rightarrow> 1 | _ \<Rightarrow> 0) \<and>
     count_list acts Start_media = (case p of Talking _ \<Rightarrow> 1 | _ \<Rightarrow> 0) \<and>
     count_list acts Wait_media = (case p of Talking c \<Rightarrow> of_bool (media_awaited c) | _ \<Rightarrow> 0)"

definition incoming_released :: "incoming_phase \<Rightarrow> action list \<Rightarrow> bool" where
  "incoming_released p acts \<longleftrightarrow>
     count_list acts (Reject_call 480) = (case p of No_ports \<Rightarrow> 1 | Not_opened \<Rightarrow> 1 | _ \<Rightarrow> 0) \<and>
     count_list acts Answer_call = (case p of Answer_failed \<Rightarrow> 1 | Answered _ \<Rightarrow> 1 | _ \<Rightarrow> 0) \<and>
     count_list acts Hangup_call = (case p of Answered c \<Rightarrow> of_bool (needs_hangup c) | _ \<Rightarrow> 0) \<and>
     count_list acts Start_media = of_bool (p \<noteq> No_ports)"

lemma outgoing_releases: "outgoing_released (outgoing_phase cfg env) (snd (handleCall cfg route env s))"
  by (auto simp: handleCall_def outgoing_phase_def outgoing_released_def end_actions_def needs_hangup_def media_awaited_def Let_def
      split: sum.split option.split call_end.split)

lemma incoming_releases: "incoming_released (incoming_phase cfg env) (snd (handleIncomingCall cfg env s))"
  by (auto simp: handleIncomingCall_def opening_result_def incoming_phase_def incoming_released_def end_actions_def needs_hangup_def
      Let_def case_prod_unfold split: option.split call_end.split call_opening.split)

text \<open>C6. Every call lets go of what it took.  Outgoing: the losers of the fork are awaited exactly
  when it was run, a winning dialog is hung up exactly once unless the peer ended it, its RTP port is closed once, and a media
  session that was started is awaited unless it ended by itself.  Incoming: a call that is not over by itself is rejected with
  480 or answered, never both and never twice, and an answered one is hung up exactly once unless it ended by itself.
\<close>

theorem calls_release_their_dialogs:
  "outgoing_released (outgoing_phase cfg o_env) (snd (handleCall cfg route o_env s)) \<and>
   incoming_released (incoming_phase cfg i_env) (snd (handleIncomingCall cfg i_env s))"
  by (rule conjI[OF outgoing_releases incoming_releases])

text \<open>
  The check of the call's context and the update of the goroutine that waits for the media session are two steps: when the call
  ends between them, the store is idle and still shows the modes of a media session that is gone.
\<close>

definition racing_env :: outgoing_env where
  "racing_env =
     \<lparr>og_started = 0, og_connected = 1, og_ended = 2, og_legs = True,
      og_fork = Inr (Some \<lparr>fw_codec = ''PCMA'', fw_remote = ''**9'', fw_callID = ''a''\<rparr>), og_parent_over = False, og_port = None,
      og_events = [], og_end = Call_done None (Media_stopped None),
      og_late = [(Ev_ready \<lparr>si_TalkbackMode = [], si_TalkbackDetails = [], si_ReceiveMode = ''rtsp'', si_ReceiveDetails = [],
                            si_EchoCancellation = []\<rparr>, 3)]\<rparr>"

lemma late_ready_shows_stale_media:
  "(let v = st_value (fst (handleCall cfg route racing_env (new_store [] 0))) in
     DryRun cfg \<or> sn_State v = ''idle'' \<and> sn_ActiveReceive v = ''rtsp'')"
proof -
  have media: "sn_ActiveReceive (st_value (Update f n s)) = sn_ActiveReceive (f (st_value s))" for f n s
    by (simp add: Update_def Let_def)
  have state: "sn_State (st_value (Update f n s)) = sn_State (f (st_value s))" for f n s
    by (simp add: Update_def Let_def)
  show ?thesis
    by (simp add: handleCall_def racing_env_def Let_def outgoing_event_def outgoing_ready_def show_media_def finishCall_def final_error_def
        waitMedia_def first_error_def end_call_def clearActiveCall_def clearActiveMedia_def media state)
qed

end
