(* ===== verification/Gateway.thy ===== *)
theory Gateway
  imports CallLife HaListener Routing CallControl DialFork StatusApi
begin

text \<open>
  The gateway itself, \<^verbatim>\<open>cmd/gateway/main.go\<close>: the SIP accounts and the routes it derives from the configuration, the legs of
  an outgoing call, the updates of the snapshot that the main program makes, the commands of the API, and the main loop that
  starts one call at a time from triggers, invites and commands.  A SIP client is what the main program sees of it, whether it is
  registered and its last error; \<open>None\<close> is the nil pointer of an account that is not configured.
\<close>

section \<open>The SIP accounts\<close>

record SipConfig =
  sc_Registrar :: string
  sc_RegistrarPort :: int
  sc_Username :: string
  sc_Password :: string
  sc_LocalPort :: int
  sc_DisplayName :: string
  sc_CodecPreference :: string
  sc_AcceptIncoming :: bool
  sc_AllowedCallers :: "string list"
  sc_MaxConcurrentCalls :: nat
  sc_Debug :: bool

definition doorSIPConfig :: "Config \<Rightarrow> SipConfig" where
  "doorSIPConfig cfg =
     \<lparr>sc_Registrar = SIPRegistrar cfg, sc_RegistrarPort = SIPRegistrarPort cfg, sc_Username = SIPUsername cfg,
      sc_Password = SIPPassword cfg, sc_LocalPort = SIPLocalPort cfg, sc_DisplayName = SIPDisplayName cfg,
      sc_CodecPreference = SIPCodecPreference cfg, sc_AcceptIncoming = IncomingCallsEnabled cfg,
      sc_AllowedCallers = IncomingAllowedCallers cfg, sc_MaxConcurrentCalls = 1, sc_Debug = DebugEnabled cfg\<rparr>"

definition parallelSIPConfig :: "Config \<Rightarrow> SipConfig" where
  "parallelSIPConfig cfg =
     \<lparr>sc_Registrar = SIPRegistrar cfg, sc_RegistrarPort = SIPRegistrarPort cfg, sc_Username = ParallelUsername cfg,
      sc_Password = ParallelPassword cfg, sc_LocalPort = ParallelLocalPort cfg, sc_DisplayName = ''Reolink Mobilruf'',
      sc_CodecPreference = SIPCodecPreference cfg, sc_AcceptIncoming = IncomingCallsEnabled cfg,
      sc_AllowedCallers = IncomingAllowedCallers cfg, sc_MaxConcurrentCalls = MaxMobileTargetsPerRoute cfg,
      sc_Debug = DebugEnabled cfg\<rparr>"

record sip_account =
  sa_registered :: bool
  sa_error :: string

definition account_registered :: "sip_account option \<Rightarrow> bool" where
  "account_registered a = (case a of Some c \<Rightarrow> sa_registered c | None \<Rightarrow> False)"

definition anySIPRegistered :: "sip_account option list \<Rightarrow> bool" where
  "anySIPRegistered clients = list_ex account_registered clients"

definition configuredSIPAccountCount :: "Config \<Rightarrow> nat" where
  "configuredSIPAccountCount cfg = of_bool (DoorCallEnabled cfg) + of_bool (ParallelCallEnabled cfg)"

section \<open>Routes\<close>

definition routeSubscriptions :: "ResolvedCallRoute list \<Rightarrow> route_sub list" where
  "routeSubscriptions routes = map (\<lambda>r. \<lparr>sub_route = rr_ID r, sub_entity = rr_VisitorEntity r\<rparr>) routes"

definition statusRouteDefinitions :: "Config \<Rightarrow> ResolvedCallRoute list \<Rightarrow> RouteDefinition list" where
  "statusRouteDefinitions cfg routes =
     map (\<lambda>r. \<lparr>rd_ID = rr_ID r, rd_Name = rr_Name r, rd_DoorCall = (DoorCallEnabled cfg \<and> rr_DoorbellNumber r \<noteq> []),
               rd_MobileCall = (ParallelCallEnabled cfg \<and> rr_MobileTargets r \<noteq> [])\<rparr>) routes"

definition requestedCallRoute :: "ResolvedCallRoute list \<Rightarrow> string \<Rightarrow> ResolvedCallRoute option" where
  "requestedCallRoute routes routeID =
     (if routeID = [] then (case routes of [] \<Rightarrow> None | r # _ \<Rightarrow> Some r)
      else find (\<lambda>r. rr_ID r = routeID) routes)"

definition routeSIPAvailable :: "Config \<Rightarrow> ResolvedCallRoute \<Rightarrow> sip_account option \<Rightarrow> sip_account option \<Rightarrow> bool" where
  "routeSIPAvailable cfg route door mobile \<longleftrightarrow>
     DoorCallEnabled cfg \<and> rr_DoorbellNumber route \<noteq> [] \<and> account_registered door \<or>
     ParallelCallEnabled cfg \<and> rr_MobileTargets route \<noteq> [] \<and> account_registered mobile"

definition countDoorRoutes :: "ResolvedCallRoute list \<Rightarrow> nat" where
  "countDoorRoutes routes = foldl (\<lambda>count r. if rr_DoorbellNumber r \<noteq> [] then count + 1 else count) 0 routes"

definition countMobileRoutes :: "ResolvedCallRoute list \<Rightarrow> nat" where
  "countMobileRoutes routes = foldl (\<lambda>count r. if 0 < length (rr_MobileTargets r) then count + 1 else count) 0 routes"

section \<open>The legs of an outgoing call\<close>

definition newOutboundDialLeg :: "string \<Rightarrow> string \<Rightarrow> DialLeg" where
  "newOutboundDialLeg leg_id destination = \<lparr>ID = leg_id, Destination = destination, has_dial = True\<rparr>"

definition door_legs :: "Config \<Rightarrow> ResolvedCallRoute \<Rightarrow> sip_account option \<Rightarrow> DialLeg list" where
  "door_legs cfg route door =
     (if DoorCallEnabled cfg \<and> rr_DoorbellNumber route \<noteq> [] \<and> account_registered door
      then [newOutboundDialLeg ''door'' (rr_DoorbellNumber route)] else [])"

definition mobile_legs :: "ResolvedCallRoute \<Rightarrow> DialLeg list" where
  "mobile_legs route = map (\<lambda>t. newOutboundDialLeg (''mobile_'' @ mt_ID t) (mt_Destination t)) (rr_MobileTargets route)"

definition outboundDialLegs :: "Config \<Rightarrow> ResolvedCallRoute \<Rightarrow> sip_account option \<Rightarrow> sip_account option \<Rightarrow> DialLeg list" where
  "outboundDialLegs cfg route door mobile =
     (let legs = door_legs cfg route door in
      if \<not> ParallelCallEnabled cfg then legs
      else if \<not> account_registered mobile then legs
      else legs @ mobile_legs route)"

section \<open>Updates of the snapshot\<close>

definition boot_snapshot :: "Config \<Rightarrow> Snapshot \<Rightarrow> Snapshot" where
  "boot_snapshot cfg v =
     v\<lparr>sn_DryRun := DryRun cfg, sn_DoorCallEnabled := DoorCallEnabled cfg, sn_ParallelCallEnabled := ParallelCallEnabled cfg,
       sn_ConfiguredReolinkMode := ReolinkMode cfg, sn_EchoCancellationEnabled := EchoCancellationEnabled cfg,
       sn_CalibratedDelayMS := AECInitialDelayMS cfg, sn_CurrentDelayMS := AECInitialDelayMS cfg,
       sn_AECSearchWindowMS := EchoCancellationSearchWindowMS cfg, sn_AECMinDelayMS := AECMinDelayMS cfg,
       sn_AECMaxDelayMS := AECMaxDelayMS cfg, sn_WebRTCHighPassFilterEnabled := WebRTCHighPassFilterEnabled cfg,
       sn_WebRTCNoiseSuppressionEnabled := WebRTCNoiseSuppressionEnabled cfg,
       sn_FritzFonLiveImageEnabled := FritzFonLiveImageEnabled cfg,
       sn_CalibrationStatus := (if EchoCancellationEnabled cfg then ''pending'' else ''AEC disabled'')\<rparr>"

definition preparing_snapshot :: "Config \<Rightarrow> Snapshot \<Rightarrow> Snapshot" where
  "preparing_snapshot cfg v =
     (let v = v\<lparr>sn_State := ''preparing''\<rparr> in
      if EchoCancellationEnabled cfg \<and> \<not> DryRun cfg
      then v\<lparr>sn_CalibrationStatus := ''measuring'', sn_CalibrationDetails := ''automatic startup calibration in progress''\<rparr> else v)"

definition registration_update :: "sip_account option \<Rightarrow> sip_account option \<Rightarrow> Snapshot \<Rightarrow> Snapshot" where
  "registration_update door mobile v =
     (let v = (case door of Some c \<Rightarrow> v\<lparr>sn_SIPRegistered := sa_registered c, sn_LastRegistrationErr := sa_error c\<rparr> | None \<Rightarrow> v);
          v = (case mobile of Some c \<Rightarrow> v\<lparr>sn_ParallelSIPRegistered := sa_registered c, sn_LastParallelRegistrationErr := sa_error c\<rparr>
               | None \<Rightarrow> v)
      in if sn_State v = ''starting'' \<and> anySIPRegistered [door, mobile] \<and> sn_HAConnected v then v\<lparr>sn_State := ''idle''\<rparr> else v)"

definition connection_update :: "Config \<Rightarrow> sip_account option \<Rightarrow> sip_account option \<Rightarrow> bool \<Rightarrow> Snapshot \<Rightarrow> Snapshot" where
  "connection_update cfg door mobile ok v =
     (let v = v\<lparr>sn_HAConnected := ok\<rparr> in
      if ok \<and> sn_State v = ''starting'' \<and> (DryRun cfg \<or> anySIPRegistered [door, mobile]) then v\<lparr>sn_State := ''idle''\<rparr> else v)"

definition ending_update :: "Snapshot \<Rightarrow> Snapshot" where
  "ending_update v = (if sn_CurrentCallDirection v \<noteq> [] then v\<lparr>sn_State := ''ending''\<rparr> else v)"

section \<open>The gateway and its one slot for calls\<close>

text \<open>\<open>gwy_last\<close> is \<open>lastTriggers\<close>; \<open>gwy_stopping\<close> tells that the main context is over; contexts are numbered;
  \<open>gwy_catalog\<close> is the pointer to the catalogue of live images, \<open>None\<close> when they are switched off.\<close>

record gateway =
  gwy_store :: Store
  gwy_calls :: Controller
  gwy_next :: ctx_id
  gwy_last :: "string \<rightharpoonup> int"
  gwy_door :: "sip_account option"
  gwy_mobile :: "sip_account option"
  gwy_stopping :: bool
  gwy_catalog :: "unit option"

definition update_store :: "(Snapshot \<Rightarrow> Snapshot) \<Rightarrow> int \<Rightarrow> gateway \<Rightarrow> gateway" where
  "update_store f now g = g\<lparr>gwy_store := Update f now (gwy_store g)\<rparr>"

text \<open>\<open>calls.Start(ctx, \<dots>)\<close>: the reservation of the slot, with the generation that the goroutine of the call keeps.\<close>

definition start_call :: "gateway \<Rightarrow> unit call_error + gateway \<times> 64 word" where
  "start_call g =
     (case Start (if gwy_stopping g then Some () else None) False (gwy_next g) (gwy_calls g) of
        Inl e \<Rightarrow> Inl e
      | Inr (c, gen) \<Rightarrow> Inr (g\<lparr>gwy_calls := c, gwy_next := gwy_next g + 1\<rparr>, gen))"

section \<open>The commands of the API\<close>

text \<open>The callbacks that are installed when the gateway is ready; the output tells which call was started.\<close>

record 's gatewayCommands =
  gc_testCall :: "(string \<Rightarrow> 's \<Rightarrow> command_error option \<times> 's) option"
  gc_hangup :: "('s \<Rightarrow> command_error option \<times> 's) option"

definition Configure ::
  "(string \<Rightarrow> 's \<Rightarrow> command_error option \<times> 's) option \<Rightarrow> ('s \<Rightarrow> command_error option \<times> 's) option \<Rightarrow> 's gatewayCommands \<Rightarrow> 's gatewayCommands" where
  "Configure start hangup_cmd c = c\<lparr>gc_testCall := start, gc_hangup := hangup_cmd\<rparr>"

definition Disable :: "'s gatewayCommands \<Rightarrow> 's gatewayCommands" where
  "Disable c = Configure None None c"

definition StartTestCall :: "'s gatewayCommands \<Rightarrow> string \<Rightarrow> 's \<Rightarrow> command_error option \<times> 's" where
  "StartTestCall c routeID s =
     (case gc_testCall c of None \<Rightarrow> (Some ErrCommandUnavailable, s) | Some command \<Rightarrow> command routeID s)"

definition Hangup :: "'s gatewayCommands \<Rightarrow> 's \<Rightarrow> command_error option \<times> 's" where
  "Hangup c s = (case gc_hangup c of None \<Rightarrow> (Some ErrCommandUnavailable, s) | Some command \<Rightarrow> command s)"

definition command_handler :: "'s gatewayCommands \<Rightarrow> 's commands" where
  "command_handler c = \<lparr>cmd_StartTestCall = StartTestCall c, cmd_Hangup = Hangup c\<rparr>"

definition test_call :: "Config \<Rightarrow> ResolvedCallRoute list \<Rightarrow> string \<Rightarrow> gateway \<Rightarrow> command_error option \<times> gateway" where
  "test_call cfg routes routeID g =
     (case requestedCallRoute routes routeID of
        None \<Rightarrow> (Some ErrRouteNotFound, g)
      | Some route \<Rightarrow>
          if DryRun cfg \<or> \<not> routeSIPAvailable cfg route (gwy_door g) (gwy_mobile g) then (Some ErrSIPUnavailable, g)
          else (case start_call g of
                  Inl ErrBusy \<Rightarrow> (Some ErrCallBusy, g)
                | Inl (Parent_err _) \<Rightarrow> (Some Context_ended, g)
                | Inl _ \<Rightarrow> (Some Other_error, g)
                | Inr (g', _) \<Rightarrow> (None, g')))"

definition hangup_call :: "int \<Rightarrow> gateway \<Rightarrow> (command_error option \<times> gateway) \<times> ctx_id option" where
  "hangup_call now g =
     (case CancelActive True (gwy_calls g) :: unit call_error + cancel_event list of
        Inl call_error.ErrNoActiveCall \<Rightarrow> ((Some command_error.ErrNoActiveCall, g), None)
      | Inl _ \<Rightarrow> ((Some Other_error, g), None)
      | Inr evs \<Rightarrow>
          ((None, fold (\<lambda>e g. case e of Before_cancel \<Rightarrow> update_store ending_update now g | Cancel_context _ \<Rightarrow> g) evs g),
           map_option (\<lambda>e. case e of Cancel_context c \<Rightarrow> c | Before_cancel \<Rightarrow> 0) (find (\<lambda>e. e \<noteq> Before_cancel) evs)))"

section \<open>The main loop\<close>

text \<open>The prewarming of the door image gets the catalogue as a value of an interface.  Such a value is nil when it holds no type;
  one that holds a nil pointer of the type \<^verbatim>\<open>*liveimage.Catalog\<close> is not, and calling \<^verbatim>\<open>PrewarmPrimary\<close> on it reads the field
  \<^verbatim>\<open>primary\<close> of a nil pointer, which panics in its own goroutine and ends the program.\<close>

datatype 'c interface_value = Nil_interface | Boxed "'c option"

datatype prewarm = Prewarm_skipped | Prewarm_started | Prewarm_panics

definition startLiveImagePrewarm :: "'c interface_value \<Rightarrow> prewarm" where
  "startLiveImagePrewarm prewarmer =
     (case prewarmer of
        Nil_interface \<Rightarrow> Prewarm_skipped
      | Boxed (Some _) \<Rightarrow> Prewarm_started
      | Boxed None \<Rightarrow> Prewarm_panics)"

text \<open>What the main program sees: a trigger from Home Assistant, an incoming call, a command, the ticker of the registration, a
  change of the connection to Home Assistant, the accounts themselves, an update by the goroutine of a call, its end, and the
  signal to stop; and what it does, a call with its generation.\<close>

datatype gw_event =
    Got_trigger trigger int
  | Got_invite string
  | Got_test_call string
  | Got_hangup int
  | Registration_tick int
  | HA_connection bool int
  | Accounts_change "sip_account option" "sip_account option"
  | Call_updates "Snapshot \<Rightarrow> Snapshot" int
  | Call_ends "64 word"
  | Stop_signal int

datatype gw_out =
    Accepted_trigger string int
  | Started_outgoing string "64 word"
  | Started_incoming string "64 word"
  | Rejected_busy string
  | Prewarm_images prewarm
  | Canceled ctx_id

definition handle_trigger :: "Config \<Rightarrow> ResolvedCallRoute list \<Rightarrow> trigger \<Rightarrow> int \<Rightarrow> gateway \<Rightarrow> gateway \<times> gw_out list" where
  "handle_trigger cfg routes t now g =
     (case requestedCallRoute routes (trig_route t) of
        None \<Rightarrow> (g, [])
      | Some route \<Rightarrow>
          if (case gwy_last g (rr_ID route) of Some last_time \<Rightarrow> now - last_time < Debounce cfg | None \<Rightarrow> False) then (g, [])
          else
            let g = g\<lparr>gwy_last := (gwy_last g)(rr_ID route \<mapsto> now)\<rparr>;
                g = update_store (\<lambda>v. v\<lparr>sn_LastVisitorEvent := Some now\<rparr>) now g
            in (case start_call g of
                  Inl _ \<Rightarrow> (g, [Accepted_trigger (rr_ID route) now])
                | Inr (g', gen) \<Rightarrow> (g', [Accepted_trigger (rr_ID route) now, Started_outgoing (rr_ID route) gen,
                                        Prewarm_images (startLiveImagePrewarm (Boxed (gwy_catalog g)))])))"

definition handle_invite :: "string \<Rightarrow> gateway \<Rightarrow> gateway \<times> gw_out list" where
  "handle_invite call_id g =
     (case start_call g of
        Inl _ \<Rightarrow> (g, [Rejected_busy call_id])
      | Inr (g', gen) \<Rightarrow> (g', [Started_incoming call_id gen]))"

definition requested_id :: "ResolvedCallRoute list \<Rightarrow> string \<Rightarrow> string" where
  "requested_id routes routeID = (case requestedCallRoute routes routeID of Some r \<Rightarrow> rr_ID r | None \<Rightarrow> [])"

definition gw_step :: "Config \<Rightarrow> ResolvedCallRoute list \<Rightarrow> gw_event \<Rightarrow> gateway \<Rightarrow> gateway \<times> gw_out list" where
  "gw_step cfg routes e g =
     (case e of
        Got_trigger t now \<Rightarrow> handle_trigger cfg routes t now g
      | Got_invite call_id \<Rightarrow> handle_invite call_id g
      | Got_test_call routeID \<Rightarrow>
          (let (r, g') = test_call cfg routes routeID g
           in (g', if r = None then [Started_outgoing (requested_id routes routeID) (generation (gwy_calls g'))] else []))
      | Got_hangup now \<Rightarrow> (let ((_, g'), ctx) = hangup_call now g in (g', case ctx of Some c \<Rightarrow> [Canceled c] | None \<Rightarrow> []))
      | Registration_tick now \<Rightarrow> (update_store (registration_update (gwy_door g) (gwy_mobile g)) now g, [])
      | HA_connection ok now \<Rightarrow> (update_store (connection_update cfg (gwy_door g) (gwy_mobile g) ok) now g, [])
      | Accounts_change door mobile \<Rightarrow> (g\<lparr>gwy_door := door, gwy_mobile := mobile\<rparr>, [])
      | Call_updates f now \<Rightarrow> (update_store f now g, [])
      | Call_ends gen \<Rightarrow> (g\<lparr>gwy_calls := finish_call gen (gwy_calls g)\<rparr>, [])
      | Stop_signal now \<Rightarrow> (update_store (\<lambda>v. v\<lparr>sn_State := ''stopping''\<rparr>) now (g\<lparr>gwy_stopping := True\<rparr>), []))"

fun gw_run :: "Config \<Rightarrow> ResolvedCallRoute list \<Rightarrow> gw_event list \<Rightarrow> gateway \<Rightarrow> gateway \<times> gw_out list" where
  "gw_run cfg routes [] g = (g, [])"
| "gw_run cfg routes (e # es) g =
     (let (g', out) = gw_step cfg routes e g; (g'', outs) = gw_run cfg routes es g' in (g'', out @ outs))"

section \<open>Debouncing\<close>

definition accepted_times :: "string \<Rightarrow> gw_out list \<Rightarrow> int list" where
  "accepted_times rid outs = List.map_filter (\<lambda>x. case x of Accepted_trigger r t \<Rightarrow> if r = rid then Some t else None | _ \<Rightarrow> None) outs"

lemma accepted_times_simps [simp]:
  "accepted_times rid [] = []"
  "accepted_times rid (Accepted_trigger r t # outs) = (if r = rid then t # accepted_times rid outs else accepted_times rid outs)"
  "accepted_times rid (Started_outgoing r gen # outs) = accepted_times rid outs"
  "accepted_times rid (Started_incoming r gen # outs) = accepted_times rid outs"
  "accepted_times rid (Rejected_busy c # outs) = accepted_times rid outs"
  "accepted_times rid (Prewarm_images p # outs) = accepted_times rid outs"
  "accepted_times rid (Canceled ctx # outs) = accepted_times rid outs"
  by (simp_all add: accepted_times_def List.map_filter_simps)

lemma accepted_times_append [simp]: "accepted_times rid (xs @ ys) = accepted_times rid xs @ accepted_times rid ys"
  by (simp add: accepted_times_def List.map_filter_def)

definition spaced :: "int \<Rightarrow> int option \<Rightarrow> int list \<Rightarrow> bool" where
  "spaced d prev ts \<longleftrightarrow> successively (\<lambda>a b. d \<le> b - a) (case prev of Some p \<Rightarrow> p # ts | None \<Rightarrow> ts)"

lemma start_call_last: "start_call g = Inr (g', gen) \<Longrightarrow> gwy_last g' = gwy_last g"
  by (auto simp: start_call_def split: sum.splits)

lemma update_store_last [simp]: "gwy_last (update_store f now g) = gwy_last g"
  by (simp add: update_store_def)

lemma fold_update_last: "gwy_last (fold (\<lambda>e g. case e of Before_cancel \<Rightarrow> update_store f now g | Cancel_context _ \<Rightarrow> g) evs g) = gwy_last g"
  by (induction evs arbitrary: g) (auto split: cancel_event.split)

lemma step_spaced:
  assumes "gw_step cfg routes e g = (g', out)"
  shows "accepted_times rid out = [] \<and> gwy_last g' rid = gwy_last g rid \<or>
    (\<exists>t. accepted_times rid out = [t] \<and> gwy_last g' rid = Some t \<and> (\<forall>p. gwy_last g rid = Some p \<longrightarrow> Debounce cfg \<le> t - p))"
proof (cases e)
  case (Got_trigger t now)
  then show ?thesis
    using assms by (auto simp: gw_step_def handle_trigger_def Let_def start_call_last split: option.splits if_splits sum.splits)
next
  case (Got_invite c)
  then show ?thesis using assms by (auto simp: gw_step_def handle_invite_def start_call_last split: sum.splits)
next
  case (Got_test_call r)
  then show ?thesis
    using assms by (auto simp: gw_step_def test_call_def start_call_last Let_def split: option.splits if_splits sum.splits prod.splits call_error.splits)
next
  case (Got_hangup now)
  then show ?thesis
    using assms by (auto simp: gw_step_def hangup_call_def fold_update_last split: option.splits sum.splits call_error.splits)
qed (use assms in \<open>auto simp: gw_step_def\<close>)

lemma run_spaced: "spaced (Debounce cfg) (gwy_last g rid) (accepted_times rid (snd (gw_run cfg routes es g)))"
proof (induction es arbitrary: g)
  case Nil
  then show ?case by (simp add: spaced_def split: option.split)
next
  case (Cons e es)
  obtain g' out where step: "gw_step cfg routes e g = (g', out)" by fastforce
  have rest: "spaced (Debounce cfg) (gwy_last g' rid) (accepted_times rid (snd (gw_run cfg routes es g')))" by (rule Cons)
  have split: "accepted_times rid (snd (gw_run cfg routes (e # es) g)) = accepted_times rid out @ accepted_times rid (snd (gw_run cfg routes es g'))"
    by (simp add: step Let_def split: prod.split)
  show ?case
    using step_spaced[OF step, of rid] rest unfolding split by (auto simp: spaced_def split: option.splits)
qed

section \<open>From the sensor to the legs\<close>

lemma resolved_distinct:
  assumes "routing_ok cfg"
  shows "distinct (map rr_ID (ResolvedCallRoutes cfg))" "distinct (map rr_VisitorEntity (ResolvedCallRoutes cfg))"
proof -
  have "rr_ID \<circ> resolve_route = route_id" "rr_VisitorEntity \<circ> resolve_route = route_entity"
    by (auto simp: resolve_route_def route_id_def route_entity_def)
  then show "distinct (map rr_ID (ResolvedCallRoutes cfg))" "distinct (map rr_VisitorEntity (ResolvedCallRoutes cfg))"
    using assms by (simp_all add: ResolvedCallRoutes_def routing_ok_def)
qed

lemma resolved_ok:
  assumes "routing_ok cfg" "r \<in> set (ResolvedCallRoutes cfg)"
  obtains c where "r = resolve_route c" "c \<in> set (CallRoutes cfg)" "route_ok cfg c"
  using assms by (auto simp: ResolvedCallRoutes_def routing_ok_def)

lemma slash_not_id: "\<not> lower_letter (CHR ''/'')" "\<not> id_char (CHR ''/'')"
  by (simp_all add: id_char_def lower_letter_def is_digit_def)

lemma validRoutingID_facts: "validRoutingID v \<Longrightarrow> v \<noteq> [] \<and> CHR ''/'' \<notin> set v"
  using slash_not_id by (cases v) (auto simp: validRoutingID_def list_all_iff)

lemma requested_by_id:
  assumes "routing_ok cfg" "r \<in> set (ResolvedCallRoutes cfg)"
  shows "requestedCallRoute (ResolvedCallRoutes cfg) (rr_ID r) = Some r" "rr_ID r \<noteq> []" "CHR ''/'' \<notin> set (rr_ID r)"
proof -
  obtain c where c: "r = resolve_route c" "route_ok cfg c" using resolved_ok[OF assms] by blast
  then have "validRoutingID (rr_ID r)" by (simp add: resolve_route_def route_ok_def route_id_def)
  then show "rr_ID r \<noteq> []" "CHR ''/'' \<notin> set (rr_ID r)" using validRoutingID_facts by blast+
  then show "requestedCallRoute (ResolvedCallRoutes cfg) (rr_ID r) = Some r"
    using find_distinct[OF resolved_distinct(1)[OF assms(1)] assms(2)] by (simp add: requestedCallRoute_def)
qed

lemma entity_subscription:
  assumes "routing_ok cfg" "r \<in> set (ResolvedCallRoutes cfg)"
  shows "find (\<lambda>s. sub_entity s = rr_VisitorEntity r) (routeSubscriptions (ResolvedCallRoutes cfg)) =
    Some \<lparr>sub_route = rr_ID r, sub_entity = rr_VisitorEntity r\<rparr>"
proof -
  have "distinct (map sub_entity (routeSubscriptions (ResolvedCallRoutes cfg)))"
    using resolved_distinct(2)[OF assms(1)] by (simp add: routeSubscriptions_def comp_def)
  moreover have "\<lparr>sub_route = rr_ID r, sub_entity = rr_VisitorEntity r\<rparr> \<in> set (routeSubscriptions (ResolvedCallRoutes cfg))"
    using assms(2) by (auto simp: routeSubscriptions_def)
  ultimately show ?thesis using find_distinct[of sub_entity _ "\<lparr>sub_route = rr_ID r, sub_entity = rr_VisitorEntity r\<rparr>"] by fastforce
qed

lemma mobile_target_ids:
  "map mt_ID (map (\<lambda>(i, d). mobile_target i d) (enumerate k ds)) = map (\<lambda>i. show_nat (i + 1)) [k..<k + length ds]"
proof (induction ds arbitrary: k)
  case (Cons d ds)
  have "[k..<k + length (d # ds)] = k # [Suc k..<Suc k + length ds]" using upt_conv_Cons[of k "k + length (d # ds)"] by simp
  moreover have "mt_ID (mobile_target k d) = show_nat (k + 1)" by (simp add: mobile_target_def)
  ultimately show ?case using Cons[of "Suc k"] by (simp add: enumerate_simps)
qed simp

lemma mobile_ids:
  "map ID (mobile_legs (resolve_route c)) = map ((@) ''mobile_'') (map (\<lambda>i. show_nat (i + 1)) [0..<length (MobileNumbers c)])"
proof -
  have "map ID (mobile_legs r) = map ((@) ''mobile_'') (map mt_ID (rr_MobileTargets r))" for r
    by (simp add: mobile_legs_def newOutboundDialLeg_def)
  moreover have "rr_MobileTargets (resolve_route c) = map (\<lambda>(i, d). mobile_target i d) (enumerate 0 (MobileNumbers c))"
    by (simp add: resolve_route_def)
  ultimately show ?thesis using mobile_target_ids[of 0 "MobileNumbers c"] by (simp only: add_0)
qed

lemma legs_distinct: "distinct (map ID (outboundDialLegs cfg (resolve_route c) door mobile))"
proof -
  have m: "distinct (map ID (mobile_legs (resolve_route c)))"
    unfolding mobile_ids by (auto simp: distinct_map intro!: inj_onI dest!: show_nat_inj)
  moreover have "''door'' \<notin> set (map ID (mobile_legs (resolve_route c)))" unfolding mobile_ids by auto
  ultimately show ?thesis by (auto simp: outboundDialLegs_def door_legs_def newOutboundDialLeg_def Let_def)
qed

lemma legs_dialable: "l \<in> set (outboundDialLegs cfg route door mobile) \<Longrightarrow> has_dial l"
  by (auto simp: outboundDialLegs_def door_legs_def mobile_legs_def newOutboundDialLeg_def Let_def split: if_splits)

lemma max_targets_ge: "x \<in> set xs \<or> b \<le> m \<Longrightarrow> (x \<in> set xs \<longrightarrow> b = f x) \<Longrightarrow> b \<le> foldl (\<lambda>m r. max m (f r)) (m :: nat) xs"
proof (induction xs arbitrary: m)
  case (Cons y ys)
  show ?case
  proof (cases "x \<in> set ys")
    case True
    then show ?thesis using Cons.IH[of "max m (f y)"] Cons.prems by simp
  next
    case False
    then have "b \<le> max m (f y)" using Cons.prems by auto
    then show ?thesis using Cons.IH[of "max m (f y)"] False by simp
  qed
qed auto

lemma mobile_capacity: "r \<in> set (ResolvedCallRoutes cfg) \<Longrightarrow> length (mobile_legs r) \<le> sc_MaxConcurrentCalls (parallelSIPConfig cfg)"
  using max_targets_ge[of r "ResolvedCallRoutes cfg" "length (rr_MobileTargets r)" 0 "\<lambda>r. length (rr_MobileTargets r)"]
  by (simp add: mobile_legs_def parallelSIPConfig_def MaxMobileTargetsPerRoute_def)

lemma capacity_bounded: "sc_MaxConcurrentCalls (parallelSIPConfig cfg) \<le> MaxParallelDestinations"
proof -
  have "\<forall>r \<in> set (ResolvedCallRoutes cfg). length (rr_MobileTargets r) \<le> MaxParallelDestinations"
    by (auto simp: ResolvedCallRoutes_def resolve_route_def MobileNumbers_length)
  then show ?thesis unfolding parallelSIPConfig_def MaxMobileTargetsPerRoute_def
    using max_targets_le[of "ResolvedCallRoutes cfg" "\<lambda>r. length (rr_MobileTargets r)" MaxParallelDestinations 0] by simp
qed

lemma some_leg:
  assumes "routing_ok cfg" "\<not> DryRun cfg" "r \<in> set (ResolvedCallRoutes cfg)"
    "DoorCallEnabled cfg \<longrightarrow> account_registered door" "ParallelCallEnabled cfg \<longrightarrow> account_registered mobile"
  shows "outboundDialLegs cfg r door mobile \<noteq> []"
proof -
  obtain c where c: "r = resolve_route c" "route_ok cfg c" using resolved_ok[OF assms(1,3)] by blast
  have "length (mobile_legs r) = length (MobileNumbers c)" by (simp add: c mobile_legs_def resolve_route_def)
  then have "mobile_legs r = [] \<longleftrightarrow> MobileNumbers c = []" by (metis length_0_conv)
  then show ?thesis
    using assms c by (auto simp: route_ok_def outboundDialLegs_def door_legs_def resolve_route_def route_doorbell_def Let_def)
qed

lemma dial_starts:
  assumes "legs \<noteq> []" "\<forall>l \<in> set legs. has_dial l"
  shows "\<exists>f. (dial_start None legs :: 'e fork_error + ('d, 'e) fork) = Inr f \<and> dialing f = legs"
proof -
  have "find (\<lambda>l. \<not> has_dial l) legs = None" using assms(2) by (auto simp: find_None_iff)
  then show ?thesis using assms(1) by (auto simp: dial_start_def)
qed

text \<open>C3. With a valid configuration the sensor of a route rings exactly that route: the subscription
  that its entity finds gives a trigger for which the main loop finds the route.  If the accounts are registered there is a leg to
  dial; the legs have different ids and the fork accepts them, and a route never has more mobile legs than calls the mobile
  account admits, three at most.
\<close>

theorem sensor_rings_its_route:
  assumes "routing_ok cfg" "r \<in> set (ResolvedCallRoutes cfg)" "Routes l = routeSubscriptions (ResolvedCallRoutes cfg)"
  shows "(\<exists>sub. routeForEntity (rr_VisitorEntity r) l = Some sub
            \<and> requestedCallRoute (ResolvedCallRoutes cfg) (trig_route (route_trigger sub)) = Some r)
    \<and> (\<not> DryRun cfg \<and> (DoorCallEnabled cfg \<longrightarrow> account_registered door) \<and> (ParallelCallEnabled cfg \<longrightarrow> account_registered mobile)
        \<longrightarrow> (\<exists>f. (dial_start None (outboundDialLegs cfg r door mobile) :: 'e fork_error + ('d, 'e) fork) = Inr f
              \<and> dialing f = outboundDialLegs cfg r door mobile))
    \<and> distinct (map ID (outboundDialLegs cfg r door mobile))
    \<and> length (mobile_legs r) \<le> sc_MaxConcurrentCalls (parallelSIPConfig cfg)
    \<and> sc_MaxConcurrentCalls (parallelSIPConfig cfg) \<le> MaxParallelDestinations"
proof -
  obtain c where c: "r = resolve_route c" using resolved_ok[OF assms(1,2)] by blast
  have "routeForEntity (rr_VisitorEntity r) l = Some \<lparr>sub_route = rr_ID r, sub_entity = rr_VisitorEntity r\<rparr>"
    using entity_subscription[OF assms(1,2)] by (simp add: routeForEntity_def assms(3))
  then show ?thesis
    using requested_by_id(1)[OF assms(1,2)] some_leg[OF assms(1) _ assms(2)] legs_distinct[of cfg c] mobile_capacity[OF assms(2)]
      capacity_bounded[of cfg] dial_starts[of "outboundDialLegs cfg r door mobile"] legs_dialable[of _ cfg r door mobile]
    by (auto simp: c route_trigger_def)
qed

definition one_route :: CallRoute where
  "one_route = \<lparr>cr_ID = ''front'', cr_Name = ''Front'', cr_VisitorEntity = ''binary_sensor.bell'', cr_DoorbellNumber = ''11'',
     cr_Mobile1 = ''**701'', cr_Mobile2 = [], cr_Mobile3 = [], cr_Legacy1 = [], cr_Legacy2 = [], cr_Legacy3 = []\<rparr>"

definition one_route_config :: Config where
  "one_route_config = Defaults\<lparr>CallRoutes := [one_route], DryRun := False, DoorCallEnabled := True, ParallelCallEnabled := True\<rparr>"

lemma one_route_ok: "routing_ok one_route_config"
  by code_simp

theorem sensor_rings_its_route_witness:
  "(\<exists>sub. routeForEntity ''binary_sensor.bell'' (fresh_listener (routeSubscriptions (ResolvedCallRoutes one_route_config)) 1) = Some sub
      \<and> requestedCallRoute (ResolvedCallRoutes one_route_config) (trig_route (route_trigger sub)) = Some (resolve_route one_route))"
proof -
  have r: "resolve_route one_route \<in> set (ResolvedCallRoutes one_route_config)" by (simp add: ResolvedCallRoutes_def one_route_config_def)
  have e: "rr_VisitorEntity (resolve_route one_route) = ''binary_sensor.bell''" by code_simp
  have l: "Routes (fresh_listener rs n) = rs" for rs n by (simp add: fresh_listener_def)
  show ?thesis
    using sensor_rings_its_route[OF one_route_ok r l, THEN conjunct1] unfolding e by fast
qed

lemma trigger_accepted:
  assumes "requestedCallRoute routes (trig_route t) = Some r"
  shows "Accepted_trigger (rr_ID r) now \<in> set (snd (handle_trigger cfg routes t now g)) \<longleftrightarrow>
    (case gwy_last g (rr_ID r) of Some p \<Rightarrow> Debounce cfg \<le> now - p | None \<Rightarrow> True)"
  using assms by (auto simp: handle_trigger_def Let_def not_less split: option.split sum.split)

text \<open>Whatever the main loop sees, the triggers that it accepts for a route are at least the debounce
  interval apart, the first one from the trigger accepted before; and of the triggers for a known route none but the ones that
  come too early is dropped.
\<close>

lemma debounce_spacing:
  "spaced (Debounce cfg) (gwy_last g rid) (accepted_times rid (snd (gw_run cfg routes es g))) \<and>
   (requestedCallRoute routes (trig_route t) = Some r \<longrightarrow>
     (Accepted_trigger (rr_ID r) now \<in> set (snd (handle_trigger cfg routes t now g)) \<longleftrightarrow>
       (case gwy_last g (rr_ID r) of Some p \<Rightarrow> Debounce cfg \<le> now - p | None \<Rightarrow> True)))"
  using run_spaced trigger_accepted by blast

definition boot_gateway :: "string \<Rightarrow> int \<Rightarrow> Config \<Rightarrow> sip_account option \<Rightarrow> sip_account option \<Rightarrow> gateway" where
  "boot_gateway version now cfg door mobile =
     update_store (boot_snapshot cfg) now
       \<lparr>gwy_store = SetRoutes (statusRouteDefinitions cfg (ResolvedCallRoutes cfg)) (new_store version now), gwy_calls = controller_zero,
        gwy_next = 0, gwy_last = (\<lambda>_. None), gwy_door = door, gwy_mobile = mobile, gwy_stopping = False,
        gwy_catalog = (if FritzFonLiveImageEnabled cfg then Some () else None)\<rparr>"

section \<open>What the status offers, the command does\<close>

definition config_shown :: "Config \<Rightarrow> gateway \<Rightarrow> bool" where
  "config_shown cfg g \<longleftrightarrow>
     sn_DryRun (st_value (gwy_store g)) = DryRun cfg \<and> sn_DoorCallEnabled (st_value (gwy_store g)) = DoorCallEnabled cfg \<and>
     sn_ParallelCallEnabled (st_value (gwy_store g)) = ParallelCallEnabled cfg \<and>
     st_routes (gwy_store g) = statusRouteDefinitions cfg (ResolvedCallRoutes cfg)"

definition accounts_shown :: "gateway \<Rightarrow> bool" where
  "accounts_shown g \<longleftrightarrow>
     sn_SIPRegistered (st_value (gwy_store g)) = account_registered (gwy_door g) \<and>
     sn_ParallelSIPRegistered (st_value (gwy_store g)) = account_registered (gwy_mobile g)"

lemma store_fields_Update [simp]:
  "sn_DryRun (st_value (Update f n s)) = sn_DryRun (f (st_value s))"
  "sn_DoorCallEnabled (st_value (Update f n s)) = sn_DoorCallEnabled (f (st_value s))"
  "sn_ParallelCallEnabled (st_value (Update f n s)) = sn_ParallelCallEnabled (f (st_value s))"
  "sn_SIPRegistered (st_value (Update f n s)) = sn_SIPRegistered (f (st_value s))"
  "sn_ParallelSIPRegistered (st_value (Update f n s)) = sn_ParallelSIPRegistered (f (st_value s))"
  "sn_State (st_value (Update f n s)) = sn_State (f (st_value s))"
  "sn_CurrentCallDirection (st_value (Update f n s)) = sn_CurrentCallDirection (f (st_value s))"
  "st_routes (Update f n s) = st_routes s"
  by (auto simp: Update_def Let_def)

lemma boot_shows_config: "config_shown cfg (boot_gateway version now cfg door mobile)"
  by (simp add: config_shown_def boot_gateway_def update_store_def boot_snapshot_def SetRoutes_def)

lemma boot_accounts: "gwy_door (boot_gateway version now cfg door mobile) = door" "gwy_mobile (boot_gateway version now cfg door mobile) = mobile"
  "gwy_calls (boot_gateway version now cfg door mobile) = controller_zero" "\<not> gwy_stopping (boot_gateway version now cfg door mobile)"
  by (simp_all add: boot_gateway_def update_store_def)

lemma registration_keeps:
  "sn_DryRun (registration_update door mobile v) = sn_DryRun v"
  "sn_DoorCallEnabled (registration_update door mobile v) = sn_DoorCallEnabled v"
  "sn_ParallelCallEnabled (registration_update door mobile v) = sn_ParallelCallEnabled v"
  "sn_CurrentCallDirection (registration_update door mobile v) = sn_CurrentCallDirection v"
  "sn_SIPRegistered (registration_update door mobile v) = (case door of Some c \<Rightarrow> sa_registered c | None \<Rightarrow> sn_SIPRegistered v)"
  "sn_ParallelSIPRegistered (registration_update door mobile v) = (case mobile of Some c \<Rightarrow> sa_registered c | None \<Rightarrow> sn_ParallelSIPRegistered v)"
  by (auto simp: registration_update_def Let_def split: option.split)

text \<open>A tick of the registration brings the snapshot up to date; an account that is not configured was never shown as
  registered.\<close>

lemma tick_shows_accounts:
  assumes "gwy_door g = None \<longrightarrow> \<not> sn_SIPRegistered (st_value (gwy_store g))"
    "gwy_mobile g = None \<longrightarrow> \<not> sn_ParallelSIPRegistered (st_value (gwy_store g))"
  shows "accounts_shown (fst (gw_step cfg routes (Registration_tick now) g))"
  using assms by (auto simp: gw_step_def accounts_shown_def update_store_def registration_keeps account_registered_def split: option.splits)

lemma tick_keeps_config: "config_shown cfg g \<Longrightarrow> config_shown cfg (fst (gw_step cfg routes (Registration_tick now) g))"
  by (simp add: gw_step_def config_shown_def update_store_def registration_keeps)

text \<open>The flag of a route in the status.\<close>

lemma offered_iff:
  assumes "config_shown cfg g" "accounts_shown g" "r \<in> set (ResolvedCallRoutes cfg)" "routing_ok cfg"
  shows "(\<exists>a \<in> set (api_Routes (newAPIStatus (st_value (gwy_store g)) (st_routes (gwy_store g)))). ars_ID a = rr_ID r \<and> ars_TestCallAvailable a)
    \<longleftrightarrow> \<not> DryRun cfg \<and> routeSIPAvailable cfg r (gwy_door g) (gwy_mobile g)
        \<and> sn_CurrentCallDirection (st_value (gwy_store g)) = [] \<and> call_can_start (st_value (gwy_store g))"
proof -
  let ?v = "st_value (gwy_store g)"
  let ?d = "\<lambda>r. \<lparr>rd_ID = rr_ID r, rd_Name = rr_Name r, rd_DoorCall = (DoorCallEnabled cfg \<and> rr_DoorbellNumber r \<noteq> []),
               rd_MobileCall = (ParallelCallEnabled cfg \<and> rr_MobileTargets r \<noteq> [])\<rparr>"
  have rs: "api_Routes (newAPIStatus ?v (st_routes (gwy_store g))) = map (\<lambda>r. route_status ?v (?d r)) (ResolvedCallRoutes cfg)"
    using assms(1) by (simp add: newAPIStatus_def Let_def config_shown_def statusRouteDefinitions_def comp_def)
  have inj: "r' = r" if "r' \<in> set (ResolvedCallRoutes cfg)" "rr_ID r' = rr_ID r" for r'
    using resolved_distinct(1)[OF assms(4)] assms(3) that by (auto simp: distinct_map inj_on_def)
  have "(\<exists>a \<in> set (map (\<lambda>r. route_status ?v (?d r)) (ResolvedCallRoutes cfg)). ars_ID a = rr_ID r \<and> ars_TestCallAvailable a)
    \<longleftrightarrow> ars_TestCallAvailable (route_status ?v (?d r))"
    using assms(3) inj by (force simp: route_status_def)
  then show ?thesis
    unfolding rs using assms(1,2)
    by (auto simp: route_status_def config_shown_def accounts_shown_def routeSIPAvailable_def door_registered_def parallel_registered_def)
qed

lemma start_call_free:
  assumes "\<not> gwy_stopping g"
  shows "start_call g = (if active (gwy_calls g) then Inl ErrBusy
    else Inr (g\<lparr>gwy_calls := (gwy_calls g)\<lparr>active := True, generation := generation (gwy_calls g) + 1, cancel := Some (gwy_next g)\<rparr>,
                gwy_next := gwy_next g + 1\<rparr>, generation (gwy_calls g) + 1))"
  using assms by (simp add: start_call_def Start_def Let_def)

lemma serve_route_test:
  assumes "allowedAPIRemote ops (rq_remote rq)" "bearer_ok token (rq_authorization rq)" "rq_method rq = ''POST''"
    "rq_path rq = ''/api/v1/routes/'' @ route @ ''/test''" "route \<noteq> []" "CHR ''/'' \<notin> set route"
  shows "serve_api ops token iid v routes cmds rq s = start_reply cmds route s"
proof -
  have "split_str ''/'' (route @ ''/'' @ ''test'') = route # split_str ''/'' ''test''" by (rule split_step) (simp_all add: assms(6))
  also have "split_str ''/'' ''test'' = [''test'']" by (rule split_no_sep) simp_all
  finally have sp: "split_str ''/'' (route @ ''/test'') = [route, ''test'']" by simp
  have "route_test rq cmds s = start_reply cmds route s"
    using assms(3-5) sp by (simp add: route_test_def trim_prefix_def with_method_def apiMethod_def)
  moreover have "api_endpoint iid v routes cmds rq s = route_test rq cmds s"
    using assms(4) by (simp add: api_endpoint_def)
  ultimately show ?thesis using assms(1,2) by (simp add: serve_api_def apiAuthenticated_def)
qed

definition installed :: "Config \<Rightarrow> int \<Rightarrow> gateway gatewayCommands \<Rightarrow> gateway gatewayCommands" where
  "installed cfg now c =
     Configure (Some (test_call cfg (ResolvedCallRoutes cfg))) (Some (\<lambda>g. fst (hangup_call now g))) c"

lemma installed_start: "cmd_StartTestCall (command_handler (installed cfg now c)) = test_call cfg (ResolvedCallRoutes cfg)"
  by (simp add: command_handler_def installed_def Configure_def StartTestCall_def fun_eq_iff)

lemma disabled_start: "cmd_StartTestCall (command_handler (Disable c)) route g = (Some ErrCommandUnavailable, g)"
  by (simp add: command_handler_def Disable_def Configure_def StartTestCall_def)

lemma start_test_reply:
  assumes "routing_ok cfg" "r \<in> set (ResolvedCallRoutes cfg)" "\<not> gwy_stopping g"
  shows "rp_status (fst (start_reply (Some (command_handler (installed cfg now c))) (rr_ID r) g)) =
      (if DryRun cfg \<or> \<not> routeSIPAvailable cfg r (gwy_door g) (gwy_mobile g) then 503 else if active (gwy_calls g) then 409 else 202)
    \<and> active (gwy_calls (snd (start_reply (Some (command_handler (installed cfg now c))) (rr_ID r) g))) =
      (active (gwy_calls g) \<or> \<not> DryRun cfg \<and> routeSIPAvailable cfg r (gwy_door g) (gwy_mobile g))"
  using requested_by_id(1)[OF assms(1,2)] start_call_free[OF assms(3)]
  by (auto simp: start_reply_def installed_start test_call_def writeCommandError_def writeAPIError_def)

text \<open>C4. What the API offers, it does: let the store show the configuration and the accounts, as it does
  after every tick of the registration, and let the commands be installed.  An authorised POST to the test of a route that the
  status offers starts a call, reply 202, or is answered 409 when another call holds the slot; a route without a registered account
  is answered 503 and not offered; and after a reply of 202 the slot is taken.
\<close>

theorem offered_test_call_starts:
  assumes "routing_ok cfg" "r \<in> set (ResolvedCallRoutes cfg)" "config_shown cfg g" "accounts_shown g" "\<not> gwy_stopping g"
    "allowedAPIRemote ops (rq_remote rq)" "bearer_ok token (rq_authorization rq)" "rq_method rq = ''POST''"
    "rq_path rq = ''/api/v1/routes/'' @ rr_ID r @ ''/test''"
  shows "(case serve_api ops token iid (st_value (gwy_store g)) (st_routes (gwy_store g)) (Some (command_handler (installed cfg now c))) rq g of
     (rp, g') \<Rightarrow>
       ((\<exists>a \<in> set (api_Routes (newAPIStatus (st_value (gwy_store g)) (st_routes (gwy_store g)))). ars_ID a = rr_ID r \<and> ars_TestCallAvailable a)
          \<longrightarrow> rp_status rp = (if active (gwy_calls g) then 409 else 202))
       \<and> (rp_status rp = 503 \<longleftrightarrow> DryRun cfg \<or> \<not> routeSIPAvailable cfg r (gwy_door g) (gwy_mobile g))
       \<and> (rp_status rp = 202 \<longrightarrow> \<not> active (gwy_calls g) \<and> active (gwy_calls g')))"
proof -
  have s: "serve_api ops token iid (st_value (gwy_store g)) (st_routes (gwy_store g)) (Some (command_handler (installed cfg now c))) rq g =
      start_reply (Some (command_handler (installed cfg now c))) (rr_ID r) g"
    by (rule serve_route_test[OF assms(6-9) requested_by_id(2,3)[OF assms(1,2)]])
  show ?thesis
    using start_test_reply[OF assms(1,2,5), of now c] offered_iff[OF assms(3,4,2,1)] unfolding s case_prod_unfold by auto
qed

definition ready_gateway :: gateway where
  "ready_gateway = fst (gw_step one_route_config [] (Registration_tick 5)
     (boot_gateway ''1'' 0 one_route_config (Some \<lparr>sa_registered = True, sa_error = []\<rparr>) (Some \<lparr>sa_registered = False, sa_error = ''401''\<rparr>)))"

theorem offered_test_call_starts_witness:
  "rp_status (fst (serve_api \<lparr>split_host = (\<lambda>_. None), parse_ip = (\<lambda>_. Some [127, 0, 0, 1])\<rparr> ''t'' ''i'' (st_value (gwy_store ready_gateway))
      (st_routes (gwy_store ready_gateway)) (Some (command_handler (installed one_route_config 9 \<lparr>gc_testCall = None, gc_hangup = None\<rparr>)))
      \<lparr>rq_method = ''POST'', rq_path = ''/api/v1/routes/front/test'', rq_authorization = ''Bearer t'', rq_remote = []\<rparr> ready_gateway)) \<noteq> 503"
proof -
  let ?b = "boot_gateway ''1'' 0 one_route_config (Some \<lparr>sa_registered = True, sa_error = []\<rparr>) (Some \<lparr>sa_registered = False, sa_error = ''401''\<rparr>)"
  let ?rq = "\<lparr>rq_method = ''POST'', rq_path = ''/api/v1/routes/front/test'', rq_authorization = ''Bearer t'', rq_remote = []\<rparr>"
  let ?ops = "\<lparr>split_host = (\<lambda>_. None), parse_ip = (\<lambda>_. Some [127, 0, 0, 1])\<rparr> :: net_ops"
  have r: "resolve_route one_route \<in> set (ResolvedCallRoutes one_route_config)" by (simp add: ResolvedCallRoutes_def one_route_config_def)
  have i: "rr_ID (resolve_route one_route) = ''front''" by code_simp
  have shown: "config_shown one_route_config ready_gateway"
    unfolding ready_gateway_def by (rule tick_keeps_config[OF boot_shows_config])
  have accounts: "accounts_shown ready_gateway"
    unfolding ready_gateway_def by (rule tick_shows_accounts) (simp_all add: boot_accounts)
  have up: "\<not> gwy_stopping ready_gateway" by (simp add: ready_gateway_def gw_step_def update_store_def boot_accounts)
  have remote: "allowedAPIRemote ?ops (rq_remote ?rq)" by (simp add: allowedAPIRemote_def remote_ip_def is_loopback_def to4_def)
  have bearer: "bearer_ok ''t'' (rq_authorization ?rq)" using bearer_ok_iff[of "''t''"] by (simp add: is_space_def)
  have path: "rq_path ?rq = ''/api/v1/routes/'' @ rr_ID (resolve_route one_route) @ ''/test''" by (simp add: i)
  have available: "\<not> (DryRun one_route_config \<or> \<not> routeSIPAvailable one_route_config (resolve_route one_route) (gwy_door ready_gateway) (gwy_mobile ready_gateway))"
  proof -
    have "gwy_door ready_gateway = Some \<lparr>sa_registered = True, sa_error = []\<rparr>" by (simp add: ready_gateway_def gw_step_def update_store_def boot_accounts)
    moreover have "DoorCallEnabled one_route_config" "\<not> DryRun one_route_config" by (simp_all add: one_route_config_def)
    moreover have "rr_DoorbellNumber (resolve_route one_route) \<noteq> []" by code_simp
    ultimately show ?thesis by (simp add: routeSIPAvailable_def account_registered_def)
  qed
  show ?thesis
    using offered_test_call_starts[OF one_route_ok r shown accounts up remote bearer _ path, of "''i''" 9 "\<lparr>gc_testCall = None, gc_hangup = None\<rparr>"]
      available by (simp add: case_prod_unfold)
qed

text \<open>
  The test of \<^verbatim>\<open>/api/v1/calls/test\<close> always takes the first route, while the control that offers it asks whether any route has a
  registered account: with a first route for the door only, and only the mobile account registered, the call that the status
  offers is answered 503.
\<close>

definition door_route :: CallRoute where
  "door_route = \<lparr>cr_ID = ''door'', cr_Name = ''Door'', cr_VisitorEntity = ''binary_sensor.a'', cr_DoorbellNumber = ''11'',
     cr_Mobile1 = [], cr_Mobile2 = [], cr_Mobile3 = [], cr_Legacy1 = [], cr_Legacy2 = [], cr_Legacy3 = []\<rparr>"

definition mobile_route :: CallRoute where
  "mobile_route = \<lparr>cr_ID = ''mobile'', cr_Name = ''Mobile'', cr_VisitorEntity = ''binary_sensor.b'', cr_DoorbellNumber = [],
     cr_Mobile1 = ''**701'', cr_Mobile2 = [], cr_Mobile3 = [], cr_Legacy1 = [], cr_Legacy2 = [], cr_Legacy3 = []\<rparr>"

definition two_routes :: Config where
  "two_routes = Defaults\<lparr>CallRoutes := [door_route, mobile_route], DryRun := False, DoorCallEnabled := True, ParallelCallEnabled := True\<rparr>"

definition idle_snapshot :: Snapshot where
  "idle_snapshot = (initial_snapshot ''1'' 0)\<lparr>sn_State := ''idle'', sn_DoorCallEnabled := True, sn_ParallelCallEnabled := True,
     sn_ParallelSIPRegistered := True\<rparr>"

lemma legacy_test_call_may_fail:
  assumes "gwy_door g = Some \<lparr>sa_registered = False, sa_error = []\<rparr>"
  shows "routing_ok two_routes"
    "ctl_TestCallAvailable (api_Controls (newAPIStatus idle_snapshot (statusRouteDefinitions two_routes (ResolvedCallRoutes two_routes))))"
    "test_call two_routes (ResolvedCallRoutes two_routes) [] g = (Some ErrSIPUnavailable, g)"
proof -
  show "routing_ok two_routes" by code_simp
  show "ctl_TestCallAvailable (api_Controls (newAPIStatus idle_snapshot (statusRouteDefinitions two_routes (ResolvedCallRoutes two_routes))))"
    by code_simp
  have "requestedCallRoute (ResolvedCallRoutes two_routes) [] = Some (resolve_route door_route)"
    by (simp add: requestedCallRoute_def ResolvedCallRoutes_def two_routes_def)
  moreover have "rr_MobileTargets (resolve_route door_route) = []" by code_simp
  ultimately show "test_call two_routes (ResolvedCallRoutes two_routes) [] g = (Some ErrSIPUnavailable, g)"
    using assms by (simp add: test_call_def routeSIPAvailable_def account_registered_def)
qed

section \<open>One call at a time\<close>

text \<open>The slot is taken from the start of a call to its end: a caller is refused with 486 exactly when it is taken, and a hang-up
  command cancels the call that holds it.\<close>

lemma busy_invite_rejected:
  assumes "\<not> gwy_stopping g"
  shows "snd (handle_invite call_id g) = (if active (gwy_calls g) then [Rejected_busy call_id] else [Started_incoming call_id (generation (gwy_calls g) + 1)])"
    "active (gwy_calls (fst (handle_invite call_id g)))"
  using start_call_free[OF assms] by (auto simp: handle_invite_def)

lemma hangup_of_started:
  assumes "start_call g = Inr (g', gen)"
  shows "snd (hangup_call now g') = Some (gwy_next g)" "fst (fst (hangup_call now g')) = None"
  using assms by (auto simp: start_call_def Start_def hangup_call_def CancelActive_def Let_def split: option.splits if_splits)

section \<open>Prewarming the door image\<close>




end
