(* ===== verification/BaichuanReceiver.thy ===== *)
theory BaichuanReceiver
  imports Adpcm BaichuanClient GoStrings "HOL-Library.Sublist"
begin

unbundle bit_operations_syntax

text \<open>
  The camera audio of the Baichuan preview as linear PCM: \<^verbatim>\<open>internal/baichuanaudio/receiver.go\<close>.  The events of the
  select loop of \<^verbatim>\<open>run\<close> are its input: packets of the preview, output of the AAC decoder (an FFmpeg process) and the
  ends of the context, the client and the decoder; what it sends on its channels is kept in the state.
\<close>

section \<open>Resampling one block\<close>

definition linear_at :: "sample list \<Rightarrow> int \<Rightarrow> int \<Rightarrow> int \<Rightarrow> sample" where
  "linear_at xs inRate outRate i =
     (let posNum = i * inRate; idx = posNum div outRate; frac = posNum mod outRate in
      if int (length xs) - 1 \<le> idx then last xs
      else
        let a = xs ! nat idx; b = xs ! nat (idx + 1);
            v = a + go_div ((b - a) * frac) outRate
        in int16 (if v > 32767 then 32767 else if v < -32768 then -32768 else v))"

definition block_length :: "nat \<Rightarrow> int \<Rightarrow> int \<Rightarrow> nat" where
  "block_length n inRate outRate = nat (max 1 ((int n * outRate + inRate div 2) div inRate))"

definition resampleLinear :: "sample list \<Rightarrow> int \<Rightarrow> int \<Rightarrow> sample list" where
  "resampleLinear xs inRate outRate =
     (if xs = [] \<or> inRate \<le> 0 \<or> outRate \<le> 0 then []
      else if inRate = outRate then xs
      else
        let outLen = block_length (length xs) inRate outRate in
        if length xs = 1 then replicate outLen (hd xs)
        else map (\<lambda>i. linear_at xs inRate outRate (int i)) [0..<outLen])"

section \<open>AAC\<close>

definition adts_rates :: "int list" where
  "adts_rates = [96000, 88200, 64000, 48000, 44100, 32000, 24000, 22050, 16000, 12000, 11025, 8000, 7350]"

definition adtsSampleRate :: "byte list \<Rightarrow> int" where
  "adtsSampleRate frame =
     (if length frame < 4 \<or> frame ! 0 \<noteq> 0xFF \<or> frame ! 1 AND 0xF6 \<noteq> 0xF0 then 0
      else let idx = unat (drop_bit 2 (frame ! 2) AND 0x0F) in
           if length adts_rates \<le> idx then 0 else adts_rates ! idx)"

text \<open>The reader of the output of the decoder: bytes in little endian order, an odd one carried over to the next read.\<close>

fun le_samples :: "byte list \<Rightarrow> sample list" where
  "le_samples (a # b # rest) = int16 (uint (of_le16 a b)) # le_samples rest"
| "le_samples _ = []"

definition aac_read :: "byte list \<Rightarrow> byte list \<Rightarrow> byte list \<times> sample list" where
  "aac_read carry chunk =
     (if chunk = [] then (carry, [])
      else
        let data = carry @ chunk in
        if length data mod 2 \<noteq> 0 then ([last data], le_samples (butlast data)) else ([], le_samples data))"

definition aac_arguments :: "int \<Rightarrow> string list" where
  "aac_arguments outputRate =
     [''-hide_banner'', ''-nostdin'', ''-loglevel'', ''warning'', ''-probesize'', ''32'', ''-analyzeduration'', ''0'',
      ''-flags'', ''low_delay'', ''-f'', ''aac'', ''-i'', ''pipe:0'', ''-map'', ''0:a:0'', ''-vn'', ''-ac'', ''1'', ''-ar'',
      show_int outputRate, ''-c:a'', ''pcm_s16le'', ''-f'', ''s16le'', ''pipe:1'']"

text \<open>What the waiter reports when the process has ended.\<close>

datatype 'e decoder_end = Decoder_context 'e | Decoder_exited 'e

definition decoder_result :: "'e option \<Rightarrow> 'e option \<Rightarrow> 'e decoder_end option" where
  "decoder_result ctx_err wait_err =
     (case ctx_err of
        Some e \<Rightarrow> Some (Decoder_context e)
      | None \<Rightarrow> map_option Decoder_exited wait_err)"

section \<open>The receiver\<close>

record receive_config =
  rc_Channel :: byte
  rc_Stream :: string
  rc_OutputRate :: int
  rc_FFmpegPath :: string

record receive_info =
  ri_Codec :: string
  ri_InputSampleRate :: int
  ri_OutputSampleRate :: int
  ri_Channel :: byte
  ri_Stream :: string

definition Details :: "receive_info \<Rightarrow> string" where
  "Details i =
     (let inRate = (if 0 < ri_InputSampleRate i then show_int (ri_InputSampleRate i) @ '' Hz'' else ''unknown rate'')
      in ''Baichuan '' @ ShortName (ri_Stream i) @ '' channel '' @ show_nat (unat (ri_Channel i)) @ '', '' @ to_upper (ri_Codec i) @ '' ''
         @ inRate @ '' -> PCM '' @ show_int (ri_OutputSampleRate i) @ '' Hz'')"

definition defaultADPCMSampleRate :: int where "defaultADPCMSampleRate = 16000"

text \<open>The checks at the start of \<open>Open\<close>, and the rate of ADPCM audio: the hint of the talk profile, \<open>None\<close> without one.\<close>

definition open_stream :: "receive_config \<Rightarrow> receive_config option" where
  "open_stream cfg =
     (if rc_OutputRate cfg < 8000 \<or> 48000 < rc_OutputRate cfg then None
      else Some (if rc_Stream cfg = [] then cfg\<lparr>rc_Stream := StreamSub\<rparr> else cfg))"

definition adpcm_rate :: "int option \<Rightarrow> int" where
  "adpcm_rate hint =
     (case hint of
        Some r \<Rightarrow> if 8000 \<le> r \<and> r \<le> 48000 then r else defaultADPCMSampleRate
      | None \<Rightarrow> defaultADPCMSampleRate)"

datatype aac_state = Aac_off | Aac_open | Aac_closed

text \<open>\<open>rx_pcm\<close> is what was sent on the PCM channel.\<close>

record audio_receiver =
  activeCodec :: string
  rx_decoder :: adpcm
  rx_aac :: aac_state
  rx_ready :: "receive_info option"
  rx_pcm :: "sample list list"

definition new_receiver :: audio_receiver where
  "new_receiver = \<lparr>activeCodec = [], rx_decoder = \<lparr>predicted = 0, index = 0\<rparr>, rx_aac = Aac_off, rx_ready = None, rx_pcm = []\<rparr>"

datatype 'e rx_error =
    Rx_context | Rx_client 'e | Connection_closed | Preview_ended | Codec_changed string string | No_ffmpeg
  | Aac_start 'e | Aac_failed 'e | Aac_feed 'e

text \<open>The branches of the select.  The flag of an event that sends PCM tells that it was taken before the context was over; a
  packet comes with the results of starting the decoder and of feeding it.\<close>

datatype 'e rx_event =
    Rx_canceled
  | Rx_client_done "'e option"
  | Rx_aac_pcm "sample list" bool
  | Rx_aac_pcm_closed
  | Rx_aac_done "'e option" bool
  | Rx_packets_closed "'e option" bool
  | Rx_packet MediaPacket bool "'e option" "'e option"

definition signalReady :: "receive_config \<Rightarrow> string \<Rightarrow> int \<Rightarrow> audio_receiver \<Rightarrow> audio_receiver" where
  "signalReady cfg name rate r =
     (if activeCodec r \<noteq> [] then r
      else r\<lparr>activeCodec := name,
             rx_ready := Some \<lparr>ri_Codec = name, ri_InputSampleRate = rate, ri_OutputSampleRate = rc_OutputRate cfg,
                               ri_Channel = rc_Channel cfg, ri_Stream = rc_Stream cfg\<rparr>\<rparr>)"

text \<open>The result of a turn: \<open>Inr\<close> goes on, \<open>Inl\<close> ends with the terminal error.\<close>

type_synonym 'e rx_turn = "'e rx_error option + unit"

definition emitPCM :: "sample list \<Rightarrow> bool \<Rightarrow> audio_receiver \<Rightarrow> audio_receiver \<times> 'e rx_turn" where
  "emitPCM pcm passed r =
     (if pcm = [] then (r, Inr ())
      else if passed then (r\<lparr>rx_pcm := rx_pcm r @ [pcm]\<rparr>, Inr ())
      else (r, Inl (Some Rx_context)))"

definition on_adpcm :: "receive_config \<Rightarrow> int \<Rightarrow> byte list \<Rightarrow> bool \<Rightarrow> audio_receiver \<Rightarrow> audio_receiver \<times> 'e rx_turn" where
  "on_adpcm cfg rate data passed r =
     (if activeCodec r \<noteq> [] \<and> activeCodec r \<noteq> ''adpcm'' then (r, Inl (Some (Codec_changed (activeCodec r) ''ADPCM'')))
      else
        let r = signalReady cfg ''adpcm'' rate r;
            (d, pcm) = Decode (rx_decoder r) data;
            r = r\<lparr>rx_decoder := d\<rparr>
        in if pcm = [] then (r, Inr ())
           else emitPCM (if rate \<noteq> rc_OutputRate cfg then resampleLinear pcm rate (rc_OutputRate cfg) else pcm) passed r)"

definition feed_aac :: "'e option \<Rightarrow> audio_receiver \<Rightarrow> audio_receiver \<times> 'e rx_turn" where
  "feed_aac feed r = (case feed of Some e \<Rightarrow> (r, Inl (Some (Aac_feed e))) | None \<Rightarrow> (r, Inr ()))"

definition on_aac ::
  "receive_config \<Rightarrow> byte list \<Rightarrow> 'e option \<Rightarrow> 'e option \<Rightarrow> audio_receiver \<Rightarrow> audio_receiver \<times> 'e rx_turn" where
  "on_aac cfg data start feed r =
     (if activeCodec r \<noteq> [] \<and> activeCodec r \<noteq> ''aac'' then (r, Inl (Some (Codec_changed (activeCodec r) ''AAC'')))
      else if rx_aac r \<noteq> Aac_off then feed_aac feed r
      else if trim_space (rc_FFmpegPath cfg) = [] then (r, Inl (Some No_ffmpeg))
      else (case start of
              Some e \<Rightarrow> (r, Inl (Some (Aac_start e)))
            | None \<Rightarrow> feed_aac feed ((signalReady cfg ''aac'' (adtsSampleRate data) r)\<lparr>rx_aac := Aac_open\<rparr>)))"

definition rx_step :: "receive_config \<Rightarrow> int \<Rightarrow> 'e rx_event \<Rightarrow> audio_receiver \<Rightarrow> audio_receiver \<times> 'e rx_turn" where
  "rx_step cfg rate e r =
     (case e of
        Rx_canceled \<Rightarrow> (r, Inl (Some Rx_context))
      | Rx_client_done x \<Rightarrow> (r, Inl (Some (case x of Some e \<Rightarrow> Rx_client e | None \<Rightarrow> Connection_closed)))
      | Rx_aac_pcm pcm passed \<Rightarrow> if rx_aac r = Aac_open then emitPCM pcm passed r else (r, Inr ())
      | Rx_aac_pcm_closed \<Rightarrow> (if rx_aac r = Aac_open then r\<lparr>rx_aac := Aac_closed\<rparr> else r, Inr ())
      | Rx_aac_done x canceled \<Rightarrow>
          (case x of Some e \<Rightarrow> if canceled \<or> rx_aac r = Aac_off then (r, Inr ()) else (r, Inl (Some (Aac_failed e))) | None \<Rightarrow> (r, Inr ()))
      | Rx_packets_closed x ctx_over \<Rightarrow>
          (r, Inl (case x of Some e \<Rightarrow> Some (Rx_client e) | None \<Rightarrow> if ctx_over then Some Rx_context else Some Preview_ended))
      | Rx_packet p passed start feed \<Rightarrow>
          (case Kind p of
             MediaPacketADPCM \<Rightarrow> on_adpcm cfg rate (Data p) passed r
           | MediaPacketAAC \<Rightarrow> on_aac cfg (Data p) start feed r
           | _ \<Rightarrow> (r, Inr ())))"

fun rx_run :: "receive_config \<Rightarrow> int \<Rightarrow> 'e rx_event list \<Rightarrow> audio_receiver \<Rightarrow> audio_receiver \<times> 'e rx_turn" where
  "rx_run cfg rate [] r = (r, Inr ())"
| "rx_run cfg rate (e # es) r =
     (case rx_step cfg rate e r of
        (r', Inl t) \<Rightarrow> (r', Inl t)
      | (r', Inr _) \<Rightarrow> rx_run cfg rate es r')"

section \<open>The resampled block\<close>

text \<open>Truncated division keeps a step towards \<open>b\<close> between the two neighbours.\<close>

lemma go_div_between:
  assumes "0 \<le> frac" "frac < d"
  shows "min 0 k \<le> go_div (k * frac) d \<and> go_div (k * frac) d \<le> max 0 k"
proof (cases "0 \<le> k")
  case True
  have "k * frac \<le> k * d" using assms True by (intro mult_left_mono) auto
  then have "go_div (k * frac) d \<le> k" "0 \<le> go_div (k * frac) d"
    using assms True zdiv_mono1 [of "k * frac" "k * d" d]
    by (auto simp: pos_imp_zdiv_nonneg_iff)
  then show ?thesis using True by simp
next
  case False
  define q where "q = - k"
  then have q: "0 \<le> q" "k * frac = - (q * frac)" using False by auto
  have "q * frac \<le> q * d" using assms q(1) by (intro mult_left_mono) auto
  then have le: "(q * frac) div d \<le> q" using assms zdiv_mono1 [of "q * frac" "q * d" d] by simp
  have ge: "0 \<le> (q * frac) div d" using assms q(1) by (simp add: pos_imp_zdiv_nonneg_iff)
  have "go_div (k * frac) d = - ((q * frac) div d)"
  proof (cases "q * frac = 0")
    case False
    then have "0 < q * frac" using q(1) assms(1) by (metis mult_nonneg_nonneg order_le_less)
    then show ?thesis unfolding q(2) by (simp add: go_div_def)
  qed (auto simp: q(2) go_div_def)
  then show ?thesis using le ge False by (simp add: q_def)
qed

lemma linear_at_between:
  assumes "0 \<le> i" "0 < inRate" "0 < outRate" "2 \<le> length xs" "\<forall>x \<in> set xs. is_int16 x"
  defines "n \<equiv> min (nat (i * inRate div outRate)) (length xs - 1)" and "m \<equiv> min (nat (i * inRate div outRate) + 1) (length xs - 1)"
  shows "min (xs ! n) (xs ! m) \<le> linear_at xs inRate outRate i \<and> linear_at xs inRate outRate i \<le> max (xs ! n) (xs ! m)"
proof (cases "int (length xs) - 1 \<le> i * inRate div outRate")
  case True
  have "length xs \<noteq> 0" using assms(4) by auto
  then have l: "last xs = xs ! (length xs - 1)" by (simp add: last_conv_nth)
  have "n = length xs - 1" "m = length xs - 1" using True by (auto simp: n_def m_def)
  then show ?thesis using True l by (simp add: linear_at_def Let_def)
next
  case False
  let ?k = "i * inRate div outRate" and ?f = "i * inRate mod outRate"
  have k: "0 \<le> ?k" using assms(1-3) by (simp add: pos_imp_zdiv_nonneg_iff)
  have nm: "n = nat ?k" "m = nat (?k + 1)" using False k by (auto simp: n_def m_def nat_add_distrib)
  have lt: "nat ?k < length xs" "nat (?k + 1) < length xs" using False k by auto
  have r: "is_int16 (xs ! nat ?k)" "is_int16 (xs ! nat (?k + 1))" using assms(5) lt by auto
  let ?a = "xs ! nat ?k" and ?b = "xs ! nat (?k + 1)"
  have g: "min 0 (?b - ?a) \<le> go_div ((?b - ?a) * ?f) outRate \<and> go_div ((?b - ?a) * ?f) outRate \<le> max 0 (?b - ?a)"
    by (rule go_div_between) (use assms(3) in auto)
  then have v: "is_int16 (?a + go_div ((?b - ?a) * ?f) outRate)" using r by (auto simp: is_int16_def min_def max_def split: if_splits)
  then have "linear_at xs inRate outRate i = ?a + go_div ((?b - ?a) * ?f) outRate"
    using False by (auto simp: linear_at_def Let_def is_int16_def int16_id [unfolded is_int16_def])
  then show ?thesis using g unfolding nm by (auto simp: min_def max_def split: if_splits)
qed

lemma resample_length:
  "xs \<noteq> [] \<Longrightarrow> 0 < inRate \<Longrightarrow> 0 < outRate \<Longrightarrow> inRate \<noteq> outRate \<Longrightarrow>
     length (resampleLinear xs inRate outRate) = block_length (length xs) inRate outRate"
  by (simp add: resampleLinear_def Let_def)

lemma resample_not_Nil: "xs \<noteq> [] \<Longrightarrow> 0 < inRate \<Longrightarrow> 0 < outRate \<Longrightarrow> resampleLinear xs inRate outRate \<noteq> []"
proof (cases "inRate = outRate")
  case False
  assume "xs \<noteq> []" "0 < inRate" "0 < outRate"
  then have "length (resampleLinear xs inRate outRate) = block_length (length xs) inRate outRate" using False by (rule resample_length)
  then have "length (resampleLinear xs inRate outRate) \<noteq> 0" by (simp add: block_length_def)
  then show ?thesis by auto
qed (simp add: resampleLinear_def)

section \<open>The output of the AAC decoder\<close>

definition le_rest :: "byte list \<Rightarrow> byte list" where
  "le_rest b = (if length b mod 2 \<noteq> 0 then [last b] else [])"

lemma le_samples_append: "even (length a) \<Longrightarrow> le_samples (a @ b) = le_samples a @ le_samples b"
  by (induction a rule: le_samples.induct) auto

lemma le_samples_snoc: "even (length a) \<Longrightarrow> le_samples (a @ [x]) = le_samples a"
  by (simp add: le_samples_append)

lemma aac_read_step:
  assumes "chunk \<noteq> []"
  shows "aac_read carry chunk = (le_rest (carry @ chunk), le_samples (carry @ chunk))"
proof (cases "even (length (carry @ chunk))")
  case True
  then have "length (carry @ chunk) mod 2 = 0" by presburger
  then show ?thesis using assms by (simp add: aac_read_def le_rest_def Let_def)
next
  case False
  let ?d = "carry @ chunk"
  have d: "butlast ?d @ [last ?d] = ?d" using assms by (intro append_butlast_last_id) simp
  have "even (length (butlast ?d))" using False by simp
  then have "le_samples ?d = le_samples (butlast ?d)" using le_samples_snoc [of "butlast ?d" "last ?d"] unfolding d by blast
  moreover have "length ?d mod 2 \<noteq> 0" using False by presburger
  ultimately show ?thesis using assms by (simp add: aac_read_def le_rest_def Let_def)
qed

lemma le_split: "\<exists>a. even (length a) \<and> b = a @ le_rest b \<and> le_samples b = le_samples a"
proof (cases "even (length b)")
  case True
  then have "length b mod 2 = 0" by presburger
  then show ?thesis using True by (auto simp: le_rest_def)
next
  case False
  then have d: "butlast b @ [last b] = b" by (cases b rule: rev_cases) auto
  have e: "even (length (butlast b))" using False by simp
  then have "le_samples b = le_samples (butlast b)" using le_samples_snoc [of "butlast b" "last b"] unfolding d by blast
  moreover have "length b mod 2 \<noteq> 0" using False by presburger
  ultimately show ?thesis using d e by (intro exI [of _ "butlast b"]) (simp add: le_rest_def)
qed

lemma le_rest_append: "le_rest (le_rest b @ c) = le_rest (b @ c)"
proof -
  obtain a where a: "even (length a)" "b = a @ le_rest b" using le_split [of b] by blast
  have "even (length (b @ c)) = even (length (le_rest b @ c))" using a(1) by (subst a(2)) simp
  then have p: "(length (b @ c) mod 2 \<noteq> 0) = (length (le_rest b @ c) mod 2 \<noteq> 0)" by presburger
  have l: "last (le_rest b @ c) = last (b @ c)" if "le_rest b @ c \<noteq> []" by (subst (2) a(2)) (use that in simp)
  show ?thesis
  proof (cases "le_rest b @ c = []")
    case True
    then have "length (b @ c) mod 2 = 0" using p by auto
    then show ?thesis using True by (simp add: le_rest_def [of "b @ c"] le_rest_def [of "[]"])
  next
    case False
    then show ?thesis using p l unfolding le_rest_def [of "b @ c"] le_rest_def [of "le_rest b @ c"] by presburger
  qed
qed

lemma aac_reads:
  "\<forall>c \<in> set chunks. c \<noteq> [] \<Longrightarrow> scan aac_read (le_rest b) chunks = (c', outs) \<Longrightarrow>
     c' = le_rest (b @ concat chunks) \<and> le_samples b @ concat outs = le_samples (b @ concat chunks)"
proof (induction chunks arbitrary: b c' outs)
  case (Cons c cs)
  obtain a where a: "even (length a)" "b = a @ le_rest b" "le_samples b = le_samples a" using le_split [of b] by blast
  have st: "aac_read (le_rest b) c = (le_rest (b @ c), le_samples (le_rest b @ c))"
    using Cons.prems(1) aac_read_step [of c "le_rest b"] by (simp add: le_rest_append)
  obtain outs' where rest: "scan aac_read (le_rest (b @ c)) cs = (c', outs')" and outs: "outs = le_samples (le_rest b @ c) # outs'"
    using Cons.prems(2) st by (auto simp: Let_def split: prod.splits)
  have ih: "c' = le_rest ((b @ c) @ concat cs)" "le_samples (b @ c) @ concat outs' = le_samples ((b @ c) @ concat cs)"
    using Cons.IH [OF _ rest] Cons.prems(1) by simp_all
  have "b @ c = a @ (le_rest b @ c)" using a(2) by simp
  then have "le_samples (b @ c) = le_samples b @ le_samples (le_rest b @ c)"
    using le_samples_append [OF a(1), of "le_rest b @ c"] a(3) by metis
  then show ?case using ih outs by simp
qed simp

lemma aac_chunking_irrelevant:
  assumes "\<forall>c \<in> set chunks. c \<noteq> []" "scan aac_read [] chunks = (rest, outs)"
  shows "concat outs = le_samples (concat chunks) \<and> rest = le_rest (concat chunks)"
  using aac_reads [of chunks "[]"] assms by (simp add: le_rest_def)

section \<open>One codec, one decoder\<close>

text \<open>What the packets and the decoder of a run of events amount to: the blocks of the ADPCM packets, decoded by one decoder and
  resampled, and the blocks that the AAC decoder delivers while it is read.\<close>

fun adpcm_data :: "'e rx_event list \<Rightarrow> byte list list" where
  "adpcm_data (Rx_packet p _ _ _ # es) = (if Kind p = MediaPacketADPCM then [Data p] else []) @ adpcm_data es"
| "adpcm_data (_ # es) = adpcm_data es"
| "adpcm_data [] = []"

fun aac_output :: "aac_state \<Rightarrow> 'e rx_event list \<Rightarrow> sample list list" where
  "aac_output st (Rx_packet p _ _ _ # es) = aac_output (if Kind p = MediaPacketAAC \<and> st = Aac_off then Aac_open else st) es"
| "aac_output st (Rx_aac_pcm pcm _ # es) = (if st = Aac_open \<and> pcm \<noteq> [] then [pcm] else []) @ aac_output st es"
| "aac_output st (Rx_aac_pcm_closed # es) = aac_output (if st = Aac_open then Aac_closed else st) es"
| "aac_output st (_ # es) = aac_output st es"
| "aac_output st [] = []"

definition to_output :: "receive_config \<Rightarrow> int \<Rightarrow> sample list \<Rightarrow> sample list" where
  "to_output cfg rate pcm = (if pcm \<noteq> [] \<and> rate \<noteq> rc_OutputRate cfg then resampleLinear pcm rate (rc_OutputRate cfg) else pcm)"

definition decoded_pcm :: "receive_config \<Rightarrow> int \<Rightarrow> adpcm \<Rightarrow> byte list list \<Rightarrow> sample list list" where
  "decoded_pcm cfg rate d ds = filter (\<lambda>b. b \<noteq> []) (map (to_output cfg rate) (snd (scan Decode d ds)))"

lemma decoded_simps [simp]:
  "decoded_pcm cfg rate d [] = []"
  "decoded_pcm cfg rate d (x # ds) =
     (let out = to_output cfg rate (snd (Decode d x)) in (if out = [] then [] else [out]) @ decoded_pcm cfg rate (fst (Decode d x)) ds)"
  by (simp_all add: decoded_pcm_def Let_def case_prod_unfold)

definition rx_ok :: "audio_receiver \<Rightarrow> bool" where
  "rx_ok r \<longleftrightarrow>
     activeCodec r \<in> {[], ''adpcm'', ''aac''} \<and> (activeCodec r = ''aac'' \<longleftrightarrow> rx_aac r \<noteq> Aac_off) \<and>
     map_option ri_Codec (rx_ready r) = (if activeCodec r = [] then None else Some (activeCodec r))"

lemma rx_ok_frame [simp]: "rx_ok (r\<lparr>rx_decoder := d\<rparr>) = rx_ok r" "rx_ok (r\<lparr>rx_pcm := b\<rparr>) = rx_ok r"
  by (simp_all add: rx_ok_def)

lemma signalReady_fields [simp]:
  "rx_decoder (signalReady cfg n f r) = rx_decoder r" "rx_pcm (signalReady cfg n f r) = rx_pcm r" "rx_aac (signalReady cfg n f r) = rx_aac r"
  "activeCodec (signalReady cfg n f r) = (if activeCodec r = [] then n else activeCodec r)"
  by (simp_all add: signalReady_def)

lemma emit_cases:
  assumes "emitPCM pcm b r = (r1, t)"
  shows "rx_ok r1 = rx_ok r \<and> activeCodec r1 = activeCodec r \<and> rx_decoder r1 = rx_decoder r \<and> rx_aac r1 = rx_aac r \<and> rx_ready r1 = rx_ready r
    \<and> (t = Inr () \<and> rx_pcm r1 = rx_pcm r @ (if pcm = [] then [] else [pcm]) \<or> t = Inl (Some Rx_context) \<and> rx_pcm r1 = rx_pcm r)"
  using assms by (auto simp: emitPCM_def split: if_splits)

definition keeps_codec :: "audio_receiver \<Rightarrow> audio_receiver \<Rightarrow> bool" where
  "keeps_codec r r1 \<longleftrightarrow> rx_ok r1 \<and> (activeCodec r \<noteq> [] \<longrightarrow> activeCodec r1 = activeCodec r \<and> rx_ready r1 = rx_ready r)"

lemma adpcm_step:
  assumes "rx_ok r" "on_adpcm cfg rate data b r = (r1, t)"
  shows "keeps_codec r r1"
    and "t \<noteq> Inr () \<Longrightarrow> rx_pcm r1 = rx_pcm r"
    and "t = Inr () \<Longrightarrow> activeCodec r1 = ''adpcm'' \<and> rx_pcm r1 @ decoded_pcm cfg rate (rx_decoder r1) ds = rx_pcm r @ decoded_pcm cfg rate (rx_decoder r) (data # ds)"
proof -
  have *: "keeps_codec r r1 \<and> (t \<noteq> Inr () \<longrightarrow> rx_pcm r1 = rx_pcm r) \<and>
    (t = Inr () \<longrightarrow> activeCodec r1 = ''adpcm'' \<and> rx_pcm r1 @ decoded_pcm cfg rate (rx_decoder r1) ds = rx_pcm r @ decoded_pcm cfg rate (rx_decoder r) (data # ds))"
  proof (cases "activeCodec r \<noteq> [] \<and> activeCodec r \<noteq> ''adpcm''")
    case True
    then show ?thesis using assms by (auto simp: on_adpcm_def keeps_codec_def)
  next
    case False
    let ?r = "signalReady cfg ''adpcm'' rate r"
    have ok: "rx_ok ?r" "keeps_codec r ?r" "activeCodec ?r = ''adpcm''"
      using assms(1) False by (auto simp: rx_ok_def keeps_codec_def signalReady_def)
    obtain d pcm where d: "Decode (rx_decoder r) data = (d, pcm)" by fastforce
    show ?thesis
    proof (cases "pcm = []")
      case True
      then have "r1 = ?r\<lparr>rx_decoder := d\<rparr>" "t = Inr ()" using assms(2) False d by (auto simp: on_adpcm_def Let_def)
      then show ?thesis using ok d True by (auto simp: keeps_codec_def to_output_def)
    next
      case nonempty: False
      then have e: "emitPCM (to_output cfg rate pcm) b (?r\<lparr>rx_decoder := d\<rparr>) = (r1, t)"
        using assms(2) False d by (auto simp: on_adpcm_def Let_def to_output_def)
      show ?thesis using emit_cases [OF e] ok d by (auto simp: keeps_codec_def Let_def)
    qed
  qed
  then show "keeps_codec r r1" "t \<noteq> Inr () \<Longrightarrow> rx_pcm r1 = rx_pcm r"
    "t = Inr () \<Longrightarrow> activeCodec r1 = ''adpcm'' \<and> rx_pcm r1 @ decoded_pcm cfg rate (rx_decoder r1) ds = rx_pcm r @ decoded_pcm cfg rate (rx_decoder r) (data # ds)"
    by blast+
qed

lemma aac_step:
  assumes "rx_ok r" "on_aac cfg data start feed r = (r1, t)"
  shows "keeps_codec r r1 \<and> rx_pcm r1 = rx_pcm r \<and> rx_decoder r1 = rx_decoder r
    \<and> (t = Inr () \<longrightarrow> activeCodec r1 = ''aac'' \<and> rx_aac r1 = (if rx_aac r = Aac_off then Aac_open else rx_aac r))"
  using assms by (auto simp: on_aac_def feed_aac_def keeps_codec_def rx_ok_def signalReady_def split: if_splits option.splits)

lemma rx_step_ok:
  assumes "rx_ok r" "rx_step cfg rate e r = (r1, t)"
  shows "keeps_codec r r1"
    and "t \<noteq> Inr () \<Longrightarrow> rx_pcm r1 = rx_pcm r"
    and "t = Inr () \<Longrightarrow> activeCodec r1 \<noteq> ''aac'' \<Longrightarrow>
      rx_pcm r1 @ decoded_pcm cfg rate (rx_decoder r1) (adpcm_data es) = rx_pcm r @ decoded_pcm cfg rate (rx_decoder r) (adpcm_data (e # es))"
    and "t = Inr () \<Longrightarrow> activeCodec r1 \<noteq> ''adpcm'' \<Longrightarrow>
      rx_pcm r1 @ aac_output (rx_aac r1) es = rx_pcm r @ aac_output (rx_aac r) (e # es)"
proof -
  have *: "keeps_codec r r1 \<and> (t \<noteq> Inr () \<longrightarrow> rx_pcm r1 = rx_pcm r) \<and>
    (t = Inr () \<and> activeCodec r1 \<noteq> ''aac'' \<longrightarrow>
      rx_pcm r1 @ decoded_pcm cfg rate (rx_decoder r1) (adpcm_data es) = rx_pcm r @ decoded_pcm cfg rate (rx_decoder r) (adpcm_data (e # es))) \<and>
    (t = Inr () \<and> activeCodec r1 \<noteq> ''adpcm'' \<longrightarrow>
      rx_pcm r1 @ aac_output (rx_aac r1) es = rx_pcm r @ aac_output (rx_aac r) (e # es))"
  proof (cases e)
    case (Rx_aac_pcm pcm b)
    show ?thesis
    proof (cases "rx_aac r = Aac_open")
      case True
      then have e: "emitPCM pcm b r = (r1, t)" using assms(2) by (simp add: rx_step_def Rx_aac_pcm)
      have "activeCodec r = ''aac''" using assms(1) True by (simp add: rx_ok_def)
      then show ?thesis using emit_cases [OF e] assms(1) True by (auto simp: Rx_aac_pcm keeps_codec_def)
    next
      case False
      then show ?thesis using assms by (auto simp: rx_step_def Rx_aac_pcm keeps_codec_def)
    qed
  next
    case Rx_aac_pcm_closed
    then show ?thesis using assms by (auto simp: rx_step_def keeps_codec_def rx_ok_def split: if_splits)
  next
    case (Rx_aac_done x b)
    then show ?thesis using assms by (auto simp: rx_step_def keeps_codec_def split: option.splits if_splits)
  next
    case (Rx_packet p b start feed)
    show ?thesis
    proof (cases "Kind p")
      case MediaPacketADPCM
      then have "on_adpcm cfg rate (Data p) b r = (r1, t)" using assms(2) by (simp add: rx_step_def Rx_packet)
      from adpcm_step [OF assms(1) this] show ?thesis using MediaPacketADPCM by (auto simp: Rx_packet)
    next
      case MediaPacketAAC
      then have "on_aac cfg (Data p) start feed r = (r1, t)" using assms(2) by (simp add: rx_step_def Rx_packet)
      from aac_step [OF assms(1) this] show ?thesis using MediaPacketAAC by (auto simp: Rx_packet)
    qed (use assms in \<open>auto simp: rx_step_def Rx_packet keeps_codec_def\<close>)
  qed (use assms in \<open>auto simp: rx_step_def keeps_codec_def\<close>)
  then show "keeps_codec r r1" "t \<noteq> Inr () \<Longrightarrow> rx_pcm r1 = rx_pcm r"
    "t = Inr () \<Longrightarrow> activeCodec r1 \<noteq> ''aac'' \<Longrightarrow>
      rx_pcm r1 @ decoded_pcm cfg rate (rx_decoder r1) (adpcm_data es) = rx_pcm r @ decoded_pcm cfg rate (rx_decoder r) (adpcm_data (e # es))"
    "t = Inr () \<Longrightarrow> activeCodec r1 \<noteq> ''adpcm'' \<Longrightarrow>
      rx_pcm r1 @ aac_output (rx_aac r1) es = rx_pcm r @ aac_output (rx_aac r) (e # es)"
    by blast+
qed

lemma rx_run_spec:
  assumes "rx_ok r" "rx_run cfg rate es r = (r', t)"
  shows "keeps_codec r r'
    \<and> (activeCodec r' \<noteq> ''aac'' \<longrightarrow> prefix (rx_pcm r') (rx_pcm r @ decoded_pcm cfg rate (rx_decoder r) (adpcm_data es))
         \<and> (t = Inr () \<longrightarrow> rx_pcm r' = rx_pcm r @ decoded_pcm cfg rate (rx_decoder r) (adpcm_data es)))
    \<and> (activeCodec r' \<noteq> ''adpcm'' \<longrightarrow> prefix (rx_pcm r') (rx_pcm r @ aac_output (rx_aac r) es)
         \<and> (t = Inr () \<longrightarrow> rx_pcm r' = rx_pcm r @ aac_output (rx_aac r) es))"
  using assms
proof (induction es arbitrary: r)
  case Nil
  then show ?case by (auto simp: keeps_codec_def)
next
  case (Cons e es)
  obtain r1 t1 where st: "rx_step cfg rate e r = (r1, t1)" by fastforce
  note ok = rx_step_ok [OF Cons.prems(1) st]
  have k: "rx_ok r1" using ok(1) by (simp add: keeps_codec_def)
  show ?case
  proof (cases t1)
    case (Inl x)
    then have "r' = r1" "t \<noteq> Inr ()" using Cons.prems(2) st by auto
    then show ?thesis using ok(1) ok(2) Inl by auto
  next
    case (Inr u)
    then have t1: "t1 = Inr ()" and run: "rx_run cfg rate es r1 = (r', t)" using Cons.prems(2) st by auto
    note ih = Cons.IH [OF k run]
    have mono: "activeCodec r1 \<noteq> [] \<Longrightarrow> activeCodec r' = activeCodec r1" using ih by (simp add: keeps_codec_def)
    have codec: "activeCodec r' \<noteq> ''aac'' \<Longrightarrow> activeCodec r1 \<noteq> ''aac''" "activeCodec r' \<noteq> ''adpcm'' \<Longrightarrow> activeCodec r1 \<noteq> ''adpcm''"
      using mono by auto
    have "keeps_codec r r'" using ok(1) ih by (auto simp: keeps_codec_def)
    then show ?thesis using ih ok(3) [OF t1] ok(4) [OF t1] codec by auto
  qed
qed

text \<open>C99. The receiver turns the preview into the audio of one codec.  Whatever the order of packets, decoder output and ends,
  the receiver is ready at most once and says which codec it reads; what it sends are, in order and without a gap, the blocks
  of the ADPCM packets decoded by one decoder and resampled, or the blocks of the one AAC decoder, never both, and all of them
  while it runs; a packet of the other codec ends it.\<close>

theorem receiver_reads_one_codec:
  "(case rx_run cfg rate es new_receiver of (r, t) \<Rightarrow>
     map_option ri_Codec (rx_ready r) = (if activeCodec r = [] then None else Some (activeCodec r)) \<and>
     activeCodec r \<in> {[], ''adpcm'', ''aac''} \<and>
     (let audio = (if activeCodec r = ''aac'' then aac_output Aac_off es else decoded_pcm cfg rate (rx_decoder new_receiver) (adpcm_data es))
      in prefix (rx_pcm r) audio \<and> (t = Inr () \<longrightarrow> rx_pcm r = audio)) \<and>
     (activeCodec r = ''adpcm'' \<longrightarrow> snd (on_aac cfg data start feed r) = Inl (Some (Codec_changed ''adpcm'' ''AAC''))) \<and>
     (activeCodec r = ''aac'' \<longrightarrow> snd (on_adpcm cfg rate data passed r) = Inl (Some (Codec_changed ''aac'' ''ADPCM''))))"
proof -
  obtain r t where run: "rx_run cfg rate es new_receiver = (r, t)" by fastforce
  have ok: "rx_ok new_receiver" by (simp add: rx_ok_def new_receiver_def)
  have "rx_pcm new_receiver = []" "rx_aac new_receiver = Aac_off" by (simp_all add: new_receiver_def)
  note spec = rx_run_spec [OF ok run, unfolded this append_Nil]
  have "snd (on_aac cfg data start feed r) = Inl (Some (Codec_changed ''adpcm'' ''AAC''))" if "activeCodec r = ''adpcm''"
    using that by (simp add: on_aac_def)
  moreover have "snd (on_adpcm cfg rate data passed r) = Inl (Some (Codec_changed ''aac'' ''ADPCM''))" if "activeCodec r = ''aac''"
    using that by (simp add: on_adpcm_def)
  moreover have "rx_ok r" using spec by (simp add: keeps_codec_def)
  ultimately show ?thesis using spec unfolding run by (auto simp: rx_ok_def Let_def)
qed

definition doorbell_receive :: receive_config where
  "doorbell_receive = \<lparr>rc_Channel = 0, rc_Stream = StreamSub, rc_OutputRate = 8000, rc_FFmpegPath = ''ffmpeg''\<rparr>"

definition adpcm_packet :: MediaPacket where
  "adpcm_packet = (media_packet MediaPacketADPCM)\<lparr>Data := [0, 0, 0, 0, 0x70, 0x07]\<rparr>"

theorem receiver_reads_one_codec_witness:
  "activeCodec (fst (rx_run doorbell_receive 16000 [Rx_packet adpcm_packet True None None :: unit rx_event] new_receiver)) = ''adpcm'' \<and>
   snd (on_aac doorbell_receive [] None None
     (fst (rx_run doorbell_receive 16000 [Rx_packet adpcm_packet True None None :: unit rx_event] new_receiver)))
     = (Inl (Some (Codec_changed ''adpcm'' ''AAC'')) :: unit rx_turn)"
proof -
  have a: "activeCodec (fst (rx_run doorbell_receive 16000 [Rx_packet adpcm_packet True None None :: unit rx_event] new_receiver)) = ''adpcm''"
    by code_simp
  show ?thesis
    using receiver_reads_one_codec [where cfg = doorbell_receive and rate = 16000 and data = "[]" and start = "None :: unit option" and feed = "None :: unit option"
        and es = "[Rx_packet adpcm_packet True None None :: unit rx_event]" and passed = True] a
    by (simp add: case_prod_unfold del: rx_run.simps)
qed

text \<open>The blocks of an ADPCM packet resampled: the length is the rounded one, the first sample is kept, and every sample lies
  between two neighbours of the input, so that the clamp of the code never acts.\<close>

lemma resampled_block:
  assumes "2 \<le> length xs" "0 < inRate" "0 < outRate" "inRate \<noteq> outRate" "\<forall>x \<in> set xs. is_int16 x"
  shows "length (resampleLinear xs inRate outRate) = block_length (length xs) inRate outRate"
    and "i < length (resampleLinear xs inRate outRate) \<Longrightarrow>
      (\<exists>a \<in> set xs. \<exists>b \<in> set xs. a \<le> resampleLinear xs inRate outRate ! i \<and> resampleLinear xs inRate outRate ! i \<le> b)"
proof -
  have ne: "xs \<noteq> []" using assms(1) by auto
  show l: "length (resampleLinear xs inRate outRate) = block_length (length xs) inRate outRate"
    by (rule resample_length [OF ne assms(2-4)])
  assume i: "i < length (resampleLinear xs inRate outRate)"
  have "resampleLinear xs inRate outRate ! i = linear_at xs inRate outRate (int i)"
    using i assms(1-4) ne unfolding l by (simp add: resampleLinear_def Let_def)
  moreover have "xs ! min k (length xs - 1) \<in> set xs" for k using ne by (intro nth_mem) (simp add: min_less_iff_disj)
  ultimately show "\<exists>a \<in> set xs. \<exists>b \<in> set xs. a \<le> resampleLinear xs inRate outRate ! i \<and> resampleLinear xs inRate outRate ! i \<le> b"
    using linear_at_between [of "int i" inRate outRate xs] assms by (metis min_def max_def of_nat_0_le_iff)
qed

end
