(* ===== verification/AudioControls.thy ===== *)
theory AudioControls
  imports BaichuanReceiver G711
begin

text \<open>
  The reference of the echo canceller (\<^verbatim>\<open>internal/media/audio_controls.go\<close>): what was written to the camera is decoded again
  and handed to an observer at 8 kHz.  A nil observer is \<open>None\<close>; the result is what the observer gets.
\<close>

definition aecSampleRate :: int where "aecSampleRate = 8000"

definition resampleBlockLinear :: "sample list \<Rightarrow> int \<Rightarrow> int \<Rightarrow> sample list" where
  "resampleBlockLinear xs inRate outRate =
     (if xs = [] \<or> inRate \<le> 0 \<or> outRate \<le> 0 then []
      else if inRate = outRate then xs
      else
        let outLen = nat (max 1 ((int (length xs) * outRate + inRate div 2) div inRate)) in
        if length xs = 1 then replicate outLen (hd xs)
        else map (\<lambda>i. linear_at xs inRate outRate (int i)) [0..<outLen])"

text \<open>\<open>observed\<close> tells that there are controls with an observer.\<close>

definition ObserveBaichuanPlayout :: "bool \<Rightarrow> byte list \<Rightarrow> int \<Rightarrow> int \<Rightarrow> (sample list \<times> int) option" where
  "ObserveBaichuanPlayout observed block sampleRate t =
     (if \<not> observed \<or> block = [] \<or> sampleRate < aecSampleRate then None
      else
        let pcm = snd (Decode \<lparr>predicted = 0, index = 0\<rparr> block) in
        if pcm = [] then None
        else let pcm = resampleBlockLinear pcm sampleRate aecSampleRate in if pcm = [] then None else Some (pcm, t))"

definition ObserveG711Playout :: "bool \<Rightarrow> byte list \<Rightarrow> string \<Rightarrow> int \<Rightarrow> (sample list \<times> int) option" where
  "ObserveG711Playout observed payload codecName t =
     (if \<not> observed \<or> payload = [] then None
      else let pcm = DecodePayload payload codecName in if pcm = [] then None else Some (pcm, t))"

definition NeedsRenderReference :: "bool \<Rightarrow> bool" where
  "NeedsRenderReference observed = observed"

text \<open>The two resamplers of the code are the same function.\<close>

lemma resamplers_agree: "resampleBlockLinear = resampleLinear"
  by (intro ext) (simp add: resampleBlockLinear_def resampleLinear_def block_length_def Let_def)

text \<open>The reference for a block is what the encoder itself predicted for it, at the rate of the canceller.\<close>

lemma reference_is_what_was_encoded:
  assumes "adpcm_inv e" "EncodeBlock e pcm = Inr (e', block)" "pcm \<noteq> []" "aecSampleRate \<le> rate"
  shows "ObserveBaichuanPlayout True block rate t = Some (resampleLinear (snd (encoderTrack e pcm)) rate aecSampleRate, t)"
proof -
  note d = decode_follows_encoder [OF assms(1-3)]
  have "snd (Decode \<lparr>predicted = 0, index = 0\<rparr> block) = snd (encoderTrack e pcm)" and ne: "snd (encoderTrack e pcm) \<noteq> []"
    using d [of "\<lparr>predicted = 0, index = 0\<rparr>"] assms(3) by auto
  moreover have "block \<noteq> []" using d by auto
  moreover have "resampleLinear (snd (encoderTrack e pcm)) rate aecSampleRate \<noteq> []"
    using assms(4) by (intro resample_not_Nil [OF ne]) (simp_all add: aecSampleRate_def)
  ultimately show ?thesis using assms(4) by (simp add: ObserveBaichuanPlayout_def Let_def resamplers_agree)
qed

lemma reference_of_g711: "DecodePayload payload name \<noteq> [] \<Longrightarrow> ObserveG711Playout True payload name t = Some (DecodePayload payload name, t)"
  by (auto simp: ObserveG711Playout_def DecodePayload_def)

end
