(* ===== verification/Elastic.thy ===== *)
theory Elastic
  imports Talkback Complex_Main
begin

text \<open>
  The elastic playout of the talkback (\<^verbatim>\<open>internal/media/elastic_talkback.go\<close>): every block that is due is made of
  what the FIFO holds, stretched or compressed a little, with soft edges where samples are missing.  The controller that
  chooses how much to consume computes with \<^verbatim>\<open>float64\<close>; it is modelled with exact rational numbers, and the window of the
  edges with real numbers that are rounded as in the code.  What is proved holds for every value the controller may choose.
\<close>

section \<open>Windows and gains\<close>

definition elasticRatioScale :: int where "elasticRatioScale = 1000000"
definition elasticMaxStretchPPM :: int where "elasticMaxStretchPPM = 20000"
definition elasticMaxCompressionPPM :: int where "elasticMaxCompressionPPM = 30000"
definition elasticFadeDuration :: int where "elasticFadeDuration = 5000000"
definition pcmGainScale :: int where "pcmGainScale = 32768"

definition clampInt16 :: "int \<Rightarrow> sample" where
  "clampInt16 v = (if v > 32767 then 32767 else if v < -32768 then -32768 else int16 v)"

definition half_hann :: "nat \<Rightarrow> nat \<Rightarrow> real" where
  "half_hann n i = 1 / 2 - 1 / 2 * cos (pi * real i / real (n - 1))"

definition makeHalfHannQ15 :: "int \<Rightarrow> int list" where
  "makeHalfHannQ15 samples =
     (if samples < 2 then [pcmGainScale]
      else
        let n = nat samples; w = map (\<lambda>i. round (half_hann n i * real_of_int pcmGainScale)) [0..<n]
        in w[0 := 0, n - 1 := pcmGainScale])"

definition mappedWindowGain :: "int list \<Rightarrow> nat \<Rightarrow> nat \<Rightarrow> int" where
  "mappedWindowGain w position count =
     (if w = [] \<or> count = 0 then pcmGainScale
      else if count = 1 \<or> length w = 1 then w ! 0
      else
        let i = (position * (length w - 1) + (count - 1) div 2) div (count - 1)
        in w ! (if length w \<le> i then length w - 1 else i))"

definition scalePCM :: "sample \<Rightarrow> int \<Rightarrow> sample" where
  "scalePCM s gain = clampInt16 (go_div (s * gain) pcmGainScale)"

definition applyFadeIn :: "int list \<Rightarrow> sample list \<Rightarrow> sample list" where
  "applyFadeIn w xs =
     (let count = min (length xs) (length w)
      in map (\<lambda>i. if i < count then scalePCM (xs ! i) (mappedWindowGain w i count) else xs ! i) [0..<length xs])"

definition applyFadeOut :: "int list \<Rightarrow> sample list \<Rightarrow> sample list" where
  "applyFadeOut w xs =
     (let count = min (length xs) (length w) in
      if count = 1 then xs[length xs - 1 := 0]
      else
        let start = length xs - count
        in map (\<lambda>i. if start \<le> i then scalePCM (xs ! i) (pcmGainScale - mappedWindowGain w (i - start) count) else xs ! i) [0..<length xs])"

definition applyBoundarySplice :: "int list \<Rightarrow> sample \<Rightarrow> sample list \<Rightarrow> sample list" where
  "applyBoundarySplice w prev_sample xs =
     (let count = min (length xs) (length w)
      in map (\<lambda>i. if i < count
                  then let inGain = mappedWindowGain w i count; outGain = pcmGainScale - inGain
                       in clampInt16 (go_div (prev_sample * outGain + xs ! i * inGain) pcmGainScale)
                  else xs ! i) [0..<length xs])"

definition applyDecayingTail :: "int list \<Rightarrow> sample \<Rightarrow> sample list \<Rightarrow> sample list" where
  "applyDecayingTail w prev_sample xs =
     (let count = min (length xs) (length w)
      in map (\<lambda>i. if i < count then scalePCM prev_sample (pcmGainScale - mappedWindowGain w i count) else xs ! i) [0..<length xs])"

definition minimumElasticInput :: "int \<Rightarrow> int" where
  "minimumElasticInput blockSamples =
     (blockSamples * (elasticRatioScale - elasticMaxStretchPPM) + elasticRatioScale - 1) div elasticRatioScale"

definition maximumElasticInput :: "int \<Rightarrow> int" where
  "maximumElasticInput blockSamples = blockSamples * (elasticRatioScale + elasticMaxCompressionPPM) div elasticRatioScale"

definition block_sample :: "sample list \<Rightarrow> nat \<Rightarrow> nat \<Rightarrow> sample" where
  "block_sample xs outputSamples i =
     (let denominator = int (outputSamples - 1); position = int i * (int (length xs) - 1);
          idx = position div denominator; fraction = position mod denominator
      in if int (length xs) - 1 \<le> idx then last xs
         else let a = xs ! nat idx; b = xs ! nat (idx + 1) in clampInt16 (a + go_div ((b - a) * fraction) denominator))"

definition resamplePCMBlock :: "sample list \<Rightarrow> nat \<Rightarrow> sample list" where
  "resamplePCMBlock xs outputSamples =
     (if outputSamples = 0 then []
      else if xs = [] then replicate outputSamples 0
      else if length xs = 1 then replicate outputSamples (hd xs)
      else if length xs = outputSamples then xs
      else if outputSamples = 1 then [hd xs]
      else map (block_sample xs outputSamples) [0..<outputSamples])"

section \<open>The controller\<close>

record elastic_playout =
  fadeInQ15 :: "int list"
  havePostDepth :: bool
  lastPostDepth :: int
  haveTrend :: bool
  supplyTrend :: rat
  recoveryPending :: bool
  overflowPending :: bool
  haveLastOutput :: bool
  lastOutput :: sample

definition newElasticTalkbackPlayout :: "int \<Rightarrow> elastic_playout" where
  "newElasticTalkbackPlayout outputRate =
     (let fadeSamples = go_div (outputRate * elasticFadeDuration + time_second - 1) time_second;
          fadeSamples = (if fadeSamples < 2 then 2 else fadeSamples)
      in \<lparr>fadeInQ15 = makeHalfHannQ15 fadeSamples, havePostDepth = False, lastPostDepth = 0, haveTrend = False, supplyTrend = 0,
          recoveryPending = False, overflowPending = False, haveLastOutput = False, lastOutput = 0\<rparr>)"

definition elastic_reset :: "elastic_playout \<Rightarrow> elastic_playout" where
  "elastic_reset p = p\<lparr>havePostDepth := False, lastPostDepth := 0, haveTrend := False, supplyTrend := 0, overflowPending := True\<rparr>"

definition elastic_overflow :: "elastic_playout \<Rightarrow> elastic_playout" where
  "elastic_overflow p = p\<lparr>havePostDepth := False, haveTrend := False, supplyTrend := 0, overflowPending := True\<rparr>"

definition elastic_notify :: "elastic_op \<Rightarrow> elastic_playout \<Rightarrow> elastic_playout" where
  "elastic_notify x p = (case x of ResetTimeline \<Rightarrow> elastic_reset p | MarkOverflow \<Rightarrow> elastic_overflow p)"

definition round_away :: "rat \<Rightarrow> int" where
  "round_away x = (if 0 \<le> x then \<lfloor>x + 1 / 2\<rfloor> else - \<lfloor>- x + 1 / 2\<rfloor>)"

definition note_supply :: "int \<Rightarrow> int \<Rightarrow> elastic_playout \<Rightarrow> elastic_playout" where
  "note_supply depth blockSamples p =
     (if \<not> havePostDepth p then p
      else
        let drift = rat_of_int (depth - lastPostDepth p - blockSamples)
        in if haveTrend p then p\<lparr>supplyTrend := (1 - 1 / 4) * supplyTrend p + 1 / 4 * drift\<rparr>
           else p\<lparr>supplyTrend := drift, haveTrend := True\<rparr>)"

definition wanted_input :: "int \<Rightarrow> int \<Rightarrow> elastic_playout \<Rightarrow> int" where
  "wanted_input depth blockSamples p =
     (let smallest = minimumElasticInput blockSamples; largest = maximumElasticInput blockSamples;
          projected = rat_of_int depth + (if haveTrend p then supplyTrend p else 0)
      in if depth < blockSamples then depth
         else if projected < rat_of_int blockSamples
         then blockSamples - min (blockSamples - smallest) \<lceil>rat_of_int blockSamples - projected\<rceil>
         else
           let pressure = max (rat_of_int depth) projected; highWater = rat_of_int blockSamples; ceiling_level = rat_of_int (blockSamples * 4)
           in if highWater < pressure
              then let fraction = (pressure - highWater) / (ceiling_level - highWater); fraction = (if 1 < fraction then 1 else fraction)
                   in blockSamples + round_away (fraction * rat_of_int (largest - blockSamples))
              else blockSamples)"

definition chooseConsume :: "int \<Rightarrow> int \<Rightarrow> elastic_playout \<Rightarrow> elastic_playout \<times> int" where
  "chooseConsume depth blockSamples p =
     (if depth \<le> 0 \<or> blockSamples \<le> 0 then (p, 0)
      else
        let p = note_supply depth blockSamples p;
            smallest = minimumElasticInput blockSamples; largest = maximumElasticInput blockSamples;
            consume = wanted_input depth blockSamples p;
            consume = (if consume < smallest \<and> smallest \<le> depth then smallest else consume);
            consume = (if largest < consume then largest else consume)
        in (p, if depth < consume then depth else consume))"

section \<open>One block\<close>

record elastic_result =
  ep_block :: "sample list"
  ep_depthBefore :: int
  ep_depthAfter :: int
  ep_consumed :: int
  ep_validOutput :: int
  ep_rawShortage :: int
  ep_missing :: int
  ep_ratioPPM :: int
  ep_fadeOut :: bool
  ep_fadeIn :: bool
  ep_overflowSplice :: bool
  ep_supplyTrend :: rat

definition ep_stretched :: "elastic_result \<Rightarrow> int" where "ep_stretched r = max 0 (ep_validOutput r - ep_consumed r)"
definition ep_compressed :: "elastic_result \<Rightarrow> int" where "ep_compressed r = max 0 (ep_consumed r - ep_validOutput r)"

definition valid_output :: "int \<Rightarrow> int \<Rightarrow> int" where
  "valid_output consumed blockSamples =
     (let valid = (if consumed < minimumElasticInput blockSamples
                   then let v = consumed * elasticRatioScale div (elasticRatioScale - elasticMaxStretchPPM);
                            v = (if v < consumed then consumed else v)
                        in if blockSamples < v then blockSamples else v
                   else blockSamples)
      in if consumed = 0 then 0 else valid)"

text \<open>The edge at the start of the valid part, and the one where samples are missing; the flags tell a fade-in and a splice, and a
  fade-out.\<close>

definition start_edge :: "elastic_playout \<Rightarrow> sample list \<Rightarrow> elastic_playout \<times> sample list \<times> bool \<times> bool" where
  "start_edge p body =
     (if body = [] then (p, body, False, False)
      else if recoveryPending p
      then (p\<lparr>recoveryPending := False, overflowPending := False\<rparr>, applyFadeIn (fadeInQ15 p) body, True, False)
      else if overflowPending p \<and> haveLastOutput p
      then (p\<lparr>overflowPending := False\<rparr>, applyBoundarySplice (fadeInQ15 p) (lastOutput p) body, False, True)
      else (p\<lparr>overflowPending := False\<rparr>, body, False, False))"

definition end_edge :: "nat \<Rightarrow> elastic_playout \<Rightarrow> sample list \<Rightarrow> elastic_playout \<times> sample list \<times> bool" where
  "end_edge n p body =
     (if n \<le> length body then (p, body, False)
      else
        let (blk, fade) =
              (if body \<noteq> [] then (applyFadeOut (fadeInQ15 p) body @ replicate (n - length body) 0, True)
               else if haveLastOutput p \<and> lastOutput p \<noteq> 0
               then (applyDecayingTail (fadeInQ15 p) (lastOutput p) (replicate n 0), True)
               else (replicate n 0, False))
        in (p\<lparr>recoveryPending := True, overflowPending := False, havePostDepth := False, haveTrend := False, supplyTrend := 0\<rparr>, blk, fade))"

definition remember_block :: "int \<Rightarrow> int \<Rightarrow> sample list \<Rightarrow> elastic_playout \<Rightarrow> elastic_playout" where
  "remember_block missing after blk p =
     (let p = (if blk = [] then p else p\<lparr>lastOutput := last blk, haveLastOutput := True\<rparr>)
      in if missing = 0 then p\<lparr>lastPostDepth := after, havePostDepth := True\<rparr> else p)"

definition elastic_pop :: "int \<Rightarrow> elastic_playout \<times> sampleFIFO \<Rightarrow> (elastic_playout \<times> sampleFIFO) \<times> elastic_result" where
  "elastic_pop blockSamples = (\<lambda>(p, f).
     if blockSamples \<le> 0
     then ((p, f), \<lparr>ep_block = [], ep_depthBefore = 0, ep_depthAfter = 0, ep_consumed = 0, ep_validOutput = 0, ep_rawShortage = 0,
                    ep_missing = 0, ep_ratioPPM = elasticRatioScale, ep_fadeOut = False, ep_fadeIn = False, ep_overflowSplice = False,
                    ep_supplyTrend = 0\<rparr>)
     else
       let depth = int (length (fifo_buf f));
           (p, consume) = chooseConsume depth blockSamples p;
           (f, input) = fifo_pop (if depth < consume then depth else consume) f;
           consumed = int (length input);
           valid = valid_output consumed blockSamples;
           (p, body, faded_in, spliced) = start_edge p (resamplePCMBlock input (nat valid));
           (p, blk, faded_out) = end_edge (nat blockSamples) p body;
           missing = blockSamples - valid;
           after = int (length (fifo_buf f));
           p = remember_block missing after blk p
       in ((p, f), \<lparr>ep_block = blk, ep_depthBefore = depth, ep_depthAfter = after, ep_consumed = consumed, ep_validOutput = valid,
                    ep_rawShortage = max 0 (blockSamples - depth), ep_missing = missing,
                    ep_ratioPPM = (if 0 < valid then consumed * elasticRatioScale div valid else elasticRatioScale),
                    ep_fadeOut = faded_out, ep_fadeIn = faded_in, ep_overflowSplice = spliced, ep_supplyTrend = supplyTrend p\<rparr>))"

section \<open>The window\<close>

lemmas elastic_constants = elasticRatioScale_def elasticMaxStretchPPM_def elasticMaxCompressionPPM_def pcmGainScale_def

definition window_ok :: "int list \<Rightarrow> bool" where
  "window_ok w \<longleftrightarrow> w \<noteq> [] \<and> (\<forall>g \<in> set w. 0 \<le> g \<and> g \<le> pcmGainScale)"

lemma half_hann_range: "0 \<le> half_hann n i \<and> half_hann n i \<le> 1"
  using cos_le_one [of "pi * real i / real (n - 1)"] cos_ge_minus_one [of "pi * real i / real (n - 1)"]
  unfolding half_hann_def by linarith

lemma round_gain:
  assumes "0 \<le> x" "x \<le> 1"
  shows "0 \<le> round (x * real_of_int pcmGainScale) \<and> round (x * real_of_int pcmGainScale) \<le> pcmGainScale"
proof -
  have "round (0 :: real) \<le> round (x * real_of_int pcmGainScale)" using assms by (intro round_mono) (simp add: pcmGainScale_def)
  moreover have "round (x * real_of_int pcmGainScale) \<le> round (real_of_int pcmGainScale)"
    using assms by (intro round_mono) (simp add: pcmGainScale_def)
  ultimately show ?thesis by simp
qed

lemma set_update_sub: "set (xs[k := y]) \<subseteq> insert y (set xs)"
  by (rule set_update_subset_insert)

lemma window_sound: "window_ok (makeHalfHannQ15 samples)"
proof (cases "samples < 2")
  case False
  define w where "w = map (\<lambda>i. round (half_hann (nat samples) i * real_of_int pcmGainScale)) [0..<nat samples]"
  have w: "makeHalfHannQ15 samples = w[0 := 0, nat samples - 1 := pcmGainScale]" "w \<noteq> []" using False by (auto simp: makeHalfHannQ15_def w_def Let_def)
  have "\<forall>g \<in> set w. 0 \<le> g \<and> g \<le> pcmGainScale" using half_hann_range round_gain by (auto simp: w_def)
  moreover have "set (makeHalfHannQ15 samples) \<subseteq> insert pcmGainScale (insert 0 (set w))"
    unfolding w(1) using set_update_sub [of "w[0 := 0]" "nat samples - 1" pcmGainScale] set_update_sub [of w 0 0] by blast
  ultimately show ?thesis using w by (auto simp: window_ok_def pcmGainScale_def)
qed (simp add: makeHalfHannQ15_def window_ok_def pcmGainScale_def)

text \<open>The rounded window rises, so that a fade has no step back.\<close>

lemma half_hann_mono: "i \<le> j \<Longrightarrow> j < n \<Longrightarrow> half_hann n i \<le> half_hann n j"
proof -
  assume ij: "i \<le> j" "j < n"
  have "pi * real j / real (n - 1) \<le> pi"
  proof (cases "n = 1")
    case False
    then have "real j / real (n - 1) \<le> 1" using ij(2) by simp
    then have "pi * (real j / real (n - 1)) \<le> pi * 1" by (intro mult_left_mono) simp_all
    then show ?thesis by simp
  qed simp
  moreover have "pi * real i / real (n - 1) \<le> pi * real j / real (n - 1)" using ij by (simp add: divide_right_mono)
  moreover have "0 \<le> pi * real i / real (n - 1)" by simp
  ultimately have "cos (pi * real j / real (n - 1)) \<le> cos (pi * real i / real (n - 1))" by (intro cos_monotone_0_pi_le) auto
  then show ?thesis by (simp add: half_hann_def)
qed

lemma gain_range: "window_ok w \<Longrightarrow> 0 \<le> mappedWindowGain w i c \<and> mappedWindowGain w i c \<le> pcmGainScale"
proof -
  assume w: "window_ok w"
  then have len: "0 < length w" by (simp add: window_ok_def)
  have in_w: "k < length w \<Longrightarrow> 0 \<le> w ! k \<and> w ! k \<le> pcmGainScale" for k using w by (auto simp: window_ok_def)
  show ?thesis
  proof (cases "w = [] \<or> c = 0")
    case True
    then show ?thesis by (auto simp: mappedWindowGain_def pcmGainScale_def)
  next
    case False
    then show ?thesis using in_w [of 0] in_w [of "length w - 1"] in_w len by (auto simp: mappedWindowGain_def Let_def)
  qed
qed

section \<open>Samples stay samples\<close>

lemma clampInt16_ok [simp]: "is_int16 (clampInt16 v)"
  by (simp add: clampInt16_def is_int16_def int16_id [unfolded is_int16_def])

lemma scalePCM_ok [simp]: "is_int16 (scalePCM s g)"
  by (simp add: scalePCM_def)

text \<open>A gain of the window never makes a sample louder.\<close>

lemma scalePCM_quieter:
  assumes "is_int16 s" "0 \<le> g" "g \<le> pcmGainScale"
  shows "\<bar>scalePCM s g\<bar> \<le> \<bar>s\<bar>"
proof -
  have "\<bar>s * g\<bar> \<le> pcmGainScale * \<bar>s\<bar>" using assms(2,3) by (simp add: abs_mult mult.commute mult_right_mono)
  then have b: "- \<bar>s\<bar> \<le> go_div (s * g) pcmGainScale" "go_div (s * g) pcmGainScale \<le> \<bar>s\<bar>"
    by (intro go_div_bounds; simp add: pcmGainScale_def abs_le_iff)+
  show ?thesis using b assms(1) by (auto simp: scalePCM_def clampInt16_def is_int16_def int16_id [unfolded is_int16_def])
qed

lemma edge_lengths [simp]:
  "length (applyFadeIn w xs) = length xs" "length (applyFadeOut w xs) = length xs" "length (applyBoundarySplice w v xs) = length xs"
  "length (applyDecayingTail w v xs) = length xs"
  by (simp_all add: applyFadeIn_def applyFadeOut_def applyBoundarySplice_def applyDecayingTail_def Let_def)

lemma edges_ok:
  assumes "\<forall>x \<in> set xs. is_int16 x"
  shows "\<forall>x \<in> set (applyFadeIn w xs). is_int16 x" "\<forall>x \<in> set (applyFadeOut w xs). is_int16 x"
    "\<forall>x \<in> set (applyBoundarySplice w v xs). is_int16 x" "\<forall>x \<in> set (applyDecayingTail w v xs). is_int16 x"
proof -
  have "set (xs[length xs - 1 := 0]) \<subseteq> insert 0 (set xs)" by (rule set_update_sub)
  then have u: "\<forall>x \<in> set (xs[length xs - 1 := 0]). is_int16 x" using assms is_int16_zero by blast
  show "\<forall>x \<in> set (applyFadeIn w xs). is_int16 x" "\<forall>x \<in> set (applyFadeOut w xs). is_int16 x"
    "\<forall>x \<in> set (applyBoundarySplice w v xs). is_int16 x" "\<forall>x \<in> set (applyDecayingTail w v xs). is_int16 x"
    using assms u by (auto simp: applyFadeIn_def applyFadeOut_def applyBoundarySplice_def applyDecayingTail_def Let_def)
qed

lemma block_sample_ok: "xs \<noteq> [] \<Longrightarrow> \<forall>x \<in> set xs. is_int16 x \<Longrightarrow> is_int16 (block_sample xs n i)"
  by (simp add: block_sample_def Let_def)

lemma resample_block_ok:
  assumes "\<forall>x \<in> set xs. is_int16 x"
  shows "length (resamplePCMBlock xs n) = n" "\<forall>x \<in> set (resamplePCMBlock xs n). is_int16 x"
proof -
  show "length (resamplePCMBlock xs n) = n" by (auto simp: resamplePCMBlock_def)
  have "xs \<noteq> [] \<Longrightarrow> is_int16 (hd xs)" using assms by simp
  then show "\<forall>x \<in> set (resamplePCMBlock xs n). is_int16 x"
    using assms block_sample_ok [OF _ assms] by (auto simp: resamplePCMBlock_def)
qed

text \<open>Stretching or compressing keeps the two ends of the input.\<close>

lemma resample_block_ends:
  assumes "2 \<le> length xs" "2 \<le> n" "\<forall>x \<in> set xs. is_int16 x"
  shows "hd (resamplePCMBlock xs n) = hd xs" "last (resamplePCMBlock xs n) = last xs"
proof -
  have ne: "xs \<noteq> []" "length xs \<noteq> 1" using assms(1) by auto
  have c: "clampInt16 x = x" if "is_int16 x" for x using that int16_id [OF that] by (simp add: clampInt16_def is_int16_def)
  have h: "xs ! 0 = hd xs" using ne by (simp add: hd_conv_nth)
  have f: "block_sample xs n 0 = hd xs" using assms ne c [of "hd xs"] h by (auto simp: block_sample_def Let_def)
  have "int (n - 1) * (int (length xs) - 1) div int (n - 1) = int (length xs) - 1" using assms(2) by simp
  then have l: "block_sample xs n (n - 1) = last xs" by (simp add: block_sample_def Let_def)
  have up: "[0..<n] \<noteq> []" using assms(2) by simp
  show "hd (resamplePCMBlock xs n) = hd xs" "last (resamplePCMBlock xs n) = last xs"
    using assms(2) ne f l up by (auto simp: resamplePCMBlock_def hd_map last_map)
qed

section \<open>How much is consumed\<close>

lemma input_bounds:
  assumes "0 < n"
  shows "0 < minimumElasticInput n" "minimumElasticInput n \<le> n" "n \<le> maximumElasticInput n"
  using assms by (auto simp: minimumElasticInput_def maximumElasticInput_def elastic_constants)

lemma choose_bounds:
  assumes "0 < n" "chooseConsume depth n p = (p', c)" "0 \<le> depth"
  shows "0 \<le> c \<and> c \<le> depth \<and> c \<le> maximumElasticInput n \<and> (minimumElasticInput n \<le> depth \<longrightarrow> minimumElasticInput n \<le> c)
    \<and> (depth < minimumElasticInput n \<longrightarrow> c = depth)"
proof (cases "depth = 0")
  case True
  then have "c = 0" using assms by (simp add: chooseConsume_def)
  then show ?thesis using True input_bounds [OF assms(1)] by auto
next
  case False
  then have d: "\<not> (depth \<le> 0 \<or> n \<le> 0)" using assms by auto
  have "depth < n \<Longrightarrow> wanted_input depth n q = depth" for q by (simp add: wanted_input_def Let_def)
  then show ?thesis
    using assms(2) d input_bounds [OF assms(1)] unfolding chooseConsume_def Let_def by (auto split: if_splits)
qed

lemma valid_bounds:
  assumes "0 < n" "0 \<le> c"
  shows "0 \<le> valid_output c n \<and> valid_output c n \<le> n \<and> (valid_output c n = n \<longleftrightarrow> minimumElasticInput n \<le> c) \<and> (valid_output c n = 0 \<longleftrightarrow> c = 0)"
proof -
  have b: "0 < minimumElasticInput n" "minimumElasticInput n \<le> n" using input_bounds [OF assms(1)] by auto
  have lt: "c * 1000000 div 980000 < n \<and> c < n" if "c < minimumElasticInput n"
  proof -
    have "c < (n * 980000 + 999999) div 1000000" using that by (simp add: minimumElasticInput_def elastic_constants)
    then have "c + 1 \<le> (n * 980000 + 999999) div 1000000" by simp
    then have "(c + 1) * 1000000 \<le> (n * 980000 + 999999) div 1000000 * 1000000" by (intro mult_right_mono) simp_all
    also have "\<dots> \<le> n * 980000 + 999999" using div_mult_mod_eq [of "n * 980000 + 999999" 1000000] by linarith
    finally have "(c + 1) * 1000000 \<le> n * 980000 + 999999" .
    then have "c * 1000000 < n * 980000" by (simp add: distrib_right)
    then show ?thesis using that b by (simp add: div_less_iff_less_mult)
  qed
  have nn: "0 \<le> c * 1000000 div 980000" using assms(2) by (simp add: pos_imp_zdiv_nonneg_iff)
  show ?thesis
    using assms b lt nn by (auto simp: valid_output_def Let_def elastic_constants)
qed

section \<open>Every block is due\<close>

definition elastic_ok :: "elastic_playout \<Rightarrow> bool" where
  "elastic_ok p \<longleftrightarrow> window_ok (fadeInQ15 p) \<and> is_int16 (lastOutput p)"

lemma new_playout_ok: "elastic_ok (newElasticTalkbackPlayout rate)"
  by (simp add: newElasticTalkbackPlayout_def elastic_ok_def window_sound Let_def)

lemma notify_ok: "elastic_ok p \<Longrightarrow> elastic_ok (elastic_notify x p)"
  by (cases x) (simp_all add: elastic_notify_def elastic_reset_def elastic_overflow_def elastic_ok_def)

lemma choose_frame:
  "chooseConsume depth n p = (p', c) \<Longrightarrow> fadeInQ15 p' = fadeInQ15 p \<and> lastOutput p' = lastOutput p \<and> recoveryPending p' = recoveryPending p
     \<and> overflowPending p' = overflowPending p \<and> haveLastOutput p' = haveLastOutput p"
  by (auto simp: chooseConsume_def note_supply_def Let_def split: if_splits)

lemma start_edge_spec:
  assumes "start_edge p body = (p', body', i, j)" "\<forall>x \<in> set body. is_int16 x"
  shows "length body' = length body \<and> (\<forall>x \<in> set body'. is_int16 x) \<and> fadeInQ15 p' = fadeInQ15 p \<and> lastOutput p' = lastOutput p
    \<and> (\<not> recoveryPending p \<and> \<not> overflowPending p \<longrightarrow> body' = body)"
  using assms edges_ok [OF assms(2)] by (auto simp: start_edge_def split: if_splits)

lemma end_edge_spec:
  assumes "end_edge n p body = (p', blk, k)" "\<forall>x \<in> set body. is_int16 x" "length body \<le> n"
  shows "length blk = n \<and> (\<forall>x \<in> set blk. is_int16 x) \<and> fadeInQ15 p' = fadeInQ15 p
    \<and> (n = length body \<longrightarrow> blk = body \<and> p' = p) \<and> (length body < n \<longrightarrow> recoveryPending p')"
proof -
  have z: "\<forall>x \<in> set (replicate m (0 :: int)). is_int16 x" for m by simp
  show ?thesis
    using assms edges_ok [OF assms(2)] edges_ok(4) [OF z [of n]] by (auto simp: end_edge_def Let_def split: if_splits)
qed

lemma fifo_pop_take:
  assumes "0 \<le> c" "c \<le> int (length (fifo_buf f))"
  shows "fifo_pop c f = (f\<lparr>fifo_buf := drop (nat c) (fifo_buf f)\<rparr>, take (nat c) (fifo_buf f))"
  using assms by (auto simp: fifo_pop_def Let_def)

text \<open>C28. The playout never waits and never lets a block out that is not the negotiated size: for any state of its controller and
  whatever the FIFO holds, a block has exactly the samples that are due, all of them 16 bit, made of the oldest samples of the
  FIFO; at most 3 percent more than a block are consumed and no fewer than 2 percent less as long as the FIFO has them; samples
  are missing exactly when the FIFO holds less than that minimum, and then all of it is used and the next block fades in;
  without a pending edge a whole block is the consumed samples, stretched or compressed.\<close>

theorem elastic_block_due:
  assumes "elastic_ok p" "\<forall>x \<in> set (fifo_buf f). is_int16 x" "0 < n" "elastic_pop n (p, f) = ((p', f'), r)"
  shows "length (ep_block r) = nat n \<and> (\<forall>x \<in> set (ep_block r). is_int16 x) \<and> elastic_ok p'
    \<and> 0 \<le> ep_consumed r \<and> f' = f\<lparr>fifo_buf := drop (nat (ep_consumed r)) (fifo_buf f)\<rparr>
    \<and> ep_consumed r \<le> int (length (fifo_buf f)) \<and> ep_consumed r \<le> maximumElasticInput n
    \<and> (minimumElasticInput n \<le> int (length (fifo_buf f)) \<longrightarrow> minimumElasticInput n \<le> ep_consumed r)
    \<and> (ep_missing r = 0 \<longleftrightarrow> minimumElasticInput n \<le> int (length (fifo_buf f)))
    \<and> (ep_missing r \<noteq> 0 \<longrightarrow> fifo_buf f' = [] \<and> recoveryPending p')
    \<and> (ep_missing r = 0 \<and> \<not> recoveryPending p \<and> \<not> overflowPending p \<longrightarrow>
         ep_block r = resamplePCMBlock (take (nat (ep_consumed r)) (fifo_buf f)) (nat n))"
proof -
  let ?d = "int (length (fifo_buf f))"
  obtain p1 c where ch: "chooseConsume ?d n p = (p1, c)" by fastforce
  have cb: "0 \<le> c" "c \<le> ?d" "c \<le> maximumElasticInput n" "minimumElasticInput n \<le> ?d \<Longrightarrow> minimumElasticInput n \<le> c"
    "?d < minimumElasticInput n \<Longrightarrow> c = ?d"
    using choose_bounds [OF assms(3) ch] by auto
  define input where "input = take (nat c) (fifo_buf f)"
  have pop: "fifo_pop (if ?d < c then ?d else c) f = (f\<lparr>fifo_buf := drop (nat c) (fifo_buf f)\<rparr>, input)"
    using fifo_pop_take [OF cb(1,2)] cb(2) by (simp add: input_def)
  have len: "int (length input) = c" using cb by (simp add: input_def)
  have input: "\<forall>x \<in> set input. is_int16 x" using assms(2) set_take_subset unfolding input_def by fastforce
  note v = valid_bounds [OF assms(3) cb(1)]
  obtain p2 body i j where se: "start_edge p1 (resamplePCMBlock input (nat (valid_output c n))) = (p2, body, i, j)" by (cases "start_edge p1 (resamplePCMBlock input (nat (valid_output c n)))") auto
  note body = start_edge_spec [OF se resample_block_ok(2) [OF input]]
  have bl: "length body = nat (valid_output c n)" using body resample_block_ok(1) [OF input] by simp
  obtain p3 blk k where ee: "end_edge (nat n) p2 body = (p3, blk, k)" by (cases "end_edge (nat n) p2 body") auto
  have "length body \<le> nat n" using bl v by (simp add: nat_mono)
  note blk = end_edge_spec [OF ee _ this] body
  have ne: "blk \<noteq> []" using blk assms(3) by auto
  define g where "g = f\<lparr>fifo_buf := drop (nat c) (fifo_buf f)\<rparr>"
  define pb where "pb = remember_block (n - valid_output c n) (int (length (fifo_buf g))) blk p3"
  have pos: "(n \<le> 0) = False" using assms(3) by simp
  have eq: "elastic_pop n (p, f) = ((pb, g),
      \<lparr>ep_block = blk, ep_depthBefore = ?d, ep_depthAfter = int (length (fifo_buf g)), ep_consumed = c, ep_validOutput = valid_output c n,
       ep_rawShortage = max 0 (n - ?d), ep_missing = n - valid_output c n,
       ep_ratioPPM = (if 0 < valid_output c n then c * elasticRatioScale div valid_output c n else elasticRatioScale),
       ep_fadeOut = k, ep_fadeIn = i, ep_overflowSplice = j, ep_supplyTrend = supplyTrend pb\<rparr>)"
    unfolding elastic_pop_def Let_def prod.case ch pop len se ee pb_def g_def pos if_False by (rule refl)
  note x = assms(4) [unfolded eq prod.inject]
  note rr = conjunct2 [OF x, symmetric]
  have r1: "ep_block r = blk" by (simp only: rr elastic_result.select_convs)
  have r2: "ep_consumed r = c" by (simp only: rr elastic_result.select_convs)
  have r3: "ep_missing r = n - valid_output c n" by (simp only: rr elastic_result.select_convs)
  have r4: "f' = g" "p' = pb" using conjunct1 [OF x] by (blast intro: sym)+
  note res = r1 r2 r3 r4
  have pb: "recoveryPending pb = recoveryPending p3" "fadeInQ15 pb = fadeInQ15 p3" "lastOutput pb = last blk"
    using ne by (simp_all add: pb_def remember_block_def Let_def)
  note res = res pb g_def
  have "elastic_ok p'" using assms(1) choose_frame [OF ch] blk ne by (auto simp: elastic_ok_def res)
  moreover have m: "ep_missing r = 0 \<longleftrightarrow> minimumElasticInput n \<le> ?d"
  proof -
    have "valid_output c n = n \<longleftrightarrow> minimumElasticInput n \<le> c" using v by blast
    moreover have "minimumElasticInput n \<le> c \<longleftrightarrow> minimumElasticInput n \<le> ?d" using cb(2,4,5) by linarith
    moreover have "ep_missing r = 0 \<longleftrightarrow> valid_output c n = n" unfolding r3 by auto
    ultimately show ?thesis by blast
  qed
  moreover have "ep_missing r \<noteq> 0 \<longrightarrow> fifo_buf f' = [] \<and> recoveryPending p'"
  proof
    assume miss: "ep_missing r \<noteq> 0"
    then have "c = ?d" using m cb(5) by linarith
    then have "fifo_buf f' = []" by (simp add: res(4) g_def)
    moreover have "length body < nat n" using miss v unfolding bl r3 by linarith
    then have "recoveryPending p'" using blk pb(1) r4(2) by simp
    ultimately show "fifo_buf f' = [] \<and> recoveryPending p'" by blast
  qed
  moreover have "ep_missing r = 0 \<and> \<not> recoveryPending p \<and> \<not> overflowPending p \<longrightarrow> ep_block r = resamplePCMBlock (take (nat (ep_consumed r)) (fifo_buf f)) (nat n)"
  proof
    assume a: "ep_missing r = 0 \<and> \<not> recoveryPending p \<and> \<not> overflowPending p"
    then have vn: "valid_output c n = n" using r3 by simp
    have "blk = body" using blk bl vn by simp
    moreover have "body = resamplePCMBlock input (nat n)" using body a choose_frame [OF ch] vn by simp
    ultimately show "ep_block r = resamplePCMBlock (take (nat (ep_consumed r)) (fifo_buf f)) (nat n)" by (simp add: r1 r2 input_def)
  qed
  moreover have "length (ep_block r) = nat n \<and> (\<forall>x \<in> set (ep_block r). is_int16 x)" using blk r1 by simp
  ultimately show ?thesis using cb(1-4) unfolding r2 r4(1) g_def by blast
qed

definition short_fifo :: sampleFIFO where
  "short_fifo = \<lparr>fifo_buf = [100, 200, 300], fifo_max = 16\<rparr>"

theorem elastic_block_due_witness:
  "length (ep_block (snd (elastic_pop 4 (newElasticTalkbackPlayout 8000, short_fifo)))) = 4"
proof -
  obtain p' f' r where e: "elastic_pop 4 (newElasticTalkbackPlayout 8000, short_fifo) = ((p', f'), r)" by (metis prod.exhaust)
  have "\<forall>x \<in> set (fifo_buf short_fifo). is_int16 x" by (simp add: short_fifo_def is_int16_def)
  then show ?thesis using elastic_block_due [OF new_playout_ok _ _ e] by (simp add: e)
qed

end
