(* ===== verification/CameraPlayout.thy ===== *)
theory CameraPlayout
  imports MediaTiming Complex_Main
begin

text \<open>
  The playout of the camera audio of the Baichuan preview (\<^verbatim>\<open>internal/media/playout_pll.go\<close>): decoder bursts go into a bounded
  buffer with a virtual media clock, and every 20 ms one frame is taken at a rate that is corrected a little.  The phase, the
  integral and the correction are \<^verbatim>\<open>float64\<close> in the code and exact rational numbers here; times and durations are integers of
  nanoseconds and the zero time is \<open>None\<close>.
\<close>

section \<open>State\<close>

definition cameraPlayoutFrameSamples :: nat where "cameraPlayoutFrameSamples = 160"
definition cameraPlayoutStartupSamples :: nat where "cameraPlayoutStartupSamples = 960"
definition cameraPlayoutTargetSamples :: nat where "cameraPlayoutTargetSamples = 960"
definition cameraPlayoutMaxSamples :: nat where "cameraPlayoutMaxSamples = 2560"
definition cameraPlayoutRecoverySamples :: nat where "cameraPlayoutRecoverySamples = 1440"
definition cameraPLLMaxCorrection :: rat where "cameraPLLMaxCorrection = 1 / 5"
definition cameraPLLKp :: rat where "cameraPLLKp = 1 / 4000"
definition cameraPLLKi :: rat where "cameraPLLKi = 1 / 800000"
definition cameraPLLIntegralLimit :: rat where "cameraPLLIntegralLimit = 1 / 10"
definition cameraPLLLowWatermark :: int where "cameraPLLLowWatermark = 480"
definition cameraPLLHighWatermark :: int where "cameraPLLHighWatermark = 2080"
definition cameraInputTimelineRebase :: duration where "cameraInputTimelineRebase = 750000000"
definition frame_time :: duration where "frame_time = 20000000"

record pll_counters =
  pc_frames :: "64 word"
  pc_queueSamplesTotal :: "64 word"
  pc_queueObservations :: "64 word"
  pc_queueMin :: int
  pc_queueMax :: int
  pc_hardDropped :: "64 word"
  pc_underrunOutput :: "64 word"
  pc_correctionSum :: rat
  pc_maxAbsCorrection :: rat
  pc_haveQueueStatistic :: bool
  pc_inputRebases :: "64 word"
  pc_inputChunks :: "64 word"
  pc_inputMaxChunk :: int
  pc_inputMaxArrivalGap :: duration

record cameraPlayoutPLL =
  pl_buf :: "sample list"
  pl_phase :: rat
  pl_integral :: rat
  pl_correction :: rat
  pl_active :: bool
  pl_bufStartAt :: "time option"
  pl_inputNextAt :: "time option"
  pl_lastFrameAt :: "time option"
  pl_lastArrival :: "time option"
  pl_counters :: pll_counters

definition newCameraPlayoutPLL :: cameraPlayoutPLL where
  "newCameraPlayoutPLL =
     \<lparr>pl_buf = [], pl_phase = 0, pl_integral = 0, pl_correction = 0, pl_active = False, pl_bufStartAt = None, pl_inputNextAt = None,
      pl_lastFrameAt = None, pl_lastArrival = None,
      pl_counters = \<lparr>pc_frames = 0, pc_queueSamplesTotal = 0, pc_queueObservations = 0, pc_queueMin = 0, pc_queueMax = 0,
        pc_hardDropped = 0, pc_underrunOutput = 0, pc_correctionSum = 0, pc_maxAbsCorrection = 0, pc_haveQueueStatistic = False,
        pc_inputRebases = 0, pc_inputChunks = 0, pc_inputMaxChunk = 0, pc_inputMaxArrivalGap = 0\<rparr>\<rparr>"

definition samplesDuration :: "nat \<Rightarrow> duration" where
  "samplesDuration n = int n * time_second div g711SampleRate"

definition trunc_rat :: "rat \<Rightarrow> int" where
  "trunc_rat x = (if 0 \<le> x then \<lfloor>x\<rfloor> else \<lceil>x\<rceil>)"

definition samplesDurationFloat :: "rat \<Rightarrow> duration" where
  "samplesDurationFloat n = trunc_rat (n * rat_of_int time_second / rat_of_int g711SampleRate)"

definition observeQueue :: "nat \<Rightarrow> cameraPlayoutPLL \<Rightarrow> cameraPlayoutPLL" where
  "observeQueue n p =
     (let c = pl_counters p;
          c = (if \<not> pc_haveQueueStatistic c
               then c\<lparr>pc_queueMin := int n, pc_queueMax := int n, pc_haveQueueStatistic := True\<rparr>
               else c\<lparr>pc_queueMin := min (pc_queueMin c) (int n), pc_queueMax := max (pc_queueMax c) (int n)\<rparr>)
      in p\<lparr>pl_counters := c\<lparr>pc_queueSamplesTotal := pc_queueSamplesTotal c + of_nat n,
                             pc_queueObservations := pc_queueObservations c + 1\<rparr>\<rparr>)"

definition advanceBufferClock :: "rat \<Rightarrow> cameraPlayoutPLL \<Rightarrow> cameraPlayoutPLL" where
  "advanceBufferClock n p =
     (case pl_bufStartAt p of
        None \<Rightarrow> p
      | Some t \<Rightarrow> if n \<le> 0 then p else p\<lparr>pl_bufStartAt := Some (t + samplesDurationFloat n)\<rparr>)"

section \<open>Push\<close>

definition note_input :: "nat \<Rightarrow> time \<Rightarrow> cameraPlayoutPLL \<Rightarrow> cameraPlayoutPLL" where
  "note_input n arrival p =
     (let c = pl_counters p;
          c = c\<lparr>pc_inputChunks := pc_inputChunks c + 1, pc_inputMaxChunk := max (pc_inputMaxChunk c) (int n)\<rparr>;
          c = (case pl_lastArrival p of
                 None \<Rightarrow> c
               | Some t \<Rightarrow> c\<lparr>pc_inputMaxArrivalGap := max (pc_inputMaxArrivalGap c) \<bar>arrival - t\<bar>\<rparr>)
      in p\<lparr>pl_lastArrival := Some arrival, pl_counters := c\<rparr>)"

definition hard_drop :: "nat \<Rightarrow> cameraPlayoutPLL \<Rightarrow> cameraPlayoutPLL" where
  "hard_drop n p = p\<lparr>pl_counters := (pl_counters p)\<lparr>pc_hardDropped := pc_hardDropped (pl_counters p) + of_nat n\<rparr>\<rparr>"

text \<open>The start of the chunk on the media clock, with the samples dropped and whether the time line was rebased.\<close>

definition align_chunk :: "time \<Rightarrow> cameraPlayoutPLL \<Rightarrow> cameraPlayoutPLL \<times> nat \<times> bool \<times> time" where
  "align_chunk nominalStart p =
     (case pl_inputNextAt p of
        None \<Rightarrow> (p, 0, False, nominalStart)
      | Some nextAt \<Rightarrow>
          if \<bar>nominalStart - nextAt\<bar> \<le> cameraInputTimelineRebase then (p, 0, False, nextAt)
          else
            let n = length (pl_buf p);
                p = p\<lparr>pl_counters := (pl_counters p)\<lparr>pc_inputRebases := pc_inputRebases (pl_counters p) + 1\<rparr>\<rparr>;
                p = (if 0 < n then hard_drop n p else p)
            in (p\<lparr>pl_buf := [], pl_phase := 0, pl_integral := 0, pl_correction := 0, pl_bufStartAt := None\<rparr>, n, True, nominalStart))"

definition late_chunk :: "time \<Rightarrow> cameraPlayoutPLL \<Rightarrow> time \<times> bool" where
  "late_chunk chunkStart p =
     (case pl_lastFrameAt p of
        None \<Rightarrow> (chunkStart, False)
      | Some t \<Rightarrow>
          if pl_active p \<and> pl_buf p = [] \<and> chunkStart < t + frame_time then (t + frame_time, True) else (chunkStart, False))"

definition append_chunk :: "sample list \<Rightarrow> time \<Rightarrow> cameraPlayoutPLL \<Rightarrow> cameraPlayoutPLL" where
  "append_chunk samples chunkStart p =
     p\<lparr>pl_inputNextAt := Some (chunkStart + samplesDuration (length samples)),
       pl_bufStartAt := (if pl_buf p = [] then Some chunkStart else pl_bufStartAt p),
       pl_buf := pl_buf p @ samples\<rparr>"

definition limit_buffer :: "cameraPlayoutPLL \<Rightarrow> cameraPlayoutPLL \<times> nat" where
  "limit_buffer p =
     (if length (pl_buf p) \<le> cameraPlayoutMaxSamples then (p, 0)
      else
        let n = length (pl_buf p) - cameraPlayoutRecoverySamples;
            p = advanceBufferClock (of_nat n) (p\<lparr>pl_buf := drop n (pl_buf p)\<rparr>)
        in (hard_drop n (p\<lparr>pl_phase := 0\<rparr>), n))"

definition pll_push :: "sample list \<Rightarrow> time \<Rightarrow> cameraPlayoutPLL \<Rightarrow> cameraPlayoutPLL \<times> nat \<times> bool" where
  "pll_push samples arrival p =
     (if samples = [] then (p, 0, False)
      else
        let p = note_input (length samples) arrival p;
            (p, dropped, rebased, chunkStart) = align_chunk (arrival - samplesDuration (length samples)) p;
            (chunkStart, late) = late_chunk chunkStart p;
            p = append_chunk samples chunkStart p;
            (p, n) = limit_buffer p;
            p = (if \<not> pl_active p \<and> cameraPlayoutStartupSamples \<le> length (pl_buf p) then p\<lparr>pl_active := True\<rparr> else p)
        in (observeQueue (length (pl_buf p)) p, dropped + n, rebased \<or> late \<or> 0 < n))"

section \<open>PopFrame\<close>

definition clamp_rat :: "rat \<Rightarrow> rat \<Rightarrow> rat" where
  "clamp_rat limit x = (if limit < x then limit else if x < - limit then - limit else x)"

definition error_samples :: "int \<Rightarrow> rat" where
  "error_samples depth =
     (if depth < cameraPLLLowWatermark then rat_of_int (depth - cameraPLLLowWatermark)
      else if cameraPLLHighWatermark < depth then rat_of_int (depth - cameraPLLHighWatermark)
      else 0)"

definition pll_control :: "cameraPlayoutPLL \<Rightarrow> cameraPlayoutPLL" where
  "pll_control p =
     (let depth = int (length (pl_buf p)); err = error_samples depth;
          i = (if depth < cameraPLLLowWatermark \<or> cameraPLLHighWatermark < depth then pl_integral p else pl_integral p * (98 / 100));
          i = clamp_rat cameraPLLIntegralLimit (i + err * cameraPLLKi)
      in p\<lparr>pl_integral := i, pl_correction := clamp_rat cameraPLLMaxCorrection (err * cameraPLLKp + i)\<rparr>)"

definition media_time :: "time \<Rightarrow> cameraPlayoutPLL \<Rightarrow> time" where
  "media_time now p =
     (case (pl_buf p, pl_bufStartAt p, pl_lastFrameAt p) of
        (_ # _, Some t, _) \<Rightarrow> t + samplesDurationFloat (pl_phase p)
      | (_, _, Some t) \<Rightarrow> t + frame_time
      | (_, _, None) \<Rightarrow> now)"

definition frame_ratio :: "cameraPlayoutPLL \<Rightarrow> rat" where
  "frame_ratio p = (of_nat cameraPlayoutFrameSamples + pl_correction p) / of_nat cameraPlayoutFrameSamples"

definition round_half_away :: "rat \<Rightarrow> int" where
  "round_half_away x = (if 0 \<le> x then \<lfloor>x + 1 / 2\<rfloor> else - \<lfloor>- x + 1 / 2\<rfloor>)"

definition frame_sample :: "sample list \<Rightarrow> rat \<Rightarrow> rat \<Rightarrow> nat \<Rightarrow> sample option" where
  "frame_sample buf phase ratio i =
     (let pos = phase + of_nat i * ratio; idx = \<lfloor>pos\<rfloor>; frac = pos - of_int idx in
      if idx < 0 \<or> int (length buf) \<le> idx then None
      else
        let a = buf ! nat idx;
            b = (if idx + 1 < int (length buf) then buf ! nat (idx + 1) else a);
            v = rat_of_int a + (rat_of_int b - rat_of_int a) * frac;
            v = (if 32767 < v then 32767 else if v < - 32768 then - 32768 else v)
        in Some (int16 (round_half_away v)))"

definition consume_frame :: "nat \<Rightarrow> cameraPlayoutPLL \<Rightarrow> cameraPlayoutPLL" where
  "consume_frame missing p =
     (let endPos = pl_phase p + of_nat cameraPlayoutFrameSamples * frame_ratio p; consume = \<lfloor>endPos\<rfloor>;
          p = p\<lparr>pl_phase := endPos - of_int consume\<rparr>
      in if int (length (pl_buf p)) \<le> consume
         then let p = (advanceBufferClock (of_nat (length (pl_buf p))) p)\<lparr>pl_buf := []\<rparr>
              in if 0 < missing then p\<lparr>pl_phase := 0\<rparr> else p
         else if 0 < consume then advanceBufferClock (of_int consume) (p\<lparr>pl_buf := drop (nat consume) (pl_buf p)\<rparr>)
         else p)"

definition count_frame :: "nat \<Rightarrow> cameraPlayoutPLL \<Rightarrow> cameraPlayoutPLL" where
  "count_frame missing p =
     (let c = pl_counters p in
      p\<lparr>pl_counters := c\<lparr>pc_frames := pc_frames c + 1, pc_underrunOutput := pc_underrunOutput c + of_nat missing,
                        pc_correctionSum := pc_correctionSum c + pl_correction p,
                        pc_maxAbsCorrection := max (pc_maxAbsCorrection c) \<bar>pl_correction p\<bar>\<rparr>\<rparr>)"

definition pop_frame :: "time \<Rightarrow> cameraPlayoutPLL \<Rightarrow> cameraPlayoutPLL \<times> (sample list \<times> nat \<times> time) option" where
  "pop_frame now p =
     (if \<not> pl_active p then (p, None)
      else
        let p = pll_control (observeQueue (length (pl_buf p)) p);
            mediaAt = media_time now p;
            frame = map (frame_sample (pl_buf p) (pl_phase p) (frame_ratio p)) [0..<cameraPlayoutFrameSamples];
            missing = length (filter (\<lambda>x. x = None) frame);
            p = count_frame missing (consume_frame missing p);
            p = p\<lparr>pl_lastFrameAt := Some mediaAt\<rparr>
        in (observeQueue (length (pl_buf p)) p, Some (map (\<lambda>x. case x of Some v \<Rightarrow> v | None \<Rightarrow> 0) frame, missing, mediaAt)))"

text \<open>The statistics for the log.\<close>

record cameraPlayoutPLLStats =
  ps_Frames :: "64 word"
  ps_HardDroppedSamples :: "64 word"
  ps_UnderrunOutputSamples :: "64 word"
  ps_QueueMinSamples :: int
  ps_QueueMaxSamples :: int
  ps_QueueAverageSamples :: rat
  ps_AverageCorrectionPPM :: rat
  ps_MaximumCorrectionPPM :: rat
  ps_CurrentCorrectionPPM :: rat
  ps_TargetSamples :: nat
  ps_StartupSamples :: nat
  ps_MaximumBufferedSamples :: nat
  ps_InputTimelineRebases :: "64 word"
  ps_InputChunks :: "64 word"
  ps_InputMaxChunkSamples :: int
  ps_InputMaxArrivalGap :: duration

definition per_million :: "rat \<Rightarrow> rat" where
  "per_million x = x / of_nat cameraPlayoutFrameSamples * 1000000"

definition pll_stats :: "cameraPlayoutPLL \<Rightarrow> cameraPlayoutPLLStats" where
  "pll_stats p =
     (let c = pl_counters p in
      \<lparr>ps_Frames = pc_frames c, ps_HardDroppedSamples = pc_hardDropped c, ps_UnderrunOutputSamples = pc_underrunOutput c,
       ps_QueueMinSamples = pc_queueMin c, ps_QueueMaxSamples = pc_queueMax c,
       ps_QueueAverageSamples = (if pc_queueObservations c = 0 then 0
         else of_nat (unat (pc_queueSamplesTotal c)) / of_nat (unat (pc_queueObservations c))),
       ps_AverageCorrectionPPM = (if pc_frames c = 0 then 0 else per_million (pc_correctionSum c / of_nat (unat (pc_frames c)))),
       ps_MaximumCorrectionPPM = per_million (pc_maxAbsCorrection c), ps_CurrentCorrectionPPM = per_million (pl_correction p),
       ps_TargetSamples = cameraPlayoutTargetSamples, ps_StartupSamples = cameraPlayoutStartupSamples,
       ps_MaximumBufferedSamples = cameraPlayoutMaxSamples, ps_InputTimelineRebases = pc_inputRebases c,
       ps_InputChunks = pc_inputChunks c, ps_InputMaxChunkSamples = pc_inputMaxChunk c,
       ps_InputMaxArrivalGap = pc_inputMaxArrivalGap c\<rparr>)"

section \<open>Time and samples\<close>

lemma sample_time: "samplesDurationFloat x = trunc_rat (x * 125000)"
  by (simp add: samplesDurationFloat_def time_second_def g711SampleRate_def mult.commute)

lemma whole_samples [simp]: "samplesDurationFloat (of_nat n) = int n * 125000" "samplesDurationFloat (of_int k) = k * 125000"
proof -
  have "trunc_rat (of_int k * 125000) = k * 125000" for k :: int
  proof -
    have "rat_of_int k * 125000 = of_int (k * 125000)" by simp
    then show ?thesis unfolding trunc_rat_def by (metis ceiling_of_int floor_of_int)
  qed
  then show "samplesDurationFloat (of_nat n) = int n * 125000" "samplesDurationFloat (of_int k) = k * 125000"
    unfolding sample_time by (metis of_int_of_nat_eq)+
qed

lemma phase_time: "0 \<le> x \<Longrightarrow> samplesDurationFloat x = \<lfloor>x * 125000\<rfloor>"
  by (simp add: sample_time trunc_rat_def)

lemma clamp_rat_range: "0 \<le> limit \<Longrightarrow> - limit \<le> clamp_rat limit x \<and> clamp_rat limit x \<le> limit"
  by (auto simp: clamp_rat_def)

lemma control_frame [simp]:
  "pl_buf (pll_control p) = pl_buf p" "pl_phase (pll_control p) = pl_phase p" "pl_active (pll_control p) = pl_active p"
  "pl_bufStartAt (pll_control p) = pl_bufStartAt p" "pl_inputNextAt (pll_control p) = pl_inputNextAt p"
  "pl_lastFrameAt (pll_control p) = pl_lastFrameAt p"
  by (simp_all add: pll_control_def Let_def)

lemma observe_frame [simp]:
  "pl_buf (observeQueue n p) = pl_buf p" "pl_phase (observeQueue n p) = pl_phase p" "pl_active (observeQueue n p) = pl_active p"
  "pl_bufStartAt (observeQueue n p) = pl_bufStartAt p" "pl_inputNextAt (observeQueue n p) = pl_inputNextAt p"
  "pl_lastFrameAt (observeQueue n p) = pl_lastFrameAt p" "pl_correction (observeQueue n p) = pl_correction p"
  by (simp_all add: observeQueue_def Let_def)

lemma count_frame_frame [simp]:
  "pl_buf (count_frame n p) = pl_buf p" "pl_phase (count_frame n p) = pl_phase p" "pl_active (count_frame n p) = pl_active p"
  "pl_bufStartAt (count_frame n p) = pl_bufStartAt p" "pl_lastFrameAt (count_frame n p) = pl_lastFrameAt p"
  by (simp_all add: count_frame_def Let_def)

lemma note_frame [simp]:
  "pl_buf (note_input n t p) = pl_buf p" "pl_phase (note_input n t p) = pl_phase p" "pl_active (note_input n t p) = pl_active p"
  "pl_bufStartAt (note_input n t p) = pl_bufStartAt p" "pl_inputNextAt (note_input n t p) = pl_inputNextAt p"
  "pl_lastFrameAt (note_input n t p) = pl_lastFrameAt p"
  by (simp_all add: note_input_def Let_def)

lemma hard_drop_frame [simp]:
  "pl_buf (hard_drop n p) = pl_buf p" "pl_phase (hard_drop n p) = pl_phase p" "pl_active (hard_drop n p) = pl_active p"
  "pl_bufStartAt (hard_drop n p) = pl_bufStartAt p" "pl_lastFrameAt (hard_drop n p) = pl_lastFrameAt p"
  by (simp_all add: hard_drop_def)

lemma control_correction: "\<bar>pl_correction (pll_control p)\<bar> \<le> 1 / 5"
proof -
  obtain x where "pl_correction (pll_control p) = clamp_rat cameraPLLMaxCorrection x" by (simp add: pll_control_def Let_def)
  then show ?thesis using clamp_rat_range [of cameraPLLMaxCorrection x] unfolding cameraPLLMaxCorrection_def by linarith
qed

section \<open>The invariant\<close>

text \<open>The least distance of two frames on the media clock, in nanoseconds: 160 samples less the largest correction.\<close>

definition least_spacing :: duration where "least_spacing = 19975000"

definition pll_ok :: "cameraPlayoutPLL \<Rightarrow> bool" where
  "pll_ok p \<longleftrightarrow>
     length (pl_buf p) \<le> cameraPlayoutMaxSamples \<and> (\<forall>x \<in> set (pl_buf p). is_int16 x) \<and>
     0 \<le> pl_phase p \<and> pl_phase p < 1 \<and> (pl_buf p \<noteq> [] \<longrightarrow> pl_bufStartAt p \<noteq> None) \<and>
     (pl_lastFrameAt p \<noteq> None \<longrightarrow> pl_active p)"

definition clock_ahead :: "cameraPlayoutPLL \<Rightarrow> bool" where
  "clock_ahead p \<longleftrightarrow>
     (\<forall>l t. pl_lastFrameAt p = Some l \<and> pl_bufStartAt p = Some t \<and> pl_buf p \<noteq> [] \<longrightarrow>
        l + least_spacing \<le> t + samplesDurationFloat (pl_phase p))"

lemma phase_small: "0 \<le> x \<Longrightarrow> x < 1 \<Longrightarrow> 0 \<le> samplesDurationFloat x \<and> samplesDurationFloat x \<le> 125000"
proof -
  assume x: "0 \<le> x" "x < 1"
  have "\<lfloor>x * 125000\<rfloor> \<le> \<lfloor>125000 :: rat\<rfloor>" using x by (intro floor_mono) simp
  then show ?thesis using x by (simp add: phase_time)
qed

lemma frame_advance:
  assumes "0 \<le> x" "\<bar>c\<bar> \<le> 1 / 5"
  shows "samplesDurationFloat x + least_spacing \<le> \<lfloor>(x + 160 * ((160 + c) / 160)) * 125000\<rfloor>"
proof -
  have e: "(x + 160 * ((160 + c) / 160)) * 125000 = x * 125000 + (160 + c) * 125000" by (simp add: algebra_simps)
  have "\<lfloor>(19975000 :: rat)\<rfloor> \<le> \<lfloor>(160 + c) * 125000\<rfloor>" using assms(2) by (intro floor_mono) (simp add: abs_le_iff)
  then have "least_spacing \<le> \<lfloor>(160 + c) * 125000\<rfloor>" by (simp add: least_spacing_def)
  then show ?thesis using le_floor_add [of "x * 125000" "(160 + c) * 125000"] assms(1) unfolding e by (simp add: phase_time)
qed

lemma split_end:
  fixes e :: rat
  assumes "0 \<le> e"
  shows "\<lfloor>e\<rfloor> * 125000 + samplesDurationFloat (e - of_int \<lfloor>e\<rfloor>) = \<lfloor>e * 125000\<rfloor>"
proof -
  have "samplesDurationFloat (e - of_int \<lfloor>e\<rfloor>) = \<lfloor>(e - of_int \<lfloor>e\<rfloor>) * 125000\<rfloor>" by (rule phase_time) simp
  also have "(e - of_int \<lfloor>e\<rfloor>) * 125000 = e * 125000 - of_int (\<lfloor>e\<rfloor> * 125000)" by (simp add: algebra_simps)
  finally show ?thesis using floor_diff_of_int [of "e * 125000" "\<lfloor>e\<rfloor> * 125000"] by simp
qed

section \<open>Every operation keeps the invariant\<close>

lemma new_pll_ok: "pll_ok newCameraPlayoutPLL \<and> clock_ahead newCameraPlayoutPLL"
  by (simp add: pll_ok_def clock_ahead_def newCameraPlayoutPLL_def cameraPlayoutMaxSamples_def)

lemma ok_observe [simp]: "pll_ok (observeQueue n p) = pll_ok p" "clock_ahead (observeQueue n p) = clock_ahead p"
  by (simp_all add: pll_ok_def clock_ahead_def split: option.split)

lemma ok_note [simp]: "pll_ok (note_input n t p) = pll_ok p" "clock_ahead (note_input n t p) = clock_ahead p"
  by (simp_all add: pll_ok_def clock_ahead_def split: option.split)

lemma align_ok:
  assumes "pll_ok p" "clock_ahead p" "align_chunk t p = (p', n, b, t')"
  shows "pll_ok p' \<and> clock_ahead p' \<and> pl_lastFrameAt p' = pl_lastFrameAt p \<and> pl_active p' = pl_active p"
  using assms by (auto simp: align_chunk_def pll_ok_def clock_ahead_def Let_def split: option.splits if_splits)

lemma late_start:
  assumes "late_chunk t p = (t', b)" "pll_ok p" "pl_buf p = []" "pl_lastFrameAt p = Some l"
  shows "l + frame_time \<le> t'"
  using assms by (auto simp: late_chunk_def pll_ok_def split: if_splits)

text \<open>Before the limit is enforced the buffer may be longer.\<close>

definition pre_ok :: "cameraPlayoutPLL \<Rightarrow> bool" where
  "pre_ok p \<longleftrightarrow>
     (\<forall>x \<in> set (pl_buf p). is_int16 x) \<and> 0 \<le> pl_phase p \<and> pl_phase p < 1 \<and> (pl_buf p \<noteq> [] \<longrightarrow> pl_bufStartAt p \<noteq> None) \<and>
     (pl_lastFrameAt p \<noteq> None \<longrightarrow> pl_active p)"

lemma append_ok:
  assumes "pll_ok p" "clock_ahead p" "\<forall>x \<in> set xs. is_int16 x" "late_chunk t p = (t', b)"
  shows "pre_ok (append_chunk xs t' p) \<and> clock_ahead (append_chunk xs t' p)"
proof -
  have "pre_ok (append_chunk xs t' p)" using assms(1,3) by (auto simp: pre_ok_def pll_ok_def append_chunk_def)
  moreover have "clock_ahead (append_chunk xs t' p)"
  proof (cases "pl_lastFrameAt p")
    case (Some l)
    show ?thesis
    proof (cases "pl_buf p = []")
      case True
      have "l + frame_time \<le> t'" by (rule late_start [OF assms(4,1) True Some])
      moreover have "0 \<le> samplesDurationFloat (pl_phase p)" using phase_small assms(1) by (simp add: pll_ok_def)
      ultimately show ?thesis using True Some by (simp add: clock_ahead_def append_chunk_def frame_time_def least_spacing_def)
    next
      case False
      then show ?thesis using assms(2) Some by (auto simp: clock_ahead_def append_chunk_def split: option.splits)
    qed
  qed (simp add: clock_ahead_def append_chunk_def)
  ultimately show ?thesis by blast
qed

lemma limit_ok:
  assumes "pre_ok p" "clock_ahead p" "limit_buffer p = (p', n)"
  shows "pll_ok p' \<and> clock_ahead p' \<and> pl_lastFrameAt p' = pl_lastFrameAt p \<and> pl_active p' = pl_active p"
proof (cases "length (pl_buf p) \<le> cameraPlayoutMaxSamples")
  case True
  then show ?thesis using assms by (auto simp: limit_buffer_def pre_ok_def pll_ok_def)
next
  case False
  define k where "k = length (pl_buf p) - cameraPlayoutRecoverySamples"
  have k: "1120 < k" "k < length (pl_buf p)" using False by (auto simp: k_def cameraPlayoutMaxSamples_def cameraPlayoutRecoverySamples_def)
  obtain t where t: "pl_bufStartAt p = Some t" using assms(1) k by (auto simp: pre_ok_def)
  have p': "p' = hard_drop k (p\<lparr>pl_buf := drop k (pl_buf p), pl_bufStartAt := Some (t + int k * 125000), pl_phase := 0\<rparr>)"
    using assms(3) False k t by (auto simp: limit_buffer_def k_def [symmetric] advanceBufferClock_def Let_def)
  have ph: "samplesDurationFloat (pl_phase p) \<le> 125000" using assms(1) phase_small by (simp add: pre_ok_def)
  have "length (drop k (pl_buf p)) \<le> cameraPlayoutMaxSamples" by (simp add: k_def cameraPlayoutMaxSamples_def cameraPlayoutRecoverySamples_def)
  moreover have "\<forall>x \<in> set (drop k (pl_buf p)). is_int16 x" using assms(1) by (auto simp: pre_ok_def dest: in_set_dropD)
  moreover have "clock_ahead p'"
    using assms(2) t k ph by (auto simp: p' clock_ahead_def phase_time split: option.splits)
  ultimately show ?thesis using assms(1) by (auto simp: p' pll_ok_def pre_ok_def)
qed

lemma push_ok:
  assumes "pll_ok p" "clock_ahead p" "\<forall>x \<in> set xs. is_int16 x" "pll_push xs t p = (p', r)"
  shows "pll_ok p' \<and> clock_ahead p' \<and> pl_lastFrameAt p' = pl_lastFrameAt p"
proof (cases "xs = []")
  case True
  then show ?thesis using assms by (simp add: pll_push_def)
next
  case False
  let ?p0 = "note_input (length xs) t p"
  obtain p1 n1 b1 t1 where al: "align_chunk (t - samplesDuration (length xs)) ?p0 = (p1, n1, b1, t1)" by (cases "align_chunk (t - samplesDuration (length xs)) ?p0") auto
  have 1: "pll_ok p1" "clock_ahead p1" "pl_lastFrameAt p1 = pl_lastFrameAt p" "pl_active p1 = pl_active p"
    using align_ok [OF _ _ al] assms(1,2) by auto
  obtain t2 b2 where la: "late_chunk t1 p1 = (t2, b2)" by fastforce
  note 2 = append_ok [OF 1(1,2) assms(3) la]
  obtain p3 n3 where li: "limit_buffer (append_chunk xs t2 p1) = (p3, n3)" by fastforce
  have 3: "pll_ok p3" "clock_ahead p3" "pl_lastFrameAt p3 = pl_lastFrameAt p"
    using limit_ok [OF _ _ li] 2 1 by (auto simp: append_chunk_def)
  have "p' = observeQueue (length (pl_buf p3)) (if \<not> pl_active p3 \<and> cameraPlayoutStartupSamples \<le> length (pl_buf p3) then p3\<lparr>pl_active := True\<rparr> else p3)"
    using assms(4) False by (auto simp: pll_push_def Let_def al la li)
  then show ?thesis using 3 by (auto simp: pll_ok_def clock_ahead_def)
qed

lemma consume_spec:
  assumes "pll_ok p" "\<bar>pl_correction p\<bar> \<le> 1 / 5"
  defines "e \<equiv> pl_phase p + 160 * ((160 + pl_correction p) / 160)"
  shows "pll_ok (consume_frame m p) \<and> pl_lastFrameAt (consume_frame m p) = pl_lastFrameAt p \<and> pl_active (consume_frame m p) = pl_active p \<and>
    (pl_buf (consume_frame m p) \<noteq> [] \<longrightarrow> (\<exists>t. pl_bufStartAt p = Some t \<and> pl_buf p \<noteq> [] \<and>
       pl_bufStartAt (consume_frame m p) = Some (t + \<lfloor>e\<rfloor> * 125000) \<and> pl_phase (consume_frame m p) = e - of_int \<lfloor>e\<rfloor>))"
proof -
  have e: "of_nat cameraPlayoutFrameSamples * frame_ratio p = 160 * ((160 + pl_correction p) / 160)"
    by (simp add: frame_ratio_def cameraPlayoutFrameSamples_def)
  have pos: "1 \<le> \<lfloor>e\<rfloor>"
  proof -
    have "160 * ((160 + pl_correction p) / 160) = 160 + pl_correction p" by simp
    moreover have "0 \<le> pl_phase p" using assms(1) by (simp add: pll_ok_def)
    ultimately have "(1 :: rat) \<le> e" using assms(2) unfolding e_def by linarith
    then show ?thesis by (simp add: le_floor_iff)
  qed
  have fr: "0 \<le> e - of_int \<lfloor>e\<rfloor>" "e - of_int \<lfloor>e\<rfloor> < 1" by (simp_all, linarith)
  show ?thesis
  proof (cases "int (length (pl_buf p)) \<le> \<lfloor>e\<rfloor>")
    case True
    then show ?thesis
      using assms(1) fr unfolding consume_frame_def e e_def [symmetric] Let_def
      by (auto simp: pll_ok_def advanceBufferClock_def cameraPlayoutMaxSamples_def split: option.split)
  next
    case False
    then have "pl_buf p \<noteq> []" using pos by auto
    then obtain t where t: "pl_bufStartAt p = Some t" "pl_buf p \<noteq> []" using assms(1) by (auto simp: pll_ok_def)
    have c: "consume_frame m p = p\<lparr>pl_phase := e - of_int \<lfloor>e\<rfloor>, pl_buf := drop (nat \<lfloor>e\<rfloor>) (pl_buf p), pl_bufStartAt := Some (t + \<lfloor>e\<rfloor> * 125000)\<rparr>"
      using False pos t unfolding consume_frame_def e e_def [symmetric] Let_def by (simp add: advanceBufferClock_def)
    then show ?thesis using assms(1) fr t by (auto simp: pll_ok_def dest: in_set_dropD)
  qed
qed

lemma frame_sample_ok: "frame_sample buf ph r i = Some v \<Longrightarrow> is_int16 v"
  by (auto simp: frame_sample_def Let_def split: if_splits)

lemma pop_ok:
  assumes "pll_ok p" "clock_ahead p" "pop_frame now p = (p', Some (out, missing, m))"
  shows "pll_ok p' \<and> clock_ahead p' \<and> pl_lastFrameAt p' = Some m \<and> length out = 160 \<and> (\<forall>x \<in> set out. is_int16 x) \<and>
    (\<forall>l. pl_lastFrameAt p = Some l \<longrightarrow> l + least_spacing \<le> m)"
proof -
  define q where "q = pll_control (observeQueue (length (pl_buf p)) p)"
  have act: "pl_active p" using assms(3) by (auto simp: pop_frame_def split: if_splits)
  have q: "pll_ok q" "clock_ahead q" "pl_buf q = pl_buf p" "pl_lastFrameAt q = pl_lastFrameAt p" "pl_bufStartAt q = pl_bufStartAt p"
    "pl_phase q = pl_phase p" "pl_active q" "\<bar>pl_correction q\<bar> \<le> 1 / 5"
    using assms(1,2) act control_correction [of "observeQueue (length (pl_buf p)) p"]
    by (simp_all add: q_def pll_ok_def clock_ahead_def split: option.split)
  define frame where "frame = map (frame_sample (pl_buf q) (pl_phase q) (frame_ratio q)) [0..<cameraPlayoutFrameSamples]"
  define k where "k = length (filter (\<lambda>x. x = None) frame)"
  define c where "c = consume_frame k q"
  have "pop_frame now p = (observeQueue (length (pl_buf c)) ((count_frame k c)\<lparr>pl_lastFrameAt := Some (media_time now q)\<rparr>),
      Some (map (\<lambda>x. case x of Some v \<Rightarrow> v | None \<Rightarrow> 0) frame, k, media_time now q))"
    using act unfolding pop_frame_def Let_def q_def c_def k_def frame_def by simp
  then have p': "p' = observeQueue (length (pl_buf c)) ((count_frame k c)\<lparr>pl_lastFrameAt := Some m\<rparr>)"
    and out: "out = map (\<lambda>x. case x of Some v \<Rightarrow> v | None \<Rightarrow> 0) frame" and m: "m = media_time now q"
    using assms(3) by simp_all
  note cs = consume_spec [OF q(1,8), of k, folded c_def]
  have "length out = 160 \<and> (\<forall>x \<in> set out. is_int16 x)"
    by (auto simp: out frame_def cameraPlayoutFrameSamples_def frame_sample_ok split: option.split)
  moreover have "l + least_spacing \<le> m" if "pl_lastFrameAt p = Some l" for l
    using that q(1,2,4) unfolding m
    by (cases "pl_buf q"; cases "pl_bufStartAt q") (auto simp: media_time_def clock_ahead_def pll_ok_def frame_time_def least_spacing_def)
  moreover have "pll_ok p' \<and> pl_lastFrameAt p' = Some m" using cs q(7) by (auto simp: p' pll_ok_def)
  moreover have "clock_ahead p'"
  proof (cases "pl_buf c = []")
    case True
    then show ?thesis by (auto simp: p' clock_ahead_def split: option.split)
  next
    case False
    let ?e = "pl_phase q + 160 * ((160 + pl_correction q) / 160)"
    obtain t where t: "pl_bufStartAt q = Some t" "pl_buf q \<noteq> []" "pl_bufStartAt c = Some (t + \<lfloor>?e\<rfloor> * 125000)" "pl_phase c = ?e - of_int \<lfloor>?e\<rfloor>"
      using cs False by blast
    have ph: "0 \<le> pl_phase q" using q(1) by (simp add: pll_ok_def)
    have "m = t + samplesDurationFloat (pl_phase q)" using t(1,2) by (cases "pl_buf q") (auto simp: m media_time_def)
    moreover have "samplesDurationFloat (pl_phase q) + least_spacing \<le> \<lfloor>?e * 125000\<rfloor>" by (rule frame_advance [OF ph q(8)])
    moreover have "0 \<le> ?e"
    proof -
      have "160 * ((160 + pl_correction q) / 160) = 160 + pl_correction q" by simp
      then show ?thesis using ph q(8) by linarith
    qed
    ultimately show ?thesis using split_end [of ?e] t(3,4) by (simp add: p' clock_ahead_def)
  qed
  ultimately show ?thesis by blast
qed

section \<open>Runs\<close>

datatype playout_event = Camera_pcm "sample list" time | Frame_tick time

fun playout_run :: "playout_event list \<Rightarrow> cameraPlayoutPLL \<Rightarrow> cameraPlayoutPLL \<times> (sample list \<times> nat \<times> time) list" where
  "playout_run [] p = (p, [])"
| "playout_run (Camera_pcm xs t # es) p = playout_run es (fst (pll_push xs t p))"
| "playout_run (Frame_tick now # es) p =
     (case pop_frame now p of
        (p', None) \<Rightarrow> playout_run es p'
      | (p', Some f) \<Rightarrow> (case playout_run es p' of (p'', fs) \<Rightarrow> (p'', f # fs)))"

definition frame_ok :: "sample list \<times> nat \<times> time \<Rightarrow> bool" where
  "frame_ok f \<longleftrightarrow> length (fst f) = 160 \<and> (\<forall>x \<in> set (fst f). is_int16 x)"

lemma pop_none: "pop_frame now p = (p', None) \<Longrightarrow> p' = p"
  by (auto simp: pop_frame_def Let_def split: if_splits)

lemma playout_run_ok:
  assumes "pll_ok p" "clock_ahead p" "\<forall>xs t. Camera_pcm xs t \<in> set es \<longrightarrow> (\<forall>x \<in> set xs. is_int16 x)" "playout_run es p = (p', fs)"
  shows "pll_ok p' \<and> (\<forall>f \<in> set fs. frame_ok f) \<and>
    successively (\<lambda>a b. a + least_spacing \<le> b) ((case pl_lastFrameAt p of Some l \<Rightarrow> [l] | None \<Rightarrow> []) @ map (\<lambda>f. snd (snd f)) fs)"
  using assms
proof (induction es arbitrary: p fs)
  case Nil
  then show ?case by (auto split: option.split)
next
  case (Cons e es)
  show ?case
  proof (cases e)
    case (Camera_pcm xs t)
    obtain p1 r where pu: "pll_push xs t p = (p1, r)" by (cases "pll_push xs t p")
    have "\<forall>x \<in> set xs. is_int16 x" using Cons.prems(3) Camera_pcm by simp
    note ok = push_ok [OF Cons.prems(1,2) this pu]
    have "playout_run es p1 = (p', fs)" using Cons.prems(4) by (simp add: Camera_pcm pu)
    from Cons.IH [OF _ _ _ this] show ?thesis using ok Cons.prems(3) by auto
  next
    case (Frame_tick now)
    show ?thesis
    proof (cases "snd (pop_frame now p)")
      case None
      then have "pop_frame now p = (p, None)" using pop_none by (metis prod.collapse)
      then show ?thesis using Cons.IH [OF Cons.prems(1,2)] Cons.prems(3,4) by (simp add: Frame_tick)
    next
      case (Some f)
      obtain out k m where f: "f = (out, k, m)" by (cases f)
      obtain p1 where po: "pop_frame now p = (p1, Some (out, k, m))" using Some f by (metis prod.collapse)
      note ok = pop_ok [OF Cons.prems(1,2) po]
      obtain gs where run: "playout_run es p1 = (p', gs)" and fs: "fs = (out, k, m) # gs"
        using Cons.prems(4) by (auto simp: Frame_tick po split: prod.splits)
      have "pll_ok p' \<and> (\<forall>f \<in> set gs. frame_ok f) \<and> successively (\<lambda>a b. a + least_spacing \<le> b) (m # map (\<lambda>f. snd (snd f)) gs)"
        using Cons.IH [OF _ _ _ run] ok Cons.prems(3) by auto
      then show ?thesis using ok unfolding fs by (auto simp: frame_ok_def split: option.splits)
    qed
  qed
qed

text \<open>C27. The media clock of the camera never goes back: however bursty, late or discontinuous the decoder output arrives, the capture
  times of the frames rise by at least 19.975 ms, every frame has its 160 samples of 16 bit, and the buffer never holds more than
  320 ms.\<close>

theorem camera_clock_monotone:
  assumes "\<forall>xs t. Camera_pcm xs t \<in> set es \<longrightarrow> (\<forall>x \<in> set xs. is_int16 x)" "playout_run es newCameraPlayoutPLL = (p, fs)"
  shows "successively (\<lambda>a b. a + least_spacing \<le> b) (map (\<lambda>f. snd (snd f)) fs) \<and>
    (\<forall>f \<in> set fs. length (fst f) = cameraPlayoutFrameSamples \<and> (\<forall>x \<in> set (fst f). is_int16 x)) \<and>
    length (pl_buf p) \<le> cameraPlayoutMaxSamples"
proof -
  have "pl_lastFrameAt newCameraPlayoutPLL = None" by (simp add: newCameraPlayoutPLL_def)
  then show ?thesis
    using playout_run_ok [OF _ _ assms] new_pll_ok by (auto simp: pll_ok_def frame_ok_def cameraPlayoutFrameSamples_def)
qed

definition two_bursts :: "playout_event list" where
  "two_bursts = [Camera_pcm (replicate 960 5) 1000000000, Frame_tick 1010000000, Frame_tick 1030000000]"

theorem camera_clock_monotone_witness:
  "successively (\<lambda>a b. a + least_spacing \<le> b) (map (\<lambda>f. snd (snd f)) (snd (playout_run two_bursts newCameraPlayoutPLL)))"
proof -
  have "\<forall>xs t. Camera_pcm xs t \<in> set two_bursts \<longrightarrow> (\<forall>x \<in> set xs. is_int16 x)"
    by (simp add: two_bursts_def is_int16_def)
  then show ?thesis using camera_clock_monotone [of two_bursts] by (metis prod.collapse)
qed

end
