(* ===== verification/MediaSession.thy ===== *)
theory MediaSession
  imports Packetizer CameraPlayout G711 GoStrings "HOL-Library.Sublist"
begin

text \<open>
  The media session of a call (\<^verbatim>\<open>internal/media/session.go\<close>): how it opens and releases what it needs, the key presses it
  reports, and the two bridges of the camera audio to the phone.  The echo canceller is a function with its own state (\<open>None\<close>
  when it is off); what the sockets, processes and connections answer is the environment.
\<close>

section \<open>Key presses\<close>

record session_events =
  se_detector :: "telephoneEventDetector option"
  se_queue :: "DTMFEvent list"

definition dtmfQueueLimit :: nat where "dtmfQueueLimit = 64"

text \<open>The payload type and the clock rate of the negotiated telephone events, \<open>None\<close> without.\<close>

definition new_session_events :: "(byte \<times> int) option \<Rightarrow> session_events" where
  "new_session_events te = \<lparr>se_detector = map_option (\<lambda>(_, rate). newTelephoneEventDetector rate) te, se_queue = []\<rparr>"

definition handleTelephoneEvent :: "(byte \<times> int) option \<Rightarrow> packet \<Rightarrow> time \<Rightarrow> session_events \<Rightarrow> bool \<times> session_events" where
  "handleTelephoneEvent te p now s =
     (case te of
        None \<Rightarrow> (False, s)
      | Some (pt, _) \<Rightarrow>
          if PayloadType p \<noteq> pt then (False, s)
          else (case detector_push_ptr (se_detector s) p now of
                  (d, None) \<Rightarrow> (True, s\<lparr>se_detector := d\<rparr>)
                | (d, Some e) \<Rightarrow>
                    (True, s\<lparr>se_detector := d, se_queue := (if length (se_queue s) < dtmfQueueLimit then se_queue s @ [e] else se_queue s)\<rparr>)))"

section \<open>FFmpeg\<close>

definition buildFFmpegArgs :: "string \<Rightarrow> int \<Rightarrow> string \<Rightarrow> string list" where
  "buildFFmpegArgs inputURL port codec =
     (let encoder = (if codec = PCMU then ''pcm_mulaw'' else ''pcm_alaw''); pt = (if codec = PCMU then ''0'' else ''8'');
          target = ''rtp://127.0.0.1:'' @ show_int port @ ''?pkt_size=172''
      in [''-hide_banner'', ''-nostdin'', ''-loglevel'', ''warning'', ''-timeout'', ''10000000'', ''-rtsp_transport'', ''tcp'',
          ''-fflags'', ''nobuffer'', ''-flags'', ''low_delay'', ''-i'', inputURL, ''-map'', ''0:a:0'', ''-vn'', ''-ac'', ''1'', ''-ar'', ''8000'',
          ''-c:a'', encoder, ''-f'', ''rtp'', ''-payload_type'', pt, target])"

datatype 'e ffmpeg_end = Ff_context 'e | Ff_exited 'e | Ff_stderr 'e | Ff_unexpected

definition ffmpeg_result :: "'e option \<Rightarrow> 'e option \<Rightarrow> 'e option \<Rightarrow> 'e ffmpeg_end" where
  "ffmpeg_result ctx_err wait_err scan_err =
     (case ctx_err of
        Some e \<Rightarrow> Ff_context e
      | None \<Rightarrow> (case wait_err of Some e \<Rightarrow> Ff_exited e | None \<Rightarrow> (case scan_err of Some e \<Rightarrow> Ff_stderr e | None \<Rightarrow> Ff_unexpected)))"

text \<open>The lines FFmpeg writes to its standard error: how many of them tell of a corrected time stamp, and what of them is logged.\<close>

definition ffmpeg_lines :: "(string \<Rightarrow> string) \<Rightarrow> string list \<Rightarrow> 64 word \<Rightarrow> 64 word \<times> string list" where
  "ffmpeg_lines hide lines warnings =
     (warnings + of_nat (length (filter (\<lambda>l. sublist ''Non-monotonous DTS'' l) lines)), map hide lines)"

text \<open>What is logged of the output of FFmpeg: \<open>strip\<close> replaces the user information of RTSP URLs (a regular expression of the
  library), the other two are the escapings of \<^verbatim>\<open>net/url\<close>.\<close>

definition redact :: "(string \<Rightarrow> string) \<Rightarrow> (string \<Rightarrow> string) \<Rightarrow> (string \<Rightarrow> string) \<Rightarrow> string \<Rightarrow> string \<Rightarrow> string" where
  "redact strip pathEscape queryEscape password v =
     (let v = strip v in
      if password \<noteq> []
      then replace_all (replace_all (replace_all v password ''***'') (pathEscape password) ''***'') (queryEscape password) ''***''
      else v)"

section \<open>Bridges to the phone\<close>

record ('a, 'e) echo_canceller =
  ProcessCapture :: "sample list \<Rightarrow> time \<Rightarrow> 'a \<Rightarrow> ('e + sample list) \<times> 'a"
  SuspendTracking :: "time \<Rightarrow> 'a \<Rightarrow> 'a"

datatype 'e forward_error =
    No_camera_audio | Read_failed 'e | Forward_context 'e | Echo_failed 'e | No_remote | Write_failed 'e
  | Source_ended | Pcm_ended | Source_failed 'e | Encode_failed string nat

text \<open>Sending needs the RTP address of the remote side; \<open>write\<close> is the result of the socket.\<close>

definition bridge_send :: "bool \<Rightarrow> (packet \<Rightarrow> 'e option) \<Rightarrow> packet \<Rightarrow> 'e forward_error option" where
  "bridge_send remote write p =
     (if \<not> remote then Some No_remote else map_option Write_failed (write p))"

subsection \<open>From FFmpeg\<close>

record 'a camera_bridge =
  cb_packetizer :: rtpRepacketizer
  cb_clock :: rtpMediaClock
  cb_received :: bool
  cb_packets :: "64 word"
  cb_firstDelay :: duration
  cb_maxDeviation :: duration
  cb_previousArrival :: "time option"
  cb_previousTimestamp :: u32
  cb_echo :: 'a

definition firstPacketTimeout :: duration where "firstPacketTimeout = 12000000000"

definition camera_timeout :: "time \<Rightarrow> time \<Rightarrow> 'e option \<Rightarrow> 'a camera_bridge \<Rightarrow> 'e forward_error option" where
  "camera_timeout begun now ctx_err b =
     (if \<not> cb_received b \<and> begun + firstPacketTimeout < now then Some No_camera_audio else map_option Forward_context ctx_err)"

definition observe_camera :: "packet \<Rightarrow> time \<Rightarrow> time \<Rightarrow> 'a camera_bridge \<Rightarrow> 'a camera_bridge" where
  "observe_camera p now mediaStarted b =
     (let b = (if cb_received b then b else b\<lparr>cb_received := True, cb_firstDelay := now - mediaStarted\<rparr>);
          tsDelta = sint (Timestamp p - cb_previousTimestamp b);
          b = (case cb_previousArrival b of
                 Some prev_arrival \<Rightarrow>
                   if 0 < tsDelta \<and> tsDelta \<le> g711SampleRate * 2
                   then b\<lparr>cb_maxDeviation := max (cb_maxDeviation b) \<bar>now - prev_arrival - tsDelta * time_second div g711SampleRate\<bar>\<rparr>
                   else b
               | None \<Rightarrow> b)
      in b\<lparr>cb_previousArrival := Some now, cb_previousTimestamp := Timestamp p, cb_packets := cb_packets b + 1\<rparr>)"

definition cancel_echo ::
  "('a, 'e) echo_canceller option \<Rightarrow> string \<Rightarrow> time \<Rightarrow> packet \<Rightarrow> 'a camera_bridge \<Rightarrow> ('e forward_error + packet) \<times> 'a camera_bridge" where
  "cancel_echo echo codec now p b =
     (case echo of
        None \<Rightarrow> (Inr p, b)
      | Some f \<Rightarrow>
          let (c, captureAt) = At (cb_clock b) p now; b = b\<lparr>cb_clock := c\<rparr> in
          (case ProcessCapture f (DecodePayload (Payload p) codec) captureAt (cb_echo b) of
             (Inl e, a) \<Rightarrow> (Inl (Echo_failed e), b\<lparr>cb_echo := a\<rparr>)
           | (Inr pcm, a) \<Rightarrow> (Inr (p\<lparr>Payload := EncodePCM pcm codec\<rparr>), b\<lparr>cb_echo := a\<rparr>)))"

fun forward_packets ::
  "('a, 'e) echo_canceller option \<Rightarrow> string \<Rightarrow> bool \<Rightarrow> (packet \<Rightarrow> 'e option) \<Rightarrow> time \<Rightarrow> packet list \<Rightarrow> 'a camera_bridge \<Rightarrow>
     'a camera_bridge \<times> packet list \<times> 'e forward_error option" where
  "forward_packets echo codec remote write now [] b = (b, [], None)"
| "forward_packets echo codec remote write now (p # ps) b =
     (case cancel_echo echo codec now p b of
        (Inl e, b) \<Rightarrow> (b, [], Some e)
      | (Inr p, b) \<Rightarrow>
          (case bridge_send remote write p of
             Some e \<Rightarrow> (b, [], Some e)
           | None \<Rightarrow> (case forward_packets echo codec remote write now ps b of (b, sent, e) \<Rightarrow> (b, p # sent, e))))"

definition camera_datagram ::
  "('a, 'e) echo_canceller option \<Rightarrow> string \<Rightarrow> byte \<Rightarrow> bool \<Rightarrow> (packet \<Rightarrow> 'e option) \<Rightarrow> time \<Rightarrow> time \<Rightarrow> byte list \<Rightarrow> 'a camera_bridge \<Rightarrow>
     'a camera_bridge \<times> packet list \<times> 'e forward_error option" where
  "camera_datagram echo codec payloadType remote write mediaStarted now data b =
     (case Parse data of
        Inl _ \<Rightarrow> (b, [], None)
      | Inr p \<Rightarrow>
          if Payload p = [] then (b, [], None)
          else
            let b = observe_camera p now mediaStarted b; (r, out) = Push payloadType (cb_packetizer b) p
            in forward_packets echo codec remote write now out (b\<lparr>cb_packetizer := r\<rparr>))"

subsection \<open>From the Baichuan preview\<close>

definition randomRTPState :: "byte list option \<Rightarrow> 64 word \<Rightarrow> u16 \<times> u32 \<times> u32" where
  "randomRTPState random nanos =
     (case random of
        Some b \<Rightarrow> (of_be16 (b ! 0) (b ! 1), of_be32 (b ! 2) (b ! 3) (b ! 4) (b ! 5), of_be32 (b ! 6) (b ! 7) (b ! 8) (b ! 9))
      | None \<Rightarrow> (ucast nanos, ucast (drop_bit 16 nanos), ucast (drop_bit 32 nanos)))"

record 'a preview_bridge =
  pb_playout :: cameraPlayoutPLL
  pb_seq :: u16
  pb_timestamp :: u32
  pb_ssrc :: u32
  pb_marker :: bool
  pb_started :: "duration option"
  pb_chunks :: "64 word"
  pb_sent :: "64 word"
  pb_echo :: 'a

definition new_preview_bridge :: "u16 \<times> u32 \<times> u32 \<Rightarrow> 'a \<Rightarrow> 'a preview_bridge" where
  "new_preview_bridge = (\<lambda>(seq, timestamp, ssrc) a.
     \<lparr>pb_playout = newCameraPlayoutPLL, pb_seq = seq, pb_timestamp = timestamp, pb_ssrc = ssrc, pb_marker = True, pb_started = None,
      pb_chunks = 0, pb_sent = 0, pb_echo = a\<rparr>)"

datatype 'e preview_event =
    Bridge_canceled 'e
  | Source_done "'e option" bool
  | Source_pcm "sample list" time
  | Source_closed
  | Bridge_tick time bool "packet \<Rightarrow> 'e option"

definition bridge_pcm ::
  "('a, 'e) echo_canceller option \<Rightarrow> time \<Rightarrow> sample list \<Rightarrow> time \<Rightarrow> 'a preview_bridge \<Rightarrow> 'a preview_bridge" where
  "bridge_pcm echo mediaStarted pcm arrival b =
     (if pcm = [] then b
      else case pll_push pcm arrival (pb_playout b) of
        (p, dropped, rebase) \<Rightarrow>
          b\<lparr>pb_chunks := pb_chunks b + 1,
            pb_started := (case pb_started b of Some d \<Rightarrow> Some d | None \<Rightarrow> Some (arrival - mediaStarted)),
            pb_playout := p,
            pb_echo := (case echo of
                          Some f \<Rightarrow> if 0 < dropped \<or> rebase then SuspendTracking f arrival (pb_echo b) else pb_echo b
                        | None \<Rightarrow> pb_echo b)\<rparr>)"

text \<open>A frame passes through the echo canceller, which is told first when samples were missing.\<close>

definition bridge_echo ::
  "('a, 'e) echo_canceller option \<Rightarrow> sample list \<Rightarrow> nat \<Rightarrow> time \<Rightarrow> 'a \<Rightarrow> ('e + sample list) \<times> 'a" where
  "bridge_echo echo block missing captureAt a =
     (case echo of
        None \<Rightarrow> (Inr block, a)
      | Some f \<Rightarrow> ProcessCapture f block captureAt (if 0 < missing then SuspendTracking f captureAt a else a))"

definition bridge_packet :: "byte \<Rightarrow> byte list \<Rightarrow> 'a preview_bridge \<Rightarrow> packet" where
  "bridge_packet payloadType payload b =
     \<lparr>PayloadType = payloadType, Marker = pb_marker b, Sequence = pb_seq b, Timestamp = pb_timestamp b, SSRC = pb_ssrc b, Payload = payload\<rparr>"

definition bridge_sent :: "'a preview_bridge \<Rightarrow> 'a preview_bridge" where
  "bridge_sent b = b\<lparr>pb_marker := False, pb_seq := pb_seq b + 1, pb_timestamp := pb_timestamp b + of_nat cameraPlayoutFrameSamples,
     pb_sent := pb_sent b + 1\<rparr>"

definition bridge_frame ::
  "('a, 'e) echo_canceller option \<Rightarrow> string \<Rightarrow> byte \<Rightarrow> bool \<Rightarrow> (packet \<Rightarrow> 'e option) \<Rightarrow> sample list \<Rightarrow> nat \<Rightarrow> time \<Rightarrow>
     'a preview_bridge \<Rightarrow> 'a preview_bridge \<times> packet list \<times> 'e forward_error option" where
  "bridge_frame echo codec payloadType remote write block missing captureAt b =
     (case bridge_echo echo block missing captureAt (pb_echo b) of
        (Inl e, a) \<Rightarrow> (b\<lparr>pb_echo := a\<rparr>, [], Some (Echo_failed e))
      | (Inr block, a) \<Rightarrow>
          let b = b\<lparr>pb_echo := a\<rparr>; payload = EncodePCM block codec; p = bridge_packet payloadType payload b in
          if length payload \<noteq> cameraPlayoutFrameSamples then (b, [], Some (Encode_failed codec (length payload)))
          else (case bridge_send remote write p of
                  Some e \<Rightarrow> (b, [], Some e)
                | None \<Rightarrow> (bridge_sent b, [p], None)))"

definition bridge_step ::
  "('a, 'e) echo_canceller option \<Rightarrow> string \<Rightarrow> byte \<Rightarrow> time \<Rightarrow> 'e preview_event \<Rightarrow> 'a preview_bridge \<Rightarrow>
     'a preview_bridge \<times> packet list \<times> 'e forward_error option" where
  "bridge_step echo codec payloadType mediaStarted e b =
     (case e of
        Bridge_canceled x \<Rightarrow> (b, [], Some (Forward_context x))
      | Source_done x canceled \<Rightarrow>
          (b, [], Some (case x of Some err \<Rightarrow> if canceled then Source_ended else Source_failed err | None \<Rightarrow> Source_ended))
      | Source_pcm pcm arrival \<Rightarrow> (bridge_pcm echo mediaStarted pcm arrival b, [], None)
      | Source_closed \<Rightarrow> (b, [], Some Pcm_ended)
      | Bridge_tick now remote write \<Rightarrow>
          if pb_started b = None \<or> \<not> pl_active (pb_playout b) then (b, [], None)
          else (case pop_frame now (pb_playout b) of
                  (p, None) \<Rightarrow> (b\<lparr>pb_playout := p\<rparr>, [], None)
                | (p, Some (block, missing, captureAt)) \<Rightarrow>
                    bridge_frame echo codec payloadType remote write block missing captureAt (b\<lparr>pb_playout := p\<rparr>)))"

fun bridge_run ::
  "('a, 'e) echo_canceller option \<Rightarrow> string \<Rightarrow> byte \<Rightarrow> time \<Rightarrow> 'e preview_event list \<Rightarrow> 'a preview_bridge \<Rightarrow>
     'a preview_bridge \<times> packet list \<times> 'e forward_error option" where
  "bridge_run echo codec payloadType mediaStarted [] b = (b, [], None)"
| "bridge_run echo codec payloadType mediaStarted (e # es) b =
     (case bridge_step echo codec payloadType mediaStarted e b of
        (b, sent, Some err) \<Rightarrow> (b, sent, Some err)
      | (b, sent, None) \<Rightarrow>
          (case bridge_run echo codec payloadType mediaStarted es b of (b, later, err) \<Rightarrow> (b, sent @ later, err)))"

section \<open>What a bridge sends\<close>

text \<open>Without echo cancellation the bridge from FFmpeg sends what the repacketizer emits, or a prefix of it and an error.\<close>

lemma forward_without_echo:
  "case forward_packets None codec remote wr now ps b of
     (b', sent, err) \<Rightarrow> b' = b \<and> (case err of None \<Rightarrow> sent = ps | Some _ \<Rightarrow> prefix sent ps)"
proof (induction ps)
  case (Cons p ps)
  then show ?case by (auto simp: cancel_echo_def split: option.splits prod.splits)
qed simp

lemma camera_datagram_relays:
  assumes "Parse data = Inr p" "Payload p \<noteq> []" "Push pt (cb_packetizer b) p = (r, ps)"
  shows "case camera_datagram None codec pt remote wr started now data b of
     (b', sent, err) \<Rightarrow> cb_packetizer b' = r \<and> cb_packets b' = cb_packets b + 1 \<and> (case err of None \<Rightarrow> sent = ps | Some _ \<Rightarrow> prefix sent ps)"
proof -
  let ?b = "(observe_camera p now started b)\<lparr>cb_packetizer := r\<rparr>"
  have "cb_packetizer (observe_camera p now started b) = cb_packetizer b" "cb_packets ?b = cb_packets b + 1"
    by (auto simp: observe_camera_def Let_def split: option.splits)
  then show ?thesis
    using assms forward_without_echo [where codec = codec and remote = remote and wr = wr and now = now and ps = ps and b = ?b] by (auto simp: camera_datagram_def split: prod.splits)
qed

text \<open>The packets that carry a list of payloads: numbered from \<open>seq\<close>, 160 ticks apart, the first one marked if \<open>m\<close> is.\<close>

fun stream_packets :: "byte \<Rightarrow> u32 \<Rightarrow> bool \<Rightarrow> u16 \<Rightarrow> u32 \<Rightarrow> byte list list \<Rightarrow> packet list" where
  "stream_packets pt src m seq ts [] = []"
| "stream_packets pt src m seq ts (x # xs) =
     \<lparr>PayloadType = pt, Marker = m, Sequence = seq, Timestamp = ts, SSRC = src, Payload = x\<rparr>
       # stream_packets pt src False (seq + 1) (ts + 160) xs"

fun bridge_inputs :: "'e preview_event list \<Rightarrow> playout_event list" where
  "bridge_inputs [] = []"
| "bridge_inputs (Source_pcm pcm t # es) = Camera_pcm pcm t # bridge_inputs es"
| "bridge_inputs (Bridge_tick t _ _ # es) = Frame_tick t # bridge_inputs es"
| "bridge_inputs (_ # es) = bridge_inputs es"

abbreviation bridge_packets :: "byte \<Rightarrow> 'a preview_bridge \<Rightarrow> byte list list \<Rightarrow> packet list" where
  "bridge_packets pt b \<equiv> stream_packets pt (pb_ssrc b) (pb_marker b) (pb_seq b) (pb_timestamp b)"

lemma bridge_frame_cases:
  obtains (failed) err b' where "bridge_frame echo codec pt remote write block missing cap b = (b', [], Some err)"
  | (sent) x b' where "bridge_frame echo codec pt remote write block missing cap b = (b', [bridge_packet pt x b], None)"
      "length x = 160" "pb_playout b' = pb_playout b" "pb_started b' = pb_started b" "pb_ssrc b' = pb_ssrc b" "\<not> pb_marker b'"
      "pb_seq b' = pb_seq b + 1" "pb_timestamp b' = pb_timestamp b + 160" "echo = None \<Longrightarrow> x = EncodePCM block codec"
proof -
  show thesis
  proof (cases "bridge_echo echo block missing cap (pb_echo b)")
    case (Pair r a)
    show thesis
    proof (cases r)
      case (Inl e)
      then show thesis using Pair failed by (simp add: bridge_frame_def)
    next
      case (Inr out)
      then have "echo = None \<Longrightarrow> out = block" using Pair by (simp add: bridge_echo_def)
      define q where "q = bridge_packet pt (EncodePCM out codec) (b\<lparr>pb_echo := a\<rparr>)"
      have "bridge_frame echo codec pt remote write block missing cap b =
          (if length (EncodePCM out codec) \<noteq> 160 then (b\<lparr>pb_echo := a\<rparr>, [], Some (Encode_failed codec (length (EncodePCM out codec))))
           else case bridge_send remote write q of
             Some e \<Rightarrow> (b\<lparr>pb_echo := a\<rparr>, [], Some e) | None \<Rightarrow> (bridge_sent (b\<lparr>pb_echo := a\<rparr>), [q], None))"
        by (simp add: bridge_frame_def Pair Inr q_def cameraPlayoutFrameSamples_def Let_def split: option.split)
      moreover have "q = bridge_packet pt (EncodePCM out codec) b" by (simp add: q_def bridge_packet_def)
      ultimately show thesis
        using \<open>echo = None \<Longrightarrow> out = block\<close>
          failed [of "b\<lparr>pb_echo := a\<rparr>"] sent [of "bridge_sent (b\<lparr>pb_echo := a\<rparr>)" "EncodePCM out codec"]
        by (cases "length (EncodePCM out codec) = 160"; cases "bridge_send remote write q")
          (simp_all add: bridge_sent_def cameraPlayoutFrameSamples_def)
    qed
  qed
qed

text \<open>The frames of the jitter buffer, encoded.\<close>

abbreviation encoded_frames :: "string \<Rightarrow> 'e preview_event list \<Rightarrow> cameraPlayoutPLL \<Rightarrow> byte list list" where
  "encoded_frames codec es p \<equiv> map (\<lambda>f. EncodePCM (fst f) codec) (snd (playout_run (bridge_inputs es) p))"

definition waits_for_audio :: "'a preview_bridge \<Rightarrow> bool" where
  "waits_for_audio b \<longleftrightarrow> (pb_started b = None \<longrightarrow> \<not> pl_active (pb_playout b))"

lemma idle_tick: "waits_for_audio b \<Longrightarrow> pb_started b = None \<or> \<not> pl_active (pb_playout b) \<Longrightarrow> pop_frame t (pb_playout b) = (pb_playout b, None)"
  by (auto simp: waits_for_audio_def pop_frame_def)

lemma bridge_pcm_frame:
  "pb_ssrc (bridge_pcm echo ms pcm t b) = pb_ssrc b" "pb_marker (bridge_pcm echo ms pcm t b) = pb_marker b"
  "pb_seq (bridge_pcm echo ms pcm t b) = pb_seq b" "pb_timestamp (bridge_pcm echo ms pcm t b) = pb_timestamp b"
  "pb_playout (bridge_pcm echo ms pcm t b) = fst (pll_push pcm t (pb_playout b))"
  by (auto simp: bridge_pcm_def pll_push_def split: prod.splits)

lemma bridge_pcm_waits: "waits_for_audio b \<Longrightarrow> waits_for_audio (bridge_pcm echo ms pcm t b)"
  by (auto simp: bridge_pcm_def waits_for_audio_def split: prod.splits option.splits)

text \<open>One event: an error sends nothing; otherwise the bridge either sends the next frame of the jitter buffer, with the next
  numbers, or nothing.\<close>

lemma bridge_step_cases:
  assumes "waits_for_audio b"
  obtains (stopped) err b' where "bridge_step echo codec pt ms e b = (b', [], Some err)"
  | (quiet) b' where "bridge_step echo codec pt ms e b = (b', [], None)" "waits_for_audio b'"
      "\<And>xs. bridge_packets pt b' xs = bridge_packets pt b xs"
      "\<And>es. encoded_frames codec (e # es) (pb_playout b) = encoded_frames codec es (pb_playout b')"
  | (sent) x y b' where "bridge_step echo codec pt ms e b = (b', [bridge_packet pt x b], None)" "waits_for_audio b'"
      "length x = 160" "\<And>xs. bridge_packets pt b (x # xs) = bridge_packet pt x b # bridge_packets pt b' xs"
      "\<And>es. encoded_frames codec (e # es) (pb_playout b) = y # encoded_frames codec es (pb_playout b')" "echo = None \<Longrightarrow> x = y"
proof (cases e)
  case (Source_pcm pcm t)
  then show thesis
    using assms quiet [of "bridge_pcm echo ms pcm t b"] by (simp add: bridge_step_def bridge_pcm_frame bridge_pcm_waits)
next
  case (Bridge_tick t remote wr)
  show thesis
  proof (cases "snd (pop_frame t (pb_playout b))")
    case None
    then have "pop_frame t (pb_playout b) = (pb_playout b, None)" by (metis pop_none prod.collapse)
    then show thesis using assms quiet [of b] by (simp add: Bridge_tick bridge_step_def)
  next
    case (Some f)
    obtain block k cap where f: "f = (block, k, cap)" by (cases f)
    obtain p where po: "pop_frame t (pb_playout b) = (p, Some (block, k, cap))" using Some f by (metis prod.collapse)
    have "\<not> (pb_started b = None \<or> \<not> pl_active (pb_playout b))" using idle_tick [OF assms, of t] po by force
    then have act: "pb_started b \<noteq> None" "pl_active (pb_playout b)" by auto
    then have st: "bridge_step echo codec pt ms e b = bridge_frame echo codec pt remote wr block k cap (b\<lparr>pb_playout := p\<rparr>)"
      by (auto simp: Bridge_tick bridge_step_def po)
    have fr: "encoded_frames codec (e # es) (pb_playout b) = EncodePCM block codec # encoded_frames codec es p" for es
      by (simp add: Bridge_tick po split: prod.splits)
    show thesis
    proof (cases rule: bridge_frame_cases [of echo codec pt remote wr block k cap "b\<lparr>pb_playout := p\<rparr>"])
      case (failed err b')
      then show thesis using stopped st by simp
    next
      case (sent x b')
      then show thesis
        using that(3) [of b' x "EncodePCM block codec"] st fr act by (auto simp: bridge_packet_def waits_for_audio_def)
    qed
  qed
qed (use stopped in \<open>auto simp: bridge_step_def\<close>)

lemma bridge_run_numbered:
  assumes "waits_for_audio b" "bridge_run echo codec pt ms es b = (b', sent, err)"
  shows "sent = bridge_packets pt b (map Payload sent) \<and> list_all (\<lambda>p. length (Payload p) = 160) sent"
  using assms
proof (induction es arbitrary: b sent)
  case (Cons e es)
  from Cons.prems(1) show ?case
  proof (cases rule: bridge_step_cases [of b echo codec pt ms e])
    case (stopped err b2)
    then show ?thesis using Cons.prems(2) by simp
  next
    case (quiet b2)
    then show ?thesis using Cons.IH [of b2] Cons.prems(2) by (auto split: prod.splits)
  next
    case (sent x y b2)
    then show ?thesis
      using Cons.IH [of b2] Cons.prems(2) by (auto simp: bridge_packet_def split: prod.splits)
  qed
qed simp

lemma bridge_run_refines:
  assumes "waits_for_audio b" "bridge_run None codec pt ms es b = (b', sent, err)"
  shows "case err of None \<Rightarrow> sent = bridge_packets pt b (encoded_frames codec es (pb_playout b))
     | Some _ \<Rightarrow> prefix sent (bridge_packets pt b (encoded_frames codec es (pb_playout b)))"
  using assms
proof (induction es arbitrary: b sent)
  case (Cons e es)
  from Cons.prems(1) show ?case
  proof (cases rule: bridge_step_cases [of b None codec pt ms e])
    case (stopped err b2)
    then show ?thesis using Cons.prems(2) by auto
  next
    case (quiet b2)
    then show ?thesis using Cons.IH [of b2] Cons.prems(2) by (auto split: prod.splits option.splits)
  next
    case (sent x y b2)
    then show ?thesis
      using Cons.IH [of b2] Cons.prems(2) by (auto split: prod.splits option.splits)
  qed
qed simp

lemma new_bridge_waits: "waits_for_audio (new_preview_bridge r a)"
  by (auto simp: waits_for_audio_def new_preview_bridge_def newCameraPlayoutPLL_def split: prod.splits)

text \<open>C25. The camera audio of a Baichuan preview reaches the phone as one RTP stream.  Whatever chunks arrive, whenever the ticker
  fires and whatever the socket answers, without echo cancellation the packets sent are exactly the frames that the jitter
  buffer of the camera plays out for these chunks and ticks, encoded with the codec of the call, in order and without a gap:
  sequence numbers go up by one and time stamps by 160 from the random start, only the first packet carries the marker, and the
  source is the same throughout.  If the bridge ended, a prefix of that stream was sent.\<close>

theorem preview_rtp_stream:
  "case bridge_run None codec pt ms es (new_preview_bridge (seq, ts, src) a) of
     (_, sent, err) \<Rightarrow>
       (case err of
          None \<Rightarrow> sent = stream_packets pt src True seq ts (encoded_frames codec es newCameraPlayoutPLL)
        | Some _ \<Rightarrow> prefix sent (stream_packets pt src True seq ts (encoded_frames codec es newCameraPlayoutPLL)))"
proof -
  let ?b = "new_preview_bridge (seq, ts, src) a"
  obtain b' sent err where run: "bridge_run None codec pt ms es ?b = (b', sent, err)" by (cases "bridge_run None codec pt ms es ?b") auto
  have "bridge_packets pt ?b xs = stream_packets pt src True seq ts xs" "pb_playout ?b = newCameraPlayoutPLL" for xs
    by (simp_all add: new_preview_bridge_def)
  then show ?thesis using bridge_run_refines [OF new_bridge_waits run] run by (cases err) simp_all
qed

end
