(* ===== verification/SessionRun.thy ===== *)
theory SessionRun
  imports CallLife BaichuanReceiver
begin

text \<open>
  \<open>Session.Run\<close> of \<^verbatim>\<open>internal/media/session.go\<close>: the order in which the media session of a call acquires the echo
  canceller, the talkback link of the camera and the source of its audio, starts its workers, reports that it is ready,
  and releases everything again on every path.  What each of these answers is the environment of the session; its result is
  the error it returns and the actions it takes, in their order.
\<close>

section \<open>Opening the talkback\<close>

record talkback_info =
  ti_Mode :: string
  ti_Details :: string
  ti_SampleRate :: int

datatype 'e link_error = Nvr_talkback 'e | Standalone_talkback 'e | Unresolved_mode | Unsupported_mode string

definition openConfiguredTalkbackWith ::
  "Config \<Rightarrow> 'e + talkback_info \<Rightarrow> 'e + talkback_info \<Rightarrow> 'e link_error + talkback_info" where
  "openConfiguredTalkbackWith cfg rtspOpen baichuanOpen =
     (if EffectiveReolinkMode cfg = ''nvr''
      then (case baichuanOpen of Inl e \<Rightarrow> Inl (Nvr_talkback e) | Inr t \<Rightarrow> Inr t)
      else if EffectiveReolinkMode cfg = ''standalone''
      then (case rtspOpen of Inl e \<Rightarrow> Inl (Standalone_talkback e) | Inr t \<Rightarrow> Inr t)
      else if EffectiveReolinkMode cfg = ''auto'' then Inl Unresolved_mode
      else Inl (Unsupported_mode (EffectiveReolinkMode cfg)))"

section \<open>Environment, errors and actions\<close>

text \<open>How the wait for the first audio of the preview ends, and what the session waits for last.\<close>

datatype 'e receive_wait = Receive_ready receive_info | Receive_closed | Receive_done "'e option" | Receive_timeout | Receive_canceled 'e

datatype 'e session_end = Session_canceled 'e | Worker_ended "'e option"

record 'e session_env =
  se_rtp :: bool
  se_ff :: bool
  se_ffmpeg :: "'e option"
  se_echo :: "'e option"
  se_rtsp_talkback :: "'e + talkback_info"
  se_baichuan_talkback :: "'e + talkback_info"
  se_inbound :: bool
  se_tone :: "int \<Rightarrow> sample list"
  se_play :: "'e option"
  se_start :: "'e option"
  se_receiver :: "'e option"
  se_wait :: "'e receive_wait"
  se_drain :: "nat \<times> bool \<times> 'e option"
  se_end :: "'e session_end"
  se_ctx :: "'e option"
  se_quiet :: "'e \<Rightarrow> bool"

datatype 'e session_error =
    No_rtp_socket
  | No_ffmpeg_socket
  | No_ffmpeg string 'e
  | Echo_start_failed 'e
  | Talkback_failed "'e link_error"
  | No_connection_tone int
  | Tone_failed 'e
  | Ffmpeg_failed 'e
  | Unknown_stream string
  | Receiver_failed 'e
  | Receive_ended
  | Receive_failed 'e
  | No_camera_sound
  | Bad_receive_mode string
  | Drain_failed 'e
  | Session_error 'e

datatype resource = Echo_canceller | Talkback_link | Ffmpeg_process | Audio_receiver | Media_workers

datatype session_action =
    Acquire resource
  | Using resource
  | Release resource
  | Signal_ready session_info
  | Close_rtp_socket
  | Close_ffmpeg_socket

section \<open>Run\<close>

definition connection_tone :: "Config \<Rightarrow> 'e session_env \<Rightarrow> talkback_info \<Rightarrow> 'e session_error option \<times> session_action list" where
  "connection_tone cfg env t =
     (if se_inbound env \<and> IncomingConnectionToneEnabled cfg
      then if se_tone env (ti_SampleRate t) = [] then (Some (No_connection_tone (ti_SampleRate t)), [Release Talkback_link])
           else (case se_play env of
                   Some e \<Rightarrow> (Some (Tone_failed e), [Using Talkback_link, Release Talkback_link])
                 | None \<Rightarrow> (None, [Using Talkback_link]))
      else (None, []))"

definition cleanupReceive :: "Config \<Rightarrow> session_action list" where
  "cleanupReceive cfg = [Release (if ReceiveMode cfg = ''rtsp'' then Ffmpeg_process else Audio_receiver)]"

definition BaichuanReceiveStream :: string where "BaichuanReceiveStream = ''sub''"

definition wait_for_audio ::
  "Config \<Rightarrow> 'e session_env \<Rightarrow> ('e session_error + string \<times> string) \<times> session_action list" where
  "wait_for_audio cfg env =
     (let failed = (\<lambda>e. (Inl e, cleanupReceive cfg @ [Release Talkback_link])) in
      case se_wait env of
        Receive_ready i \<Rightarrow> (Inr (''baichuan'', Details i), [])
      | Receive_closed \<Rightarrow> failed Receive_ended
      | Receive_done (Some e) \<Rightarrow> failed (Receive_failed e)
      | Receive_done None \<Rightarrow> failed Receive_ended
      | Receive_timeout \<Rightarrow> failed No_camera_sound
      | Receive_canceled e \<Rightarrow> failed (Session_error e))"

definition open_receive ::
  "Config \<Rightarrow> 'e session_env \<Rightarrow> ('e session_error + string \<times> string) \<times> session_action list" where
  "open_receive cfg env =
     (if ReceiveMode cfg = ''rtsp''
      then (case se_start env of
              Some e \<Rightarrow> (Inl (Ffmpeg_failed e), [Release Talkback_link])
            | None \<Rightarrow> (Inr (''rtsp'', ''RTSP '' @ ReolinkStreamPath cfg), [Acquire Ffmpeg_process]))
      else if ReceiveMode cfg = ''baichuan''
      then (case ParseStream BaichuanReceiveStream of
              None \<Rightarrow> (Inl (Unknown_stream BaichuanReceiveStream), [Release Talkback_link])
            | Some stream \<Rightarrow>
                (case se_receiver env of
                   Some e \<Rightarrow> (Inl (Receiver_failed e), [Release Talkback_link])
                 | None \<Rightarrow> (case wait_for_audio cfg env of (r, acts) \<Rightarrow> (r, Acquire Audio_receiver # acts))))
      else (Inl (Bad_receive_mode (ReceiveMode cfg)), [Release Talkback_link]))"

definition productionAECDelayTracking :: bool where "productionAECDelayTracking = False"

definition echo_text :: "Config \<Rightarrow> string" where
  "echo_text cfg =
     (if EchoCancellationEnabled cfg
      then ''native WebRTC APM, '' @ show_int (AECInitialDelayMS cfg) @ '' ms fixed coarse delay, tracking=''
           @ (if productionAECDelayTracking then ''true'' else ''false'')
      else ''off'')"

text \<open>The error of the session: the one of its context wins, a canceled context and a closed socket are none.\<close>

definition session_result :: "'e session_env \<Rightarrow> 'e session_error option" where
  "session_result env =
     (let err = (case se_end env of Session_canceled e \<Rightarrow> Some e | Worker_ended e \<Rightarrow> e);
          err = (case se_ctx env of Some e \<Rightarrow> Some e | None \<Rightarrow> err)
      in case err of None \<Rightarrow> None | Some e \<Rightarrow> if se_quiet env e then None else Some (Session_error e))"

text \<open>From the discarded early RTP to the end of the workers.  The sockets are closed before the workers are waited for, since
  that is what unblocks their reads.\<close>

definition run_bridges ::
  "Config \<Rightarrow> 'e session_env \<Rightarrow> talkback_info \<Rightarrow> string \<times> string \<Rightarrow> 'e session_error option \<times> session_action list" where
  "run_bridges cfg env t receive =
     (case se_drain env of
        (discarded, capped, Some e) \<Rightarrow> (Some (Drain_failed e), cleanupReceive cfg @ [Release Talkback_link])
      | (discarded, capped, None) \<Rightarrow>
          (session_result env,
           [Acquire Media_workers, Using Talkback_link,
            Using (if ReceiveMode cfg = ''rtsp'' then Ffmpeg_process else Audio_receiver)]
           @ (if EchoCancellationEnabled cfg then [Using Echo_canceller] else [])
           @ [Signal_ready \<lparr>si_TalkbackMode = ti_Mode t, si_TalkbackDetails = ti_Details t, si_ReceiveMode = fst receive,
                            si_ReceiveDetails = snd receive, si_EchoCancellation = echo_text cfg\<rparr>,
              Close_rtp_socket]
           @ (if se_ff env then [Close_ffmpeg_socket] else [])
           @ cleanupReceive cfg @ [Release Media_workers, Release Talkback_link]))"

definition session_media :: "Config \<Rightarrow> 'e session_env \<Rightarrow> 'e session_error option \<times> session_action list" where
  "session_media cfg env =
     (case openConfiguredTalkbackWith cfg (se_rtsp_talkback env) (se_baichuan_talkback env) of
        Inl e \<Rightarrow> (Some (Talkback_failed e), [])
      | Inr t \<Rightarrow>
          (case connection_tone cfg env t of
             (Some e, acts) \<Rightarrow> (Some e, Acquire Talkback_link # acts)
           | (None, acts) \<Rightarrow>
               (case open_receive cfg env of
                  (Inl e, acts') \<Rightarrow> (Some e, Acquire Talkback_link # acts @ acts')
                | (Inr receive, acts') \<Rightarrow>
                    (case run_bridges cfg env t receive of
                       (err, acts'') \<Rightarrow> (err, Acquire Talkback_link # acts @ acts' @ acts'')))))"

definition session_run :: "Config \<Rightarrow> 'e session_env \<Rightarrow> 'e session_error option \<times> session_action list" where
  "session_run cfg env =
     (if \<not> se_rtp env then (Some No_rtp_socket, [])
      else if ReceiveMode cfg = ''rtsp'' \<and> \<not> se_ff env then (Some No_ffmpeg_socket, [])
      else case se_ffmpeg env of
        Some e \<Rightarrow> (Some (No_ffmpeg (FFmpegPath cfg) e), [])
      | None \<Rightarrow>
          let deferred = (if se_ff env then [Close_ffmpeg_socket] else []) @ [Close_rtp_socket] in
          if EchoCancellationEnabled cfg
          then (case se_echo env of
                  Some e \<Rightarrow> (Some (Echo_start_failed e), [])
                | None \<Rightarrow> (case session_media cfg env of (err, acts) \<Rightarrow> (err, Acquire Echo_canceller # acts @ deferred @ [Release Echo_canceller])))
          else (case session_media cfg env of (err, acts) \<Rightarrow> (err, acts @ deferred)))"

section \<open>Ownership\<close>

text \<open>The resources held after some actions and whether the session was reported ready; \<open>None\<close> when an action acquires what is
  held, uses or releases what is not, releases the talkback or the echo canceller under running workers, or reports ready
  a second time or without workers.\<close>

definition may_release :: "resource \<Rightarrow> resource set \<Rightarrow> bool" where
  "may_release r held \<longleftrightarrow> r \<in> held \<and> (r = Talkback_link \<or> r = Echo_canceller \<longrightarrow> Media_workers \<notin> held)"

fun owns :: "session_action list \<Rightarrow> resource set \<times> bool \<Rightarrow> (resource set \<times> bool) option" where
  "owns [] s = Some s"
| "owns (Acquire r # as) (held, ready) = (if r \<in> held then None else owns as (insert r held, ready))"
| "owns (Using r # as) (held, ready) = (if r \<in> held then owns as (held, ready) else None)"
| "owns (Release r # as) (held, ready) = (if may_release r held then owns as (held - {r}, ready) else None)"
| "owns (Signal_ready i # as) (held, ready) = (if ready \<or> Media_workers \<notin> held then None else owns as (held, True))"
| "owns (Close_rtp_socket # as) s = owns as s"
| "owns (Close_ffmpeg_socket # as) s = owns as s"

lemma owns_append: "owns (as @ bs) s = (case owns as s of None \<Rightarrow> None | Some s' \<Rightarrow> owns bs s')"
  by (induction as s rule: owns.induct) auto

definition base :: "Config \<Rightarrow> resource set" where
  "base cfg = (if EchoCancellationEnabled cfg then {Echo_canceller} else {})"

lemma source_is_one: "ReceiveMode cfg = ''rtsp'' \<or> ReceiveMode cfg = ''baichuan''"
  by (simp add: ReceiveMode_def)

lemma connection_tone_owns:
  "connection_tone cfg env t = (err, acts) \<Longrightarrow>
     owns acts (insert Talkback_link (base cfg), False) = Some (if err = None then insert Talkback_link (base cfg) else base cfg, False)"
  by (auto simp: connection_tone_def base_def may_release_def split: if_splits option.splits)

definition session_source :: "Config \<Rightarrow> resource" where
  "session_source cfg = (if ReceiveMode cfg = ''rtsp'' then Ffmpeg_process else Audio_receiver)"

lemma open_receive_owns:
  "open_receive cfg env = (r, acts) \<Longrightarrow>
     owns acts (insert Talkback_link (base cfg), False) =
       Some (case r of Inl _ \<Rightarrow> base cfg | Inr _ \<Rightarrow> insert (session_source cfg) (insert Talkback_link (base cfg)), False)"
  using source_is_one [of cfg]
  by (auto simp: base_def open_receive_def wait_for_audio_def cleanupReceive_def may_release_def session_source_def Let_def
      split: if_splits option.splits receive_wait.splits)

lemma run_bridges_owns:
  "run_bridges cfg env t i = (err, acts) \<Longrightarrow>
     owns acts (insert (session_source cfg) (insert Talkback_link (base cfg)), False) = Some (base cfg, snd (snd (se_drain env)) = None)"
  by (auto simp: base_def run_bridges_def cleanupReceive_def may_release_def session_source_def insert_Diff_if
      split: if_splits option.splits prod.splits)

lemma session_media_owns:
  assumes "session_media cfg env = (err, acts)"
  shows "\<exists>ready. owns acts (base cfg, False) = Some (base cfg, ready) \<and> (err = None \<longrightarrow> ready)"
proof (cases "openConfiguredTalkbackWith cfg (se_rtsp_talkback env) (se_baichuan_talkback env)")
  case (Inl e)
  then show ?thesis using assms by (auto simp: session_media_def)
next
  case (Inr t)
  have free: "Talkback_link \<notin> base cfg" by (simp add: base_def)
  obtain e1 a1 where tone: "connection_tone cfg env t = (e1, a1)" by fastforce
  obtain r a2 where receive: "open_receive cfg env = (r, a2)" by fastforce
  note steps = connection_tone_owns [OF tone] open_receive_owns [OF receive]
  show ?thesis
  proof (cases "e1 = None \<and> \<not> isl r")
    case False
    then show ?thesis
      using assms steps free Inr tone receive by (cases e1; cases r) (auto simp: session_media_def owns_append)
  next
    case True
    then obtain i where r: "r = Inr i" by (cases r) auto
    obtain e3 a3 where bridges: "run_bridges cfg env t i = (e3, a3)" by fastforce
    have "e3 = None \<Longrightarrow> snd (snd (se_drain env)) = None" using bridges by (auto simp: run_bridges_def split: option.splits prod.splits)
    then show ?thesis
      using assms steps free Inr tone receive True r bridges run_bridges_owns [OF bridges]
      by (auto simp: session_media_def owns_append)
  qed
qed

text \<open>C7. A media session releases what it acquires.  Whatever the sockets, FFmpeg, the camera, the echo canceller and the
  context answer, on every path of \<open>Session.Run\<close> each resource is acquired once, used only while it is held, and released
  exactly once: the talkback link and the echo canceller only after the workers that use them have ended.  Ready is signalled
  at most once, while the workers run, and nothing is held at the end.\<close>

theorem session_releases_everything:
  "\<exists>ready. owns (snd (session_run cfg env)) ({}, False) = Some ({}, ready)"
proof -
  obtain err acts where media: "session_media cfg env = (err, acts)" by fastforce
  then obtain ready where "owns acts (base cfg, False) = Some (base cfg, ready)" using session_media_owns by blast
  then show ?thesis
    by (cases "EchoCancellationEnabled cfg")
      (auto simp: session_run_def media owns_append base_def may_release_def Let_def split: option.split)
qed

text \<open>A session that ends without an error had reported that its media run.\<close>

lemma run_bridges_ready: "run_bridges cfg env t i = (None, acts) \<Longrightarrow> \<exists>i. Signal_ready i \<in> set acts"
  by (auto simp: run_bridges_def split: prod.splits option.splits)

lemma session_media_ready: "session_media cfg env = (None, acts) \<Longrightarrow> \<exists>i. Signal_ready i \<in> set acts"
  by (auto simp: session_media_def dest!: run_bridges_ready split: prod.splits option.splits sum.splits)

lemma quiet_session_was_ready:
  assumes "fst (session_run cfg env) = None"
  shows "\<exists>i. Signal_ready i \<in> set (snd (session_run cfg env))"
  using assms session_media_ready [of cfg env]
  by (auto simp: session_run_def Let_def split: if_splits option.splits prod.splits)

end
