(* ===== verification/Spec2Isabelle.thy ===== *)
theory Spec2Isabelle
  imports Rtp Adpcm G711 Packetizer MediaTiming CallControl DialFork BaichuanCrypto BaichuanMedia
    BaichuanMessage SipText SipSdp CallerFilter SipDialogs Talkback TalkbackTransport Digest SipTransaction
    HaListener Startup RtspClient Catalog LiveImageHttp Gateway
    AudioControls Elastic MediaSession SessionRun
begin

text \<open>
  A verification of the Reolink SIP gateway: the Go program under
  \<^verbatim>\<open>src/reolink_sip_gateway\<close>.
\<close>

end
